(* ===== verification/GoRuntime.thy ===== *)
theory GoRuntime
  imports Complex_Main "HOL-Library.Word" "HOL-Library.Sublist" "HOL-Library.AList"
    "HOL-Library.Product_Lexorder"
begin

text \<open>
  The prelude of the development: what the Go language and its standard library give the
  program. A Go string is a sequence of bytes, and so is an Isabelle \<^typ>\<open>string\<close>; a rune
  is a code point. This theory holds UTF-8 decoding as \<^verbatim>\<open>range\<close> over a string does it,
  the functions of package \<^verbatim>\<open>strings\<close> the program calls, instants and durations, and
  the character tables (\<^verbatim>\<open>unicode\<close>, and \<^verbatim>\<open>golang.org/x/text\<close>) as a record of
  parameters with the laws the program relies on.
\<close>

named_theorems go_str \<open>facts about byte strings, runes and fields\<close>
named_theorems go_time \<open>facts about instants and durations\<close>

section \<open>Lists split at separators\<close>

text \<open>
  \<^verbatim>\<open>strings.FieldsFunc\<close> on any alphabet: the list is cut at every separator, and the
  empty pieces are dropped.
\<close>

primrec splits_by :: "('a \<Rightarrow> bool) \<Rightarrow> 'a list \<Rightarrow> 'a list list" where
  "splits_by p [] = [[]]"
| "splits_by p (x # xs) =
     (if p x then [] # splits_by p xs
      else (x # hd (splits_by p xs)) # tl (splits_by p xs))"

definition fields_by :: "('a \<Rightarrow> bool) \<Rightarrow> 'a list \<Rightarrow> 'a list list" where
  "fields_by p xs = filter (\<lambda>w. w \<noteq> []) (splits_by p xs)"

fun join_with :: "'a list \<Rightarrow> 'a list list \<Rightarrow> 'a list" where
  "join_with sep [] = []"
| "join_with sep [w] = w"
| "join_with sep (w # v # ws) = w @ sep @ join_with sep (v # ws)"

lemma splits_by_not_Nil [simp]: "splits_by p xs \<noteq> []"
  by (cases xs) simp_all

lemma splits_by_no_sep: "w \<in> set (splits_by p xs) \<Longrightarrow> x \<in> set w \<Longrightarrow> \<not> p x"
proof (induction xs arbitrary: w x)
  case (Cons y ys)
  have hd: "hd (splits_by p ys) \<in> set (splits_by p ys)" by simp
  have tl: "v \<in> set (tl (splits_by p ys)) \<Longrightarrow> v \<in> set (splits_by p ys)" for v
    by (metis list.set_sel(2) splits_by_not_Nil)
  show ?case using Cons.prems Cons.IH Cons.IH [OF hd] Cons.IH [OF tl] by (auto split: if_splits)
qed simp

lemma splits_by_first: "splits_by p xs = v # vs \<Longrightarrow> \<exists>B. xs = v @ B \<and> (B = [] \<or> p (hd B))"
proof (induction xs arbitrary: v vs)
  case (Cons x xs)
  obtain u us where "splits_by p xs = u # us" by (cases "splits_by p xs") auto
  with Cons show ?case by (auto split: if_splits)
qed simp

lemma fields_by_no_sep [go_str]: "w \<in> set (fields_by p xs) \<Longrightarrow> x \<in> set w \<Longrightarrow> \<not> p x"
  using splits_by_no_sep by (fastforce simp: fields_by_def)

lemma fields_by_nonempty [go_str]: "w \<in> set (fields_by p xs) \<Longrightarrow> w \<noteq> []"
  by (simp add: fields_by_def)

lemma splits_by_append:
  "p s \<Longrightarrow> splits_by p (xs @ s # ys) = splits_by p xs @ splits_by p ys"
  by (induction xs) simp_all

lemma fields_by_append [go_str]:
  "p s \<Longrightarrow> fields_by p (xs @ s # ys) = fields_by p xs @ fields_by p ys"
  by (simp add: fields_by_def splits_by_append)

lemma splits_by_word: "\<forall>x \<in> set w. \<not> p x \<Longrightarrow> splits_by p w = [w]"
  by (induction w) simp_all

lemma fields_by_word [go_str]: "w \<noteq> [] \<Longrightarrow> \<forall>x \<in> set w. \<not> p x \<Longrightarrow> fields_by p w = [w]"
  by (simp add: fields_by_def splits_by_word)

lemma fields_by_simps [simp]: "fields_by p [] = []" "p x \<Longrightarrow> fields_by p (x # xs) = fields_by p xs"
  by (simp_all add: fields_by_def)

lemma fields_by_Nil_iff [go_str]: "fields_by p xs = [] \<longleftrightarrow> (\<forall>x \<in> set xs. p x)"
proof (induction xs)
  case (Cons y ys)
  then show ?case by (cases "p y") (auto simp: fields_by_def)
qed simp

text \<open>Joining fields with one separator and cutting again gives the fields back.\<close>

lemma fields_by_join [go_str]:
  assumes "p s" and "\<forall>w \<in> set ws. w \<noteq> [] \<and> (\<forall>x \<in> set w. \<not> p x)"
  shows "fields_by p (join_with [s] ws) = ws"
  using assms(2)
proof (induction "[s]" ws rule: join_with.induct)
  case (3 w v ws)
  then have "fields_by p (join_with [s] (v # ws)) = v # ws" by simp
  moreover have "fields_by p w = [w]" using 3 by (intro fields_by_word) auto
  ultimately show ?case using assms(1) by (simp add: fields_by_append)
qed (auto simp: fields_by_word)

lemma fields_by_join_fields [go_str]:
  "p s \<Longrightarrow> fields_by p (join_with [s] (fields_by p xs)) = fields_by p xs"
  by (rule fields_by_join) (auto dest: fields_by_no_sep fields_by_nonempty)

lemma set_join_with: "set (join_with sep ws) \<subseteq> \<Union> (set ` set ws) \<union> set sep"
  by (induction sep ws rule: join_with.induct) auto

lemma length_join_with_fields:
  "length (join_with [s] (fields_by p xs)) \<le> length xs"
proof -
  have pos: "length (join_with [s] ws) + 1 \<le> (\<Sum>w\<leftarrow>ws. length w + 1)" if "ws \<noteq> []" for ws :: "'a list list"
    using that by (induction "[s]" ws rule: join_with.induct) auto
  have tot: "(\<Sum>w\<leftarrow>splits_by p ys. length w + 1) = length ys + 1" for ys :: "'a list"
  proof (induction ys)
    case (Cons y ys)
    obtain a as where "splits_by p ys = a # as" by (cases "splits_by p ys") auto
    with Cons show ?case by auto
  qed simp
  have le: "(\<Sum>w\<leftarrow>filter Q zs. length w + 1) \<le> (\<Sum>w\<leftarrow>zs. length w + 1)"
    for Q and zs :: "'a list list"
    by (induction zs) auto
  show ?thesis
  proof (cases "fields_by p xs = []")
    case False
    then have "length (join_with [s] (fields_by p xs)) + 1 \<le> (\<Sum>w\<leftarrow>fields_by p xs. length w + 1)"
      by (rule pos)
    also have "\<dots> \<le> length xs + 1"
      using le [of "\<lambda>w. w \<noteq> []" "splits_by p xs"] tot [of xs] by (simp add: fields_by_def)
    finally show ?thesis by simp
  qed simp
qed

section \<open>UTF-8\<close>

text \<open>
  \<^verbatim>\<open>decode1\<close> is \<^verbatim>\<open>utf8.DecodeRuneInString\<close>: the first rune of a string and the number of
  bytes it takes. An invalid sequence is U+FFFD of width one. The accepted ranges are those of
  the standard: no overlong forms, no surrogates, nothing above U+10FFFF.
\<close>

type_synonym rune = nat

definition rune_error :: rune where
  "rune_error = 65533"

abbreviation byte :: "char \<Rightarrow> nat" where
  "byte c \<equiv> of_char c"

definition cont_byte :: "char \<Rightarrow> bool" where
  "cont_byte c \<longleftrightarrow> 128 \<le> byte c \<and> byte c < 192"

definition dec2 :: "nat \<Rightarrow> string \<Rightarrow> (rune \<times> nat) option" where
  "dec2 b cs = (case cs of
     c1 # _ \<Rightarrow> if cont_byte c1 then Some ((b - 192) * 64 + (byte c1 - 128), 2) else None
   | [] \<Rightarrow> None)"

definition dec3 :: "nat \<Rightarrow> string \<Rightarrow> (rune \<times> nat) option" where
  "dec3 b cs = (case cs of
     c1 # c2 # _ \<Rightarrow>
       if cont_byte c1 \<and> cont_byte c2 \<and> (b = 224 \<longrightarrow> 160 \<le> byte c1) \<and> (b = 237 \<longrightarrow> byte c1 < 160)
       then Some ((b - 224) * 4096 + (byte c1 - 128) * 64 + (byte c2 - 128), 3) else None
   | _ \<Rightarrow> None)"

definition dec4 :: "nat \<Rightarrow> string \<Rightarrow> (rune \<times> nat) option" where
  "dec4 b cs = (case cs of
     c1 # c2 # c3 # _ \<Rightarrow>
       if cont_byte c1 \<and> cont_byte c2 \<and> cont_byte c3
          \<and> (b = 240 \<longrightarrow> 144 \<le> byte c1) \<and> (b = 244 \<longrightarrow> byte c1 < 144)
       then Some ((b - 240) * 262144 + (byte c1 - 128) * 4096 + (byte c2 - 128) * 64
                  + (byte c3 - 128), 4) else None
   | _ \<Rightarrow> None)"

definition decode1 :: "char \<Rightarrow> string \<Rightarrow> rune \<times> nat" where
  "decode1 c cs = (let b = byte c in
     if b < 128 then (b, 1)
     else case (if 194 \<le> b \<and> b < 224 then dec2 b cs
                else if 224 \<le> b \<and> b < 240 then dec3 b cs
                else if 240 \<le> b \<and> b < 245 then dec4 b cs else None) of
       Some rw \<Rightarrow> rw
     | None \<Rightarrow> (rune_error, 1))"

text \<open>A string as \<^verbatim>\<open>range\<close> sees it: its runes, each with the bytes it came from.\<close>

function segs :: "string \<Rightarrow> (rune \<times> string) list" where
  "segs [] = []"
| "segs (c # cs) =
     (case decode1 c cs of (r, w) \<Rightarrow> (r, c # take (w - 1) cs) # segs (drop (w - 1) cs))"
  by pat_completeness auto
termination
  by (relation "measure length") auto

definition bytes_of :: "(rune \<times> string) list \<Rightarrow> string" where
  "bytes_of ss = concat (map snd ss)"

definition runes :: "string \<Rightarrow> rune list" where
  "runes s = map fst (segs s)"

lemma bytes_of_simps [simp]:
  "bytes_of [] = []" "bytes_of (x # xs) = snd x @ bytes_of xs"
  "bytes_of (xs @ ys) = bytes_of xs @ bytes_of ys"
  by (simp_all add: bytes_of_def)

lemma bytes_of_segs [simp]: "bytes_of (segs s) = s"
  by (induction s rule: segs.induct) (auto split: prod.splits)

declare segs.simps(2) [simp del]

lemma runes_Nil [simp]: "runes [] = []"
  by (simp add: runes_def)

lemma runes_Nil_iff [simp]: "runes s = [] \<longleftrightarrow> s = []"
  by (cases s) (auto simp: runes_def segs.simps(2) split: prod.splits)

lemma decode1_ascii: "byte c < 128 \<Longrightarrow> decode1 c cs = (byte c, 1)"
  by (simp add: decode1_def)

lemma segs_ascii [simp]: "byte c < 128 \<Longrightarrow> segs (c # cs) = (byte c, [c]) # segs cs"
  by (simp add: decode1_ascii segs.simps(2))

lemma runes_ascii [simp]: "byte c < 128 \<Longrightarrow> runes (c # cs) = byte c # runes cs"
  by (simp add: runes_def)

lemma dec_width:
  "dec2 b cs = Some (r, w) \<Longrightarrow> w = 2 \<and> 1 \<le> length cs"
  "dec3 b cs = Some (r, w) \<Longrightarrow> w = 3 \<and> 2 \<le> length cs"
  "dec4 b cs = Some (r, w) \<Longrightarrow> w = 4 \<and> 3 \<le> length cs"
  by (auto simp: dec2_def dec3_def dec4_def split: list.splits if_splits)

text \<open>
  What a multi-byte sequence reads stops before the first byte that does not continue one, so
  decoding splits in front of such a byte, in particular in front of an ASCII byte.
\<close>

lemma dec_append_lead:
  assumes "\<not> cont_byte d"
  shows "dec2 b (xs @ d # ys) = dec2 b xs"
    and "dec3 b (xs @ d # ys) = dec3 b xs"
    and "dec4 b (xs @ d # ys) = dec4 b xs"
  using assms
  by (auto simp: dec2_def dec3_def dec4_def append_Cons split: list.splits if_splits)

lemma decode1_append_lead: "\<not> cont_byte d \<Longrightarrow> decode1 c (xs @ d # ys) = decode1 c xs"
  by (simp add: decode1_def dec_append_lead Let_def)

lemma decode1_width: "decode1 c cs = (r, w) \<Longrightarrow> 1 \<le> w \<and> w \<le> Suc (length cs)"
  by (auto simp: decode1_def Let_def dest: dec_width split: if_splits option.splits)

lemma segs_append_lead:
  "\<not> cont_byte d \<Longrightarrow> segs (xs @ d # ys) = segs xs @ segs (d # ys)"
proof (induction xs rule: segs.induct)
  case (2 c cs)
  obtain r w where rw: "decode1 c cs = (r, w)" by (cases "decode1 c cs")
  then have w: "w - 1 \<le> length cs" using decode1_width by fastforce
  have "segs ((c # cs) @ d # ys) = (r, c # take (w - 1) cs) # segs (drop (w - 1) cs @ d # ys)"
    using rw w 2(2) by (simp add: decode1_append_lead segs.simps(2) del: segs_ascii)
  then show ?case using 2 rw by (simp add: segs.simps(2) del: segs_ascii)
qed simp

lemma segs_append_ascii [go_str]: "byte d < 128 \<Longrightarrow> segs (xs @ d # ys) = segs xs @ segs (d # ys)"
  by (rule segs_append_lead) (simp add: cont_byte_def)

lemma segs_suffix: "segs s = A @ B \<Longrightarrow> segs (bytes_of B) = B"
proof (induction A arbitrary: s)
  case Nil
  then show ?case using bytes_of_segs [of s] by simp
next
  case (Cons a A)
  then obtain c cs where s: "s = c # cs" by (cases s) auto
  with Cons.prems obtain cs' where "segs cs' = A @ B"
    by (auto simp: segs.simps(2) split: prod.splits)
  then show ?case by (rule Cons.IH)
qed

lemma dec_take:
  "dec2 b cs = Some (r, w) \<Longrightarrow> w - 1 \<le> k \<Longrightarrow> dec2 b (take k cs) = Some (r, w)"
  "dec3 b cs = Some (r, w) \<Longrightarrow> w - 1 \<le> k \<Longrightarrow> dec3 b (take k cs) = Some (r, w)"
  "dec4 b cs = Some (r, w) \<Longrightarrow> w - 1 \<le> k \<Longrightarrow> dec4 b (take k cs) = Some (r, w)"
  "dec2 b cs = None \<Longrightarrow> dec2 b (take k cs) = None"
  "dec3 b cs = None \<Longrightarrow> dec3 b (take k cs) = None"
  "dec4 b cs = None \<Longrightarrow> dec4 b (take k cs) = None"
  by (auto simp: dec2_def dec3_def dec4_def Let_def take_Cons' split: list.splits if_splits)

lemma decode1_take: "decode1 c cs = (r, w) \<Longrightarrow> w - 1 \<le> k \<Longrightarrow> decode1 c (take k cs) = (r, w)"
  by (auto simp: decode1_def Let_def dec_take split: if_splits option.splits)

lemma segs_prefix: "segs s = A @ B \<Longrightarrow> segs (bytes_of A) = A"
proof (induction A arbitrary: s)
  case (Cons a A)
  then obtain c cs where s: "s = c # cs" by (cases s) auto
  obtain r w where rw: "decode1 c cs = (r, w)" by (cases "decode1 c cs")
  with Cons.prems s have a: "a = (r, c # take (w - 1) cs)" and rest: "segs (drop (w - 1) cs) = A @ B"
    by (auto simp: segs.simps(2) simp del: segs_ascii)
  from Cons.IH [OF rest] have IH: "segs (bytes_of A) = A" .
  have w: "w - 1 \<le> length cs" using decode1_width [OF rw] by linarith
  have "drop (w - 1) cs = bytes_of A @ bytes_of B"
    using arg_cong [OF rest, of bytes_of] by simp
  then have "take (w - 1 + length (bytes_of A)) cs = take (w - 1) cs @ bytes_of A"
    by (simp add: take_add)
  with decode1_take [OF rw, of "w - 1 + length (bytes_of A)"]
  have "decode1 c (take (w - 1) cs @ bytes_of A) = (r, w)" by simp
  with IH w show ?case by (simp add: a segs.simps(2) del: segs_ascii)
qed simp

lemma segs_hd_bytes: "segs s = (r, b) # B \<Longrightarrow> \<exists>c cs. b = c # cs \<and> (cont_byte c \<longrightarrow> r = rune_error)"
  by (cases s) (auto simp: segs.simps(2) decode1_def cont_byte_def Let_def split: prod.splits option.splits if_splits)

lemma segs_infix:
  assumes "segs s = A @ F @ B" and "B = [] \<or> fst (hd B) \<noteq> rune_error"
  shows "segs (bytes_of F) = F"
proof (cases B)
  case Nil
  then show ?thesis using segs_suffix [of s A F] assms(1) by simp
next
  case (Cons x B')
  have FB: "segs (bytes_of (F @ B)) = F @ B" by (rule segs_suffix [of s A]) (simp add: assms(1))
  have B: "segs (bytes_of B) = B" by (rule segs_suffix [of s "A @ F"]) (simp add: assms(1))
  then obtain c cs where c: "snd x = c # cs" "\<not> cont_byte c"
    using segs_hd_bytes [of "bytes_of B" "fst x" "snd x" B'] Cons assms(2) by auto
  then have "bytes_of B = c # (cs @ bytes_of B')" by (simp add: Cons)
  then have "segs (bytes_of F @ bytes_of B) = segs (bytes_of F) @ segs (bytes_of B)"
    using segs_append_lead [OF c(2)] by metis
  with FB B show ?thesis by simp
qed

lemma runes_append_ascii [go_str]:
  "byte d < 128 \<Longrightarrow> runes (xs @ d # ys) = runes xs @ byte d # runes ys"
  by (simp add: runes_def segs_append_ascii)

lemma runes_append_lead: "\<not> cont_byte d \<Longrightarrow> runes (xs @ d # ys) = runes xs @ runes (d # ys)"
  by (simp add: runes_def segs_append_lead)

lemma ascii_byte_rune: "c \<in> set s \<Longrightarrow> byte c < 128 \<Longrightarrow> byte c \<in> set (runes s)"
  by (auto dest!: split_list simp: runes_append_ascii)

text \<open>Encoding: \<^verbatim>\<open>utf8.AppendRune\<close>. What is not a scalar value is written as U+FFFD.\<close>

definition scalar :: "rune \<Rightarrow> bool" where
  "scalar r \<longleftrightarrow> r < 55296 \<or> 57344 \<le> r \<and> r \<le> 1114111"

definition encode_scalar :: "rune \<Rightarrow> string" where
  "encode_scalar r =
     (if r < 128 then [char_of r]
      else if r < 2048 then [char_of (192 + r div 64), char_of (128 + r mod 64)]
      else if r < 65536 then
        [char_of (224 + r div 4096), char_of (128 + r div 64 mod 64), char_of (128 + r mod 64)]
      else [char_of (240 + r div 262144), char_of (128 + r div 4096 mod 64),
            char_of (128 + r div 64 mod 64), char_of (128 + r mod 64)])"

definition encode :: "rune \<Rightarrow> string" where
  "encode r = (if scalar r then encode_scalar r else encode_scalar rune_error)"

definition string_of_runes :: "rune list \<Rightarrow> string" where
  "string_of_runes rs = concat (map encode rs)"

lemma string_of_runes_simps [simp]:
  "string_of_runes [] = []"
  "string_of_runes (r # rs) = encode r @ string_of_runes rs"
  "string_of_runes (rs @ qs) = string_of_runes rs @ string_of_runes qs"
  by (simp_all add: string_of_runes_def)

lemma encode_ascii [simp]: "r < 128 \<Longrightarrow> encode r = [char_of r]"
  by (simp add: encode_def encode_scalar_def scalar_def)

lemma byte_char_of: "n < 256 \<Longrightarrow> byte (char_of n) = n"
  by simp

lemma decode1_encode2:
  assumes "128 \<le> r" "r < 2048"
  shows "segs (encode_scalar r @ s) = (r, encode_scalar r) # segs s"
proof -
  have "r div 64 < 32" "2 \<le> r div 64" using assms by auto
  moreover have "r div 64 * 64 + r mod 64 = r" by simp
  ultimately show ?thesis
    using assms
    by (simp add: encode_scalar_def segs.simps(2) decode1_def dec2_def cont_byte_def Let_def)
qed

lemma decode1_encode3:
  assumes "2048 \<le> r" "r < 65536" "scalar r"
  shows "segs (encode_scalar r @ s) = (r, encode_scalar r) # segs s"
proof -
  define x y z where "x = r div 4096" and "y = r div 64 mod 64" and "z = r mod 64"
  have bounds: "x < 16" "y < 64" "z < 64" using assms by (auto simp: x_def y_def z_def)
  have "r div 64 = x * 64 + y"
    using div_mult_mod_eq [of "r div 64" 64] by (simp add: x_def y_def div_mult2_eq [symmetric])
  then have rec: "x * 4096 + y * 64 + z = r"
    using div_mult_mod_eq [of r 64] by (simp add: z_def)
  have lo: "x = 0 \<Longrightarrow> 32 \<le> y" and sur: "x = 13 \<Longrightarrow> y < 32"
    using assms rec bounds by (auto simp: scalar_def)
  have enc: "encode_scalar r = [char_of (224 + x), char_of (128 + y), char_of (128 + z)]"
    using assms by (simp add: encode_scalar_def x_def y_def z_def)
  show ?thesis
    using bounds lo sur rec
    by (auto simp: enc segs.simps(2) decode1_def dec3_def cont_byte_def Let_def)
qed

lemma decode1_encode4:
  assumes "65536 \<le> r" "r \<le> 1114111"
  shows "segs (encode_scalar r @ s) = (r, encode_scalar r) # segs s"
proof -
  define w x y z where "w = r div 262144" and "x = r div 4096 mod 64"
    and "y = r div 64 mod 64" and "z = r mod 64"
  have bounds: "w < 5" "x < 64" "y < 64" "z < 64"
    using assms by (auto simp: w_def x_def y_def z_def)
  have "r div 64 = r div 4096 * 64 + y"
    using div_mult_mod_eq [of "r div 64" 64] by (simp add: y_def div_mult2_eq [symmetric])
  moreover have "r div 4096 = w * 64 + x"
    using div_mult_mod_eq [of "r div 4096" 64] by (simp add: w_def x_def div_mult2_eq [symmetric])
  ultimately have rec: "w * 262144 + x * 4096 + y * 64 + z = r"
    using div_mult_mod_eq [of r 64] by (simp add: z_def)
  have lo: "w = 0 \<Longrightarrow> 16 \<le> x" and hi: "w = 4 \<Longrightarrow> x < 16"
    using assms rec bounds by auto
  have enc: "encode_scalar r =
      [char_of (240 + w), char_of (128 + x), char_of (128 + y), char_of (128 + z)]"
    using assms by (simp add: encode_scalar_def w_def x_def y_def z_def)
  show ?thesis
    using bounds lo hi rec
    by (auto simp: enc segs.simps(2) decode1_def dec4_def cont_byte_def Let_def)
qed

lemma segs_encode [go_str]: "scalar r \<Longrightarrow> segs (encode r @ s) = (r, encode r) # segs s"
  using decode1_encode2 [of r s] decode1_encode3 [of r s] decode1_encode4 [of r s]
  by (cases "r < 128"; cases "r < 2048"; cases "r < 65536")
     (auto simp: encode_def encode_scalar_def scalar_def)

lemma runes_encode [go_str]: "scalar r \<Longrightarrow> runes (encode r @ s) = r # runes s"
  by (simp add: runes_def segs_encode)

lemma runes_string_of_runes [go_str]:
  "\<forall>r \<in> set rs. scalar r \<Longrightarrow> runes (string_of_runes rs) = rs"
  by (induction rs) (auto simp: runes_encode)

lemma encode_not_Nil [simp]: "encode r \<noteq> []"
  by (simp add: encode_def encode_scalar_def)

lemma dec2_scalar: "dec2 b cs = Some (r, w) \<Longrightarrow> b < 224 \<Longrightarrow> scalar r"
  by (auto simp: dec2_def scalar_def cont_byte_def split: list.splits if_splits)

lemma scalar3:
  assumes "a < 16" "x < 64" "y < 64" "a = 13 \<longrightarrow> x < 32"
  shows "scalar (a * 4096 + x * 64 + y)"
proof -
  consider "a \<le> 12" | "a = 13" | "14 \<le> a" by linarith
  then have "a * 4096 + x * 64 + y < 55296 \<or>
      57344 \<le> a * 4096 + x * 64 + y \<and> a * 4096 + x * 64 + y \<le> 1114111"
  proof cases
    case 1
    then have "a * 4096 + x * 64 + y < 55296" using assms by linarith
    then show ?thesis ..
  next
    case 2
    then have "a * 4096 + x * 64 + y < 55296" using assms by linarith
    then show ?thesis ..
  next
    case 3
    then have "57344 \<le> a * 4096 + x * 64 + y" "a * 4096 + x * 64 + y \<le> 1114111"
      using assms by linarith+
    then show ?thesis by blast
  qed
  then show ?thesis by (simp add: scalar_def)
qed

lemma scalar4:
  assumes "a < 5" "x < 64" "y < 64" "z < 64" "a = 4 \<longrightarrow> x < 16" "a = 0 \<longrightarrow> 16 \<le> x"
  shows "scalar (a * 262144 + x * 4096 + y * 64 + z)"
proof -
  have lo: "57344 \<le> a * 262144 + x * 4096 + y * 64 + z"
    using assms by (cases "a = 0") linarith+
  have "a * 262144 + x * 4096 + y * 64 + z \<le> 1114111"
    using assms by (cases "a = 4") linarith+
  with lo show ?thesis by (simp add: scalar_def)
qed

lemma dec3_scalar:
  assumes "dec3 b cs = Some (r, w)" "224 \<le> b" "b < 240"
  shows "scalar r"
proof -
  obtain x y where "x < 64" "y < 64" "b = 237 \<Longrightarrow> x < 32"
    "r = (b - 224) * 4096 + x * 64 + y"
  proof -
    obtain c1 c2 ds where "cs = c1 # c2 # ds" "cont_byte c1" "cont_byte c2"
      "b = 237 \<longrightarrow> byte c1 < 160"
      "r = (b - 224) * 4096 + (byte c1 - 128) * 64 + (byte c2 - 128)"
      using assms(1) by (auto simp: dec3_def split: list.splits if_splits)
    then show thesis
      using that [of "byte c1 - 128" "byte c2 - 128"] by (auto simp: cont_byte_def)
  qed
  then show ?thesis using scalar3 [of "b - 224" x y] assms(2,3) by fastforce
qed

lemma dec4_scalar:
  assumes "dec4 b cs = Some (r, w)" "240 \<le> b" "b < 245"
  shows "scalar r"
proof -
  obtain x y z where "x < 64" "y < 64" "z < 64" "b = 244 \<Longrightarrow> x < 16" "b = 240 \<Longrightarrow> 16 \<le> x"
    "r = (b - 240) * 262144 + x * 4096 + y * 64 + z"
  proof -
    obtain c1 c2 c3 ds where "cs = c1 # c2 # c3 # ds" "cont_byte c1" "cont_byte c2" "cont_byte c3"
      "b = 244 \<longrightarrow> byte c1 < 144" "b = 240 \<longrightarrow> 144 \<le> byte c1"
      "r = (b - 240) * 262144 + (byte c1 - 128) * 4096 + (byte c2 - 128) * 64 + (byte c3 - 128)"
      using assms(1) by (auto simp: dec4_def split: list.splits if_splits)
    then show thesis
      using that [of "byte c1 - 128" "byte c2 - 128" "byte c3 - 128"]
      by (auto simp: cont_byte_def)
  qed
  then show ?thesis using scalar4 [of "b - 240" x y z] assms(2,3) by fastforce
qed

lemma decode1_scalar: "decode1 c cs = (r, w) \<Longrightarrow> scalar r"
  by (auto simp: decode1_def Let_def dest: dec2_scalar dec3_scalar dec4_scalar split: if_splits option.splits)
     (simp_all add: scalar_def rune_error_def)

lemma runes_scalar [go_str]: "\<forall>r \<in> set (runes s). scalar r"
proof (induction s rule: segs.induct)
  case (2 c cs)
  obtain r w where rw: "decode1 c cs = (r, w)" by (cases "decode1 c cs")
  show ?case using 2 [OF rw [symmetric]] rw decode1_scalar [OF rw]
    by (auto simp: runes_def segs.simps(2))
qed simp

section \<open>Package strings\<close>

fun str_contains :: "string \<Rightarrow> string \<Rightarrow> bool" where
  "str_contains [] t = (t = [])"
| "str_contains (c # s) t = (prefix t (c # s) \<or> str_contains s t)"

fun str_index :: "string \<Rightarrow> string \<Rightarrow> nat option" where
  "str_index [] t = (if t = [] then Some 0 else None)"
| "str_index (c # s) t =
     (if prefix t (c # s) then Some 0 else map_option Suc (str_index s t))"

definition cut_prefix :: "string \<Rightarrow> string \<Rightarrow> string option" where
  "cut_prefix p s = (if prefix p s then Some (drop (length p) s) else None)"

text \<open>\<^verbatim>\<open>unicode.IsSpace\<close> and \<^verbatim>\<open>unicode.IsControl\<close>, which the standard library fixes.\<close>

definition is_space :: "rune \<Rightarrow> bool" where
  "is_space r \<longleftrightarrow> (9 \<le> r \<and> r \<le> 13) \<or> r = 32 \<or> r = 133 \<or> r = 160 \<or> r = 5760
     \<or> (8192 \<le> r \<and> r \<le> 8202) \<or> r = 8232 \<or> r = 8233 \<or> r = 8239 \<or> r = 8287 \<or> r = 12288"

definition is_control :: "rune \<Rightarrow> bool" where
  "is_control r \<longleftrightarrow> r < 32 \<or> (127 \<le> r \<and> r < 160)"

definition trim_left_func :: "(rune \<Rightarrow> bool) \<Rightarrow> string \<Rightarrow> string" where
  "trim_left_func p s = bytes_of (dropWhile (p \<circ> fst) (segs s))"

definition trim_space :: "string \<Rightarrow> string" where
  "trim_space s =
     bytes_of (rev (dropWhile (is_space \<circ> fst) (rev (dropWhile (is_space \<circ> fst) (segs s)))))"

definition fields_func :: "(rune \<Rightarrow> bool) \<Rightarrow> string \<Rightarrow> string list" where
  "fields_func p s = map bytes_of (fields_by (p \<circ> fst) (segs s))"

definition str_fields :: "string \<Rightarrow> string list" where
  "str_fields = fields_func is_space"

text \<open>\<^verbatim>\<open>strings.Map\<close>: \<^term>\<open>None\<close> is a negative result, which drops the rune.\<close>

definition map_runes :: "(rune \<Rightarrow> rune option) \<Rightarrow> string \<Rightarrow> string" where
  "map_runes f s = string_of_runes (List.map_filter f (runes s))"

text \<open>\<^verbatim>\<open>strings.Join(strings.Fields(s), " ")\<close>, the whitespace normalisation used throughout.\<close>

definition squeeze :: "string \<Rightarrow> string" where
  "squeeze s = join_with '' '' (str_fields s)"

lemma str_contains_iff [go_str]: "str_contains s t \<longleftrightarrow> (\<exists>a b. s = a @ t @ b)"
proof (induction s t rule: str_contains.induct)
  case (2 c s t)
  show ?case
  proof
    assume "str_contains (c # s) t"
    then show "\<exists>a b. c # s = a @ t @ b"
      using 2 by (auto simp: prefix_def) (metis append_Cons append_Nil)+
  next
    assume "\<exists>a b. c # s = a @ t @ b"
    then obtain a b where "c # s = a @ t @ b" by blast
    then show "str_contains (c # s) t"
    proof (cases a)
      case Nil
      with \<open>c # s = a @ t @ b\<close> have "prefix t (c # s)" by (auto simp: prefix_def)
      then show ?thesis by simp
    next
      case (Cons d ds)
      with \<open>c # s = a @ t @ b\<close> have "s = ds @ t @ b" by simp
      with 2 show ?thesis by auto
    qed
  qed
qed auto

lemma str_contains_append [simp]: "str_contains (a @ t @ b) t"
  by (auto simp: str_contains_iff)

lemma str_contains_prefix: "prefix t s \<Longrightarrow> str_contains s t"
  by (metis prefixE append_Nil str_contains_append)

lemma str_index_Some [go_str]:
  "str_index s t = Some i \<Longrightarrow> i + length t \<le> length s \<and> take (length t) (drop i s) = t
     \<and> (\<forall>j < i. \<not> prefix t (drop j s))"
proof (induction s t arbitrary: i rule: str_index.induct)
  case (2 c s t)
  show ?case
  proof (cases "prefix t (c # s)")
    case True
    with 2 have "i = 0" by simp
    with True show ?thesis by (auto simp: prefix_def dest: arg_cong [of _ _ length])
  next
    case False
    then obtain k where k: "str_index s t = Some k" "i = Suc k" using 2(2) by auto
    with 2(1) [OF False k(1)] False show ?thesis by (auto simp: less_Suc_eq_0_disj)
  qed
qed (auto split: if_splits)

lemma str_index_None [go_str]: "str_index s t = None \<longleftrightarrow> \<not> str_contains s t"
  by (induction s t rule: str_index.induct) auto

lemma is_space_ascii [simp]: "is_space 32" "is_space 10" "is_space 9" "is_space 13"
  by (simp_all add: is_space_def)

lemma fields_append_ascii [go_str]:
  "byte d < 128 \<Longrightarrow> p (byte d) \<Longrightarrow>
   fields_func p (xs @ d # ys) = fields_func p xs @ fields_func p ys"
  by (simp add: fields_func_def segs_append_ascii fields_by_append)

lemma str_fields_append_blank [go_str]: "str_fields (xs @ CHR '' '' # ys) = str_fields xs @ str_fields ys"
  by (simp add: str_fields_def fields_append_ascii)

lemma str_fields_Nil_iff [go_str]: "str_fields s = [] \<longleftrightarrow> (\<forall>r \<in> set (runes s). is_space r)"
  by (auto simp: str_fields_def fields_func_def fields_by_Nil_iff runes_def)

text \<open>Trimming decodes to what is left of the segments, so it is idempotent.\<close>

lemma segs_trim_space:
  "segs (trim_space s) =
     rev (dropWhile (is_space \<circ> fst) (rev (dropWhile (is_space \<circ> fst) (segs s))))"
proof -
  let ?p = "is_space \<circ> fst"
  let ?m = "dropWhile ?p (segs s)"
  let ?b = "rev (takeWhile ?p (rev ?m))"
  have "?m = rev (dropWhile ?p (rev ?m)) @ ?b"
    by (metis rev_append rev_rev_ident takeWhile_dropWhile_id)
  then have split: "segs s = takeWhile ?p (segs s) @ rev (dropWhile ?p (rev ?m)) @ ?b"
    by (metis takeWhile_dropWhile_id)
  have "\<not> is_space rune_error" by (simp add: is_space_def rune_error_def)
  moreover have "?b = [] \<or> ?p (hd ?b)"
    by (metis hd_in_set set_rev set_takeWhileD)
  ultimately have "?b = [] \<or> fst (hd ?b) \<noteq> rune_error" by fastforce
  with split have "segs (bytes_of (rev (dropWhile ?p (rev ?m)))) = rev (dropWhile ?p (rev ?m))"
    by (rule segs_infix)
  then show ?thesis by (simp add: trim_space_def)
qed

lemma runes_trim_space [go_str]:
  "runes (trim_space s) = rev (dropWhile is_space (rev (dropWhile is_space (runes s))))"
  by (simp add: runes_def segs_trim_space rev_map dropWhile_map)

lemma set_runes_trim_space: "set (runes (trim_space s)) \<subseteq> set (runes s)"
  by (auto simp: runes_trim_space dest!: set_dropWhileD)

lemma length_runes_trim_space: "length (runes (trim_space s)) \<le> length (runes s)"
proof -
  have "length (dropWhile is_space (rev (dropWhile is_space (runes s)))) \<le> length (dropWhile is_space (runes s))"
    using length_dropWhile_le [of is_space "rev (dropWhile is_space (runes s))"] by simp
  also have "\<dots> \<le> length (runes s)" by (rule length_dropWhile_le)
  finally show ?thesis by (simp add: runes_trim_space)
qed

lemma dropWhile_trimmed: "dropWhile p (rev (dropWhile p (rev (dropWhile p xs)))) = rev (dropWhile p (rev (dropWhile p xs)))"
proof (cases "dropWhile p xs")
  case (Cons y ys)
  then have y: "\<not> p y" by (metis dropWhile_eq_Cons_conv)
  then have "dropWhile p (rev (dropWhile p xs)) = dropWhile p (rev ys) @ [y]"
    by (cases "\<exists>z \<in> set ys. \<not> p z") (auto simp: Cons dropWhile_append)
  with y show ?thesis by simp
next
  case Nil
  then show ?thesis by (simp only: Nil rev.simps dropWhile.simps)
qed

lemma trim_space_idem [simp]: "trim_space (trim_space s) = trim_space s"
  unfolding trim_space_def [of "trim_space s"] segs_trim_space
  by (simp only: dropWhile_trimmed rev_rev_ident) (simp add: dropWhile_idem trim_space_def)

text \<open>A field decodes to the segments it was cut from, so cutting it again gives it back.\<close>

lemma splits_by_infix:
  "w \<in> set (splits_by p xs) \<Longrightarrow> \<exists>A B. xs = A @ w @ B \<and> (B = [] \<or> p (hd B))"
proof (induction xs arbitrary: w)
  case (Cons x xs)
  obtain v vs where v: "splits_by p xs = v # vs" by (cases "splits_by p xs") auto
  have first: "\<exists>B. xs = v @ B \<and> (B = [] \<or> p (hd B))" using splits_by_first [OF v] .
  show ?case
  proof (cases "p x")
    case True
    with Cons.prems consider "w = []" | "w \<in> set (splits_by p xs)" by auto
    then show ?thesis
    proof cases
      case 1 with True show ?thesis by (intro exI [of _ "[]"] exI [of _ "x # xs"]) simp
    next
      case 2 with Cons.IH obtain A B where "xs = A @ w @ B" "B = [] \<or> p (hd B)" by blast
      then show ?thesis by (intro exI [of _ "x # A"] exI [of _ B]) simp
    qed
  next
    case False
    with Cons.prems v consider "w = x # v" | "w \<in> set (splits_by p xs)" by auto
    then show ?thesis
    proof cases
      case 1
      from first obtain B where "xs = v @ B" "B = [] \<or> p (hd B)" by blast
      with 1 show ?thesis by (intro exI [of _ "[]"] exI [of _ B]) simp
    next
      case 2 with Cons.IH obtain A B where "xs = A @ w @ B" "B = [] \<or> p (hd B)" by blast
      then show ?thesis by (intro exI [of _ "x # A"] exI [of _ B]) simp
    qed
  qed
qed simp

lemma str_fields_word [go_str]:
  assumes "w \<in> set (str_fields s)"
  shows "str_fields w = [w]"
proof -
  let ?p = "is_space \<circ> fst"
  obtain F where F: "w = bytes_of F" "F \<in> set (fields_by ?p (segs s))"
    using assms by (auto simp: str_fields_def fields_func_def)
  then obtain A B where AB: "segs s = A @ F @ B" "B = [] \<or> ?p (hd B)"
    using splits_by_infix [of F ?p "segs s"] by (auto simp: fields_by_def)
  moreover have "\<not> is_space rune_error" by (simp add: is_space_def rune_error_def)
  ultimately have "B = [] \<or> fst (hd B) \<noteq> rune_error" by fastforce
  with AB(1) have "segs w = F" unfolding F(1) by (rule segs_infix)
  moreover have "fields_by ?p F = [F]"
    using F(2) fields_by_no_sep [of F ?p] fields_by_nonempty [of F ?p] by (intro fields_by_word) auto
  ultimately show ?thesis by (simp add: str_fields_def fields_func_def F(1))
qed

lemma str_fields_join [go_str]:
  "\<forall>w \<in> set ws. str_fields w = [w] \<Longrightarrow> str_fields (join_with '' '' ws) = ws"
proof (induction ws)
  case Nil
  show ?case by (simp add: str_fields_Nil_iff)
next
  case (Cons w ws)
  then show ?case by (cases ws) (auto simp: str_fields_append_blank)
qed

lemma str_fields_squeeze [simp]: "str_fields (squeeze s) = str_fields s"
  unfolding squeeze_def by (rule str_fields_join) (blast intro: str_fields_word)

lemma squeeze_idem [simp]: "squeeze (squeeze s) = squeeze s"
  by (simp add: squeeze_def [of "squeeze s"]) (simp add: squeeze_def)

lemma segs_string_of_runes [go_str]:
  "\<forall>r \<in> set rs. scalar r \<Longrightarrow> segs (string_of_runes rs) = map (\<lambda>r. (r, encode r)) rs"
  by (induction rs) (auto simp: segs_encode)

lemma bytes_of_map [simp]: "bytes_of (map (\<lambda>r. (r, encode r)) rs) = string_of_runes rs"
  by (induction rs) auto

lemma fields_by_map: "fields_by p (map f xs) = map (map f) (fields_by (p \<circ> f) xs)"
proof -
  have "splits_by p (map f xs) = map (map f) (splits_by (p \<circ> f) xs)"
    by (induction xs) (auto simp: map_tl hd_map)
  then show ?thesis by (simp add: fields_by_def filter_map comp_def)
qed

lemma fields_func_string_of_runes [go_str]:
  assumes "\<forall>r \<in> set rs. scalar r"
  shows "fields_func p (string_of_runes rs) = map string_of_runes (fields_by p rs)"
  using assms by (simp add: fields_func_def segs_string_of_runes fields_by_map comp_def)

lemma runes_map_runes [go_str]:
  "(\<And>r r'. scalar r \<Longrightarrow> f r = Some r' \<Longrightarrow> scalar r') \<Longrightarrow>
   runes (map_runes f s) = List.map_filter f (runes s)"
  unfolding map_runes_def
  by (rule runes_string_of_runes) (use runes_scalar [of s] in \<open>auto simp: List.map_filter_def\<close>)

lemma char_of_32: "char_of (32 :: nat) = CHR '' ''"
  by code_simp

lemma string_of_runes_join:
  "join_with '' '' (map string_of_runes ws) = string_of_runes (join_with [32] ws)"
proof (induction "[32::rune]" ws rule: join_with.induct)
  case (3 w v ws)
  then show ?case by (simp add: char_of_32)
qed auto

text \<open>Normalised whitespace: no rune of the result is white space other than single blanks.\<close>

lemma fields_string_of_runes [go_str]:
  "\<forall>r \<in> set rs. scalar r \<Longrightarrow> str_fields (string_of_runes rs) = map string_of_runes (fields_by is_space rs)"
  by (simp add: str_fields_def fields_func_string_of_runes)

lemma squeeze_string_of_runes [go_str]:
  "\<forall>r \<in> set rs. scalar r \<Longrightarrow>
   squeeze (string_of_runes rs) = string_of_runes (join_with [32] (fields_by is_space rs))"
  by (simp add: squeeze_def fields_string_of_runes string_of_runes_join)

lemma set_fields_by_subset: "w \<in> set (fields_by p xs) \<Longrightarrow> set w \<subseteq> set xs"
proof -
  have "set (concat (splits_by p xs)) \<subseteq> set xs"
  proof (induction xs)
    case (Cons x xs)
    obtain a as where "splits_by p xs = a # as" by (cases "splits_by p xs") auto
    with Cons show ?case by auto
  qed simp
  then show "w \<in> set (fields_by p xs) \<Longrightarrow> set w \<subseteq> set xs" by (fastforce simp: fields_by_def)
qed

lemma join_fields_scalar:
  assumes "\<forall>r \<in> set rs. scalar r"
  shows "\<forall>r \<in> set (join_with [32] (fields_by p rs)). scalar r"
proof -
  have "scalar 32" by (simp add: scalar_def)
  moreover have "set (join_with [32] (fields_by p rs)) \<subseteq> \<Union> (set ` set (fields_by p rs)) \<union> set [32]"
    by (rule set_join_with)
  moreover have "\<Union> (set ` set (fields_by p rs)) \<subseteq> set rs"
    using set_fields_by_subset by fastforce
  ultimately show ?thesis using assms by auto
qed

lemma map_filter_mem: "y \<in> set (List.map_filter f xs) \<longleftrightarrow> (\<exists>x \<in> set xs. f x = Some y)"
  by (force simp: map_filter_def)

lemma squeezed_runes:
  assumes "\<And>r q. scalar r \<Longrightarrow> f r = Some q \<Longrightarrow> scalar q"
  shows "\<exists>rs. squeeze (map_runes f s) = string_of_runes rs \<and> (\<forall>r \<in> set rs. scalar r)
    \<and> runes (squeeze (map_runes f s)) = rs
    \<and> set rs \<subseteq> {32} \<union> set (List.map_filter f (runes s))"
proof -
  let ?rs = "List.map_filter f (runes s)"
  let ?out = "join_with [32] (fields_by is_space ?rs)"
  have sc: "\<forall>r \<in> set ?rs. scalar r"
  proof
    fix q assume "q \<in> set ?rs"
    then obtain r where "r \<in> set (runes s)" "f r = Some q" by (auto simp: map_filter_mem)
    then show "scalar q" using assms [of r q] runes_scalar [of s] by blast
  qed
  then have eq: "squeeze (map_runes f s) = string_of_runes ?out"
    by (simp add: map_runes_def squeeze_string_of_runes)
  have out: "\<forall>r \<in> set ?out. scalar r" using sc by (rule join_fields_scalar)
  have "set ?out \<subseteq> {32} \<union> set ?rs"
    using set_join_with [of "[32]" "fields_by is_space ?rs"] set_fields_by_subset by fastforce
  with eq out show ?thesis by (intro exI [of _ ?out]) (simp add: runes_string_of_runes)
qed

section \<open>Character tables\<close>

text \<open>
  The tables of package \<^verbatim>\<open>unicode\<close> and the two functions of \<^verbatim>\<open>golang.org/x/text\<close> the
  program calls are parameters. \<^verbatim>\<open>fold_key\<close> names the orbit of a rune under simple case
  folding, so \<^verbatim>\<open>strings.EqualFold\<close> compares keys rune by rune.
\<close>

record tables =
  is_letter :: "rune \<Rightarrow> bool"
  is_digit :: "rune \<Rightarrow> bool"
  is_symbol :: "rune \<Rightarrow> bool"
  is_punct :: "rune \<Rightarrow> bool"
  in_So :: "rune \<Rightarrow> bool"
  in_Mn :: "rune \<Rightarrow> bool"
  in_Cf :: "rune \<Rightarrow> bool"
  lower_rune :: "rune \<Rightarrow> rune"
  fold_key :: "rune \<Rightarrow> rune"
  nfkc :: "string \<Rightarrow> string"
  case_fold :: "string \<Rightarrow> string"

definition ascii_upper :: "rune \<Rightarrow> bool" where
  "ascii_upper r \<longleftrightarrow> 65 \<le> r \<and> r \<le> 90"

definition ascii_letter :: "rune \<Rightarrow> bool" where
  "ascii_letter r \<longleftrightarrow> ascii_upper r \<or> (97 \<le> r \<and> r \<le> 122)"

definition ascii_digit :: "rune \<Rightarrow> bool" where
  "ascii_digit r \<longleftrightarrow> 48 \<le> r \<and> r \<le> 57"

text \<open>
  What the program relies on of the tables: they are ASCII on ASCII; a letter or a digit is
  neither white space nor a control character; lower case stays in the class and is idempotent.
\<close>

definition word_rune :: "tables \<Rightarrow> rune \<Rightarrow> bool" where
  "word_rune U r \<longleftrightarrow> is_letter U r \<or> is_digit U r"

definition tables_ok :: "tables \<Rightarrow> bool" where
  "tables_ok U \<longleftrightarrow>
     (\<forall>r < 128. is_letter U r = ascii_letter r \<and> is_digit U r = ascii_digit r
        \<and> lower_rune U r = (if ascii_upper r then r + 32 else r))
     \<and> (\<forall>r. word_rune U r \<longrightarrow> \<not> is_space r \<and> \<not> is_control r \<and> word_rune U (lower_rune U r)
        \<and> lower_rune U (lower_rune U r) = lower_rune U r)
     \<and> (\<forall>r. scalar r \<longrightarrow> scalar (lower_rune U r))"

definition equal_fold :: "tables \<Rightarrow> string \<Rightarrow> string \<Rightarrow> bool" where
  "equal_fold U s t \<longleftrightarrow> map (fold_key U) (runes s) = map (fold_key U) (runes t)"

definition to_lower :: "tables \<Rightarrow> string \<Rightarrow> string" where
  "to_lower U s = map_runes (Some \<circ> lower_rune U) s"

text \<open>
  A concrete instance: the tables of Latin-1, with every other rune unclassified. It discharges
  the laws in witnesses.
\<close>

definition latin_lower :: "rune \<Rightarrow> rune" where
  "latin_lower r =
     (if ascii_upper r \<or> (192 \<le> r \<and> r \<le> 222 \<and> r \<noteq> 215) then r + 32 else r)"

definition latin1 :: tables where
  "latin1 = \<lparr>
     is_letter = (\<lambda>r. ascii_letter r \<or> r = 170 \<or> r = 181 \<or> r = 186
                      \<or> (192 \<le> r \<and> r \<le> 255 \<and> r \<noteq> 215 \<and> r \<noteq> 247)),
     is_digit = ascii_digit,
     is_symbol = (\<lambda>r. r \<in> set [36, 43, 60, 61, 62, 94, 96, 124, 126, 162, 163, 164, 165, 166, 168,
                               169, 172, 174, 175, 176, 177, 180, 184, 215, 247]),
     is_punct = (\<lambda>r. r \<in> set [33, 34, 35, 37, 38, 39, 40, 41, 42, 44, 45, 46, 47, 58, 59, 63, 64,
                              91, 92, 93, 95, 123, 125, 161, 167, 171, 182, 183, 187, 191]),
     in_So = (\<lambda>r. r = 166 \<or> r = 169 \<or> r = 174 \<or> r = 176),
     in_Mn = (\<lambda>r. False),
     in_Cf = (\<lambda>r. r = 173),
     lower_rune = latin_lower,
     fold_key = latin_lower,
     nfkc = id,
     case_fold = map_runes (Some \<circ> latin_lower) \<rparr>"

lemma latin1_ok [simp]: "tables_ok latin1"
  by (auto simp: tables_ok_def latin1_def word_rune_def ascii_letter_def ascii_digit_def
      ascii_upper_def latin_lower_def is_space_def is_control_def scalar_def)

section \<open>Integers, instants and durations\<close>

text \<open>
  \<^verbatim>\<open>int64\<close> values are \<^typ>\<open>int\<close>; where the program can overflow one, the wrap-around is
  written out with \<open>wrap64\<close>. Integer division truncates.
\<close>

definition wrap64 :: "int \<Rightarrow> int" where
  "wrap64 x = sint (word_of_int x :: 64 word)"

definition int64 :: "int \<Rightarrow> bool" where
  "int64 x \<longleftrightarrow> - (2 ^ 63) \<le> x \<and> x < 2 ^ 63"

definition go_div :: "int \<Rightarrow> int \<Rightarrow> int" where
  "go_div a b = sgn a * sgn b * (\<bar>a\<bar> div \<bar>b\<bar>)"

definition go_mod :: "int \<Rightarrow> int \<Rightarrow> int" where
  "go_mod a b = a - b * go_div a b"

text \<open>
  An instant is its distance in nanoseconds from Go's zero time, 1 January of year 1, UTC. A
  duration is a number of nanoseconds. \<^verbatim>\<open>Time.Sub\<close> saturates; \<^verbatim>\<open>time.Unix\<close> wraps in the
  seconds, as its implementation does.
\<close>

type_synonym instant = int

type_synonym duration = int

definition time_zero :: instant where
  "time_zero = 0"

definition second :: duration where
  "second = 1000000000"

definition minute :: duration where
  "minute = 60 * second"

definition hour :: duration where
  "hour = 60 * minute"

definition unix_to_internal :: int where
  "unix_to_internal = 62135596800"

definition time_unix :: "int \<Rightarrow> instant" where
  "time_unix sec = wrap64 (sec + unix_to_internal) * second"

definition time_add :: "instant \<Rightarrow> duration \<Rightarrow> instant" where
  "time_add t d = t + d"

definition time_sub :: "instant \<Rightarrow> instant \<Rightarrow> duration" where
  "time_sub t u = max (- (2 ^ 63)) (min (2 ^ 63 - 1) (t - u))"

definition before :: "instant \<Rightarrow> instant \<Rightarrow> bool" where
  "before t u \<longleftrightarrow> t < u"

definition hour_of :: "instant \<Rightarrow> int" where
  "hour_of t = t div hour mod 24"

definition weekday_of :: "instant \<Rightarrow> int" where
  "weekday_of t = (t div (24 * hour) + 1) mod 7"

definition weekday_name :: "int \<Rightarrow> string" where
  "weekday_name d = [''Sunday'', ''Monday'', ''Tuesday'', ''Wednesday'', ''Thursday'',
                     ''Friday'', ''Saturday''] ! nat d"

lemma wrap64_int64 [simp]: "int64 (wrap64 x)"
  using sint_range_size [of "word_of_int x :: 64 word"]
  by (simp add: int64_def wrap64_def word_size)

lemma wrap64_id [simp]: "int64 x \<Longrightarrow> wrap64 x = x"
  by (simp add: int64_def wrap64_def signed_take_bit_int_eq_self sint_sbintrunc')

section \<open>Numbers as text\<close>

fun show_nat :: "nat \<Rightarrow> string" where
  "show_nat n = (if n < 10 then [char_of (48 + n)] else show_nat (n div 10) @ [char_of (48 + n mod 10)])"

declare show_nat.simps [simp del]

definition show_int :: "int \<Rightarrow> string" where
  "show_int i = (if i < 0 then ''-'' @ show_nat (nat (- i)) else show_nat (nat i))"

text \<open>\<^verbatim>\<open>%.0f\<close> and \<^verbatim>\<open>%.1f\<close>: rounding to even at the exact midpoint.\<close>

definition round_even :: "real \<Rightarrow> int" where
  "round_even x = (let f = \<lfloor>x\<rfloor>; d = x - of_int f in
     if d < 1 / 2 then f else if 1 / 2 < d then f + 1 else if even f then f else f + 1)"

definition show_fixed0 :: "real \<Rightarrow> string" where
  "show_fixed0 x = (if x < 0 then ''-'' else []) @ show_nat (nat (round_even \<bar>x\<bar>))"

definition show_fixed1 :: "real \<Rightarrow> string" where
  "show_fixed1 x = (let n = nat (round_even (10 * \<bar>x\<bar>)) in
     (if x < 0 then ''-'' else []) @ show_nat (n div 10) @ ''.'' @ show_nat (n mod 10))"

definition show_2digits :: "int \<Rightarrow> string" where
  "show_2digits i = (if 0 \<le> i \<and> i < 10 then ''0'' else []) @ show_int i"

lemma show_nat_digits: "\<forall>c \<in> set (show_nat n). ascii_digit (byte c)"
proof (induction n rule: show_nat.induct)
  case (1 n)
  then show ?case by (subst show_nat.simps) (auto simp: ascii_digit_def)
qed

end
