(* ===== verification/Classifier.thy ===== *)
theory Classifier
  imports GoRuntime
begin

text \<open>
  Package \<^verbatim>\<open>internal/classifier\<close>: the tier rules and the title gate. \<^verbatim>\<open>Classify\<close> is a
  pure function of an activity and a configuration, so every definition here is a plain
  function. Distances and coordinates are reals: the rounding of \<^verbatim>\<open>float64\<close> in the haversine
  formula is not modelled, and no other operation of the package rounds.
\<close>

named_theorems classify \<open>unfolding of the classifier's decisions\<close>

section \<open>Activity (activity.go)\<close>

record Point =
  Lat :: real
  Lon :: real

record Activity =
  Name :: string
  Description :: string
  SportType :: string
  Trainer :: bool
  Commute :: bool
  DistanceMeters :: real
  MovingTimeSeconds :: int
  Start :: "Point option"
  End :: "Point option"

section \<open>Default titles (defaults.go)\<close>

definition englishDayparts :: "string list" where
  "englishDayparts = [''Morning'', ''Lunch'', ''Afternoon'', ''Evening'', ''Night'']"

definition englishActivities :: "string list" where
  "englishActivities = [''Ride'', ''Gravel Ride'', ''Run'', ''Walk'', ''Hike'', ''Swim'',
     ''Workout'', ''Weight Training'']"

definition germanDayparts :: "string list" where
  "germanDayparts = [''am Morgen'', ''am Mittag'', ''am Nachmittag'', ''am Abend'', ''in der Nacht'']"

definition germanActivities :: "string list" where
  "germanActivities = [''Radfahrt'', ''Gravel-Fahrt'', ''Lauf'', ''Spaziergang'', ''Wanderung'',
     ''Schwimmen'', ''Workout'', ''Gewichtstraining'']"

definition buildDefaultTitles :: "string list" where
  "buildDefaultTitles =
     [d @ '' '' @ a. d \<leftarrow> englishDayparts, a \<leftarrow> englishActivities]
     @ [a @ '' '' @ d. d \<leftarrow> germanDayparts, a \<leftarrow> germanActivities]"

definition IsDefaultTitle :: "string \<Rightarrow> bool" where
  "IsDefaultTitle title \<longleftrightarrow> trim_space title \<in> set buildDefaultTitles"

section \<open>Machine titles (machine.go)\<close>

definition xertDifficulties :: "string list" where
  "xertDifficulties = [''Easy'', ''Moderate'', ''Difficult'', ''Tough'', ''Hard'']"

definition xertSpecificities :: "string list" where
  "xertSpecificities = [''Pure'', ''Mixed'', ''Polar'']"

definition xertFocusTypes :: "string list" where
  "xertFocusTypes = [''Power Sprinter'', ''Road Sprinter'', ''Pursuiter'', ''Puncheur'',
     ''Breakaway Specialist'', ''Rouleur'', ''GC Specialist'', ''Climber'',
     ''Sprint Time-Triallist'', ''Sprint Time-Trialist'', ''Time-Triallist'', ''Time-Trialist'',
     ''Century Rider'', ''Triathlete'', ''Endurance'']"

text \<open>
  The shipped pattern is a regular expression of literals, alternations, concatenations and one
  optional group. \<^verbatim>\<open>rests\<close> gives every remainder a match from the start can leave, so the
  anchored expression matches exactly when the empty remainder is among them.
\<close>

datatype regex = Lit string | Alt "regex list" | Cat "regex list" | Opt regex

fun rests :: "regex \<Rightarrow> string \<Rightarrow> string list" where
  "rests (Lit l) s = (if prefix l s then [drop (length l) s] else [])"
| "rests (Alt rs) s = concat (map (\<lambda>r. rests r s) rs)"
| "rests (Cat []) s = [s]"
| "rests (Cat (r # rs)) s = concat (map (rests (Cat rs)) (rests r s))"
| "rests (Opt r) s = rests r s @ [s]"

definition full_match :: "regex \<Rightarrow> string \<Rightarrow> bool" where
  "full_match r s \<longleftrightarrow> [] \<in> set (rests r s)"

definition XertTitlePattern :: regex where
  "XertTitlePattern = Cat
     [Alt (map Lit xertDifficulties), Lit '' '',
      Opt (Cat [Alt (map Lit xertSpecificities), Lit '' '']),
      Alt (map Lit xertFocusTypes), Lit '' Ride'']"

text \<open>
  A machine-title pattern is what the compiled expression \<^verbatim>\<open>\A(?:pattern)\z\<close> accepts; compiling
  one is package \<^verbatim>\<open>regexp\<close>, a parameter of \<open>NewMachineTitles\<close>.
\<close>

type_synonym pattern = "string \<Rightarrow> bool"

type_synonym MachineTitles = "pattern list"

definition anchored :: "string \<Rightarrow> string" where
  "anchored p = CHR 0x5C # ''A(?:'' @ p @ '')'' @ [CHR 0x5C] @ ''z''"

fun NewMachineTitles :: "(string \<Rightarrow> pattern option) \<Rightarrow> string list \<Rightarrow> string + MachineTitles" where
  "NewMachineTitles compile [] = Inr []"
| "NewMachineTitles compile (p # ps) =
     (if trim_space p = [] then NewMachineTitles compile ps
      else case compile (anchored p) of
        None \<Rightarrow> Inl p
      | Some e \<Rightarrow>
          (case NewMachineTitles compile ps of Inl q \<Rightarrow> Inl q | Inr es \<Rightarrow> Inr (e # es)))"

definition DefaultMachineTitles :: MachineTitles where
  "DefaultMachineTitles = [full_match XertTitlePattern]"

definition Matches :: "MachineTitles \<Rightarrow> string \<Rightarrow> bool" where
  "Matches m title =
     (let trimmed = trim_space title in trimmed \<noteq> [] \<and> list_ex (\<lambda>p. p trimmed) m)"

definition renamable :: "MachineTitles \<Rightarrow> string \<Rightarrow> bool" where
  "renamable m title \<longleftrightarrow> IsDefaultTitle title \<or> Matches m title"

definition IsEmpty :: "MachineTitles \<Rightarrow> bool" where
  "IsEmpty m \<longleftrightarrow> length m = 0"

text \<open>
  The looser shape test. \<^verbatim>\<open>\b\<close> is the ASCII word boundary of package \<^verbatim>\<open>regexp\<close>; the flag of
  \<open>occurs_word\<close> says whether the byte before the position is a word character.
\<close>

definition word_char :: "char \<Rightarrow> bool" where
  "word_char c \<longleftrightarrow> ascii_letter (byte c) \<or> ascii_digit (byte c) \<or> c = CHR ''_''"

definition starts_word :: "string \<Rightarrow> bool" where
  "starts_word s = (case s of [] \<Rightarrow> False | c # _ \<Rightarrow> word_char c)"

fun occurs_word :: "bool \<Rightarrow> string \<Rightarrow> string \<Rightarrow> bool" where
  "occurs_word pw [] v = False"
| "occurs_word pw (c # cs) v =
     (\<not> pw \<and> prefix v (c # cs) \<and> \<not> starts_word (drop (length v) (c # cs))
      \<or> occurs_word (word_char c) cs v)"

definition xertDifficultyPrefix :: "string \<Rightarrow> bool" where
  "xertDifficultyPrefix title \<longleftrightarrow> list_ex (\<lambda>d. prefix (d @ '' '') title) xertDifficulties"

definition xertVocabularyWord :: "string \<Rightarrow> bool" where
  "xertVocabularyWord s \<longleftrightarrow> list_ex (occurs_word False s) (xertSpecificities @ xertFocusTypes)"

definition hasXertShape :: "string \<Rightarrow> bool" where
  "hasXertShape title =
     (if \<not> suffix '' Ride'' title then False
      else let words = str_fields title in
        if length words < 3 then False
        else xertDifficultyPrefix title \<or> xertVocabularyWord (join_with '' '' (drop 1 words)))"

section \<open>Configuration and decision (classifier.go)\<close>

datatype Tier = TierNone | TierSkip | TierVirtual | TierCommute | TierErrand | TierSportRide

datatype Action =
  ActionSkip | ActionCommuteTemplate | ActionErrandTemplate | ActionLLM | ActionLLMIndoor

datatype Direction = DirectionNone | DirectionToWork | DirectionToHome

fun Direction_String :: "Direction \<Rightarrow> string" where
  "Direction_String DirectionNone = ''none''"
| "Direction_String DirectionToWork = ''to_work''"
| "Direction_String DirectionToHome = ''to_home''"

fun Tier_String :: "Tier \<Rightarrow> string" where
  "Tier_String TierNone = ''none''"
| "Tier_String TierSkip = ''skip''"
| "Tier_String TierVirtual = ''virtual''"
| "Tier_String TierCommute = ''commute''"
| "Tier_String TierErrand = ''errand''"
| "Tier_String TierSportRide = ''sport_ride''"

fun Action_String :: "Action \<Rightarrow> string" where
  "Action_String ActionSkip = ''skip''"
| "Action_String ActionCommuteTemplate = ''commute_template''"
| "Action_String ActionErrandTemplate = ''errand_template''"
| "Action_String ActionLLM = ''llm''"
| "Action_String ActionLLMIndoor = ''llm_indoor''"

definition ZwiftKeep :: string where
  "ZwiftKeep = ''keep''"

definition ZwiftLLMIndoor :: string where
  "ZwiftLLMIndoor = ''llm_indoor''"

record Geofence =
  Center :: Point
  RadiusMeters :: real

record Config =
  ZwiftMode :: string
  Home :: Geofence
  Work :: Geofence
  ToWorkTitle :: string
  ToHomeTitle :: string
  LeaveErrandsUnnamed :: bool
  SportMinDistanceMeters :: real
  SportMinMovingTimeSeconds :: int
  MachineTitlesOf :: MachineTitles

record Decision =
  TierOf :: Tier
  ActionOf :: Action
  DirectionOf :: Direction
  Reason :: string
  HumanTitled :: bool
  Provisional :: bool

definition earthRadiusMeters :: real where
  "earthRadiusMeters = 6371000"

definition distanceMeters :: "Point \<Rightarrow> Point \<Rightarrow> real" where
  "distanceMeters a b =
     (let latA = Lat a * pi / 180; latB = Lat b * pi / 180;
          deltaLat = (Lat b - Lat a) * pi / 180; deltaLon = (Lon b - Lon a) * pi / 180;
          h = sin (deltaLat / 2) * sin (deltaLat / 2)
              + cos latA * cos latB * sin (deltaLon / 2) * sin (deltaLon / 2)
      in 2 * earthRadiusMeters * arcsin (sqrt h))"

definition contains :: "Geofence \<Rightarrow> Point \<Rightarrow> bool" where
  "contains g p =
     (if RadiusMeters g \<le> 0 then False else distanceMeters (Center g) p \<le> RadiusMeters g)"

definition defaultSportMinDistanceMeters :: real where
  "defaultSportMinDistanceMeters = 15000"

definition defaultSportMinMovingTimeSeconds :: int where
  "defaultSportMinMovingTimeSeconds = 45 * 60"

definition defaultToWorkTitle :: string where
  "defaultToWorkTitle = ''Zur Arbeit''"

definition defaultToHomeTitle :: string where
  "defaultToHomeTitle = ''Nach Hause''"

definition zeroGeofence :: Geofence where
  "zeroGeofence = \<lparr>Center = \<lparr>Lat = 0, Lon = 0\<rparr>, RadiusMeters = 0\<rparr>"

definition DefaultConfig :: Config where
  "DefaultConfig = \<lparr>ZwiftMode = ZwiftKeep, Home = zeroGeofence, Work = zeroGeofence,
     ToWorkTitle = defaultToWorkTitle, ToHomeTitle = defaultToHomeTitle,
     LeaveErrandsUnnamed = False,
     SportMinDistanceMeters = defaultSportMinDistanceMeters,
     SportMinMovingTimeSeconds = defaultSportMinMovingTimeSeconds,
     MachineTitlesOf = DefaultMachineTitles\<rparr>"

definition withDefaults :: "Config \<Rightarrow> Config" where
  "withDefaults c =
     (let c1 = (if ZwiftMode c = [] then c\<lparr>ZwiftMode := ZwiftKeep\<rparr> else c);
          c2 = (if SportMinDistanceMeters c1 \<le> 0
                then c1\<lparr>SportMinDistanceMeters := defaultSportMinDistanceMeters\<rparr> else c1)
      in (if SportMinMovingTimeSeconds c2 \<le> 0
          then c2\<lparr>SportMinMovingTimeSeconds := defaultSportMinMovingTimeSeconds\<rparr> else c2))"

section \<open>Template titles (templates.go)\<close>

definition DefaultErrandTitles :: "string list" where
  "DefaultErrandTitles = [''Besorgungen'', ''In die Stadt'', ''Stadtrunde'']"

definition CommuteTitle :: "Config \<Rightarrow> Direction \<Rightarrow> string" where
  "CommuteTitle c direction =
     (if direction = DirectionToHome
      then (if ToHomeTitle c \<noteq> [] then ToHomeTitle c else defaultToHomeTitle)
      else if ToWorkTitle c \<noteq> [] then ToWorkTitle c else defaultToWorkTitle)"

definition TemplateTitles :: "Config \<Rightarrow> string list" where
  "TemplateTitles c =
     [CommuteTitle c DirectionToWork, CommuteTitle c DirectionToHome] @ DefaultErrandTitles"

definition IsToolTitle :: "string \<Rightarrow> bool" where
  "IsToolTitle title0 = (let title = trim_space title0 in
     prefix ''Zwift - '' title \<or> suffix '' - Xert'' title \<or> hasXertShape title)"

section \<open>Classify (classifier.go)\<close>

definition neverNamedSportTypes :: "string list" where
  "neverNamedSportTypes = [''WeightTraining'', ''Workout'', ''Walk'', ''Hike'']"

definition rideSportTypes :: "string list" where
  "rideSportTypes = [''Ride'', ''GravelRide'']"

definition whoopMarker :: string where
  "whoopMarker = ''Strain''"

definition meetsSportThresholds :: "Activity \<Rightarrow> Config \<Rightarrow> bool" where
  "meetsSportThresholds a cfg \<longleftrightarrow>
     DistanceMeters a \<ge> SportMinDistanceMeters cfg \<or>
     MovingTimeSeconds a \<ge> SportMinMovingTimeSeconds cfg"

definition inFence :: "Geofence \<Rightarrow> Point option \<Rightarrow> bool" where
  "inFence g p = (case p of None \<Rightarrow> False | Some q \<Rightarrow> contains g q)"

definition commuteDirection :: "Activity \<Rightarrow> Config \<Rightarrow> Direction option" where
  "commuteDirection a cfg =
     (let title = trim_space (Name a) in
      if ToWorkTitle cfg \<noteq> [] \<and> title = ToWorkTitle cfg then Some DirectionToWork
      else if ToHomeTitle cfg \<noteq> [] \<and> title = ToHomeTitle cfg then Some DirectionToHome
      else if meetsSportThresholds a cfg then None
      else if inFence (Work cfg) (End a) then Some DirectionToWork
      else if inFence (Work cfg) (Start a) \<and> inFence (Home cfg) (End a) then Some DirectionToHome
      else None)"

definition classifyTier :: "Activity \<Rightarrow> Config \<Rightarrow> Tier \<times> Direction" where
  "classifyTier a cfg =
     (if SportType a = ''VirtualRide'' then (TierVirtual, DirectionNone)
      else if SportType a \<notin> set rideSportTypes then (TierNone, DirectionNone)
      else if Trainer a then (TierVirtual, DirectionNone)
      else case commuteDirection a cfg of
        Some direction \<Rightarrow> (TierCommute, direction)
      | None \<Rightarrow>
          if Commute a then (TierErrand, DirectionNone)
          else if meetsSportThresholds a cfg then (TierSportRide, DirectionNone)
          else (TierNone, DirectionNone))"

definition provisional :: "Activity \<Rightarrow> bool" where
  "provisional a =
     (if SportType a \<notin> set rideSportTypes then False else IsDefaultTitle (Name a))"

definition noTierReason :: "Activity \<Rightarrow> string" where
  "noTierReason a =
     (if SportType a \<in> set rideSportTypes then ''ride below the sport-ride thresholds''
      else ''sport type '' @ SportType a @ '' has no tier rule'')"

definition decision :: "Tier \<Rightarrow> Action \<Rightarrow> string \<Rightarrow> Decision" where
  "decision t act reason = \<lparr>TierOf = t, ActionOf = act, DirectionOf = DirectionNone,
     Reason = reason, HumanTitled = False, Provisional = False\<rparr>"

definition Classify :: "Activity \<Rightarrow> Config \<Rightarrow> Decision" where
  "Classify a cfg0 =
     (let cfg = withDefaults cfg0 in
      if SportType a \<in> set neverNamedSportTypes then
        decision TierSkip ActionSkip (''sport type '' @ SportType a @ '' is never named'')
      else if str_contains (Description a) whoopMarker then
        decision TierSkip ActionSkip
          (''Whoop activity (description mentions '' @ whoopMarker @ '')'')
      else case classifyTier a cfg of (tier, direction) \<Rightarrow>
        if \<not> renamable (MachineTitlesOf cfg) (Name a) then
          (decision tier ActionSkip
             ''title is neither a Strava default nor a recognized machine title'')
             \<lparr>DirectionOf := direction, HumanTitled := True\<rparr>
        else case tier of
          TierVirtual \<Rightarrow>
            if ZwiftMode cfg = ZwiftLLMIndoor then
              decision TierVirtual ActionLLMIndoor (''virtual ride, zwift_mode='' @ ZwiftLLMIndoor)
            else decision TierVirtual ActionSkip (''virtual ride, zwift_mode='' @ ZwiftKeep)
        | TierCommute \<Rightarrow>
            (decision TierCommute ActionCommuteTemplate
               (''commute safety net ('' @ Direction_String direction @ '')''))
               \<lparr>DirectionOf := direction\<rparr>
        | TierErrand \<Rightarrow>
            if LeaveErrandsUnnamed cfg then decision TierErrand ActionSkip ''errand naming disabled''
            else decision TierErrand ActionErrandTemplate ''commute-tagged errand''
        | TierSportRide \<Rightarrow> decision TierSportRide ActionLLM ''sport ride''
        | _ \<Rightarrow> (decision tier ActionSkip (noTierReason a))\<lparr>Provisional := provisional a\<rparr>)"

section \<open>Lemmas\<close>

lemma rests_Lit_iff [classify]: "t \<in> set (rests (Lit l) s) \<longleftrightarrow> s = l @ t"
  by (auto simp: prefix_def)

lemma rests_Alt_iff [classify]: "t \<in> set (rests (Alt (map Lit ls)) s) \<longleftrightarrow> (\<exists>l \<in> set ls. s = l @ t)"
proof -
  have "set (rests (Alt (map Lit ls)) s) = (\<Union>l \<in> set ls. set (rests (Lit l) s))" by (simp del: rests.simps(1))
  then show ?thesis using rests_Lit_iff [of t _ s] by blast
qed

lemma rests_Cat_iff [classify]:
  "t \<in> set (rests (Cat []) s) \<longleftrightarrow> t = s"
  "t \<in> set (rests (Cat (e # es)) s) \<longleftrightarrow> (\<exists>m \<in> set (rests e s). t \<in> set (rests (Cat es) m))"
  by auto

lemma rests_Opt_iff [classify]: "t \<in> set (rests (Opt e) s) \<longleftrightarrow> t \<in> set (rests e s) \<or> t = s"
  by auto

lemma withDefaults_select [simp]:
  "ToWorkTitle (withDefaults c) = ToWorkTitle c" "ToHomeTitle (withDefaults c) = ToHomeTitle c"
  "Home (withDefaults c) = Home c" "Work (withDefaults c) = Work c"
  "LeaveErrandsUnnamed (withDefaults c) = LeaveErrandsUnnamed c"
  "MachineTitlesOf (withDefaults c) = MachineTitlesOf c"
  "ZwiftMode (withDefaults c) = (if ZwiftMode c = [] then ZwiftKeep else ZwiftMode c)"
  by (auto simp: withDefaults_def Let_def)

lemma withDefaults_thresholds:
  "SportMinDistanceMeters (withDefaults c) > 0" "SportMinMovingTimeSeconds (withDefaults c) > 0"
  by (auto simp: withDefaults_def Let_def defaultSportMinDistanceMeters_def
      defaultSportMinMovingTimeSeconds_def)

lemma withDefaults_idem: "withDefaults (withDefaults c) = withDefaults c"
  by (auto simp: withDefaults_def Let_def ZwiftKeep_def defaultSportMinDistanceMeters_def
      defaultSportMinMovingTimeSeconds_def)

lemma decision_select [simp]:
  "TierOf (decision t act r) = t" "ActionOf (decision t act r) = act"
  "DirectionOf (decision t act r) = DirectionNone"
  "HumanTitled (decision t act r) = False" "Provisional (decision t act r) = False"
  by (simp_all add: decision_def)

text \<open>What the two tests that precede the tier rules let through.\<close>

definition classified :: "Activity \<Rightarrow> bool" where
  "classified a \<longleftrightarrow>
     SportType a \<notin> set neverNamedSportTypes \<and> \<not> str_contains (Description a) whoopMarker"

lemma Classify_unclassified:
  "\<not> classified a \<Longrightarrow> ActionOf (Classify a cfg) = ActionSkip \<and> TierOf (Classify a cfg) = TierSkip
     \<and> \<not> HumanTitled (Classify a cfg) \<and> \<not> Provisional (Classify a cfg)"
  by (auto simp: classified_def Classify_def Let_def)

lemma Classify_HumanTitled:
  "HumanTitled (Classify a cfg) \<longleftrightarrow> classified a \<and> \<not> renamable (MachineTitlesOf cfg) (Name a)"
  by (auto simp: classified_def Classify_def Let_def split: prod.splits Tier.splits)

lemma Classify_not_renamable:
  "\<not> renamable (MachineTitlesOf cfg) (Name a) \<Longrightarrow> ActionOf (Classify a cfg) = ActionSkip"
  by (auto simp: Classify_def Let_def split: prod.splits)

lemma Classify_renamable:
  assumes "classified a" "renamable (MachineTitlesOf cfg) (Name a)"
  shows "ActionOf (Classify a cfg) = (case fst (classifyTier a (withDefaults cfg)) of
           TierVirtual \<Rightarrow> (if ZwiftMode cfg = ZwiftLLMIndoor then ActionLLMIndoor else ActionSkip)
         | TierCommute \<Rightarrow> ActionCommuteTemplate
         | TierErrand \<Rightarrow> (if LeaveErrandsUnnamed cfg then ActionSkip else ActionErrandTemplate)
         | TierSportRide \<Rightarrow> ActionLLM
         | _ \<Rightarrow> ActionSkip)"
    and "Provisional (Classify a cfg) \<longleftrightarrow>
         fst (classifyTier a (withDefaults cfg)) \<in> {TierNone, TierSkip} \<and> provisional a"
  using assms
  by (auto simp: classified_def Classify_def Let_def ZwiftKeep_def ZwiftLLMIndoor_def
      split: prod.splits Tier.splits)

lemma classifyTier_sport:
  "fst (classifyTier a cfg) = TierSportRide \<longleftrightarrow>
     SportType a \<in> set rideSportTypes \<and> \<not> Trainer a \<and> \<not> Commute a
     \<and> commuteDirection a cfg = None \<and> meetsSportThresholds a cfg"
  by (auto simp: classifyTier_def rideSportTypes_def split: option.splits)

lemma commuteDirection_sport:
  "meetsSportThresholds a cfg \<Longrightarrow> commuteDirection a cfg = None \<longleftrightarrow>
     (ToWorkTitle cfg = [] \<or> trim_space (Name a) \<noteq> ToWorkTitle cfg) \<and>
     (ToHomeTitle cfg = [] \<or> trim_space (Name a) \<noteq> ToHomeTitle cfg)"
  by (auto simp: commuteDirection_def Let_def)

lemma ascii_list [simp]:
  "list_all (\<lambda>c. byte c < 128) s \<Longrightarrow> runes s = map byte s"
  by (induction s) auto

lemma three_words:
  assumes "str_fields a \<noteq> []" "str_fields b \<noteq> []" "str_fields c \<noteq> []"
  shows "3 \<le> length (str_fields (a @ '' '' @ b @ '' '' @ c))"
proof -
  have "1 \<le> length (str_fields a)" "1 \<le> length (str_fields b)" "1 \<le> length (str_fields c)"
    using assms by (simp_all add: Suc_le_eq)
  moreover have "str_fields (a @ '' '' @ b @ '' '' @ c) = str_fields a @ str_fields b @ str_fields c"
    by (simp add: str_fields_append_blank)
  ultimately show ?thesis by simp
qed

definition vocabulary_title :: "string \<Rightarrow> bool" where
  "vocabulary_title t \<longleftrightarrow> (\<exists>d \<in> set xertDifficulties. \<exists>f \<in> set xertFocusTypes.
     t = d @ '' '' @ f @ '' Ride'' \<or>
     (\<exists>s \<in> set xertSpecificities. t = d @ '' '' @ s @ '' '' @ f @ '' Ride''))"
lemma rests_Cat_Lit:
  "t \<in> set (rests (Cat (Lit l # es)) s) \<longleftrightarrow> (\<exists>m. s = l @ m \<and> t \<in> set (rests (Cat es) m))"
  unfolding rests_Cat_iff(2) Bex_def rests_Lit_iff ..

lemma rests_Cat_Alt:
  "t \<in> set (rests (Cat (Alt (map Lit ls) # es)) s) \<longleftrightarrow>
   (\<exists>l \<in> set ls. \<exists>m. s = l @ m \<and> t \<in> set (rests (Cat es) m))"
  unfolding rests_Cat_iff(2) rests_Alt_iff by (simp only: Bex_def rests_Alt_iff) blast

lemma concat_map_concat_map:
  "concat (map f (concat (map g xs))) = concat (map (\<lambda>x. concat (map f (g x))) xs)"
  by (induction xs) simp_all

lemma rests_Cat_Cat: "rests (Cat (Cat xs # es)) s = rests (Cat (xs @ es)) s"
proof (induction xs arbitrary: s)
  case (Cons x xs)
  have "concat (map (rests (Cat es)) (rests (Cat xs) m)) = rests (Cat (xs @ es)) m" for m
    using Cons by simp
  then show ?case by (simp add: concat_map_concat_map)
qed simp

lemma rests_Cat_Opt:
  "t \<in> set (rests (Cat (Opt (Cat xs) # es)) s) \<longleftrightarrow>
   t \<in> set (rests (Cat (xs @ es)) s) \<or> t \<in> set (rests (Cat es) s)"
  using rests_Cat_Cat [of xs es s] by (auto simp del: rests.simps(2))

lemma full_match_Xert: "full_match XertTitlePattern t \<longleftrightarrow> vocabulary_title t"
  unfolding full_match_def XertTitlePattern_def vocabulary_title_def
  by (simp only: rests_Cat_Lit rests_Cat_Alt rests_Cat_Opt rests_Cat_iff(1) append_Cons append_Nil)
    (auto, blast+)

lemma words_nonempty:
  "list_all (\<lambda>w. str_fields w \<noteq> []) xertDifficulties"
  "list_all (\<lambda>w. str_fields w \<noteq> []) xertSpecificities"
  "list_all (\<lambda>w. str_fields w \<noteq> []) xertFocusTypes"
  "str_fields ''Ride'' \<noteq> []"
  by (simp_all add: str_fields_Nil_iff xertDifficulties_def xertSpecificities_def xertFocusTypes_def
      is_space_def)

lemma vocabulary_title_shape:
  assumes "vocabulary_title t"
  shows "hasXertShape t"
proof -
  obtain d m where t: "d \<in> set xertDifficulties" "t = d @ '' '' @ m @ '' '' @ ''Ride''"
    "str_fields m \<noteq> []"
  proof -
    from assms obtain d f where d: "d \<in> set xertDifficulties" "f \<in> set xertFocusTypes"
      and "t = d @ '' '' @ f @ '' Ride'' \<or>
        (\<exists>s \<in> set xertSpecificities. t = d @ '' '' @ s @ '' '' @ f @ '' Ride'')"
      unfolding vocabulary_title_def by blast
    then show thesis
    proof (elim disjE bexE)
      assume "t = d @ '' '' @ f @ '' Ride''"
      with d that [of d f] words_nonempty show thesis by (simp add: list_all_iff)
    next
      fix s assume "s \<in> set xertSpecificities" "t = d @ '' '' @ s @ '' '' @ f @ '' Ride''"
      with d that [of d "s @ '' '' @ f"] words_nonempty show thesis
        by (simp add: list_all_iff str_fields_append_blank)
    qed
  qed
  with words_nonempty have "3 \<le> length (str_fields t)"
    by (simp add: list_all_iff three_words del: append.simps)
  moreover have "suffix '' Ride'' t" using t by (simp add: suffix_def)
  moreover have "xertDifficultyPrefix t"
    using t by (auto simp: xertDifficultyPrefix_def list_ex_iff intro!: bexI [of _ d])
  ultimately show ?thesis by (simp add: hasXertShape_def Let_def)
qed

section \<open>Properties\<close>

definition evening_ride :: Activity where
  "evening_ride = \<lparr>Name = ''Evening Ride '', Description = [], SportType = ''Ride'', Trainer = False,
     Commute = False, DistanceMeters = 21000, MovingTimeSeconds = 1200, Start = None, End = None\<rparr>"

lemma evening_ride_default: "IsDefaultTitle ''Evening Ride ''" "trim_space ''Evening Ride '' = ''Evening Ride''"
  by (simp_all add: IsDefaultTitle_def trim_space_def is_space_def bytes_of_def buildDefaultTitles_def
      englishDayparts_def englishActivities_def)

lemma evening_ride_classified: "classified evening_ride"
  by (simp add: classified_def evening_ride_def neverNamedSportTypes_def whoopMarker_def)

text \<open>A title nobody recognises is never handed to a naming path: whenever \<^verbatim>\<open>Classify\<close> decides
  on any action but a skip, the current title is a Strava default or a recognised machine title,
  the sport type is one that is named at all, and the decision does not claim a human title.\<close>

theorem Classify_only_renamable:
  assumes "ActionOf (Classify a cfg) \<noteq> ActionSkip"
  shows "renamable (MachineTitlesOf cfg) (Name a) \<and> classified a \<and>
    \<not> HumanTitled (Classify a cfg) \<and> \<not> Provisional (Classify a cfg)"
proof -
  have r: "renamable (MachineTitlesOf cfg) (Name a)" and c: "classified a"
    using assms Classify_not_renamable Classify_unclassified by blast+
  moreover from r have "\<not> HumanTitled (Classify a cfg)" by (simp add: Classify_HumanTitled)
  moreover have "\<not> Provisional (Classify a cfg)"
    using assms Classify_renamable [OF c r] by auto
  ultimately show ?thesis by blast
qed

lemma evening_ride_llm: "ActionOf (Classify evening_ride DefaultConfig) = ActionLLM"
  using evening_ride_classified evening_ride_default
  by (simp add: Classify_renamable renamable_def classifyTier_def evening_ride_def rideSportTypes_def
      commuteDirection_def DefaultConfig_def withDefaults_def meetsSportThresholds_def Let_def
      defaultSportMinDistanceMeters_def defaultSportMinMovingTimeSeconds_def defaultToWorkTitle_def
      defaultToHomeTitle_def)

lemma Classify_only_renamable_witness:
  "renamable (MachineTitlesOf DefaultConfig) ''Evening Ride ''"
proof -
  have "ActionOf (Classify evening_ride DefaultConfig) \<noteq> ActionSkip" using evening_ride_llm by simp
  from Classify_only_renamable [OF this] show ?thesis by (simp add: evening_ride_def)
qed

text \<open>The full naming pipeline is entered exactly for an outdoor ride of a named sport type,
  not from Whoop, not flagged as a commute, whose title may be replaced and is neither configured
  commute title, and which reaches one of the two thresholds (the shipped ones where the
  configuration leaves them unset).\<close>

theorem Classify_llm_iff:
  "ActionOf (Classify a cfg) = ActionLLM \<longleftrightarrow>
     classified a \<and> SportType a \<in> set rideSportTypes \<and> \<not> Trainer a \<and> \<not> Commute a \<and>
     renamable (MachineTitlesOf cfg) (Name a) \<and>
     \<not> (ToWorkTitle cfg \<noteq> [] \<and> trim_space (Name a) = ToWorkTitle cfg) \<and>
     \<not> (ToHomeTitle cfg \<noteq> [] \<and> trim_space (Name a) = ToHomeTitle cfg) \<and>
     (DistanceMeters a \<ge> (if SportMinDistanceMeters cfg \<le> 0 then 15000 else SportMinDistanceMeters cfg) \<or>
      MovingTimeSeconds a \<ge> (if SportMinMovingTimeSeconds cfg \<le> 0 then 2700 else SportMinMovingTimeSeconds cfg))"
  (is "?l \<longleftrightarrow> ?r")
proof (cases "classified a \<and> renamable (MachineTitlesOf cfg) (Name a)")
  case False
  then have "ActionOf (Classify a cfg) = ActionSkip"
    using Classify_not_renamable Classify_unclassified by blast
  with False show ?thesis by auto
next
  case True
  have thresholds: "meetsSportThresholds a (withDefaults cfg) \<longleftrightarrow>
     (DistanceMeters a \<ge> (if SportMinDistanceMeters cfg \<le> 0 then 15000 else SportMinDistanceMeters cfg) \<or>
      MovingTimeSeconds a \<ge> (if SportMinMovingTimeSeconds cfg \<le> 0 then 2700 else SportMinMovingTimeSeconds cfg))"
    by (simp add: meetsSportThresholds_def withDefaults_def defaultSportMinDistanceMeters_def
        defaultSportMinMovingTimeSeconds_def Let_def)
  have "?l \<longleftrightarrow> fst (classifyTier a (withDefaults cfg)) = TierSportRide"
    using True by (auto simp: Classify_renamable split: Tier.splits if_splits)
  then show ?thesis
    unfolding classifyTier_sport thresholds [symmetric]
    using True commuteDirection_sport [of a "withDefaults cfg"] by auto
qed

text \<open>A provisional decision is one the commute flag changes: a ride left alone below the
  thresholds becomes an errand to be named as soon as the flag is set, unless errands are opted
  out of. This is what makes re-checking such a ride worthwhile.\<close>

theorem provisional_becomes_errand:
  assumes "Provisional (Classify a cfg)" and "\<not> LeaveErrandsUnnamed cfg"
  shows "\<not> Commute a \<and> ActionOf (Classify a cfg) = ActionSkip \<and>
    ActionOf (Classify (a\<lparr>Commute := True\<rparr>) cfg) = ActionErrandTemplate"
proof -
  from assms(1) have c: "classified a" using Classify_unclassified by blast
  from assms(1) have r: "renamable (MachineTitlesOf cfg) (Name a)"
    using c by (auto simp: Classify_def classified_def Let_def split: prod.splits if_splits)
  from assms(1) c r have tier: "fst (classifyTier a (withDefaults cfg)) \<in> {TierNone, TierSkip}"
    and p: "provisional a" by (simp_all add: Classify_renamable)
  then have ride: "SportType a \<in> set rideSportTypes" by (auto simp: provisional_def split: if_splits)
  with tier have "\<not> Commute a"
    by (auto simp: classifyTier_def rideSportTypes_def split: option.splits if_splits)
  have "commuteDirection (a\<lparr>Commute := True\<rparr>) (withDefaults cfg) = commuteDirection a (withDefaults cfg)"
    by (simp add: commuteDirection_def meetsSportThresholds_def Let_def)
  with tier ride have "fst (classifyTier (a\<lparr>Commute := True\<rparr>) (withDefaults cfg)) = TierErrand"
    by (auto simp: classifyTier_def rideSportTypes_def split: option.splits if_splits)
  moreover have "classified (a\<lparr>Commute := True\<rparr>)" using c by (simp add: classified_def)
  ultimately have "ActionOf (Classify (a\<lparr>Commute := True\<rparr>) cfg) = ActionErrandTemplate"
    using r assms(2) by (simp add: Classify_renamable)
  moreover have "ActionOf (Classify a cfg) = ActionSkip"
    using tier c r by (auto simp: Classify_renamable)
  ultimately show ?thesis using \<open>\<not> Commute a\<close> by blast
qed

lemma provisional_becomes_errand_witness:
  "\<not> Commute (evening_ride\<lparr>DistanceMeters := 900\<rparr>)"
proof -
  have "Provisional (Classify (evening_ride\<lparr>DistanceMeters := 900\<rparr>) DefaultConfig)"
    using evening_ride_classified evening_ride_default
    by (simp add: Classify_renamable classified_def renamable_def classifyTier_def evening_ride_def
        rideSportTypes_def commuteDirection_def inFence_def DefaultConfig_def withDefaults_def
        meetsSportThresholds_def Let_def provisional_def defaultSportMinDistanceMeters_def
        defaultSportMinMovingTimeSeconds_def defaultToWorkTitle_def defaultToHomeTitle_def)
  moreover have "\<not> LeaveErrandsUnnamed DefaultConfig" by (simp add: DefaultConfig_def)
  ultimately show ?thesis by (rule provisional_becomes_errand [THEN conjunct1])
qed

text \<open>C27: The shipped machine-title pattern accepts exactly the titles of the published
  construction, a difficulty, an optional specificity and a focus name in front of "Ride", and
  every title it accepts is also a tool's title, so a title that may be overwritten is never
  recorded as the athlete's own style.\<close>

theorem shipped_pattern_exact:
  "(Matches DefaultMachineTitles t \<longleftrightarrow> vocabulary_title (trim_space t)) \<and>
   (Matches DefaultMachineTitles t \<and> IsToolTitle t \<longleftrightarrow> Matches DefaultMachineTitles t)"
proof -
  have "vocabulary_title [] = False" by (auto simp: vocabulary_title_def)
  then have m: "Matches DefaultMachineTitles t \<longleftrightarrow> vocabulary_title (trim_space t)"
    by (auto simp: Matches_def DefaultMachineTitles_def full_match_Xert Let_def)
  then show ?thesis
    unfolding m IsToolTitle_def Let_def using vocabulary_title_shape by blast
qed

end
