(* ===== verification/Attribution.thy ===== *)
theory Attribution
  imports GoRuntime
begin

text \<open>
  \<^verbatim>\<open>internal/naming/attribution.go\<close>: the attribution line that is prepended to a description and
  taken out again. Descriptions are byte lists and indices are byte offsets, as in the code;
  the search loop is the recursion \<open>remove_from\<close> on its variable \<^verbatim>\<open>searched\<close>.
\<close>

definition sentinel :: string where
  "sentinel = ''https://github.com/jkreileder/titelheld''"

text \<open>The dash of the line is U+2014, three bytes of UTF-8.\<close>

definition attribution_line :: string where
  "attribution_line = ''Title by titelheld '' @ [CHR 0xE2, CHR 0x80, CHR 0x94] @ '' '' @ sentinel"

definition HasAttribution :: "string \<Rightarrow> bool" where
  "HasAttribution description = str_contains description sentinel"

definition newline :: string where
  "newline = [CHR 0x0A]"

definition crlf :: string where
  "crlf = [CHR 0x0D, CHR 0x0A]"

definition Describe :: "string \<Rightarrow> bool \<Rightarrow> string \<times> bool" where
  "Describe existing enabled =
     (if \<not> enabled \<or> HasAttribution existing then (existing, False)
      else if existing = [] then (attribution_line, True)
      else (attribution_line @ newline @ newline @ existing, True))"

definition startsLine :: "string \<Rightarrow> nat \<Rightarrow> bool" where
  "startsLine s index \<longleftrightarrow> index = 0 \<or> s ! (index - 1) = CHR 0x0A"

definition endsLine :: "string \<Rightarrow> nat \<Rightarrow> bool" where
  "endsLine s index \<longleftrightarrow> index = length s \<or> s ! index = CHR 0x0A \<or> prefix crlf (drop index s)"

definition cutTerminator :: "string \<Rightarrow> string" where
  "cutTerminator s =
     (case cut_prefix crlf s of
        Some rest \<Rightarrow> rest
      | None \<Rightarrow> (case cut_prefix newline s of Some rest \<Rightarrow> rest | None \<Rightarrow> s))"

lemma attribution_length: "1 \<le> length attribution_line"
  by (simp add: attribution_line_def)

function remove_from :: "string \<Rightarrow> nat \<Rightarrow> string \<times> bool" where
  "remove_from description searched =
     (case str_index (drop searched description) attribution_line of
        None \<Rightarrow> (description, False)
      | Some offset \<Rightarrow>
          let start = searched + offset; stop = start + length attribution_line in
          if \<not> startsLine description start \<or> \<not> endsLine description stop
          then remove_from description stop
          else (take start description @ cutTerminator (cutTerminator (drop stop description)), True))"
  by auto
termination
proof (relation "measure (\<lambda>(d, s). length d - s)", goal_cases)
  case (2 d s offset start stop)
  then have "offset + length attribution_line \<le> length d - s"
    using str_index_Some [of "drop s d" attribution_line offset] by simp
  with attribution_length have "1 \<le> length d - s" "1 \<le> offset + length attribution_line"
    by linarith+
  with 2 show ?case by (simp add: Let_def)
qed simp

declare remove_from.simps [simp del]

definition RemoveAttribution :: "string \<Rightarrow> string \<times> bool" where
  "RemoveAttribution description = remove_from description 0"

section \<open>Lemmas\<close>

definition occurs_at :: "string \<Rightarrow> nat \<Rightarrow> bool" where
  "occurs_at d i \<longleftrightarrow> prefix attribution_line (drop i d)"

definition whole_line :: "string \<Rightarrow> nat \<Rightarrow> bool" where
  "whole_line d i \<longleftrightarrow> occurs_at d i \<and> startsLine d i \<and> endsLine d (i + length attribution_line)"

lemma no_second_T: "0 < k \<Longrightarrow> k < length attribution_line \<Longrightarrow> attribution_line ! k \<noteq> CHR ''T''"
proof -
  assume k: "0 < k" "k < length attribution_line"
  then have "attribution_line ! k = tl attribution_line ! (k - 1)" by (simp add: nth_tl)
  also have "\<dots> \<in> set (tl attribution_line)" using k by (intro nth_mem) simp
  finally have "attribution_line ! k \<in> set (tl attribution_line)" .
  moreover have "CHR ''T'' \<notin> set (tl attribution_line)"
    by (simp add: attribution_line_def sentinel_def)
  ultimately show ?thesis by metis
qed

lemma occurrences_apart:
  assumes "occurs_at d i" "occurs_at d j" "i < j"
  shows "i + length attribution_line \<le> j"
proof (rule ccontr)
  assume near: "\<not> ?thesis"
  let ?k = "j - i"
  obtain zs where i: "drop i d = attribution_line @ zs" using assms(1) by (auto simp: occurs_at_def prefix_def)
  obtain ys where j: "drop j d = attribution_line @ ys" using assms(2) by (auto simp: occurs_at_def prefix_def)
  have "drop j d = drop ?k (drop i d)" using assms(3) by (simp add: drop_drop)
  then have "hd (drop j d) = attribution_line ! ?k"
    using near assms(3) by (simp add: i hd_drop_conv_nth nth_append)
  moreover have "hd (drop j d) = CHR ''T''" unfolding j by (simp add: attribution_line_def)
  moreover have "0 < ?k" "?k < length attribution_line" using near assms(3) by linarith+
  ultimately show False using no_second_T [of ?k] by metis
qed

lemma search_Some:
  assumes "str_index (drop s d) attribution_line = Some offset"
  shows "occurs_at d (s + offset) \<and> (\<forall>j. s \<le> j \<and> j < s + offset \<longrightarrow> \<not> occurs_at d j)"
proof -
  note found = str_index_Some [OF assms]
  have "occurs_at d (s + offset)"
    using found by (metis (no_types) drop_drop add.commute occurs_at_def take_is_prefix)
  moreover have "\<not> occurs_at d j" if "s \<le> j" "j < s + offset" for j
    using found that by (auto simp: occurs_at_def dest!: spec [of _ "j - s"])
  ultimately show ?thesis by blast
qed

lemma search_None:
  assumes "str_index (drop s d) attribution_line = None" "s \<le> j"
  shows "\<not> occurs_at d j"
proof
  assume "occurs_at d j"
  then obtain zs where "drop (j - s) (drop s d) = attribution_line @ zs"
    using assms(2) by (auto simp: occurs_at_def prefix_def)
  then have "str_contains (drop s d) attribution_line"
    by (metis append_take_drop_id str_contains_append)
  with assms(1) show False by (simp add: str_index_None)
qed

lemma remove_from_none:
  "\<forall>i \<ge> s. \<not> whole_line d i \<Longrightarrow> remove_from d s = (d, False)"
proof (induction d s rule: remove_from.induct)
  case (1 d s)
  show ?case
  proof (cases "str_index (drop s d) attribution_line")
    case (Some offset)
    with search_Some [OF Some] 1(2) have "\<not> startsLine d (s + offset) \<or>
      \<not> endsLine d (s + offset + length attribution_line)" by (auto simp: whole_line_def)
    with 1 Some show ?thesis by (subst remove_from.simps) simp
  qed (subst remove_from.simps, simp)
qed

lemma remove_from_some:
  "s \<le> i \<Longrightarrow> whole_line d i \<Longrightarrow> \<forall>j. s \<le> j \<and> j < i \<longrightarrow> \<not> whole_line d j \<Longrightarrow> remove_from d s =
    (take i d @ cutTerminator (cutTerminator (drop (i + length attribution_line) d)), True)"
proof (induction d s rule: remove_from.induct)
  case (1 d s)
  have occ: "occurs_at d i" using 1(3) by (simp add: whole_line_def)
  obtain offset where Some: "str_index (drop s d) attribution_line = Some offset"
    using search_None [OF _ 1(2)] occ by (cases "str_index (drop s d) attribution_line") auto
  note found = search_Some [OF Some]
  have le: "s + offset \<le> i" using found occ 1(2) not_le by blast
  show ?case
  proof (cases "s + offset = i")
    case True
    with 1(3) Some show ?thesis by (subst remove_from.simps) (simp add: whole_line_def)
  next
    case False
    with le have "s + offset < i" by simp
    with found have "s + offset + length attribution_line \<le> i" using occurrences_apart occ by blast
    moreover have "\<not> whole_line d (s + offset)" using 1(4) \<open>s + offset < i\<close> by simp
    then have stepped: "\<not> startsLine d (s + offset) \<or> \<not> endsLine d (s + offset + length attribution_line)"
      using found by (simp add: whole_line_def)
    ultimately have "remove_from d (s + offset + length attribution_line) =
      (take i d @ cutTerminator (cutTerminator (drop (i + length attribution_line) d)), True)"
      using 1(1) [OF Some refl refl] 1(3,4) by simp
    with stepped Some show ?thesis by (subst remove_from.simps) simp
  qed
qed

lemma cutTerminator_newline [simp]: "cutTerminator (newline @ s) = s"
  by (simp add: cutTerminator_def cut_prefix_def newline_def crlf_def)

lemma cutTerminator_Nil [simp]: "cutTerminator [] = []"
  by (simp add: cutTerminator_def cut_prefix_def newline_def crlf_def)

lemma cutTerminator_cases: "\<exists>t \<in> {[], newline, crlf}. s = t @ cutTerminator s"
proof -
  consider r where "s = crlf @ r" | r where "s = newline @ r" "\<not> prefix crlf s" | "\<not> prefix crlf s" "\<not> prefix newline s"
    by (auto simp: prefix_def)
  then show ?thesis by cases (simp_all add: cutTerminator_def cut_prefix_def)
qed

lemma HasAttribution_line [simp]: "HasAttribution (attribution_line @ s)"
  unfolding HasAttribution_def attribution_line_def append_assoc
  by (metis append_assoc str_contains_append)

section \<open>Properties\<close>

text \<open>C28: Removing the attribution line undoes adding it: whatever description \<^verbatim>\<open>Describe\<close> was given,
  \<^verbatim>\<open>RemoveAttribution\<close> gives it back byte for byte from what \<^verbatim>\<open>Describe\<close> produced, and a
  described description carries the line and is never described twice.\<close>

theorem describe_remove_roundtrip:
  assumes "Describe e enabled = (d, True)"
  shows "RemoveAttribution d = (e, True) \<and> HasAttribution d \<and> Describe d enabled = (d, False)"
proof -
  let ?n = "length attribution_line"
  have d: "d = (if e = [] then attribution_line else attribution_line @ newline @ newline @ e)"
    using assms by (auto simp: Describe_def split: if_splits)
  have has: "HasAttribution d" using HasAttribution_line [of "[]"] by (auto simp: d)
  have "whole_line d 0"
    by (auto simp: d whole_line_def occurs_at_def startsLine_def endsLine_def nth_append newline_def)
  then have "RemoveAttribution d = (cutTerminator (cutTerminator (drop ?n d)), True)"
    using remove_from_some [of 0 0 d] by (simp add: RemoveAttribution_def)
  also have "cutTerminator (cutTerminator (drop ?n d)) = e" by (simp add: d)
  finally show ?thesis using has by (simp add: Describe_def)
qed

lemma describe_remove_roundtrip_witness:
  "RemoveAttribution (attribution_line @ newline @ newline @ ''Strain'') = (''Strain'', True)"
proof -
  have "Describe ''Strain'' True = (attribution_line @ newline @ newline @ ''Strain'', True)"
    by (simp add: Describe_def HasAttribution_def sentinel_def)
  from describe_remove_roundtrip [OF this] show ?thesis by blast
qed

text \<open>\<^verbatim>\<open>RemoveAttribution\<close> takes out exactly the first occurrence of the line that stands on a line
  of its own, together with at most two line terminators behind it, and leaves every other byte;
  a description without such an occurrence is returned unchanged, even when the line stands
  inside a sentence.\<close>

theorem remove_whole_line_only:
  "(case RemoveAttribution d of
      (d', False) \<Rightarrow> d' = d \<and> (\<nexists>i. whole_line d i)
    | (d', True) \<Rightarrow> (\<exists>i t u rest. whole_line d i \<and> i = (LEAST j. whole_line d j) \<and>
        {t, u} \<subseteq> {[], newline, crlf} \<and>
        d = take i d @ attribution_line @ t @ u @ rest \<and> d' = take i d @ rest))"
proof (cases "\<exists>i. whole_line d i")
  case False
  then show ?thesis using remove_from_none [of 0 d] by (simp add: RemoveAttribution_def)
next
  case True
  define i where "i = (LEAST i. whole_line d i)"
  have i: "whole_line d i" unfolding i_def by (rule LeastI_ex [OF True])
  have first: "\<forall>j < i. \<not> whole_line d j" unfolding i_def using not_less_Least by blast
  let ?after = "drop (i + length attribution_line) d"
  obtain t where t: "t \<in> {[], newline, crlf}" "?after = t @ cutTerminator ?after"
    using cutTerminator_cases by blast
  obtain u where u: "u \<in> {[], newline, crlf}"
    "cutTerminator ?after = u @ cutTerminator (cutTerminator ?after)"
    using cutTerminator_cases by blast
  obtain zs where "drop i d = attribution_line @ zs"
    using i by (auto simp: whole_line_def occurs_at_def prefix_def)
  moreover from this have "zs = ?after" by (metis append_eq_conv_conj drop_drop add.commute)
  ultimately have split: "d = take i d @ attribution_line @ t @ u @ cutTerminator (cutTerminator ?after)"
    using t(2) u(2) by (metis append_take_drop_id)
  have tu: "{t, u} \<subseteq> {[], newline, crlf}" using t(1) u(1) by blast
  have cut: "\<exists>k t u rest. whole_line d k \<and> k = (LEAST j. whole_line d j) \<and>
      {t, u} \<subseteq> {[], newline, crlf} \<and> d = take k d @ attribution_line @ t @ u @ rest \<and>
      take i d @ cutTerminator (cutTerminator ?after) = take k d @ rest"
    by (rule exI [of _ i], rule exI [of _ t], rule exI [of _ u],
        rule exI [of _ "cutTerminator (cutTerminator ?after)"])
      (intro conjI i i_def split tu refl)
  have "RemoveAttribution d = (take i d @ cutTerminator (cutTerminator ?after), True)"
    unfolding RemoveAttribution_def using remove_from_some [of 0 i d] i first by blast
  then show ?thesis by (simp only: prod.case bool.case) (rule cut)
qed

end
