(* ===== verification/Titles.thy ===== *)
theory Titles
  imports GoRuntime
begin

text \<open>
  Package \<^verbatim>\<open>internal/naming\<close>, what a candidate title has to pass: the validator (naming.go), the
  parsing of a model's response (response.go), the repeat check (repeats.go) and the language
  guess (language.go). \<^verbatim>\<open>encoding/json\<close> is a parameter: it decodes the first value of a body to
  its two fields, with the offset where that value ended. The character tables are the
  parameter \<open>U\<close>. An error is its sentinel; the texts wrapped around it are not modelled.
\<close>

section \<open>naming.go\<close>

definition MaxTitleRunes :: nat where
  "MaxTitleRunes = 60"

type_synonym Language = string

definition German :: Language where "German = ''de''"

definition English :: Language where "English = ''en''"

definition Language_Valid :: "Language \<Rightarrow> bool" where
  "Language_Valid l \<longleftrightarrow> l = German \<or> l = English"

record Title =
  TitleText :: string
  TitleLanguage :: Language

datatype naming_error =
  ErrNoTitle | ErrTitleTooLong | ErrTitleBanned | ErrTitleShape | ErrBadLanguage
| ErrTitleClaimsEntry | ErrTitleCopiesSegment | ErrTitleRepeatsKnown | ErrTitleFiguresUnstated
| ErrNotJSON

definition DefaultBannedWords :: "string list" where
  "DefaultBannedWords = [''Epic'', ''Crushing'', ''Beast'']"

type_synonym Validator = "string list"

definition NewValidator :: "tables \<Rightarrow> string list \<Rightarrow> Validator" where
  "NewValidator U banned =
     map (to_lower U) (filter (\<lambda>w. w \<noteq> []) (map trim_space banned))"

definition isEmojiPart :: "tables \<Rightarrow> rune \<Rightarrow> bool" where
  "isEmojiPart U r =
     (if r = 0xFE0F \<or> r = 0xFE0E \<or> r = 0x200D \<or> r = 0x20E3 then True
      else if 0x1F3FB \<le> r \<and> r \<le> 0x1F3FF then True
      else if r = 0xB0 then False
      else r > 127 \<and> in_So U r)"

definition quotation :: "rune \<Rightarrow> bool" where
  "quotation r \<longleftrightarrow> r = 34 \<or> r = 39 \<or> r = 0x201C \<or> r = 0x201D \<or> r = 0x201E \<or> r = 0x2018 \<or> r = 0x2019"

definition checkShape :: "tables \<Rightarrow> string \<Rightarrow> bool" where
  "checkShape U s = list_all (\<lambda>r. \<not> (quotation r \<or> is_control r \<or> isEmojiPart U r)) (runes s)"

definition Validate :: "tables \<Rightarrow> Validator \<Rightarrow> string \<Rightarrow> Language \<Rightarrow> naming_error + Title" where
  "Validate U v candidate language =
     (let s = squeeze candidate in
      if s = [] then Inl ErrNoTitle
      else if \<not> Language_Valid language then Inl ErrBadLanguage
      else if length (runes s) > MaxTitleRunes then Inl ErrTitleTooLong
      else if \<not> checkShape U s then Inl ErrTitleShape
      else if list_ex (str_contains (to_lower U s)) v then Inl ErrTitleBanned
      else Inr \<lparr>TitleText = s, TitleLanguage = language\<rparr>)"

section \<open>response.go\<close>

type_synonym json_decoder = "string \<Rightarrow> ((string \<times> string) \<times> nat) option"

definition fence :: string where
  "fence = ''```''"

definition cut_last :: "string \<Rightarrow> string \<Rightarrow> (string \<times> string) option" where
  "cut_last s sep =
     (case str_index (rev s) (rev sep) of
        None \<Rightarrow> None
      | Some i \<Rightarrow> Some (take (length s - i - length sep) s, drop (length s - i) s))"

definition unfence :: "string \<Rightarrow> string \<times> string" where
  "unfence body0 =
     (if \<not> prefix fence body0 then (body0, [])
      else let body1 = drop (length fence) body0;
               body = (case str_index body1 [CHR 0x0A] of
                         Some newline \<Rightarrow>
                           if \<not> str_contains (trim_space (take newline body1)) ''{''
                           then drop (newline + 1) body1 else body1
                       | None \<Rightarrow> body1)
           in case cut_last body fence of
                Some (front, rest) \<Rightarrow> (trim_space front, trim_space rest)
              | None \<Rightarrow> (trim_space body, []))"

definition truncate_limit :: nat where
  "truncate_limit = 300"

definition truncate_text :: "string \<Rightarrow> string" where
  "truncate_text s =
     (if length (runes s) \<le> truncate_limit then s
      else string_of_runes (take truncate_limit (runes s)) @ [CHR 0xE2, CHR 0x80, CHR 0xA6])"

definition trailing :: "string \<Rightarrow> nat \<Rightarrow> string \<Rightarrow> string" where
  "trailing body offset afterFence =
     truncate_text (trim_space (trim_space (drop offset body) @ [CHR 0x0A] @ afterFence))"

definition ParseAndValidate ::
  "tables \<Rightarrow> json_decoder \<Rightarrow> Validator \<Rightarrow> string \<Rightarrow> (naming_error + Title) \<times> string" where
  "ParseAndValidate U decode v raw =
     (case unfence (trim_space raw) of (body, afterFence) \<Rightarrow>
        if body = [] then (Inl ErrNoTitle, [])
        else case decode body of
          None \<Rightarrow> (Inl ErrNotJSON, [])
        | Some ((title, language), offset) \<Rightarrow>
            (Validate U v title (to_lower U (trim_space language)), trailing body offset afterFence))"

section \<open>repeats.go\<close>

definition repeat_rune :: "tables \<Rightarrow> rune \<Rightarrow> rune option" where
  "repeat_rune U r =
     (if isEmojiPart U r \<or> in_Mn U r \<or> in_Cf U r then None
      else if word_rune U r then Some r else Some 32)"

definition normalizeForRepeat :: "tables \<Rightarrow> string \<Rightarrow> string" where
  "normalizeForRepeat U s = squeeze (map_runes (repeat_rune U) (case_fold U (nfkc U s)))"

definition RepeatsTitle :: "tables \<Rightarrow> string \<Rightarrow> string list \<Rightarrow> string option" where
  "RepeatsTitle U candidate titles =
     (let normalized = normalizeForRepeat U candidate in
      if normalized = [] then None
      else find (\<lambda>t. let known = normalizeForRepeat U t in known \<noteq> [] \<and> normalized = known) titles)"

section \<open>language.go\<close>

definition germanMarkers :: "string list" where
  "germanMarkers = [''der'', ''die'', ''das'', ''den'', ''dem'', ''des'', ''ein'', ''eine'', ''einen'',
     ''einem'', ''einer'', ''und'', ''oder'', ''aber'', ''nicht'', ''kein'', ''keine'',
     ''im'', ''am'', ''um'', ''zum'', ''zur'', ''vom'', ''beim'', ''auf'', ''aus'', ''bei'',
     ''mit'', ''nach'', ''von'', ''vor'', [CHR 0xC3] @ [CHR 0xBC] @ ''ber'', ''unter'',
     ''durch'', ''gegen'', ''ohne'', ''f'' @ [CHR 0xC3] @ [CHR 0xBC] @ ''r'', ''ist'',
     ''war'', ''sind'', ''wird'', ''hat'', ''habe'', ''ich'', ''mein'', ''meine'', ''sich'',
     ''noch'', ''schon'', ''heute'', ''gestern'', ''morgen'', ''wieder'', ''endlich'',
     ''runde'', ''fahrt'', ''tour'', ''berg'', ''wald'', ''see'', ''regen'', ''wind'',
     ''sonne'', ''kalt'', ''warm'', ''schnell'', ''hause'', ''arbeit'', ''stadt'',
     ''abend'', ''nacht'']"

definition englishMarkers :: "string list" where
  "englishMarkers = [''the'', ''a'', ''an'', ''and'', ''or'', ''but'', ''not'', ''in'', ''on'', ''at'',
     ''to'', ''from'', ''with'', ''without'', ''over'', ''under'', ''through'', ''against'',
     ''into'', ''for'', ''is'', ''was'', ''are'', ''were'', ''has'', ''have'', ''had'',
     ''my'', ''of'', ''this'', ''that'', ''some'', ''every'', ''ride'', ''loop'', ''climb'',
     ''hills'', ''lap'', ''laps'', ''tour'', ''see'', ''rain'', ''wind'', ''sun'', ''cold'',
     ''warm'', ''fast'', ''home'', ''work'', ''morning'', ''evening'', ''night'']"

definition umlaut :: "rune \<Rightarrow> bool" where
  "umlaut r \<longleftrightarrow> r \<in> {0xE4, 0xF6, 0xFC, 0xC4, 0xD6, 0xDC, 0xDF}"

definition GuessLanguage :: "tables \<Rightarrow> string \<Rightarrow> Language" where
  "GuessLanguage U title =
     (let ws = fields_func (\<lambda>r. \<not> is_letter U r) (to_lower U title);
          german = 2 * length (filter umlaut (runes title))
                   + length (filter (\<lambda>w. w \<in> set germanMarkers) ws);
          english = length (filter (\<lambda>w. w \<in> set englishMarkers) ws)
      in if english > german then English else German)"

section \<open>Lemmas\<close>

lemma Validate_Inr:
  "Validate U v c l = Inr t \<longleftrightarrow>
     squeeze c \<noteq> [] \<and> Language_Valid l \<and> length (runes (squeeze c)) \<le> MaxTitleRunes
     \<and> checkShape U (squeeze c) \<and> \<not> list_ex (str_contains (to_lower U (squeeze c))) v
     \<and> t = \<lparr>TitleText = squeeze c, TitleLanguage = l\<rparr>"
  by (auto simp: Validate_def Let_def)

lemma Validate_again:
  "Validate U v c l = Inr t \<Longrightarrow> Validate U v (TitleText t) (TitleLanguage t) = Inr t"
  by (auto simp: Validate_Inr)

lemma trim_space_end:
  "trim_space b = b \<Longrightarrow> b \<noteq> [] \<Longrightarrow> byte d < 128 \<Longrightarrow> is_space (byte d) \<Longrightarrow> trim_space (b @ [d]) = b"
proof -
  assume b: "trim_space b = b" "b \<noteq> []" and d: "byte d < 128" "is_space (byte d)"
  let ?p = "is_space \<circ> fst" and ?s = "segs b"
  have segs: "segs (b @ [d]) = ?s @ [(byte d, [d])]" using d by (simp add: segs_append_ascii)
  have "dropWhile ?p ?s \<noteq> []"
  proof
    assume none: "dropWhile ?p ?s = []"
    have "trim_space b = []" unfolding trim_space_def none by simp
    with b show False by simp
  qed
  then obtain x where x: "x \<in> set ?s" "\<not> ?p x" by auto
  then have "dropWhile ?p (?s @ [(byte d, [d])]) = dropWhile ?p ?s @ [(byte d, [d])]"
    by (rule dropWhile_append1)
  then show ?thesis using b(1) d by (simp add: trim_space_def segs)
qed

lemma cut_last_end: "cut_last (b @ sep) sep = Some (b, [])"
proof -
  have "prefix t (t @ s) \<Longrightarrow> str_index (t @ s) t = Some 0" for s t :: string by (cases "t @ s") auto
  then have "str_index (rev sep @ rev b) (rev sep) = Some 0" by simp
  then show ?thesis by (simp add: cut_last_def)
qed

lemma find_Some_iff2: "find P xs = Some x \<Longrightarrow> x \<in> set xs \<and> P x"
  by (auto simp: find_Some_iff)

lemma RepeatsTitle_None:
  "RepeatsTitle U c ts = None \<longleftrightarrow>
     normalizeForRepeat U c = [] \<or> normalizeForRepeat U c \<notin> normalizeForRepeat U ` set ts"
  by (auto simp: RepeatsTitle_def Let_def find_None_iff)

lemma trim_space_ends:
  assumes "byte c < 128" "\<not> is_space (byte c)" "byte d < 128" "\<not> is_space (byte d)"
  shows "trim_space (c # s @ [d]) = c # s @ [d]"
proof -
  have "segs (c # s @ [d]) = (byte c, [c]) # segs s @ [(byte d, [d])]"
    using assms by (simp add: segs_append_ascii)
  then show ?thesis using assms by (simp add: trim_space_def)
qed

lemma trim_space_Nil [simp]: "trim_space [] = []"
  by (simp add: trim_space_def)

lemma unfence_fenced:
  assumes "trim_space b = b" "b \<noteq> []"
  shows "unfence (fence @ ''json'' @ [CHR 0x0A] @ b @ [CHR 0x0A] @ fence) = (b, [])"
proof -
  define rest where "rest = ''json'' @ [CHR 0x0A] @ b @ [CHR 0x0A] @ fence"
  have "str_index rest [CHR 0x0A] = Some 4" by (simp add: rest_def)
  moreover have "\<not> str_contains (trim_space (take 4 rest)) ''{''"
    by (simp add: rest_def trim_space_def is_space_def bytes_of_def)
  moreover have "drop (4 + 1) rest = (b @ [CHR 0x0A]) @ fence" by (simp add: rest_def)
  moreover have "trim_space (b @ [CHR 0x0A]) = b" using assms by (intro trim_space_end) simp_all
  moreover have "prefix fence (fence @ rest)" "drop (length fence) (fence @ rest) = rest" by simp_all
  ultimately have "unfence (fence @ rest) = (b, [])"
    unfolding unfence_def Let_def by (simp only: option.case if_True not_True_eq_False if_False
        cut_last_end prod.case trim_space_Nil not_False_eq_True)
  then show ?thesis by (simp add: rest_def)
qed

section \<open>Properties\<close>

text \<open>C29: A validated title is one the rules allow, whatever was proposed: its white space is single
  blanks between the words that were proposed, it is not empty and has at most 60 runes, it
  holds no quotation mark, control character or emoji part, its lower-case form contains no
  banned word, its language is one of the two, and validating it again changes nothing.\<close>

theorem validate_sound:
  assumes "Validate U v c l = Inr t"
  shows "str_fields (TitleText t) = str_fields c \<and> squeeze (TitleText t) = TitleText t
    \<and> TitleText t \<noteq> [] \<and> length (runes (TitleText t)) \<le> 60
    \<and> (\<forall>r \<in> set (runes (TitleText t)). \<not> quotation r \<and> \<not> is_control r \<and> \<not> isEmojiPart U r)
    \<and> (\<forall>w \<in> set v. \<not> str_contains (to_lower U (TitleText t)) w)
    \<and> TitleLanguage t \<in> {German, English} \<and> TitleLanguage t = l
    \<and> Validate U v (TitleText t) (TitleLanguage t) = Inr t"
  using assms Validate_again [OF assms]
  by (auto simp: Validate_Inr checkShape_def list_all_iff list_ex_iff MaxTitleRunes_def
      Language_Valid_def)

lemma validate_sound_witness:
  "Validate latin1 [''epic''] ''Isar loop'' English = Inr \<lparr>TitleText = ''Isar loop'', TitleLanguage = English\<rparr>"
proof -
  have words: "str_fields '' Isar  loop'' = [''Isar'', ''loop'']"
    by (simp add: str_fields_def fields_func_def fields_by_def is_space_def bytes_of_def)
  then have "Validate latin1 [''epic''] '' Isar  loop'' English =
      Inr \<lparr>TitleText = ''Isar loop'', TitleLanguage = English\<rparr>"
    by (simp add: Validate_Inr squeeze_def Language_Valid_def MaxTitleRunes_def checkShape_def
        quotation_def is_control_def isEmojiPart_def to_lower_def map_runes_def latin1_def
        latin_lower_def ascii_upper_def map_filter_simps char_of_def English_def)
  from validate_sound [OF this] show ?thesis by simp
qed

text \<open>Wrapping a response in a fenced block that names its language changes nothing of what is
  read from it: the title or the error, and what is reported to have followed the object.\<close>

theorem fenced_response_same:
  assumes "trim_space b = b" and "b \<noteq> []" and "\<not> prefix fence b"
  shows "ParseAndValidate U decode v (fence @ ''json'' @ [CHR 0x0A] @ b @ [CHR 0x0A] @ fence) =
    ParseAndValidate U decode v b"
proof -
  have "trim_space (CHR ''`'' # (''``json'' @ [CHR 0x0A] @ b @ [CHR 0x0A] @ ''``'') @ ''`'') =
      CHR ''`'' # (''``json'' @ [CHR 0x0A] @ b @ [CHR 0x0A] @ ''``'') @ ''`''"
    by (rule trim_space_ends) (simp_all add: is_space_def)
  then have "trim_space (fence @ ''json'' @ [CHR 0x0A] @ b @ [CHR 0x0A] @ fence) =
      fence @ ''json'' @ [CHR 0x0A] @ b @ [CHR 0x0A] @ fence" by (simp add: fence_def)
  moreover have "unfence b = (b, [])" using assms(3) by (simp add: unfence_def)
  ultimately show ?thesis
    unfolding ParseAndValidate_def using assms(1) unfence_fenced [OF assms(1,2)] by simp
qed

lemma fenced_response_same_witness:
  "ParseAndValidate latin1 (\<lambda>b. Some ((''Isar'', ''de''), length b)) []
     (fence @ ''json'' @ [CHR 0x0A] @ ''{}'' @ [CHR 0x0A] @ fence) =
   ParseAndValidate latin1 (\<lambda>b. Some ((''Isar'', ''de''), length b)) [] ''{}''"
  by (rule fenced_response_same) (simp_all add: trim_space_def is_space_def bytes_of_def fence_def)

end
