(* ===== verification/Facts.thy ===== *)
theory Facts
  imports Titles
begin

text \<open>
  \<^verbatim>\<open>internal/naming/facts.go\<close>: the allow-listed observations a description contributes. The line
  loop is the recursion \<open>parse_lines\<close> over the lines, with the index and the facts found so
  far; \<^verbatim>\<open>seen\<close> is the list of their labels.
\<close>

definition maxDescriptionBytes :: nat where "maxDescriptionBytes = 65536"

definition maxDescriptionLines :: nat where "maxDescriptionLines = 400"

definition maxFactLabelRunes :: nat where "maxFactLabelRunes = 40"

definition maxFactValueRunes :: nat where "maxFactValueRunes = 80"

definition maxFacts :: nat where "maxFacts = 24"

record Fact =
  FLabel :: string
  FValue :: string

record factPattern =
  pmatch :: string
  plabel :: string
  psource :: string

definition fact_pattern :: "string \<Rightarrow> string \<Rightarrow> string \<Rightarrow> factPattern" where
  "fact_pattern m l s = \<lparr>pmatch = m, plabel = l, psource = s\<rparr>"

definition LabelDifficulty :: string where
  "LabelDifficulty = ''Difficulty''"

definition knownFacts :: "factPattern list" where
  "knownFacts =
     [fact_pattern ''relative power'' ''Relative power'' ''Xert'',
      fact_pattern ''xss'' ''Strain (XSS)'' ''Xert'',
      fact_pattern ''difficulty'' LabelDifficulty ''Xert'',
      fact_pattern ''focus'' ''Focus'' ''Xert'',
      fact_pattern ''cda'' ''CdA'' ''myWindsock'',
      fact_pattern ''headwind'' ''Headwind'' ''myWindsock'',
      fact_pattern ''tailwind'' ''Tailwind'' ''myWindsock'',
      fact_pattern ''wind'' ''Wind'' ''myWindsock'',
      fact_pattern ''temperature'' ''Temperature'' ''myWindsock'',
      fact_pattern ''temp'' ''Temperature'' ''myWindsock'',
      fact_pattern ''vehicles'' ''Vehicles passing'' ''mybiketraffic'',
      fact_pattern ''vehicle count'' ''Vehicles passing'' ''mybiketraffic'',
      fact_pattern ''close passes'' ''Close passes'' ''mybiketraffic'']"

definition newline_char :: char where
  "newline_char = CHR 0x0A"

definition split_lines :: "string \<Rightarrow> string list" where
  "split_lines = splits_by (\<lambda>c. c = newline_char)"

definition fact_rune :: "rune \<Rightarrow> rune option" where
  "fact_rune r =
     (if r = 10 \<or> r = 13 \<or> r = 9 then Some 32
      else if r < 32 \<or> r = 127 then None
      else Some r)"

definition ellipsis :: string where
  "ellipsis = [CHR 0xE2, CHR 0x80, CHR 0xA6]"

definition sanitizeFactValue :: "string \<Rightarrow> string" where
  "sanitizeFactValue value =
     (let cleaned = squeeze (map_runes fact_rune value) in
      if length (runes cleaned) > maxFactValueRunes
      then trim_space (string_of_runes (take maxFactValueRunes (runes cleaned))) @ ellipsis
      else cleaned)"

definition trimLabelDecoration :: "tables \<Rightarrow> string \<Rightarrow> string" where
  "trimLabelDecoration U label =
     trim_left_func (\<lambda>r. is_space r \<or> is_symbol U r \<or> is_punct U r) label"

fun best_pattern :: "string \<Rightarrow> factPattern list \<Rightarrow> factPattern option \<Rightarrow> factPattern option" where
  "best_pattern rawLabel [] best = best"
| "best_pattern rawLabel (p # ps) best =
     (if \<not> prefix (pmatch p) rawLabel then best_pattern rawLabel ps best
      else if (case best of None \<Rightarrow> True | Some b \<Rightarrow> length (pmatch p) > length (pmatch b))
           then best_pattern rawLabel ps (Some p)
           else best_pattern rawLabel ps best)"

definition separator :: "char \<Rightarrow> bool" where
  "separator c \<longleftrightarrow> c = CHR '':'' \<or> c = CHR ''=''"

definition parseFactLine :: "tables \<Rightarrow> string \<Rightarrow> (string \<times> string) option" where
  "parseFactLine U line =
     (if \<not> list_ex separator line then None
      else let before_sep = takeWhile (\<lambda>c. \<not> separator c) line;
               rawLabel = to_lower U (trim_space (trimLabelDecoration U before_sep));
               rawValue = trim_space (drop (length before_sep + 1) line)
           in if rawLabel = [] \<or> rawValue = [] \<or> length (runes rawLabel) > maxFactLabelRunes then None
              else case best_pattern rawLabel knownFacts None of
                None \<Rightarrow> None
              | Some p \<Rightarrow> Some (plabel p, sanitizeFactValue rawValue))"

fun parse_lines :: "tables \<Rightarrow> string list \<Rightarrow> nat \<Rightarrow> Fact list \<Rightarrow> Fact list" where
  "parse_lines U [] index facts = facts"
| "parse_lines U (line # lines) index facts =
     (if index \<ge> maxDescriptionLines \<or> length facts \<ge> maxFacts then facts
      else case parseFactLine U line of
        None \<Rightarrow> parse_lines U lines (index + 1) facts
      | Some (label, value) \<Rightarrow>
          if label \<in> set (map FLabel facts) then parse_lines U lines (index + 1) facts
          else parse_lines U lines (index + 1) (facts @ [\<lparr>FLabel = label, FValue = value\<rparr>]))"

definition ParseFacts :: "tables \<Rightarrow> string \<Rightarrow> Fact list" where
  "ParseFacts U description =
     (if description = [] then []
      else let d = (if length description > maxDescriptionBytes
                    then take maxDescriptionBytes description else description)
           in parse_lines U (split_lines d) 0 [])"

section \<open>Lemmas\<close>

definition known_labels :: "string list" where
  "known_labels = [''Relative power'', ''Strain (XSS)'', ''Difficulty'', ''Focus'', ''CdA'', ''Headwind'',
     ''Tailwind'', ''Wind'', ''Temperature'', ''Vehicles passing'', ''Close passes'']"

lemma best_pattern_mem:
  "best_pattern l ps b = Some p \<Longrightarrow> p \<in> set ps \<or> b = Some p"
  by (induction l ps b rule: best_pattern.induct) (auto split: if_splits)

lemma parseFactLine_label:
  assumes "parseFactLine U line = Some (label, value)"
  shows "label \<in> set known_labels"
proof -
  have "plabel ` set knownFacts \<subseteq> set known_labels"
    by (simp add: knownFacts_def fact_pattern_def known_labels_def LabelDifficulty_def)
  then show ?thesis
    using assms by (auto simp: parseFactLine_def Let_def dest: best_pattern_mem split: if_splits option.splits)
qed

lemma parseFactLine_value:
  "parseFactLine U line = Some (label, value) \<Longrightarrow> \<exists>v. value = sanitizeFactValue v"
  by (auto simp: parseFactLine_def Let_def split: if_splits option.splits)

text \<open>What the accumulated facts satisfy, in any state of the loop.\<close>

definition facts_ok :: "Fact list \<Rightarrow> bool" where
  "facts_ok facts \<longleftrightarrow> distinct (map FLabel facts) \<and> set (map FLabel facts) \<subseteq> set known_labels
     \<and> (\<forall>f \<in> set facts. \<exists>v. FValue f = sanitizeFactValue v)"

lemma facts_ok_length: "facts_ok facts \<Longrightarrow> length facts \<le> 11"
proof -
  assume "facts_ok facts"
  then have distinct: "distinct (map FLabel facts)" and sub: "set (map FLabel facts) \<subseteq> set known_labels"
    by (simp_all add: facts_ok_def)
  from distinct have "card (set (map FLabel facts)) = length (map FLabel facts)" by (rule distinct_card)
  moreover from sub have "card (set (map FLabel facts)) \<le> card (set known_labels)"
    by (intro card_mono) simp_all
  moreover have "card (set known_labels) \<le> length known_labels" by (rule card_length)
  ultimately show ?thesis by (simp add: known_labels_def)
qed

lemma parse_lines_ok: "facts_ok facts \<Longrightarrow> facts_ok (parse_lines U ls i facts)"
proof (induction U ls i facts rule: parse_lines.induct)
  case (2 U line ls i facts)
  have step: "facts_ok (facts @ [\<lparr>FLabel = l, FValue = v\<rparr>])"
    if "parseFactLine U line = Some (l, v)" "l \<notin> set (map FLabel facts)" for l v
    using 2(4) that parseFactLine_label [OF that(1)] parseFactLine_value [OF that(1)]
    by (auto simp: facts_ok_def)
  show ?case using 2 step by (auto split: option.splits)
qed simp

definition fact_pairs :: "Fact list \<Rightarrow> (string \<times> string) list" where
  "fact_pairs facts = map (\<lambda>f. (FLabel f, FValue f)) facts"

lemma parse_lines_first:
  "facts_ok facts \<Longrightarrow> i \<le> maxDescriptionLines \<Longrightarrow>
   map_of (fact_pairs (parse_lines U ls i facts)) =
     map_of (fact_pairs facts @ List.map_filter (parseFactLine U) (take (maxDescriptionLines - i) ls))"
proof (induction U ls i facts rule: parse_lines.induct)
  case (1 U i facts)
  then show ?case by (simp add: map_filter_simps)
next
  case (2 U line ls i facts)
  have few: "\<not> length facts \<ge> maxFacts" using facts_ok_length [OF 2(4)] by (simp add: maxFacts_def)
  show ?case
  proof (cases "i < maxDescriptionLines")
    case False
    with 2(5) show ?thesis by (simp add: map_filter_simps)
  next
    case True
    then obtain n where n: "maxDescriptionLines - i = Suc n" "maxDescriptionLines - (i + 1) = n"
      by (cases "maxDescriptionLines - i") auto
    show ?thesis
    proof (cases "parseFactLine U line")
      case None
      with 2 True few n show ?thesis by (simp add: map_filter_simps)
    next
      case (Some lv)
      then obtain l v where lv: "parseFactLine U line = Some (l, v)" by (cases lv) auto
      show ?thesis
      proof (cases "l \<in> set (map FLabel facts)")
        case True
        then obtain w where "map_of (fact_pairs facts) l = Some w"
          by (cases "map_of (fact_pairs facts) l") (auto simp: fact_pairs_def map_of_eq_None_iff image_image)
        then have "map_of (fact_pairs facts @ (l, v) # rest) = map_of (fact_pairs facts @ rest)" for rest
          by (auto simp: fun_eq_iff map_add_def split: option.splits)
        with 2 lv True \<open>i < maxDescriptionLines\<close> few n show ?thesis by (simp add: map_filter_simps)
      next
        case False
        have "facts_ok (facts @ [\<lparr>FLabel = l, FValue = v\<rparr>])"
          using 2(4) False parseFactLine_label [OF lv] parseFactLine_value [OF lv]
          by (auto simp: facts_ok_def)
        with 2 lv False True few n show ?thesis by (simp add: map_filter_simps fact_pairs_def)
      qed
    qed
  qed
qed

definition plain_rune :: "rune \<Rightarrow> bool" where
  "plain_rune r \<longleftrightarrow> 32 \<le> r \<and> r \<noteq> 127"

lemma fact_rune_plain: "fact_rune r = Some q \<Longrightarrow> plain_rune q \<and> (scalar r \<longrightarrow> scalar q)"
  by (auto simp: fact_rune_def plain_rune_def scalar_def split: if_splits)

lemma runes_ellipsis [simp]: "runes (s @ ellipsis) = runes s @ [8230]"
  by (simp add: ellipsis_def runes_append_lead cont_byte_def)
    (simp add: runes_def segs.simps(2) decode1_def dec3_def cont_byte_def)

lemma sanitizeFactValue_runes:
  "(\<forall>r \<in> set (runes (sanitizeFactValue v)). plain_rune r) \<and> length (runes (sanitizeFactValue v)) \<le> 81"
proof -
  obtain rs where rs: "squeeze (map_runes fact_rune v) = string_of_runes rs" "\<forall>r \<in> set rs. scalar r"
    "runes (squeeze (map_runes fact_rune v)) = rs"
    "set rs \<subseteq> {32} \<union> set (List.map_filter fact_rune (runes v))"
    using squeezed_runes [of fact_rune v] fact_rune_plain by blast
  have plain: "\<forall>r \<in> set rs. plain_rune r"
    using rs(4) fact_rune_plain by (fastforce simp: map_filter_mem plain_rune_def)
  show ?thesis
  proof (cases "length rs > maxFactValueRunes")
    case False
    then show ?thesis using rs(3) plain by (simp add: sanitizeFactValue_def Let_def maxFactValueRunes_def)
  next
    case True
    let ?cut = "string_of_runes (take maxFactValueRunes rs)"
    have "runes ?cut = take maxFactValueRunes rs"
      using rs(2) by (intro runes_string_of_runes) (auto dest: in_set_takeD)
    then have "set (runes (trim_space ?cut)) \<subseteq> set rs" "length (runes (trim_space ?cut)) \<le> 80"
      using set_runes_trim_space [of ?cut] length_runes_trim_space [of ?cut]
      by (auto simp: maxFactValueRunes_def dest: in_set_takeD)
    moreover have "sanitizeFactValue v = trim_space ?cut @ ellipsis"
      using True rs(3) by (simp add: sanitizeFactValue_def Let_def)
    ultimately show ?thesis using plain by (auto simp: plain_rune_def)
  qed
qed

section \<open>Properties\<close>

text \<open>C31: What a description contributes is bounded and inert, whatever it contains: at most eleven
  facts, each under a different label of the allow-list, with a value of at most 81 runes that
  holds no control character of ASCII and so no line break. For every label the value is that
  of the first line that parses to the label among the first 400 lines of the first 64 KiB.\<close>

theorem parse_facts_bounded:
  "length (ParseFacts U d) \<le> 11 \<and> distinct (map FLabel (ParseFacts U d))
   \<and> set (map FLabel (ParseFacts U d)) \<subseteq> set known_labels
   \<and> list_all (\<lambda>f. list_all plain_rune (runes (FValue f)) \<and> length (runes (FValue f)) \<le> 81
        \<and> newline_char \<notin> set (FValue f)) (ParseFacts U d)
   \<and> map_of (fact_pairs (ParseFacts U d)) =
       map_of (List.map_filter (parseFactLine U) (take 400 (split_lines (take 65536 d))))"
proof (cases "d = []")
  case True
  have "parseFactLine U [] = None" by (simp add: parseFactLine_def)
  with True show ?thesis by (simp add: ParseFacts_def fact_pairs_def split_lines_def map_filter_simps)
next
  case False
  have ok: "facts_ok []" by (simp add: facts_ok_def)
  have "(if length d > maxDescriptionBytes then take maxDescriptionBytes d else d) = take 65536 d"
    by (simp add: maxDescriptionBytes_def)
  with False have facts: "ParseFacts U d = parse_lines U (split_lines (take 65536 d)) 0 []"
    unfolding ParseFacts_def Let_def by simp
  then have ok': "facts_ok (ParseFacts U d)" using parse_lines_ok [OF ok] by simp
  have "list_all (\<lambda>f. list_all plain_rune (runes (FValue f)) \<and> length (runes (FValue f)) \<le> 81
        \<and> newline_char \<notin> set (FValue f)) (ParseFacts U d)"
    unfolding list_all_iff
  proof
    fix f assume "f \<in> set (ParseFacts U d)"
    then obtain v where v: "FValue f = sanitizeFactValue v" using ok' by (auto simp: facts_ok_def)
    have "newline_char \<notin> set (FValue f)"
      using sanitizeFactValue_runes [of v] ascii_byte_rune [of newline_char "FValue f"]
      by (fastforce simp: v newline_char_def plain_rune_def)
    then show "(\<forall>r \<in> set (runes (FValue f)). plain_rune r) \<and> length (runes (FValue f)) \<le> 81
        \<and> newline_char \<notin> set (FValue f)"
      using sanitizeFactValue_runes [of v] by (simp add: v)
  qed
  moreover have "map_of (fact_pairs (ParseFacts U d)) =
       map_of (List.map_filter (parseFactLine U) (take 400 (split_lines (take 65536 d))))"
    using parse_lines_first [OF ok, of 0 U "split_lines (take 65536 d)"]
    by (simp add: facts fact_pairs_def maxDescriptionLines_def)
  ultimately show ?thesis
    using facts_ok_length [OF ok'] ok' by (auto simp: facts_ok_def)
qed

end
