(* ===== verification/Figures.thy ===== *)
theory Figures
  imports Facts
begin

text \<open>
  \<^verbatim>\<open>internal/naming/figures.go\<close>: the figures a prompt states and the first figure of a title it
  does not state. A \<^verbatim>\<open>map\<close> used as a set is a list; only membership is asked of it. The token
  loop on a rune slice and an index is the recursion \<open>tokens\<close> on the rest of the runes.
\<close>

definition numberWords :: "(string \<times> nat) list" where
  "numberWords = [(''null'', 0), (''eins'', 1), (''zwei'', 2), (''zwo'', 2), (''drei'', 3),
     (''vier'', 4), (''f'' @ [CHR 0xC3] @ [CHR 0xBC] @ ''nf'', 5), (''sechs'', 6),
     (''sieben'', 7), (''acht'', 8), (''neun'', 9), (''zehn'', 10), (''elf'', 11),
     (''zw'' @ [CHR 0xC3] @ [CHR 0xB6] @ ''lf'', 12), (''dreizehn'', 13),
     (''vierzehn'', 14), (''f'' @ [CHR 0xC3] @ [CHR 0xBC] @ ''nfzehn'', 15),
     (''sechzehn'', 16), (''siebzehn'', 17), (''achtzehn'', 18), (''neunzehn'', 19),
     (''zwanzig'', 20), (''dreissig'', 30), (''vierzig'', 40),
     (''f'' @ [CHR 0xC3] @ [CHR 0xBC] @ ''nfzig'', 50), (''sechzig'', 60),
     (''siebzig'', 70), (''achtzig'', 80), (''neunzig'', 90), (''hundert'', 100),
     (''tausend'', 1000), (''zero'', 0), (''one'', 1), (''two'', 2), (''three'', 3),
     (''four'', 4), (''five'', 5), (''six'', 6), (''seven'', 7), (''eight'', 8),
     (''nine'', 9), (''ten'', 10), (''eleven'', 11), (''twelve'', 12), (''thirteen'', 13),
     (''fourteen'', 14), (''fifteen'', 15), (''sixteen'', 16), (''seventeen'', 17),
     (''eighteen'', 18), (''nineteen'', 19), (''twenty'', 20), (''thirty'', 30),
     (''forty'', 40), (''fifty'', 50), (''sixty'', 60), (''seventy'', 70), (''eighty'', 80),
     (''ninety'', 90), (''hundred'', 100), (''thousand'', 1000)]"

definition halfHour :: string where
  "halfHour = ''halb''"

definition bikeLabel :: string where
  "bikeLabel = ''- Bike: ''"

record Figures =
  fvalues :: "string list"
  ftimes :: "string list"
  fwords :: "string list"

datatype tokenKind = tokenWord | tokenNumber | tokenTime

record figureToken =
  kind :: tokenKind
  ttext :: string
  folded :: string

definition mk_token :: "tokenKind \<Rightarrow> string \<Rightarrow> string \<Rightarrow> figureToken" where
  "mk_token k t f = \<lparr>kind = k, ttext = t, folded = f\<rparr>"

section \<open>Numbers\<close>

text \<open>
  \<^verbatim>\<open>strings.Cut\<close> at one byte, and \<^verbatim>\<open>strconv.Atoi\<close> without a sign, which a token cannot carry:
  only ASCII digits parse, and only within \<^verbatim>\<open>int64\<close>.
\<close>

definition cut_at :: "char \<Rightarrow> string \<Rightarrow> string \<times> string" where
  "cut_at c s = (takeWhile (\<lambda>x. x \<noteq> c) s, drop 1 (dropWhile (\<lambda>x. x \<noteq> c) s))"

definition digit_char :: "char \<Rightarrow> bool" where
  "digit_char c \<longleftrightarrow> ascii_digit (byte c)"

definition digit_value :: "char \<Rightarrow> nat" where
  "digit_value c = byte c - 48"

definition decimal :: "string \<Rightarrow> nat" where
  "decimal s = foldl (\<lambda>v c. 10 * v + digit_value c) 0 s"

definition atoi :: "string \<Rightarrow> nat option" where
  "atoi s = (if s \<noteq> [] \<and> list_all digit_char s \<and> decimal s < 2 ^ 63 then Some (decimal s) else None)"

definition canonicalNumber :: "string \<Rightarrow> string" where
  "canonicalNumber s =
     (case cut_at (CHR ''.'') (map (\<lambda>c. if c = CHR '','' then CHR ''.'' else c) s) of
        (whole0, fraction0) \<Rightarrow>
          let whole1 = dropWhile (\<lambda>c. c = CHR ''0'') whole0;
              whole = (if whole1 = [] then ''0'' else whole1);
              fraction = rev (dropWhile (\<lambda>c. c = CHR ''0'') (rev fraction0))
          in if fraction = [] then whole else whole @ ''.'' @ fraction)"

section \<open>Tokens\<close>

lemma after_run: "s # d # ys = dropWhile P xs \<Longrightarrow> length (dropWhile Q ys) < Suc (length xs)"
proof -
  assume "s # d # ys = dropWhile P xs"
  then have "Suc (Suc (length ys)) \<le> length xs"
    by (metis length_Cons length_dropWhile_le)
  moreover have "length (dropWhile Q ys) \<le> length ys" by (rule length_dropWhile_le)
  ultimately show ?thesis by linarith
qed

function tokens :: "tables \<Rightarrow> rune list \<Rightarrow> figureToken list" where
  "tokens U [] = []"
| "tokens U (r # rs) =
     (if is_digit U r then
        let run = r # takeWhile (is_digit U) rs; rest = dropWhile (is_digit U) rs in
        (case rest of
           s # d # rest2 \<Rightarrow>
             if is_digit U d \<and> (s = 46 \<or> s = 44 \<or> s = 58) then
               let run2 = d # takeWhile (is_digit U) rest2 in
               mk_token (if s = 58 then tokenTime else tokenNumber)
                 (string_of_runes (run @ [s] @ run2)) [] # tokens U (dropWhile (is_digit U) rest2)
             else mk_token tokenNumber (string_of_runes run) [] # tokens U rest
         | _ \<Rightarrow> mk_token tokenNumber (string_of_runes run) [] # tokens U rest)
      else if is_letter U r then
        let word = string_of_runes (r # takeWhile (\<lambda>x. is_letter U x \<or> in_Mn U x) rs) in
        mk_token tokenWord word (case_fold U word)
          # tokens U (dropWhile (\<lambda>x. is_letter U x \<or> in_Mn U x) rs)
      else tokens U rs)"
  by pat_completeness auto
termination
  by (relation "measure (\<lambda>(U, rs). length rs)")
    (auto simp: le_imp_less_Suc length_dropWhile_le intro: after_run)

declare tokens.simps(2) [simp del]

definition figureTokens :: "tables \<Rightarrow> string \<Rightarrow> figureToken list" where
  "figureTokens U s = tokens U (runes (nfkc U s))"

definition token_value :: "figureToken \<Rightarrow> nat option" where
  "token_value t = (case kind t of
     tokenNumber \<Rightarrow> atoi (ttext t)
   | tokenWord \<Rightarrow> map_of numberWords (folded t)
   | tokenTime \<Rightarrow> None)"

section \<open>What a prompt states\<close>

definition time_key :: "string \<Rightarrow> string" where
  "time_key s = (case cut_at (CHR '':'') s of (h, m) \<Rightarrow> canonicalNumber h @ '':'' @ m)"

definition time_hour :: "string \<Rightarrow> string" where
  "time_hour s = canonicalNumber (fst (cut_at (CHR '':'') s))"

definition add_token :: "figureToken \<Rightarrow> Figures \<Rightarrow> Figures" where
  "add_token t f = (case kind t of
     tokenNumber \<Rightarrow> f\<lparr>fvalues := canonicalNumber (ttext t) # fvalues f\<rparr>
   | tokenTime \<Rightarrow> f\<lparr>fvalues := time_hour (ttext t) # fvalues f, ftimes := time_key (ttext t) # ftimes f\<rparr>
   | tokenWord \<Rightarrow>
       (case map_of numberWords (folded t) of
          None \<Rightarrow> f\<lparr>fwords := folded t # fwords f\<rparr>
        | Some v \<Rightarrow> f\<lparr>fwords := folded t # fwords f, fvalues := show_nat v # fvalues f\<rparr>))"

definition add_line :: "tables \<Rightarrow> string \<Rightarrow> Figures \<Rightarrow> Figures" where
  "add_line U line f = fold add_token (figureTokens U line) f"

definition isHeading :: "string \<Rightarrow> bool" where
  "isHeading line = (if line = [] then False else list_all (\<lambda>r. \<not> (r < 65 \<or> r > 90)) (runes line))"

fun stated_lines :: "tables \<Rightarrow> string list \<Rightarrow> string \<Rightarrow> Figures \<Rightarrow> Figures" where
  "stated_lines U [] heading f = f"
| "stated_lines U (line # lines) heading f =
     (if isHeading line then stated_lines U lines line f
      else if heading \<noteq> ''RIDE'' \<and> heading \<noteq> ''NOTES'' then stated_lines U lines heading f
      else if heading = ''RIDE'' \<and> prefix bikeLabel line then stated_lines U lines heading f
      else stated_lines U lines heading (add_line U line f))"

definition StatedFigures :: "tables \<Rightarrow> string \<Rightarrow> string list \<Rightarrow> Figures" where
  "StatedFigures U userPrompt also' =
     fold (add_line U) also'
       (stated_lines U (split_lines userPrompt) [] \<lparr>fvalues = [], ftimes = [], fwords = []\<rparr>)"

section \<open>What a title carries\<close>

definition covers :: "Figures \<Rightarrow> figureToken \<Rightarrow> bool" where
  "covers f t = (case kind t of
     tokenNumber \<Rightarrow> canonicalNumber (ttext t) \<in> set (fvalues f)
   | tokenTime \<Rightarrow> time_key (ttext t) \<in> set (ftimes f)
   | tokenWord \<Rightarrow>
       (case map_of numberWords (folded t) of
          None \<Rightarrow> True
        | Some v \<Rightarrow> if show_nat v \<in> set (fvalues f) then True else folded t \<in> set (fwords f)))"

fun unstated :: "Figures \<Rightarrow> figureToken list \<Rightarrow> string option" where
  "unstated f [] = None"
| "unstated f (t # ts) =
     (case (if kind t = tokenWord \<and> folded t = halfHour
            then (case ts of [] \<Rightarrow> None
                  | u # _ \<Rightarrow> (case token_value u of None \<Rightarrow> None | Some _ \<Rightarrow> Some (ttext t @ '' '' @ ttext u)))
            else None) of
        Some phrase \<Rightarrow> Some phrase
      | None \<Rightarrow> if \<not> covers f t then Some (ttext t) else unstated f ts)"

definition UnstatedFigure :: "tables \<Rightarrow> string \<Rightarrow> Figures \<Rightarrow> string option" where
  "UnstatedFigure U title stated = unstated stated (figureTokens U title)"

section \<open>Canonical numbers denote values\<close>

text \<open>The value a number denotes, read off its digits.\<close>

fun frac_value :: "string \<Rightarrow> real" where
  "frac_value [] = 0"
| "frac_value (c # cs) = (real (digit_value c) + frac_value cs) / 10"

definition number_parts :: "string \<Rightarrow> string \<times> string" where
  "number_parts s = cut_at (CHR ''.'') (map (\<lambda>c. if c = CHR '','' then CHR ''.'' else c) s)"

definition number_value :: "string \<Rightarrow> real" where
  "number_value s = (case number_parts s of (w, f) \<Rightarrow> real (decimal w) + frac_value f)"

definition number_text :: "string \<Rightarrow> bool" where
  "number_text s \<longleftrightarrow> (case number_parts s of (w, f) \<Rightarrow> list_all digit_char w \<and> list_all digit_char f)"

abbreviation zero_char :: "char \<Rightarrow> bool" where
  "zero_char c \<equiv> c = CHR ''0''"

lemma digit_value_less: "digit_char c \<Longrightarrow> digit_value c < 10"
  by (auto simp: digit_char_def digit_value_def ascii_digit_def)

lemma digit_value_inj: "digit_char c \<Longrightarrow> digit_char d \<Longrightarrow> digit_value c = digit_value d \<Longrightarrow> c = d"
proof -
  assume "digit_char c" "digit_char d" "digit_value c = digit_value d"
  then have "byte c = byte d" unfolding digit_char_def digit_value_def ascii_digit_def by arith
  then show "c = d" by (simp add: of_char_eq_iff)
qed

lemma digit_value_zero: "digit_char c \<Longrightarrow> digit_value c = 0 \<longleftrightarrow> zero_char c"
  using digit_value_inj [of c "CHR ''0''"] by (auto simp: digit_char_def digit_value_def ascii_digit_def)

lemma decimal_snoc [simp]: "decimal (s @ [c]) = 10 * decimal s + digit_value c"
  by (simp add: decimal_def)

lemma decimal_Nil [simp]: "decimal [] = 0"
  by (simp add: decimal_def)

lemma decimal_leading: "decimal (CHR ''0'' # s) = decimal s"
  by (simp add: decimal_def digit_value_def)

lemma decimal_strip: "decimal (dropWhile zero_char s) = decimal s"
  by (induction s) (auto simp: decimal_leading)

lemma decimal_positive:
  "list_all digit_char s \<Longrightarrow> s \<noteq> [] \<Longrightarrow> \<not> zero_char (hd s) \<Longrightarrow> 0 < decimal s"
proof (induction s rule: rev_induct)
  case (snoc c s)
  show ?case
  proof (cases "s = []")
    case True
    with snoc.prems have "digit_value c \<noteq> 0" using digit_value_zero [of c] by simp
    with True show ?thesis using decimal_snoc [of "[]" c] by simp
  next
    case False
    with snoc show ?thesis by (simp only: decimal_snoc) simp
  qed
qed simp

lemma decimal_inj:
  "list_all digit_char s \<Longrightarrow> list_all digit_char t \<Longrightarrow> s = [] \<or> \<not> zero_char (hd s) \<Longrightarrow>
   t = [] \<or> \<not> zero_char (hd t) \<Longrightarrow> decimal s = decimal t \<Longrightarrow> s = t"
proof (induction s arbitrary: t rule: rev_induct)
  case Nil
  then show ?case using decimal_positive [of t] by auto
next
  case (snoc c s)
  have "0 < decimal (s @ [c])" using snoc.prems by (intro decimal_positive) simp_all
  with snoc.prems(5) have "t \<noteq> []" by (metis decimal_Nil less_irrefl)
  then obtain d u where t: "t = u @ [d]" by (metis rev_exhaust)
  have digits: "digit_char c" "digit_char d" using snoc.prems by (simp_all add: t)
  have "10 * decimal s + digit_value c = 10 * decimal u + digit_value d"
    using snoc.prems by (simp add: t)
  then have "decimal s = decimal u" "digit_value c = digit_value d"
    using digit_value_less [OF digits(1)] digit_value_less [OF digits(2)] by arith+
  moreover have "s = [] \<or> \<not> zero_char (hd s)" "u = [] \<or> \<not> zero_char (hd u)"
    using snoc.prems by (auto simp: t)
  ultimately show ?case
    using snoc.IH [of u] snoc.prems digit_value_inj [OF digits] by (simp add: t)
qed

lemma frac_bounds: "list_all digit_char s \<Longrightarrow> 0 \<le> frac_value s \<and> frac_value s < 1"
proof (induction s)
  case (Cons c s)
  then have "real (digit_value c) \<le> 9" using digit_value_less [of c] by simp
  with Cons show ?case by simp
qed simp

lemma frac_snoc_zero: "frac_value (s @ [CHR ''0'']) = frac_value s"
  by (induction s) (simp_all add: digit_value_def)

lemma frac_strip: "frac_value (rev (dropWhile zero_char (rev s))) = frac_value s"
  by (induction s rule: rev_induct) (auto simp: frac_snoc_zero)

lemma frac_positive:
  "list_all digit_char s \<Longrightarrow> s \<noteq> [] \<Longrightarrow> \<not> zero_char (last s) \<Longrightarrow> 0 < frac_value s"
proof (induction s)
  case (Cons c s)
  show ?case
  proof (cases "s = []")
    case True
    with Cons.prems have "0 < digit_value c" using digit_value_zero [of c] by auto
    with True show ?thesis by simp
  next
    case False
    with Cons have "0 < frac_value s" by simp
    then show ?thesis by (simp add: add_nonneg_pos)
  qed
qed simp

lemma frac_inj:
  "list_all digit_char s \<Longrightarrow> list_all digit_char t \<Longrightarrow> s = [] \<or> \<not> zero_char (last s) \<Longrightarrow>
   t = [] \<or> \<not> zero_char (last t) \<Longrightarrow> frac_value s = frac_value t \<Longrightarrow> s = t"
proof (induction s arbitrary: t)
  case Nil
  then show ?case using frac_positive [of t] by auto
next
  case (Cons c s)
  have "0 < frac_value (c # s)" using Cons.prems by (intro frac_positive) simp_all
  with Cons.prems(5) have "t \<noteq> []" by (metis frac_value.simps(1) less_irrefl)
  then obtain d u where t: "t = d # u" by (cases t) auto
  have digits: "digit_char c" "digit_char d" "list_all digit_char s" "list_all digit_char u"
    using Cons.prems by (simp_all add: t)
  have "real (digit_value c) + frac_value s = real (digit_value d) + frac_value u"
    using Cons.prems by (simp add: t)
  note sum = this
  with frac_bounds [OF digits(3)] frac_bounds [OF digits(4)]
  have "digit_value c = digit_value d" by linarith
  moreover from this sum have "frac_value s = frac_value u" by simp
  moreover have "s = [] \<or> \<not> zero_char (last s)" "u = [] \<or> \<not> zero_char (last u)"
    using Cons.prems by (auto simp: t split: if_splits)
  ultimately show ?case
    using Cons.IH [of u] digits digit_value_inj [OF digits(1,2)] by (simp add: t)
qed

lemma decimal_canonical_whole:
  assumes "list_all digit_char w" "list_all digit_char v"
  defines "nf \<equiv> \<lambda>w. (if dropWhile zero_char w = [] then ''0'' else dropWhile zero_char w)"
  shows "nf w = nf v \<longleftrightarrow> decimal w = decimal v"
proof -
  let ?s = "dropWhile zero_char"
  have digits: "list_all digit_char (?s w)" "list_all digit_char (?s v)"
    using assms(1,2) by (auto simp: list_all_iff dest: set_dropWhileD)
  have lead: "?s x = [] \<or> \<not> zero_char (hd (?s x))" for x
    using hd_dropWhile [of zero_char x] by blast
  have not_zero: "?s x \<noteq> ''0''" for x using lead [of x] by (metis list.sel(1) list.distinct(1))
  have "nf w = nf v \<longleftrightarrow> ?s w = ?s v"
    unfolding nf_def using not_zero by (metis (no_types))
  also have "\<dots> \<longleftrightarrow> decimal (?s w) = decimal (?s v)"
    using decimal_inj [OF digits lead lead] by auto
  finally show ?thesis by (simp only: decimal_strip)
qed

lemma frac_canonical:
  assumes "list_all digit_char f" "list_all digit_char g"
  defines "nf \<equiv> \<lambda>f. rev (dropWhile zero_char (rev f))"
  shows "nf f = nf g \<longleftrightarrow> frac_value f = frac_value g"
proof -
  have digits: "list_all digit_char (nf f)" "list_all digit_char (nf g)"
    using assms(1,2) by (auto simp: nf_def list_all_iff dest: set_dropWhileD)
  have last: "nf x = [] \<or> \<not> zero_char (last (nf x))" for x
    using hd_dropWhile [of zero_char "rev x"] by (auto simp: nf_def last_rev)
  have "nf f = nf g \<longleftrightarrow> frac_value (nf f) = frac_value (nf g)"
    using frac_inj [OF digits last last] by auto
  then show ?thesis by (simp add: nf_def frac_strip)
qed

lemma canonical_split:
  assumes "CHR ''.'' \<notin> set w" "CHR ''.'' \<notin> set v"
  shows "(if f = [] then w else w @ ''.'' @ f) = (if g = [] then v else v @ ''.'' @ g) \<longleftrightarrow> w = v \<and> f = g"
proof -
  have key: "takeWhile (\<lambda>c. c \<noteq> CHR ''.'') (if f = [] then w else w @ ''.'' @ f) = w \<and>
      dropWhile (\<lambda>c. c \<noteq> CHR ''.'') (if f = [] then w else w @ ''.'' @ f) = (if f = [] then [] else ''.'' @ f)"
    if "CHR ''.'' \<notin> set w" for w f
  proof -
    have "\<forall>c \<in> set w. c \<noteq> CHR ''.''" using that by metis
    then show ?thesis by (auto simp: takeWhile_append2 dropWhile_append2 takeWhile_eq_all_conv)
  qed
  let ?a = "if f = [] then w else w @ ''.'' @ f" and ?b = "if g = [] then v else v @ ''.'' @ g"
  have "w = v \<and> f = g" if eq: "?a = ?b"
  proof -
    have "w = v" using key [OF assms(1), of f] key [OF assms(2), of g] unfolding eq by blast
    moreover have "(if f = [] then [] else ''.'' @ f) = (if g = [] then [] else ''.'' @ g)"
      using key [OF assms(1), of f] key [OF assms(2), of g] unfolding eq by metis
    ultimately show ?thesis by (auto split: if_splits)
  qed
  then show ?thesis by auto
qed

lemma digit_no_point: "list_all digit_char w \<Longrightarrow> CHR ''.'' \<notin> set w"
proof -
  have "\<not> digit_char (CHR ''.'')" by (simp add: digit_char_def ascii_digit_def)
  then show "list_all digit_char w \<Longrightarrow> CHR ''.'' \<notin> set w" unfolding list_all_iff by blast
qed

lemma digits_zero: "list_all digit_char w \<Longrightarrow> list_all digit_char (if dropWhile zero_char w = [] then ''0'' else dropWhile zero_char w)"
  by (auto simp: list_all_iff digit_char_def ascii_digit_def dest: set_dropWhileD)

lemma canonicalNumber_eq:
  assumes "number_text s" "number_text t"
  shows "canonicalNumber s = canonicalNumber t \<longleftrightarrow> number_value s = number_value t"
proof -
  obtain w f where s: "number_parts s = (w, f)" by (cases "number_parts s")
  obtain v g where t: "number_parts t = (v, g)" by (cases "number_parts t")
  have digits: "list_all digit_char w" "list_all digit_char f" "list_all digit_char v" "list_all digit_char g"
    using assms by (simp_all add: number_text_def s t)
  let ?n = "\<lambda>w. if dropWhile zero_char w = [] then ''0'' else dropWhile zero_char w"
  let ?m = "\<lambda>f. rev (dropWhile zero_char (rev f))"
  have point: "CHR ''.'' \<notin> set (?n w)" "CHR ''.'' \<notin> set (?n v)"
    using digits(1,3) by (auto simp only: intro!: digit_no_point digits_zero)
  have eqs: "canonicalNumber s = (if ?m f = [] then ?n w else ?n w @ ''.'' @ ?m f)"
    "canonicalNumber t = (if ?m g = [] then ?n v else ?n v @ ''.'' @ ?m g)"
    unfolding canonicalNumber_def number_parts_def [symmetric] s t Let_def by simp_all
  have "canonicalNumber s = canonicalNumber t \<longleftrightarrow> ?n w = ?n v \<and> ?m f = ?m g"
    unfolding eqs by (rule canonical_split [OF point])
  also have "\<dots> \<longleftrightarrow> decimal w = decimal v \<and> frac_value f = frac_value g"
    using decimal_canonical_whole [OF digits(1,3)] frac_canonical [OF digits(2,4)] by simp
  also have "\<dots> \<longleftrightarrow> real (decimal w) + frac_value f = real (decimal v) + frac_value g"
  proof
    assume sum: "real (decimal w) + frac_value f = real (decimal v) + frac_value g"
    with frac_bounds [OF digits(2)] frac_bounds [OF digits(4)]
    have "decimal w = decimal v" by linarith
    with sum show "decimal w = decimal v \<and> frac_value f = frac_value g" by simp
  qed simp
  finally show ?thesis by (simp add: number_value_def s t)
qed

section \<open>What is accepted is stated\<close>

text \<open>The lines of a prompt that state figures: those under RIDE and NOTES, without the bike.\<close>

fun stating :: "string list \<Rightarrow> string \<Rightarrow> string list" where
  "stating [] heading = []"
| "stating (line # lines) heading =
     (if isHeading line then stating lines line
      else if heading = ''RIDE'' \<and> \<not> prefix bikeLabel line \<or> heading = ''NOTES''
      then line # stating lines heading else stating lines heading)"

definition token_values :: "figureToken \<Rightarrow> string list" where
  "token_values t = (case kind t of
     tokenNumber \<Rightarrow> [canonicalNumber (ttext t)]
   | tokenTime \<Rightarrow> [time_hour (ttext t)]
   | tokenWord \<Rightarrow> (case map_of numberWords (folded t) of None \<Rightarrow> [] | Some v \<Rightarrow> [show_nat v]))"

lemma stated_lines_fold: "stated_lines U ls h f = fold (add_line U) (stating ls h) f"
  by (induction ls arbitrary: h f) auto
lemma add_tokens:
  "x \<in> set (fvalues (fold add_token ts f)) \<longleftrightarrow> x \<in> set (fvalues f) \<or> (\<exists>t \<in> set ts. x \<in> set (token_values t))"
  "x \<in> set (ftimes (fold add_token ts f)) \<longleftrightarrow>
     x \<in> set (ftimes f) \<or> (\<exists>t \<in> set ts. kind t = tokenTime \<and> x = time_key (ttext t))"
  "x \<in> set (fwords (fold add_token ts f)) \<longleftrightarrow>
     x \<in> set (fwords f) \<or> (\<exists>t \<in> set ts. kind t = tokenWord \<and> x = folded t)"
  by (induction ts arbitrary: f)
    (auto simp: add_token_def token_values_def split: tokenKind.splits option.splits)

lemma add_lines:
  "x \<in> set (fvalues (fold (add_line U) ls f)) \<longleftrightarrow>
     x \<in> set (fvalues f) \<or> (\<exists>l \<in> set ls. \<exists>t \<in> set (figureTokens U l). x \<in> set (token_values t))"
  "x \<in> set (ftimes (fold (add_line U) ls f)) \<longleftrightarrow>
     x \<in> set (ftimes f) \<or> (\<exists>l \<in> set ls. \<exists>t \<in> set (figureTokens U l). kind t = tokenTime \<and> x = time_key (ttext t))"
  "x \<in> set (fwords (fold (add_line U) ls f)) \<longleftrightarrow>
     x \<in> set (fwords f) \<or> (\<exists>l \<in> set ls. \<exists>t \<in> set (figureTokens U l). kind t = tokenWord \<and> x = folded t)"
  by (induction ls arbitrary: f) (simp_all add: add_line_def add_tokens disj_assoc)

definition stating_tokens :: "tables \<Rightarrow> string \<Rightarrow> string list \<Rightarrow> figureToken list" where
  "stating_tokens U prompt also' = concat (map (figureTokens U) (stating (split_lines prompt) [] @ also'))"

lemma StatedFigures_values:
  "x \<in> set (fvalues (StatedFigures U p also')) \<longleftrightarrow> (\<exists>t \<in> set (stating_tokens U p also'). x \<in> set (token_values t))"
  "x \<in> set (ftimes (StatedFigures U p also')) \<longleftrightarrow>
     (\<exists>t \<in> set (stating_tokens U p also'). kind t = tokenTime \<and> x = time_key (ttext t))"
  "x \<in> set (fwords (StatedFigures U p also')) \<longleftrightarrow>
     (\<exists>t \<in> set (stating_tokens U p also'). kind t = tokenWord \<and> x = folded t)"
  by (auto simp: StatedFigures_def stated_lines_fold add_lines stating_tokens_def)

lemma unstated_None:
  "unstated f ts = None \<longleftrightarrow> list_all (covers f) ts \<and>
     (\<forall>i. Suc i < length ts \<longrightarrow> \<not> (kind (ts ! i) = tokenWord \<and> folded (ts ! i) = halfHour
        \<and> token_value (ts ! Suc i) \<noteq> None))"
proof (induction f ts rule: unstated.induct)
  case (2 f t ts)
  have shift: "(\<forall>i. Suc i < length (t # ts) \<longrightarrow> P ((t # ts) ! i) ((t # ts) ! Suc i)) \<longleftrightarrow>
      (ts \<noteq> [] \<longrightarrow> P t (hd ts)) \<and> (\<forall>i. Suc i < length ts \<longrightarrow> P (ts ! i) (ts ! Suc i))" for P
    by (cases ts) (auto simp: less_Suc_eq_0_disj nth_Cons split: nat.splits)
  let ?P = "\<lambda>a b. \<not> (kind a = tokenWord \<and> folded a = halfHour \<and> token_value b \<noteq> None)"
  have head: "unstated f (t # ts) = None \<longleftrightarrow>
      (ts \<noteq> [] \<longrightarrow> ?P t (hd ts)) \<and> covers f t \<and> unstated f ts = None"
    by (cases ts) (auto split: option.splits)
  show ?case
  proof (cases "(ts \<noteq> [] \<longrightarrow> ?P t (hd ts)) \<and> covers f t")
    case False
    then show ?thesis unfolding head shift [of ?P] by auto
  next
    case True
    then have "unstated f ts = None \<longleftrightarrow> list_all (covers f) ts \<and>
        (\<forall>i. Suc i < length ts \<longrightarrow> ?P (ts ! i) (ts ! Suc i))"
      by (intro 2) (auto split: list.splits option.splits)
    with True show ?thesis unfolding head shift [of ?P] by auto
  qed
qed simp

section \<open>Properties\<close>

text \<open>Two spellings of a number are the same canonical string exactly when they denote the same
  value, so comparing the strings compares the figures.\<close>

theorem canonical_number_value:
  assumes "number_text s" and "number_text t"
  shows "canonicalNumber s = canonicalNumber t \<longleftrightarrow> number_value s = number_value t"
  using assms by (rule canonicalNumber_eq)

lemma canonical_number_value_witness:
  "canonicalNumber ''025,50'' = canonicalNumber ''25.5'' \<longleftrightarrow> number_value ''025,50'' = number_value ''25.5''"
  by (rule canonical_number_value)
    (simp_all add: number_text_def number_parts_def cut_at_def digit_char_def ascii_digit_def)

text \<open>C32: A title the figure check accepts carries no figure of its own making. Every number in it
  equals a number of a line under RIDE or NOTES other than the bike's (or of a text given
  besides), or the hour of a time, or a number word there; every time in it stands there as a
  time; every number word stands there as a word or as a value; and no number word or digit run
  follows "halb".\<close>

theorem accepted_figures_stated:
  assumes "UnstatedFigure U title (StatedFigures U prompt also') = None"
  shows "(\<forall>t \<in> set (figureTokens U title).
      (case kind t of
         tokenNumber \<Rightarrow> \<exists>u \<in> set (stating_tokens U prompt also'). canonicalNumber (ttext t) \<in> set (token_values u)
       | tokenTime \<Rightarrow> \<exists>u \<in> set (stating_tokens U prompt also'). kind u = tokenTime \<and> time_key (ttext t) = time_key (ttext u)
       | tokenWord \<Rightarrow> map_of numberWords (folded t) = None \<or>
           (\<exists>u \<in> set (stating_tokens U prompt also'). show_nat (the (map_of numberWords (folded t))) \<in> set (token_values u)
              \<or> kind u = tokenWord \<and> folded u = folded t)))
    \<and> (\<forall>i. Suc i < length (figureTokens U title) \<longrightarrow>
         \<not> (kind (figureTokens U title ! i) = tokenWord \<and> folded (figureTokens U title ! i) = halfHour
            \<and> token_value (figureTokens U title ! Suc i) \<noteq> None))"
proof -
  from assms have all: "list_all (covers (StatedFigures U prompt also')) (figureTokens U title)"
    and half: "\<forall>i. Suc i < length (figureTokens U title) \<longrightarrow>
         \<not> (kind (figureTokens U title ! i) = tokenWord \<and> folded (figureTokens U title ! i) = halfHour
            \<and> token_value (figureTokens U title ! Suc i) \<noteq> None)"
    unfolding UnstatedFigure_def unstated_None by blast+
  show ?thesis
  proof (intro conjI half ballI)
    fix t assume "t \<in> set (figureTokens U title)"
    with all have "covers (StatedFigures U prompt also') t" by (simp add: list_all_iff)
    then show "case kind t of
         tokenNumber \<Rightarrow> \<exists>u \<in> set (stating_tokens U prompt also'). canonicalNumber (ttext t) \<in> set (token_values u)
       | tokenTime \<Rightarrow> \<exists>u \<in> set (stating_tokens U prompt also'). kind u = tokenTime \<and> time_key (ttext t) = time_key (ttext u)
       | tokenWord \<Rightarrow> map_of numberWords (folded t) = None \<or>
           (\<exists>u \<in> set (stating_tokens U prompt also'). show_nat (the (map_of numberWords (folded t))) \<in> set (token_values u)
              \<or> kind u = tokenWord \<and> folded u = folded t)"
      unfolding covers_def StatedFigures_values
      by (auto split: tokenKind.splits option.splits if_splits)
  qed
qed

lemma accepted_figures_stated_witness:
  "\<exists>u \<in> set (stating_tokens latin1 (''RIDE'' @ [newline_char] @ ''7'') []).
     canonicalNumber (string_of_runes [55]) \<in> set (token_values u)"
proof -
  have tokens: "figureTokens latin1 ''7'' = [mk_token tokenNumber (string_of_runes [55]) []]"
    by (simp add: figureTokens_def latin1_def tokens.simps(2) ascii_digit_def)
  have "split_lines (''RIDE'' @ [newline_char] @ ''7'') = [''RIDE'', ''7'']"
    by (simp add: split_lines_def newline_char_def)
  then have "UnstatedFigure latin1 ''7'' (StatedFigures latin1 (''RIDE'' @ [newline_char] @ ''7'') []) = None"
    by (simp add: UnstatedFigure_def StatedFigures_def isHeading_def bikeLabel_def add_line_def tokens
        add_token_def mk_token_def covers_def)
  from accepted_figures_stated [OF this] show ?thesis by (simp add: tokens mk_token_def)
qed

end
