(* ===== verification/Store.thy ===== *)
theory Store
  imports GoRuntime
begin

text \<open>
  Package \<^verbatim>\<open>internal/store\<close>: the persistent state and the interfaces over it, with the in-memory
  implementation \<^verbatim>\<open>Memory\<close>. A Go map is an association list with distinct keys; what iterates
  over a map sorts its result, so the list order is visible only among entries whose sort keys
  are equal. A \<^verbatim>\<open>time.Time\<close> is its instant, so \<^verbatim>\<open>UTC()\<close> is the identity; copying slices
  (\<^verbatim>\<open>cloneConfig\<close>) is the identity on values, which is what theory Sharing proves of it. The mutex makes each operation one step, which is
  what each function here is.

  The three interfaces the rest of the service relies on (\<^verbatim>\<open>Queue\<close>, \<^verbatim>\<open>NamedLog\<close>,
  \<^verbatim>\<open>Franchises\<close>) are locales, interpreted on \<^verbatim>\<open>Memory\<close>.
\<close>

named_theorems store_simps \<open>what each operation of the store leaves in each collection\<close>

section \<open>Data (token.go, store.go)\<close>

record Token =
  AthleteID :: int
  AccessToken :: string
  RefreshToken :: string
  ExpiresAt :: instant
  Scopes :: "string list"

record Pending =
  PAthleteID :: int
  PActivityID :: int
  Aspect :: string
  EnqueuedAt :: instant
  ProcessAfter :: instant

definition pending_due :: "Pending \<Rightarrow> instant \<Rightarrow> bool" where
  "pending_due p now \<longleftrightarrow> \<not> before now (ProcessAfter p)"

record Place =
  PlaceName :: string
  PlaceKind :: string
  Region :: string
  Country :: string

definition Place_Empty :: "Place \<Rightarrow> bool" where
  "Place_Empty p \<longleftrightarrow> PlaceName p = [] \<and> Region p = [] \<and> Country p = []"

record StoredFranchise =
  SName :: string
  SSportTypes :: "string list"
  SGearName :: string
  STitles :: "string list"
  SReserved :: "string list"

record AthleteConfig =
  Franchises :: "StoredFranchise list"

record Naming =
  NAthleteID :: int
  NActivityID :: int
  NTitle :: string
  NLanguage :: string
  NAt :: instant
  NSource :: string

record NamedTitle =
  ActivityID :: int
  Title :: string
  Language :: string
  Source :: string
  NamedAt :: instant

definition SourceService :: string where "SourceService = ''service''"

definition SourceTemplate :: string where "SourceTemplate = ''template''"

definition SourceImported :: string where "SourceImported = ''imported''"

definition SourceHuman :: string where "SourceHuman = ''human''"

lemmas sources = SourceService_def SourceTemplate_def SourceImported_def SourceHuman_def

type_synonym actkey = "int \<times> int"

section \<open>Memory (memory.go)\<close>

record Memory =
  mTokens :: "(int \<times> Token) list"
  mPending :: "(actkey \<times> Pending) list"
  mNamed :: "(actkey \<times> NamedTitle) list"
  mPlaces :: "(string \<times> Place) list"
  mFranchises :: "((int \<times> string) \<times> int) list"
  mConfigs :: "(int \<times> AthleteConfig) list"

definition NewMemory :: Memory where
  "NewMemory = \<lparr>mTokens = [], mPending = [], mNamed = [], mPlaces = [], mFranchises = [], mConfigs = []\<rparr>"

definition Load :: "Memory \<Rightarrow> int \<Rightarrow> Token option" where
  "Load m athlete = map_of (mTokens m) athlete"

definition Save :: "Memory \<Rightarrow> Token \<Rightarrow> Memory" where
  "Save m t = m\<lparr>mTokens := AList.update (AthleteID t) t (mTokens m)\<rparr>"

definition AnyToken :: "Memory \<Rightarrow> Token option" where
  "AnyToken m = (case mTokens m of [(_, t)] \<Rightarrow> Some t | _ \<Rightarrow> None)"

definition pending_key :: "Pending \<Rightarrow> actkey" where
  "pending_key p = (PAthleteID p, PActivityID p)"

definition Enqueue :: "Memory \<Rightarrow> Pending \<Rightarrow> Memory \<times> bool" where
  "Enqueue m p =
     (case map_of (mPending m) (pending_key p) of
        Some _ \<Rightarrow> (m, False)
      | None \<Rightarrow> (m\<lparr>mPending := AList.update (pending_key p) p (mPending m)\<rparr>, True))"

definition byDeadline :: "Pending \<Rightarrow> instant \<times> int" where
  "byDeadline p = (ProcessAfter p, PActivityID p)"

definition SortPending :: "Pending list \<Rightarrow> Pending list" where
  "SortPending = sort_key byDeadline"

definition Due :: "Memory \<Rightarrow> instant \<Rightarrow> Pending list" where
  "Due m now = SortPending (filter (\<lambda>p. pending_due p now) (map snd (mPending m)))"

definition Remove :: "Memory \<Rightarrow> int \<Rightarrow> int \<Rightarrow> Memory" where
  "Remove m athlete activity = m\<lparr>mPending := AList.delete (athlete, activity) (mPending m)\<rparr>"

definition Len :: "Memory \<Rightarrow> nat" where
  "Len m = length (mPending m)"

definition naming_row :: "Naming \<Rightarrow> NamedTitle" where
  "naming_row n = \<lparr>ActivityID = NActivityID n, Title = NTitle n, Language = NLanguage n,
     Source = NSource n, NamedAt = NAt n\<rparr>"

definition MarkNamed :: "Memory \<Rightarrow> Naming \<Rightarrow> Memory" where
  "MarkNamed m n =
     m\<lparr>mNamed := AList.update (NAthleteID n, NActivityID n) (naming_row n) (mNamed m)\<rparr>"

definition newest_first :: "NamedTitle \<Rightarrow> int \<times> int" where
  "newest_first e = (- NamedAt e, - ActivityID e)"

definition athlete_rows :: "Memory \<Rightarrow> int \<Rightarrow> NamedTitle list" where
  "athlete_rows m athlete = map snd (filter (\<lambda>(k, _). fst k = athlete) (mNamed m))"

definition RecentTitles :: "Memory \<Rightarrow> int \<Rightarrow> int \<Rightarrow> NamedTitle list" where
  "RecentTitles m athlete limit =
     (if limit \<le> 0 then []
      else let titles = sort_key newest_first (athlete_rows m athlete) in
        if int (length titles) > limit then take (nat limit) titles else titles)"

definition Named :: "Memory \<Rightarrow> int \<Rightarrow> int \<Rightarrow> NamedTitle option" where
  "Named m athlete activity = map_of (mNamed m) (athlete, activity)"

definition GetPlace :: "Memory \<Rightarrow> string \<Rightarrow> Place option" where
  "GetPlace m k = map_of (mPlaces m) k"

definition SavePlace :: "Memory \<Rightarrow> string \<Rightarrow> Place \<Rightarrow> Memory" where
  "SavePlace m k p = m\<lparr>mPlaces := AList.update k p (mPlaces m)\<rparr>"

definition FranchisePosition :: "Memory \<Rightarrow> int \<Rightarrow> string \<Rightarrow> int" where
  "FranchisePosition m athlete franchise =
     (case map_of (mFranchises m) (athlete, franchise) of None \<Rightarrow> 0 | Some n \<Rightarrow> n)"

text \<open>The index is an \<^verbatim>\<open>int\<close>, so \<^verbatim>\<open>index + 1\<close> would wrap at its maximum; an index into a list of titles, which
  is what every caller passes, is far below it, and the model adds without wrapping.\<close>

definition AdvanceFranchisePast :: "Memory \<Rightarrow> int \<Rightarrow> string \<Rightarrow> int \<Rightarrow> (Memory \<times> int) option" where
  "AdvanceFranchisePast m athlete franchise index =
     (if index < 0 then None
      else let nxt = index + 1;
             m' = (if nxt > FranchisePosition m athlete franchise
                   then m\<lparr>mFranchises := AList.update (athlete, franchise) nxt (mFranchises m)\<rparr> else m)
        in Some (m', FranchisePosition m' athlete franchise))"

definition GetAthleteConfig :: "Memory \<Rightarrow> int \<Rightarrow> AthleteConfig option" where
  "GetAthleteConfig m athlete = map_of (mConfigs m) athlete"

definition SaveAthleteConfig :: "Memory \<Rightarrow> int \<Rightarrow> AthleteConfig \<Rightarrow> Memory" where
  "SaveAthleteConfig m athlete c = m\<lparr>mConfigs := AList.update athlete c (mConfigs m)\<rparr>"

section \<open>Faults\<close>

text \<open>
  A write to a store may fail before it took effect or after: \<open>fault\<close> says which, and the
  boolean is whether the caller sees success.
\<close>

datatype fault = NoFault | FaultLost | FaultApplied

definition faulty :: "fault \<Rightarrow> ('m \<Rightarrow> 'm) \<Rightarrow> 'm \<Rightarrow> 'm \<times> bool" where
  "faulty f write m =
     (case f of NoFault \<Rightarrow> (write m, True) | FaultLost \<Rightarrow> (m, False) | FaultApplied \<Rightarrow> (write m, False))"

section \<open>Well-formedness\<close>

definition rows_keyed :: "(actkey \<times> NamedTitle) list \<Rightarrow> bool" where
  "rows_keyed rows \<longleftrightarrow> list_all (\<lambda>(k, e). ActivityID e = snd k) rows"

definition wf_Memory :: "Memory \<Rightarrow> bool" where
  "wf_Memory m \<longleftrightarrow>
     distinct (map fst (mTokens m)) \<and> list_all (\<lambda>(k, t). AthleteID t = k) (mTokens m) \<and>
     distinct (map fst (mPending m)) \<and> list_all (\<lambda>(k, p). pending_key p = k) (mPending m) \<and>
     distinct (map fst (mNamed m)) \<and> rows_keyed (mNamed m) \<and>
     distinct (map fst (mPlaces m)) \<and>
     distinct (map fst (mFranchises m)) \<and> list_all (\<lambda>(_, n). 0 \<le> n) (mFranchises m) \<and>
     distinct (map fst (mConfigs m))"

lemma list_all_update:
  "list_all P xs \<Longrightarrow> P (k, v) \<Longrightarrow> list_all P (AList.update k v xs)"
  by (induction xs) auto

lemma list_all_delete: "list_all P xs \<Longrightarrow> list_all P (AList.delete k xs)"
  by (auto simp: list_all_iff AList.delete_eq)

lemma wf_NewMemory [simp]: "wf_Memory NewMemory"
  by (simp add: NewMemory_def wf_Memory_def rows_keyed_def)

lemma wf_Memory_ops:
  assumes "wf_Memory m"
  shows "wf_Memory (Save m t)" "wf_Memory (fst (Enqueue m p))" "wf_Memory (Remove m a i)"
    "wf_Memory (MarkNamed m n)" "wf_Memory (SavePlace m k pl)" "wf_Memory (SaveAthleteConfig m a c)"
    "AdvanceFranchisePast m a f j = Some (m', r) \<Longrightarrow> wf_Memory m'"
  using assms
  by (auto simp: wf_Memory_def Save_def Enqueue_def Remove_def MarkNamed_def SavePlace_def
      SaveAthleteConfig_def AdvanceFranchisePast_def Let_def rows_keyed_def naming_row_def
      distinct_update distinct_delete intro!: list_all_update list_all_delete
      split: option.splits if_splits)

section \<open>Interfaces\<close>

text \<open>
  \<^verbatim>\<open>Queue\<close>: \<open>entry\<close> is the abstraction, the queued entry of a key. The laws are the ones
  the interface documents: a second delivery collapses, \<^verbatim>\<open>Due\<close> is exactly the elapsed entries
  in deadline order, and removing an absent entry is harmless.
\<close>

locale queue =
  fixes enq :: "'s \<Rightarrow> Pending \<Rightarrow> 's \<times> bool"
    and due :: "'s \<Rightarrow> instant \<Rightarrow> Pending list"
    and rm :: "'s \<Rightarrow> int \<Rightarrow> int \<Rightarrow> 's"
    and len :: "'s \<Rightarrow> nat"
    and entry :: "'s \<Rightarrow> actkey \<Rightarrow> Pending option"
    and inv :: "'s \<Rightarrow> bool"
  assumes inv_enq: "inv s \<Longrightarrow> inv (fst (enq s p))"
    and inv_rm: "inv s \<Longrightarrow> inv (rm s a i)"
    and entry_enq: "inv s \<Longrightarrow> entry (fst (enq s p)) =
          (entry s)(pending_key p := (case entry s (pending_key p) of None \<Rightarrow> Some p | Some q \<Rightarrow> Some q))"
    and added_iff: "inv s \<Longrightarrow> snd (enq s p) \<longleftrightarrow> entry s (pending_key p) = None"
    and entry_rm: "inv s \<Longrightarrow> entry (rm s a i) = (entry s)((a, i) := None)"
    and due_iff: "inv s \<Longrightarrow>
          p \<in> set (due s now) \<longleftrightarrow> entry s (pending_key p) = Some p \<and> pending_due p now"
    and due_distinct: "inv s \<Longrightarrow> distinct (map pending_key (due s now))"
    and due_sorted: "inv s \<Longrightarrow> sorted (map byDeadline (due s now))"
    and entry_key: "inv s \<Longrightarrow> entry s k = Some p \<Longrightarrow> pending_key p = k"
    and len_entries: "inv s \<Longrightarrow> finite (dom (entry s)) \<and> len s = card (dom (entry s))"
begin

lemma redelivery:
  "inv s \<Longrightarrow> entry s (pending_key p) = None \<Longrightarrow> \<forall>q \<in> set ps. pending_key q = pending_key p \<Longrightarrow>
   entry (fold (\<lambda>q s. fst (enq s q)) (p # ps) s) = (entry s)(pending_key p \<mapsto> p)"
proof -
  have keep: "inv s \<Longrightarrow> entry s k = Some r \<Longrightarrow> \<forall>q \<in> set ps. pending_key q = k \<Longrightarrow>
    entry (fold (\<lambda>q s. fst (enq s q)) ps s) = entry s" for s k r
    by (induction ps arbitrary: s) (auto simp: inv_enq entry_enq fun_upd_idem)
  assume "inv s" "entry s (pending_key p) = None" "\<forall>q \<in> set ps. pending_key q = pending_key p"
  then show ?thesis
    using keep [of "fst (enq s p)" "pending_key p" p] by (simp add: inv_enq entry_enq)
qed

definition drained :: "'s \<Rightarrow> instant \<Rightarrow> 's" where
  "drained s now = fold (\<lambda>p s. rm s (PAthleteID p) (PActivityID p)) (due s now) s"

lemma drained_entries:
  assumes "inv s"
  shows "inv (drained s now) \<and> entry (drained s now) k =
    (case entry s k of None \<Rightarrow> None | Some p \<Rightarrow> if pending_due p now then None else Some p)"
proof -
  have "inv t \<Longrightarrow> inv (fold (\<lambda>p s. rm s (PAthleteID p) (PActivityID p)) ps t) \<and>
    entry (fold (\<lambda>p s. rm s (PAthleteID p) (PActivityID p)) ps t) k =
      (if k \<in> pending_key ` set ps then None else entry t k)" for ps t
    by (induction ps arbitrary: t) (auto simp: inv_rm entry_rm pending_key_def)
  from this [OF assms, of "due s now"] show ?thesis
    using entry_key [OF assms, of k]
    by (auto simp: drained_def due_iff [OF assms] image_iff split: option.splits)
qed

lemma drained_due: "inv s \<Longrightarrow> due (drained s now) now = []"
proof -
  assume inv: "inv s"
  have "p \<notin> set (due (drained s now) now)" for p
    using drained_entries [OF inv, of now "pending_key p"]
    by (auto simp: due_iff split: option.splits if_splits)
  then show ?thesis by (metis list.set_intros(1) neq_Nil_conv)
qed

end

text \<open>
  \<^verbatim>\<open>NamedLog\<close>: \<open>row\<close> is the abstraction, the row of an activity.
\<close>

locale named_log =
  fixes mark :: "'s \<Rightarrow> Naming \<Rightarrow> 's"
    and row :: "'s \<Rightarrow> int \<Rightarrow> int \<Rightarrow> NamedTitle option"
    and recent :: "'s \<Rightarrow> int \<Rightarrow> int \<Rightarrow> NamedTitle list"
    and inv :: "'s \<Rightarrow> bool"
  assumes inv_mark: "inv s \<Longrightarrow> inv (mark s n)"
    and row_mark: "inv s \<Longrightarrow> row (mark s n) a i =
          (if a = NAthleteID n \<and> i = NActivityID n then Some (naming_row n) else row s a i)"
    and recent_rows: "inv s \<Longrightarrow> e \<in> set (recent s a l) \<Longrightarrow> row s a (ActivityID e) = Some e"
    and recent_sorted: "inv s \<Longrightarrow> sorted (map newest_first (recent s a l))"
    and recent_distinct: "inv s \<Longrightarrow> distinct (map ActivityID (recent s a l))"
    and recent_limit: "inv s \<Longrightarrow> int (length (recent s a l)) \<le> max 0 l"
    and recent_missing: "inv s \<Longrightarrow> 0 < l \<Longrightarrow> row s a i = Some e \<Longrightarrow> e \<notin> set (recent s a l) \<Longrightarrow>
          int (length (recent s a l)) = l \<and> (\<forall>f \<in> set (recent s a l). newest_first f \<le> newest_first e)"
begin

lemma recent_after_mark:
  assumes "inv s" "0 < l" "\<And>i e. row s (NAthleteID n) i = Some e \<Longrightarrow> NamedAt e < NAt n"
  shows "\<exists>rest. recent (mark s n) (NAthleteID n) l = naming_row n # rest"
proof -
  let ?r = "recent (mark s n) (NAthleteID n) l" and ?e = "naming_row n"
  have i: "inv (mark s n)" by (rule inv_mark) fact
  have row: "row (mark s n) (NAthleteID n) (NActivityID n) = Some ?e"
    by (simp add: row_mark assms)
  have first: "f = ?e \<or> newest_first ?e < newest_first f" if "f \<in> set ?r" for f
    using recent_rows [OF i that] assms(3) [of "ActivityID f" f]
    by (auto simp: row_mark assms naming_row_def newest_first_def split: if_splits)
  have mem: "?e \<in> set ?r"
  proof (rule ccontr)
    assume out: "?e \<notin> set ?r"
    from recent_missing [OF i assms(2) row this]
    have len: "int (length ?r) = l" and le: "\<forall>f \<in> set ?r. newest_first f \<le> newest_first ?e" by auto
    with assms(2) obtain f where f: "f \<in> set ?r" by (cases ?r) auto
    with le have "newest_first f \<le> newest_first ?e" by blast
    with first [OF f] out f show False by auto
  qed
  then obtain f rest where r: "?r = f # rest" by (cases ?r) auto
  have "newest_first f \<le> newest_first ?e"
    using recent_sorted [OF i, of "NAthleteID n" l] mem by (auto simp: r)
  moreover have "f \<in> set ?r" by (simp add: r)
  ultimately have "f = ?e" using first by fastforce
  with r show ?thesis by blast
qed

lemma recent_complete:
  "inv s \<Longrightarrow> 0 < l \<Longrightarrow> int (length (recent s a l)) < l \<Longrightarrow>
   e \<in> set (recent s a l) \<longleftrightarrow> row s a (ActivityID e) = Some e"
  using recent_rows recent_missing by fastforce

end

text \<open>\<^verbatim>\<open>Franchises\<close>: how far along each series an athlete is.\<close>

locale franchise_positions =
  fixes position :: "'s \<Rightarrow> int \<Rightarrow> string \<Rightarrow> int"
    and advance :: "'s \<Rightarrow> int \<Rightarrow> string \<Rightarrow> int \<Rightarrow> ('s \<times> int) option"
    and inv :: "'s \<Rightarrow> bool"
  assumes position_nonneg: "inv s \<Longrightarrow> 0 \<le> position s a f"
    and advance_negative: "j < 0 \<Longrightarrow> advance s a f j = None"
    and advance_returns: "inv s \<Longrightarrow> 0 \<le> j \<Longrightarrow>
          \<exists>s'. advance s a f j = Some (s', max (position s a f) (j + 1)) \<and> inv s'"
    and advance_position: "inv s \<Longrightarrow> advance s a f j = Some (s', r) \<Longrightarrow>
          position s' b g = (if b = a \<and> g = f then max (position s a f) (j + 1) else position s b g)"
begin

fun advance_all :: "'s \<Rightarrow> int \<Rightarrow> string \<Rightarrow> int list \<Rightarrow> 's" where
  "advance_all s a f [] = s"
| "advance_all s a f (j # js) =
     (case advance s a f j of None \<Rightarrow> advance_all s a f js | Some (s', _) \<Rightarrow> advance_all s' a f js)"

lemma advance_all_position:
  "inv s \<Longrightarrow> inv (advance_all s a f js) \<and>
   position (advance_all s a f js) a f = fold max (map (\<lambda>j. j + 1) js) (position s a f)"
proof (induction js arbitrary: s)
  case (Cons j js)
  show ?case
  proof (cases "j < 0")
    case True
    with Cons position_nonneg [OF Cons.prems, of a f] show ?thesis
      by (simp add: advance_negative max_absorb2)
  next
    case False
    then obtain s' where "advance s a f j = Some (s', max (position s a f) (j + 1))" "inv s'"
      using advance_returns [OF Cons.prems, of j a f] by auto
    with Cons advance_position [OF Cons.prems, of a f j s'] show ?thesis
      by (simp add: max.commute)
  qed
qed simp

lemma advance_all_order:
  assumes "inv s" "set js = set ks"
  shows "position (advance_all s a f js) a f = position (advance_all s a f ks) a f"
proof -
  have "fold max xs x = Max (insert x (set xs))" for xs and x :: int
    using Max.set_eq_fold [of x xs] by simp
  with assms show ?thesis by (simp add: advance_all_position)
qed

end

section \<open>Memory implements the interfaces\<close>

definition pending_entry :: "Memory \<Rightarrow> actkey \<Rightarrow> Pending option" where
  "pending_entry m = map_of (mPending m)"

lemma wf_pending_mem:
  "wf_Memory m \<Longrightarrow> (k, p) \<in> set (mPending m) \<Longrightarrow> pending_key p = k"
  by (auto simp: wf_Memory_def list_all_iff)

lemma pending_entry_mem:
  "wf_Memory m \<Longrightarrow> p \<in> snd ` set (mPending m) \<longleftrightarrow> pending_entry m (pending_key p) = Some p"
  using wf_pending_mem [of m]
  by (force simp: pending_entry_def wf_Memory_def dest: map_of_SomeD)

lemma wf_pending_keys: "wf_Memory m \<Longrightarrow> map pending_key (map snd (mPending m)) = map fst (mPending m)"
  using wf_pending_mem [of m] by auto

lemma distinct_sorted_filter:
  assumes "distinct (map f xs)"
  shows "distinct (map f (sort_key g (filter P xs)))"
proof -
  have "distinct (map f (filter P xs))" using assms by (induction xs) auto
  then show ?thesis by (simp add: distinct_map)
qed

interpretation mq: queue Enqueue Due Remove Len pending_entry wf_Memory
proof (unfold_locales, goal_cases)
  case 1 then show ?case by (rule wf_Memory_ops)
next
  case 2 then show ?case by (rule wf_Memory_ops)
next
  case 3 then show ?case
    by (auto simp: pending_entry_def Enqueue_def update_conv' fun_upd_idem split: option.splits)
next
  case 4 then show ?case by (auto simp: pending_entry_def Enqueue_def split: option.splits)
next
  case 5 then show ?case by (auto simp: pending_entry_def Remove_def delete_conv' fun_upd_def)
next
  case (6 m p now) then show ?case
    using pending_entry_mem [of m p] by (auto simp: Due_def SortPending_def)
next
  case (7 m now) then show ?case
    unfolding Due_def SortPending_def
    by (intro distinct_sorted_filter) (simp add: wf_pending_keys wf_Memory_def del: map_map)
next
  case 8 then show ?case by (simp add: Due_def SortPending_def)
next
  case 9 then show ?case unfolding pending_entry_def by (blast dest: map_of_SomeD intro: wf_pending_mem)
next
  case (10 m) then show ?case
    using distinct_card [of "map fst (mPending m)"]
    by (simp add: pending_entry_def Len_def wf_Memory_def dom_map_of_conv_image_fst)
qed

lemma wf_named_mem: "wf_Memory m \<Longrightarrow> (k, e) \<in> set (mNamed m) \<Longrightarrow> ActivityID e = snd k"
  by (auto simp: wf_Memory_def rows_keyed_def list_all_iff)

lemma athlete_rows_mem:
  assumes "wf_Memory m"
  shows "e \<in> set (athlete_rows m a) \<longleftrightarrow> Named m a (ActivityID e) = Some e"
proof
  assume "e \<in> set (athlete_rows m a)"
  then obtain i where "((a, i), e) \<in> set (mNamed m)" by (auto simp: athlete_rows_def)
  with wf_named_mem [OF assms this] assms show "Named m a (ActivityID e) = Some e"
    by (simp add: Named_def wf_Memory_def)
next
  assume "Named m a (ActivityID e) = Some e"
  then have "((a, ActivityID e), e) \<in> set (mNamed m)" by (auto simp: Named_def dest: map_of_SomeD)
  then show "e \<in> set (athlete_rows m a)" by (force simp: athlete_rows_def)
qed

lemma athlete_rows_distinct: "wf_Memory m \<Longrightarrow> distinct (map ActivityID (athlete_rows m a))"
proof -
  have "rows_keyed rows \<Longrightarrow> distinct (map fst rows) \<Longrightarrow>
    distinct (map ActivityID (map snd (filter (\<lambda>(k, _). fst k = a) rows))) \<and>
    ActivityID ` snd ` set (filter (\<lambda>(k, _). fst k = a) rows) \<subseteq> {i. (a, i) \<in> fst ` set rows}" for rows
    by (induction rows) (force simp: rows_keyed_def)+
  then show "wf_Memory m \<Longrightarrow> distinct (map ActivityID (athlete_rows m a))"
    by (simp add: athlete_rows_def wf_Memory_def)
qed

lemma RecentTitles_take:
  "RecentTitles m a l = take (nat l) (sort_key newest_first (athlete_rows m a))"
proof -
  have "(if l \<le> 0 then [] else if int (length xs) > l then take (nat l) xs else xs) = take (nat l) xs"
    for xs :: "NamedTitle list" by auto
  then show ?thesis unfolding RecentTitles_def Let_def .
qed

lemma sorted_take_drop:
  assumes "sorted (map f xs)" "x \<in> set (take n xs)" "y \<in> set (drop n xs)"
  shows "f x \<le> f y"
proof -
  have "sorted (map f (take n xs) @ map f (drop n xs))"
    using assms(1) by (simp flip: map_append)
  with assms(2,3) show ?thesis by (auto simp: sorted_append)
qed

interpretation ml: named_log MarkNamed Named RecentTitles wf_Memory
proof (unfold_locales, goal_cases)
  case 1 then show ?case by (rule wf_Memory_ops)
next
  case 2 then show ?case by (auto simp: Named_def MarkNamed_def update_conv')
next
  case (3 m e a l) then show ?case
    using athlete_rows_mem [of m e a] by (auto simp: RecentTitles_take dest: in_set_takeD)
next
  case 4 then show ?case by (simp add: RecentTitles_take sorted_wrt_take flip: take_map)
next
  case (5 m a l) then show ?case
    using distinct_sorted_filter [OF athlete_rows_distinct [of m a], of newest_first "\<lambda>_. True"]
    by (simp add: RecentTitles_take flip: take_map)
next
  case 6 then show ?case by (simp add: RecentTitles_take)
next
  case (7 m l a i e)
  let ?xs = "sort_key newest_first (athlete_rows m a)"
  have "ActivityID e = i" using 7 by (auto simp: Named_def wf_Memory_def rows_keyed_def list_all_iff dest!: map_of_SomeD)
  with 7 have "e \<in> set ?xs" by (simp add: athlete_rows_mem)
  then have "e \<in> set (take (nat l) ?xs) \<union> set (drop (nat l) ?xs)"
    by (metis append_take_drop_id set_append)
  with 7 have e: "e \<in> set (drop (nat l) ?xs)" by (auto simp: RecentTitles_take)
  then have "nat l < length ?xs" by (metis drop_eq_Nil emptyE empty_set not_le)
  with 7 show ?case
    using sorted_take_drop [OF sorted_sort_key [of newest_first "athlete_rows m a"] _ e]
    by (auto simp: RecentTitles_take)
qed

lemma position_update:
  "FranchisePosition (m\<lparr>mFranchises := AList.update (a, f) n (mFranchises m)\<rparr>) b g =
     (if b = a \<and> g = f then n else FranchisePosition m b g)"
  by (auto simp: FranchisePosition_def update_conv')

interpretation mf: franchise_positions FranchisePosition AdvanceFranchisePast wf_Memory
proof (unfold_locales, goal_cases)
  case (1 m a f) then show ?case
    by (auto simp: FranchisePosition_def wf_Memory_def list_all_iff dest!: map_of_SomeD split: option.splits)
next
  case 2 then show ?case by (simp add: AdvanceFranchisePast_def)
next
  case (3 m j a f) then show ?case
    using wf_Memory_ops(7) [of m a f j]
    by (auto simp: AdvanceFranchisePast_def Let_def position_update max_def)
next
  case (4 m a f j m' r b g) then show ?case
    by (auto simp: AdvanceFranchisePast_def Let_def position_update max_def split: if_splits)
qed

section \<open>Properties\<close>

definition ride_event :: "int \<Rightarrow> instant \<Rightarrow> Pending" where
  "ride_event i t = \<lparr>PAthleteID = 7, PActivityID = i, Aspect = ''create'', EnqueuedAt = t,
     ProcessAfter = t + 600 * second\<rparr>"

definition ride_naming :: "int \<Rightarrow> instant \<Rightarrow> Naming" where
  "ride_naming i t = \<lparr>NAthleteID = 7, NActivityID = i, NTitle = ''Isar'', NLanguage = ''de'', NAt = t,
     NSource = SourceService\<rparr>"

text \<open>However often an activity's event is delivered, the queue holds the first delivery: any
  later entry for the same activity, whatever its aspect or deadline, changes nothing.\<close>

theorem enqueue_collapses:
  assumes "wf_Memory m" and "map_of (mPending m) (pending_key p) = None"
    and "\<forall>q \<in> set ps. pending_key q = pending_key p"
  shows "map_of (mPending (fold (\<lambda>q s. fst (Enqueue s q)) (p # ps) m)) =
    (map_of (mPending m))(pending_key p \<mapsto> p)"
  using mq.redelivery [of m p ps] assms by (simp add: pending_entry_def)

lemma enqueue_collapses_witness:
  "map_of (mPending (fold (\<lambda>q s. fst (Enqueue s q)) [ride_event 5 0, ride_event 5 9] NewMemory)) (7, 5)
    = Some (ride_event 5 0)"
proof -
  have "\<forall>q \<in> set [ride_event 5 9]. pending_key q = pending_key (ride_event 5 0)"
    by (simp add: pending_key_def ride_event_def)
  from enqueue_collapses [OF wf_NewMemory _ this] show ?thesis
    by (simp add: NewMemory_def pending_key_def ride_event_def)
qed

text \<open>\<^verbatim>\<open>Due\<close> returns exactly the queued entries whose delay has elapsed, each once and in
  deadline order, and removing what it returned leaves nothing due while every entry still
  waiting stays queued.\<close>

theorem due_exact:
  assumes "wf_Memory m"
  shows "(\<forall>p. p \<in> set (Due m now) \<longleftrightarrow>
            map_of (mPending m) (pending_key p) = Some p \<and> ProcessAfter p \<le> now)
    \<and> distinct (map pending_key (Due m now)) \<and> sorted (map byDeadline (Due m now))
    \<and> Due (mq.drained m now) now = []
    \<and> (\<forall>k. map_of (mPending (mq.drained m now)) k =
          (case map_of (mPending m) k of None \<Rightarrow> None | Some p \<Rightarrow> if ProcessAfter p \<le> now then None else Some p))"
proof -
  have due: "pending_due = (\<lambda>p now. ProcessAfter p \<le> now)"
    by (intro ext) (simp add: pending_due_def before_def not_less)
  show ?thesis
    using mq.due_iff [OF assms] mq.due_distinct [OF assms] mq.due_sorted [OF assms]
      mq.drained_due [OF assms] mq.drained_entries [OF assms]
    unfolding pending_entry_def due by simp
qed

lemma due_exact_witness:
  "ride_event 5 0 \<in> set (Due (fst (Enqueue NewMemory (ride_event 5 0))) (600 * second))"
proof -
  have "wf_Memory (fst (Enqueue NewMemory (ride_event 5 0)))" by (simp add: wf_Memory_ops)
  from due_exact [OF this, of "600 * second"] show ?thesis
    by (simp add: Enqueue_def NewMemory_def pending_key_def ride_event_def)
qed

text \<open>The title history answers with the athlete's newest rows: never more than the limit,
  newest first, each row the one recorded for its activity, and a row left out only when the
  limit is reached by rows at least as new. In particular a title just recorded at a later
  time than all others heads the list.\<close>

theorem recent_titles_newest:
  assumes "wf_Memory m" and "0 < l"
  shows "int (length (RecentTitles m a l)) \<le> l \<and> sorted (map newest_first (RecentTitles m a l))
    \<and> distinct (map ActivityID (RecentTitles m a l))
    \<and> (\<forall>e \<in> set (RecentTitles m a l). Named m a (ActivityID e) = Some e)
    \<and> (\<forall>i e. Named m a i = Some e \<and> e \<notin> set (RecentTitles m a l) \<longrightarrow>
         int (length (RecentTitles m a l)) = l \<and>
         (\<forall>f \<in> set (RecentTitles m a l). newest_first f \<le> newest_first e))
    \<and> (\<forall>n. NAthleteID n = a \<and> (\<forall>i e. Named m a i = Some e \<longrightarrow> NamedAt e < NAt n) \<longrightarrow>
         (\<exists>rest. RecentTitles (MarkNamed m n) a l = naming_row n # rest))"
  using ml.recent_limit [OF assms(1), of a l] ml.recent_sorted [OF assms(1)]
    ml.recent_distinct [OF assms(1)] ml.recent_rows [OF assms(1)] ml.recent_missing [OF assms]
    ml.recent_after_mark [OF assms] assms(2)
  by (intro conjI) (simp, blast, blast, blast, blast, blast)

lemma recent_titles_newest_witness:
  "\<exists>rest. RecentTitles (MarkNamed (MarkNamed NewMemory (ride_naming 3 10)) (ride_naming 2 20)) 7 5 =
     naming_row (ride_naming 2 20) # rest"
proof -
  let ?m = "MarkNamed NewMemory (ride_naming 3 10)"
  have "wf_Memory ?m" by (simp add: wf_Memory_ops)
  from recent_titles_newest [OF this, of 5 7]
  have "\<forall>n. NAthleteID n = 7 \<and> (\<forall>i e. Named ?m 7 i = Some e \<longrightarrow> NamedAt e < NAt n) \<longrightarrow>
    (\<exists>rest. RecentTitles (MarkNamed ?m n) 7 5 = naming_row n # rest)" by simp
  moreover have "\<forall>i e. Named ?m 7 i = Some e \<longrightarrow> NamedAt e < NAt (ride_naming 2 20)"
    by (auto simp: Named_def MarkNamed_def NewMemory_def ride_naming_def naming_row_def)
  moreover have "NAthleteID (ride_naming 2 20) = 7" by (simp add: ride_naming_def)
  ultimately show ?thesis by blast
qed

text \<open>A series position is monotone and insensitive to replay and interleaving: after any
  sequence of advances it is one past the greatest index used (or what it was, if that is
  greater), so two sequences with the same indices agree whatever their order and repetitions,
  and no other athlete's or series' position moves.\<close>

theorem franchise_position_max:
  assumes "wf_Memory m"
  shows "FranchisePosition (mf.advance_all m a f js) a f =
      fold max (map (\<lambda>j. j + 1) js) (FranchisePosition m a f)
    \<and> (\<forall>ks. set ks = set js \<longrightarrow>
        FranchisePosition (mf.advance_all m a f ks) a f = FranchisePosition (mf.advance_all m a f js) a f)
    \<and> (\<forall>j m' r. AdvanceFranchisePast m a f j = Some (m', r) \<longrightarrow>
        r = FranchisePosition m' a f \<and> FranchisePosition m a f \<le> r \<and> j < r \<and>
        (\<forall>b g. (b, g) \<noteq> (a, f) \<longrightarrow> FranchisePosition m' b g = FranchisePosition m b g))"
proof (intro conjI allI impI)
  show "FranchisePosition (mf.advance_all m a f js) a f =
      fold max (map (\<lambda>j. j + 1) js) (FranchisePosition m a f)"
    using mf.advance_all_position [OF assms] by blast
  show "FranchisePosition (mf.advance_all m a f ks) a f = FranchisePosition (mf.advance_all m a f js) a f"
    if "set ks = set js" for ks using mf.advance_all_order [OF assms that] .
  fix j m' r assume adv: "AdvanceFranchisePast m a f j = Some (m', r)"
  then show r: "r = FranchisePosition m' a f"
    by (auto simp: AdvanceFranchisePast_def Let_def split: if_splits)
  show "FranchisePosition m a f \<le> r" "j < r"
    using mf.advance_position [OF assms adv, of a f] by (simp_all add: r)
  show "FranchisePosition m' b g = FranchisePosition m b g" if "(b, g) \<noteq> (a, f)" for b g
    using mf.advance_position [OF assms adv, of b g] that by auto
qed

lemma franchise_position_max_witness:
  "FranchisePosition (mf.advance_all NewMemory 7 ''Pink Panther'' [4, 1, 4]) 7 ''Pink Panther'' = 5"
  using franchise_position_max [OF wf_NewMemory, of 7 "''Pink Panther''" "[4, 1, 4]"]
  by (simp add: FranchisePosition_def NewMemory_def)

end
