(* ===== verification/Franchise.thy ===== *)
theory Franchise
  imports Titles Store
begin

text \<open>
  \<^verbatim>\<open>internal/naming/franchise.go\<close> and \<^verbatim>\<open>achievements.go\<close>: ordered title series, the guard that
  keeps a title from claiming an entry, and the evidence that spends one. Positions and indices
  are integers; a series is far shorter than any machine integer.
\<close>

section \<open>Matching (normalizeForMatch, entryCore, UsesEntry)\<close>

definition match_rune :: "tables \<Rightarrow> rune \<Rightarrow> rune" where
  "match_rune U r = (if word_rune U r then lower_rune U r else 32)"

definition normalizeForMatch :: "tables \<Rightarrow> string \<Rightarrow> string" where
  "normalizeForMatch U s = squeeze (map_runes (Some \<circ> match_rune U) s)"

definition articles :: "string list" where
  "articles = [''the '', ''a '', ''an '']"

fun drop_article :: "string list \<Rightarrow> string \<Rightarrow> string" where
  "drop_article [] normalized = normalized"
| "drop_article (article # rest) normalized =
     (case cut_prefix article normalized of
        Some r \<Rightarrow> r | None \<Rightarrow> drop_article rest normalized)"

definition entryCore :: "tables \<Rightarrow> string \<Rightarrow> string" where
  "entryCore U entry = drop_article articles (normalizeForMatch U entry)"

definition UsesEntry :: "tables \<Rightarrow> string \<Rightarrow> string \<Rightarrow> bool" where
  "UsesEntry U title entry =
     (let core = entryCore U entry in
      if core = [] then False
      else let normalized = normalizeForMatch U title in
        if normalized = [] then False
        else str_contains ('' '' @ normalized @ '' '') ('' '' @ core @ '' ''))"

definition Offerable :: "tables \<Rightarrow> string \<Rightarrow> bool" where
  "Offerable U entry =
     (if entryCore U entry = [] then False else length (runes (trim_space entry)) \<le> MaxTitleRunes)"

section \<open>Series\<close>

record Franchise =
  FName :: string
  FSportTypes :: "string list"
  FGearName :: string
  FTitles :: "string list"
  FReserved :: "string list"

definition SameEntry :: "tables \<Rightarrow> string \<Rightarrow> string \<Rightarrow> bool" where
  "SameEntry U a b = equal_fold U (trim_space a) (trim_space b)"

definition IsReserved :: "tables \<Rightarrow> Franchise \<Rightarrow> string \<Rightarrow> bool" where
  "IsReserved U f title = list_ex (\<lambda>entry. SameEntry U entry title) (FReserved f)"

fun next_from :: "tables \<Rightarrow> Franchise \<Rightarrow> string list \<Rightarrow> int \<Rightarrow> (string \<times> int) option" where
  "next_from U f [] i = None"
| "next_from U f (t # ts) i = (if IsReserved U f t then next_from U f ts (i + 1) else Some (t, i))"

definition Next :: "tables \<Rightarrow> Franchise \<Rightarrow> int \<Rightarrow> (string \<times> int) option" where
  "Next U f position =
     (if position < 0 then None else next_from U f (drop (nat position) (FTitles f)) position)"

definition Applies :: "tables \<Rightarrow> Franchise \<Rightarrow> string \<Rightarrow> string \<Rightarrow> bool" where
  "Applies U f sportType gearName =
     (let configured = trim_space (FGearName f) in
      if configured \<noteq> [] \<and> \<not> equal_fold U (trim_space gearName) configured then False
      else if length (FSportTypes f) = 0 then True
      else list_ex (\<lambda>want. equal_fold U sportType want) (FSportTypes f))"

definition FranchiseFor :: "tables \<Rightarrow> Franchise list \<Rightarrow> string \<Rightarrow> string \<Rightarrow> Franchise option" where
  "FranchiseFor U franchises sportType gearName =
     find (\<lambda>f. Applies U f sportType gearName) franchises"

definition DefaultProfile :: "Franchise list" where
  "DefaultProfile =
     [\<lparr>FName = ''pink-panther'', FSportTypes = [''GravelRide'', ''Ride''], FGearName = ''Pink Panther'',
       FTitles = [''The Pink Panther'', ''A Shot in the Dark'', ''Inspector Clouseau'',
         ''The Return of the Pink Panther'', ''Trail of the Pink Panther'', ''Son of the Pink Panther''],
       FReserved = [''The Pink Panther'', ''A Shot in the Dark'', ''Inspector Clouseau'',
         ''The Return of the Pink Panther'', ''Trail of the Pink Panther'']\<rparr>]"

section \<open>The guard\<close>

record Guarded =
  entries :: "string list"
  gearName :: string

definition isMotif :: "tables \<Rightarrow> Guarded \<Rightarrow> string \<Rightarrow> bool" where
  "isMotif U g entry = (let gear = entryCore U (gearName g) in gear \<noteq> [] \<and> entryCore U entry = gear)"

definition claims :: "tables \<Rightarrow> Guarded \<Rightarrow> string \<Rightarrow> string \<Rightarrow> bool" where
  "claims U g title entry =
     (if \<not> isMotif U g entry then UsesEntry U title entry
      else let normalized = normalizeForMatch U title in
        normalized \<noteq> [] \<and> (normalized = normalizeForMatch U entry \<or> normalized = entryCore U entry))"

definition Guard :: "tables \<Rightarrow> Franchise \<Rightarrow> string \<Rightarrow> Guarded" where
  "Guard U f offered =
     (let g = \<lparr>entries = [], gearName = FGearName f\<rparr> in
      g\<lparr>entries := filter (\<lambda>t. \<not> (offered \<noteq> [] \<and> claims U g offered t)) (FTitles f)\<rparr>)"

definition Claimed :: "tables \<Rightarrow> Guarded \<Rightarrow> string \<Rightarrow> string option" where
  "Claimed U g title = find (claims U g title) (entries g)"

section \<open>achievements.go\<close>

definition CopiesAchievement :: "tables \<Rightarrow> string \<Rightarrow> string list \<Rightarrow> string option" where
  "CopiesAchievement U title achievements =
     (let normalized = normalizeForMatch U title in
      if normalized = [] then None
      else find (\<lambda>name. let candidate = normalizeForMatch U name in
             candidate \<noteq> [] \<and> (normalized = candidate \<or> normalized = entryCore U name)) achievements)"

section \<open>Matching is about words\<close>

text \<open>
  The reference reading of the matcher: a title is its list of lower-cased words, an entry is
  its words without a leading article, and an entry is used when its words occur in the title
  one after the other.
\<close>

definition match_words :: "tables \<Rightarrow> string \<Rightarrow> string list" where
  "match_words U s = str_fields (map_runes (Some \<circ> match_rune U) s)"

definition core_words :: "tables \<Rightarrow> string \<Rightarrow> string list" where
  "core_words U entry = (case match_words U entry of
     w # v # ws \<Rightarrow> if w \<in> {''the'', ''a'', ''an''} then v # ws else w # v # ws
   | ws \<Rightarrow> ws)"

lemma normalizeForMatch_words: "normalizeForMatch U s = join_with '' '' (match_words U s)"
  by (simp add: normalizeForMatch_def squeeze_def match_words_def)

lemma match_word: "w \<in> set (match_words U s) \<Longrightarrow> str_fields w = [w]"
  unfolding match_words_def by (rule str_fields_word)

lemma str_fields_match [simp]: "str_fields (normalizeForMatch U s) = match_words U s"
  by (simp add: normalizeForMatch_def match_words_def)

lemma match_words_empty [simp]: "normalizeForMatch U s = [] \<longleftrightarrow> match_words U s = []"
proof
  assume "normalizeForMatch U s = []"
  then have "match_words U s = str_fields []" by (metis str_fields_match)
  then show "match_words U s = []" by (simp add: str_fields_Nil_iff)
qed (simp add: normalizeForMatch_words)

lemma str_fields_length: "w \<in> set (str_fields s) \<Longrightarrow> length w \<le> length s"
proof -
  assume "w \<in> set (str_fields s)"
  then obtain F where F: "w = bytes_of F" "F \<in> set (splits_by (is_space \<circ> fst) (segs s))"
    by (auto simp: str_fields_def fields_func_def fields_by_def)
  then obtain A B where "segs s = A @ F @ B" using splits_by_infix by blast
  then have "s = bytes_of A @ w @ bytes_of B" by (metis F(1) bytes_of_segs bytes_of_simps(3))
  then show ?thesis by (metis le_add1 le_add2 length_append le_trans)
qed

lemma str_fields_no_blank: "str_fields w = [w] \<Longrightarrow> w \<noteq> [] \<and> CHR '' '' \<notin> set w"
proof -
  assume w: "str_fields w = [w]"
  have "w \<noteq> []" using w by (metis list.distinct(1) str_fields_Nil_iff runes_Nil empty_iff empty_set)
  moreover have "CHR '' '' \<notin> set w"
  proof
    assume "CHR '' '' \<in> set w"
    then obtain a b where ab: "w = a @ CHR '' '' # b" by (meson split_list)
    then have fields: "str_fields a @ str_fields b = [w]" using w by (simp add: str_fields_append_blank)
    then consider "str_fields a = [w]" | "str_fields b = [w]"
      by (metis append_Nil append_eq_Cons_conv append_is_Nil_conv)
    moreover have len: "x \<in> set (str_fields s) \<Longrightarrow> length x \<le> length s" for x s
      by (rule str_fields_length)
    ultimately show False using len [of w a] len [of w b] ab by cases auto
  qed
  ultimately show ?thesis ..
qed

lemma match_word_no_blank: "w \<in> set (match_words U s) \<Longrightarrow> w \<noteq> [] \<and> CHR '' '' \<notin> set w"
  by (rule str_fields_no_blank) (rule match_word)

lemma str_fields_Nil [simp]: "str_fields [] = []"
  by (simp add: str_fields_Nil_iff)

lemma cut_prefix_word:
  "CHR '' '' \<notin> set a \<Longrightarrow> CHR '' '' \<notin> set w \<Longrightarrow>
   cut_prefix (a @ '' '') (w @ '' '' @ r) = (if w = a then Some r else None)"
proof (induction a arbitrary: w)
  case Nil
  then show ?case by (cases w) (auto simp: cut_prefix_def)
next
  case (Cons c a)
  show ?case
  proof (cases w)
    case Nil
    with Cons.prems show ?thesis by (auto simp: cut_prefix_def)
  next
    case (Cons d w')
    have "cut_prefix ((c # a) @ '' '') ((d # w') @ '' '' @ r) =
        (if d = c then cut_prefix (a @ '' '') (w' @ '' '' @ r) else None)"
      by (auto simp: cut_prefix_def)
    moreover have "cut_prefix (a @ '' '') (w' @ '' '' @ r) = (if w' = a then Some r else None)"
      using Cons.prems by (intro Cons.IH) (simp_all add: Cons)
    ultimately show ?thesis unfolding Cons by (simp only: list.inject) auto
  qed
qed

lemma cut_prefix_single: "CHR '' '' \<notin> set w \<Longrightarrow> cut_prefix (a @ '' '') w = None"
  by (auto simp: cut_prefix_def prefix_def)

lemma words_cases:
  obtains "ws = []" | w where "ws = [w]" | w v vs where "ws = w # v # vs"
  by (metis neq_Nil_conv)

lemma entryCore_words: "entryCore U e = join_with '' '' (core_words U e)"
proof (cases "match_words U e" rule: words_cases)
  case 1
  then show ?thesis
    by (simp add: entryCore_def core_words_def normalizeForMatch_words articles_def cut_prefix_def)
next
  case (2 w)
  then have "CHR '' '' \<notin> set w" using match_word_no_blank [of w U e] by simp
  then show ?thesis
    using 2 cut_prefix_single [of w "''the''"] cut_prefix_single [of w "''a''"]
      cut_prefix_single [of w "''an''"]
    by (simp add: entryCore_def core_words_def normalizeForMatch_words articles_def)
next
  case (3 w v vs)
  then have "CHR '' '' \<notin> set w" using match_word_no_blank [of w U e] by simp
  then have "cut_prefix ''the '' (w @ '' '' @ r) = (if w = ''the'' then Some r else None)"
    "cut_prefix ''a '' (w @ '' '' @ r) = (if w = ''a'' then Some r else None)"
    "cut_prefix ''an '' (w @ '' '' @ r) = (if w = ''an'' then Some r else None)" for r
    using cut_prefix_word [of "''the''" w r] cut_prefix_word [of "''a''" w r]
      cut_prefix_word [of "''an''" w r] by simp_all
  note cuts = this [of "join_with '' '' (v # vs)"]
  have norm: "normalizeForMatch U e = w @ '' '' @ join_with '' '' (v # vs)"
    by (simp add: normalizeForMatch_words 3)
  show ?thesis
    unfolding entryCore_def articles_def drop_article.simps norm cuts core_words_def 3 list.case
    by (auto split: if_splits)
qed

lemma core_words_subset: "set (core_words U e) \<subseteq> set (match_words U e)"
  by (cases "match_words U e" rule: words_cases) (auto simp: core_words_def)

lemma str_fields_core [simp]: "str_fields (entryCore U e) = core_words U e"
  unfolding entryCore_words using core_words_subset match_word
  by (intro str_fields_join) blast

lemma entryCore_empty [simp]: "entryCore U e = [] \<longleftrightarrow> core_words U e = []"
proof
  assume "entryCore U e = []"
  then have "core_words U e = str_fields []" by (metis str_fields_core)
  then show "core_words U e = []" by (simp add: str_fields_Nil_iff)
qed (simp add: entryCore_words)

definition padded :: "string list \<Rightarrow> string" where
  "padded ws = concat (map (\<lambda>w. '' '' @ w) ws)"

lemma padded_join: "ws \<noteq> [] \<Longrightarrow> '' '' @ join_with '' '' ws @ r = padded ws @ r"
proof (induction ws)
  case (Cons w ws)
  then show ?case by (cases ws) (auto simp: padded_def)
qed simp

lemma padded_contains:
  assumes "C \<noteq> []"
  shows "str_contains ('' '' @ join_with '' '' (A @ C @ B) @ '' '') ('' '' @ join_with '' '' C @ '' '')"
proof -
  obtain r where r: "padded B @ '' '' = '' '' @ r" by (cases B) (auto simp: padded_def)
  have "'' '' @ join_with '' '' (A @ C @ B) @ '' '' = padded (A @ C @ B) @ '' ''"
    using assms by (intro padded_join) simp
  also have "\<dots> = padded A @ padded C @ (padded B @ '' '')" by (simp add: padded_def)
  finally have "'' '' @ join_with '' '' (A @ C @ B) @ '' '' = padded A @ (padded C @ '' '') @ r"
    unfolding r append_assoc .
  moreover have "'' '' @ join_with '' '' C @ '' '' = padded C @ '' ''" using assms by (rule padded_join)
  ultimately show ?thesis by (metis str_contains_append)
qed

lemma UsesEntry_words:
  "UsesEntry U title entry \<longleftrightarrow> core_words U entry \<noteq> [] \<and> sublist (core_words U entry) (match_words U title)"
  (is "?l \<longleftrightarrow> ?r")
proof
  assume l: ?l
  then have core: "core_words U entry \<noteq> []" by (auto simp: UsesEntry_def Let_def split: if_splits)
  from l obtain x y where
    "'' '' @ normalizeForMatch U title @ '' '' = x @ ('' '' @ entryCore U entry @ '' '') @ y"
    by (auto simp: UsesEntry_def Let_def str_contains_iff split: if_splits)
  then have "str_fields ([] @ CHR '' '' # (normalizeForMatch U title @ CHR '' '' # [])) =
      str_fields (x @ CHR '' '' # (entryCore U entry @ CHR '' '' # y))" by simp
  then have "match_words U title = str_fields x @ core_words U entry @ str_fields y"
    unfolding str_fields_append_blank by (simp add: str_fields_Nil_iff)
  with core show ?r by (auto simp: sublist_def)
next
  assume r: ?r
  then obtain A B where words: "match_words U title = A @ core_words U entry @ B"
    by (auto simp: sublist_def)
  from r have "normalizeForMatch U title \<noteq> []" by auto
  with r padded_contains [of "core_words U entry" A B] show ?l
    by (simp add: UsesEntry_def Let_def entryCore_words [symmetric] normalizeForMatch_words words)
qed

lemma match_words_append: "tables_ok U \<Longrightarrow> match_words U (a @ '' '' @ b) = match_words U a @ match_words U b"
proof -
  assume "tables_ok U"
  then have "match_rune U 32 = 32" by (simp add: match_rune_def tables_ok_def word_rune_def
        ascii_letter_def ascii_upper_def ascii_digit_def)
  then have "map_runes (Some \<circ> match_rune U) (a @ '' '' @ b) =
      map_runes (Some \<circ> match_rune U) a @ CHR '' '' # map_runes (Some \<circ> match_rune U) b"
    by (simp add: map_runes_def runes_append_ascii map_filter_def char_of_32)
  then show ?thesis by (simp add: match_words_def str_fields_append_blank)
qed

lemma core_words_suffix: "\<exists>A. match_words U e = A @ core_words U e"
  by (cases "match_words U e" rule: words_cases) (auto simp: core_words_def)

section \<open>The rotation\<close>

lemma next_from_spec:
  "(case next_from U f ts i of
      None \<Rightarrow> list_all (IsReserved U f) ts
    | Some (t, j) \<Rightarrow> (\<exists>k. j = i + int k \<and> k < length ts \<and> ts ! k = t \<and> \<not> IsReserved U f t
        \<and> list_all (IsReserved U f) (take k ts)))"
proof (induction ts arbitrary: i)
  case (Cons t ts)
  show ?case
  proof (cases "IsReserved U f t")
    case False
    then show ?thesis by (auto intro!: exI [of _ 0])
  next
    case True
    with Cons.IH [of "i + 1"] show ?thesis
      by (auto split: option.splits intro!: exI [of _ "Suc _"])
  qed
qed simp

text \<open>What \<open>Next\<close> offers is the first entry at or after the position that is not reserved.\<close>

definition next_entry :: "tables \<Rightarrow> Franchise \<Rightarrow> int \<Rightarrow> string \<Rightarrow> int \<Rightarrow> bool" where
  "next_entry U f p t i \<longleftrightarrow> 0 \<le> p \<and> p \<le> i \<and> nat i < length (FTitles f) \<and> FTitles f ! nat i = t
     \<and> \<not> IsReserved U f t \<and> (\<forall>k. p \<le> k \<and> k < i \<longrightarrow> IsReserved U f (FTitles f ! nat k))"

lemma Next_entry:
  assumes "Next U f p = Some (t, i)"
  shows "next_entry U f p t i"
proof -
  let ?ts = "drop (nat p) (FTitles f)"
  have p: "0 \<le> p" and n: "next_from U f ?ts p = Some (t, i)" using assms by (auto simp: Next_def split: if_splits)
  from next_from_spec [of U f ?ts p] n obtain m where m: "i = p + int m" "m < length ?ts" "?ts ! m = t"
    "\<not> IsReserved U f t" "list_all (IsReserved U f) (take m ?ts)" by auto
  have "IsReserved U f (FTitles f ! nat k)" if k: "p \<le> k" "k < i" for k
  proof -
    have "nat (k - p) < m" "nat (k - p) < length ?ts" "nat p + nat (k - p) = nat k" using k p m by auto
    with m(5) show ?thesis by (auto simp: list_all_length nth_append)
  qed
  moreover have "nat i = nat p + m" using p m(1) by simp
  ultimately show ?thesis using p m by (auto simp: next_entry_def)
qed

lemma next_from_filter:
  "(case next_from U f ts i of
      None \<Rightarrow> filter (\<lambda>t. \<not> IsReserved U f t) ts = []
    | Some (t, j) \<Rightarrow> i \<le> j \<and> filter (\<lambda>t. \<not> IsReserved U f t) ts =
        t # filter (\<lambda>t. \<not> IsReserved U f t) (drop (nat (j + 1 - i)) ts))"
proof (induction ts arbitrary: i)
  case (Cons t ts)
  show ?case
  proof (cases "IsReserved U f t")
    case False
    then show ?thesis by simp
  next
    case True
    have "i + 1 \<le> j \<Longrightarrow> nat (j + 1 - i) = Suc (nat (j + 1 - (i + 1)))" for j by simp
    with True Cons.IH [of "i + 1"] show ?thesis by (auto split: option.splits)
  qed
qed simp

text \<open>
  The walk a sequence of rides takes through a series, when each ride uses the entry it was
  offered: read the position, offer, advance past what was offered.
\<close>

fun rotation :: "tables \<Rightarrow> Franchise \<Rightarrow> int \<Rightarrow> nat \<Rightarrow> Memory \<Rightarrow> string list" where
  "rotation U f athlete 0 m = []"
| "rotation U f athlete (Suc rides) m =
     (case Next U f (FranchisePosition m athlete (FName f)) of
        None \<Rightarrow> []
      | Some (t, i) \<Rightarrow>
          (case AdvanceFranchisePast m athlete (FName f) i of
             None \<Rightarrow> []
           | Some (m', _) \<Rightarrow> t # rotation U f athlete rides m'))"

lemma string_of_runes_bytes: "list_all (\<lambda>c. byte c < 128) s \<Longrightarrow> string_of_runes (map byte s) = s"
  by (induction s) simp_all

section \<open>Properties\<close>

text \<open>The evidence that spends an entry is exactly about words: a title uses an entry when the
  entry's lower-cased words, without a leading English article, stand one after the other among
  the title's words. So every entry that may be offered is recognised in any title that carries
  it between blanks, and no word is matched inside a longer one.\<close>

theorem uses_entry_words:
  assumes "tables_ok U"
  shows "(UsesEntry U title entry \<longleftrightarrow>
      core_words U entry \<noteq> [] \<and> sublist (core_words U entry) (match_words U title))
    \<and> (Offerable U entry \<longrightarrow> UsesEntry U (before' @ '' '' @ entry @ '' '' @ after) entry)"
proof (intro conjI impI)
  show "UsesEntry U title entry \<longleftrightarrow>
      core_words U entry \<noteq> [] \<and> sublist (core_words U entry) (match_words U title)"
    by (rule UsesEntry_words)
  assume "Offerable U entry"
  then have "core_words U entry \<noteq> []" by (auto simp: Offerable_def split: if_splits)
  moreover obtain A where "match_words U entry = A @ core_words U entry"
    using core_words_suffix by blast
  ultimately show "UsesEntry U (before' @ '' '' @ entry @ '' '' @ after) entry"
    unfolding UsesEntry_words using match_words_append [OF assms, of before' "entry @ '' '' @ after"]
      match_words_append [OF assms, of entry after] by (auto simp: sublist_def) (metis append.assoc)
qed

lemma uses_entry_words_witness: "UsesEntry latin1 ''Neu: The Pan im Tal'' ''The Pan''"
proof -
  have "map_runes (Some \<circ> match_rune latin1) ''The Pan'' = string_of_runes (map byte ''the pan'')"
    by (simp add: map_runes_def map_filter_simps match_rune_def word_rune_def latin1_def
        latin_lower_def ascii_letter_def ascii_upper_def ascii_digit_def)
  also have "\<dots> = ''the pan''" by (rule string_of_runes_bytes) simp
  finally have "match_words latin1 ''The Pan'' = [''the'', ''pan'']"
    by (simp add: match_words_def str_fields_def fields_func_def fields_by_def is_space_def bytes_of_def)
  then have "entryCore latin1 ''The Pan'' \<noteq> []" by (simp add: core_words_def)
  then have "Offerable latin1 ''The Pan''"
    by (simp add: Offerable_def trim_space_def is_space_def bytes_of_def MaxTitleRunes_def)
  with uses_entry_words [OF latin1_ok, of "[]" "''The Pan''" "''Neu:''" "''im Tal''"]
  show ?thesis by simp
qed

text \<open>C30: The rotation hands out each entry that is not reserved once, in the order of the list,
  starting at the stored position, whatever reserved entries lie between; then the series is
  finished and nothing is offered again.\<close>

theorem rotation_enumerates:
  assumes "wf_Memory m"
  shows "rotation U f athlete rides m =
    take rides (filter (\<lambda>t. \<not> IsReserved U f t)
      (drop (nat (FranchisePosition m athlete (FName f))) (FTitles f)))"
  using assms
proof (induction rides arbitrary: m)
  case (Suc rides)
  let ?pos = "FranchisePosition m athlete (FName f)"
  let ?rest = "drop (nat ?pos) (FTitles f)"
  have pos: "0 \<le> ?pos" using mf.position_nonneg [OF Suc.prems] .
  then have offer: "Next U f ?pos = next_from U f ?rest ?pos" by (simp add: Next_def)
  show ?case
  proof (cases "next_from U f ?rest ?pos")
    case None
    with next_from_filter [of U f ?rest ?pos] show ?thesis by (simp add: offer)
  next
    case (Some ti)
    then obtain t i where ti: "next_from U f ?rest ?pos = Some (t, i)" by (cases ti) auto
    with next_from_filter [of U f ?rest ?pos] have le: "?pos \<le> i"
      and split: "filter (\<lambda>t. \<not> IsReserved U f t) ?rest =
        t # filter (\<lambda>t. \<not> IsReserved U f t) (drop (nat (i + 1 - ?pos)) ?rest)" by auto
    obtain m' where m': "AdvanceFranchisePast m athlete (FName f) i = Some (m', max ?pos (i + 1))" "wf_Memory m'"
      using mf.advance_returns [OF Suc.prems, of i athlete "FName f"] pos le by auto
    then have "FranchisePosition m' athlete (FName f) = i + 1"
      using mf.advance_position [OF Suc.prems m'(1)] le by simp
    moreover have "nat (i + 1 - ?pos) + nat ?pos = nat (i + 1)" using pos le by simp
    ultimately show ?thesis
      using Suc.IH [OF m'(2)] m'(1) split by (simp add: offer ti)
  qed
qed simp

lemma rotation_enumerates_witness:
  "rotation latin1 \<lparr>FName = ''s'', FSportTypes = [], FGearName = [], FTitles = [''A'', ''B''], FReserved = []\<rparr>
     7 5 NewMemory = [''A'', ''B'']"
  using rotation_enumerates [OF wf_NewMemory, of latin1
      "\<lparr>FName = ''s'', FSportTypes = [], FGearName = [], FTitles = [''A'', ''B''], FReserved = []\<rparr>" 7 5]
  by (simp add: FranchisePosition_def NewMemory_def IsReserved_def)

text \<open>The guard refuses a title exactly when it claims an entry that is not released by the
  offer, and it never refuses the offered entry itself: a title it lets through spends, beyond
  the motif, only entries the offered entry spends as well.\<close>

theorem guard_exact:
  assumes "offered \<noteq> []"
  shows "Claimed U (Guard U f offered) offered = None
    \<and> (Claimed U (Guard U f offered) title = None \<longrightarrow>
        (\<forall>e \<in> set (FTitles f). UsesEntry U title e \<and> \<not> isMotif U (Guard U f offered) e \<longrightarrow>
           UsesEntry U offered e))
    \<and> (\<forall>e. Claimed U (Guard U f offered) title = Some e \<longrightarrow>
        e \<in> set (FTitles f) \<and> claims U (Guard U f offered) title e
        \<and> \<not> claims U (Guard U f offered) offered e)"
proof -
  have same: "claims U g = claims U (Guard U f offered)" if "gearName g = FGearName f" for g
    using that by (intro ext) (simp add: claims_def isMotif_def Guard_def)
  have entries: "set (entries (Guard U f offered)) =
      {t \<in> set (FTitles f). \<not> claims U (Guard U f offered) offered t}"
    using assms same [of "\<lparr>entries = [], gearName = FGearName f\<rparr>"] by (simp add: Guard_def)
  have plain: "claims U g s e = UsesEntry U s e" if "\<not> isMotif U g e" for g s e
    using that by (simp add: claims_def)
  show ?thesis
  proof (intro conjI impI ballI allI)
    show "Claimed U (Guard U f offered) offered = None"
      by (simp add: Claimed_def find_None_iff entries)
  next
    fix e assume "Claimed U (Guard U f offered) title = None" "e \<in> set (FTitles f)"
      and use: "UsesEntry U title e \<and> \<not> isMotif U (Guard U f offered) e"
    then have "claims U (Guard U f offered) offered e"
      using plain by (auto simp: Claimed_def find_None_iff entries)
    with use plain show "UsesEntry U offered e" by blast
  next
    fix e assume "Claimed U (Guard U f offered) title = Some e"
    then have e: "e \<in> set (entries (Guard U f offered))" "claims U (Guard U f offered) title e"
      by (auto simp: Claimed_def dest: find_Some_iff2)
    then show "e \<in> set (FTitles f)" "claims U (Guard U f offered) title e"
      "\<not> claims U (Guard U f offered) offered e" by (simp_all add: entries)
  qed
qed

lemma guard_exact_witness:
  "Claimed latin1 (Guard latin1 (hd DefaultProfile) ''Son of the Pink Panther'') ''Son of the Pink Panther'' = None"
  using guard_exact [of "''Son of the Pink Panther''" latin1 "hd DefaultProfile"] by simp

end
