(* ===== verification/Logsafe.thy ===== *)
theory Logsafe
  imports GoRuntime
begin

text \<open>
  \<^verbatim>\<open>internal/logsafe\<close>: untrusted text on its way into a log. The two functions are loops over the
  runes of a string; \<open>hostile\<close> is the test they share.
\<close>

section \<open>Definitions (logsafe.go)\<close>

definition MaxLen :: nat where "MaxLen = 256"

definition truncationMarker :: rune where "truncationMarker = 8230"

definition hostile :: "tables \<Rightarrow> rune \<Rightarrow> bool" where
  "hostile U r \<longleftrightarrow> is_control r \<or> in_Cf U r \<or> r = 8232 \<or> r = 8233"

fun string_loop :: "tables \<Rightarrow> nat \<Rightarrow> rune list \<Rightarrow> rune list" where
  "string_loop U count [] = []"
| "string_loop U count (r # rs) =
     (if count \<ge> MaxLen then [truncationMarker]
      else if r = rune_error then string_loop U count rs
      else (if hostile U r then 32 else r) # string_loop U (count + 1) rs)"

definition LogString :: "tables \<Rightarrow> string \<Rightarrow> string" where
  "LogString U s = string_of_runes (string_loop U 0 (runes s))"

definition MaxBlockLen :: nat where "MaxBlockLen = 16 * 1024"

definition RuneLen :: "rune \<Rightarrow> nat" where
  "RuneLen r = length (encode r)"

definition block_rune :: "tables \<Rightarrow> rune \<Rightarrow> rune" where
  "block_rune U r = (if r \<noteq> 10 \<and> r \<noteq> 9 \<and> hostile U r then 32 else r)"

fun block_loop :: "tables \<Rightarrow> nat \<Rightarrow> rune list \<Rightarrow> rune list" where
  "block_loop U sz [] = []"
| "block_loop U sz (r # rs) =
     (if r = rune_error then block_loop U sz rs
      else let kept = block_rune U r in
        if sz + RuneLen kept > MaxBlockLen then [truncationMarker]
        else kept # block_loop U (sz + RuneLen kept) rs)"

definition Block :: "tables \<Rightarrow> string \<Rightarrow> string" where
  "Block U s = string_of_runes (block_loop U 0 (runes s))"

definition LogStrings :: "tables \<Rightarrow> string list \<Rightarrow> string list" where
  "LogStrings U = map (LogString U)"

section \<open>What is kept\<close>

text \<open>A blank and the marker are themselves harmless.\<close>

definition log_tables :: "tables \<Rightarrow> bool" where
  "log_tables U \<longleftrightarrow> \<not> in_Cf U 32 \<and> \<not> in_Cf U truncationMarker"

lemma harmless [simp]: "log_tables U \<Longrightarrow> \<not> hostile U 32" "log_tables U \<Longrightarrow> \<not> hostile U truncationMarker"
  by (simp_all add: log_tables_def hostile_def is_control_def truncationMarker_def)

lemma marker_simps [simp]:
  "scalar truncationMarker" "truncationMarker \<noteq> rune_error" "RuneLen truncationMarker = 3" "RuneLen 32 = 1"
  by (simp_all add: truncationMarker_def scalar_def rune_error_def RuneLen_def encode_def encode_scalar_def)

lemma blank_simps [simp]: "scalar 32" "(32 :: rune) \<noteq> rune_error"
  by (simp_all add: scalar_def rune_error_def)

lemma string_loop_kept:
  "log_tables U \<Longrightarrow> q \<in> set (string_loop U n rs) \<Longrightarrow> \<not> hostile U q \<and> q \<noteq> rune_error"
  by (induction U n rs rule: string_loop.induct) (auto split: if_splits)

lemma string_loop_scalar:
  "\<forall>r \<in> set rs. scalar r \<Longrightarrow> q \<in> set (string_loop U n rs) \<Longrightarrow> scalar q"
  by (induction U n rs rule: string_loop.induct) (auto split: if_splits)

lemma string_loop_length:
  "n \<le> MaxLen \<Longrightarrow> length (string_loop U n rs) \<le> MaxLen - n + 1
     \<and> (length (string_loop U n rs) = MaxLen - n + 1 \<longrightarrow> last (string_loop U n rs) = truncationMarker)"
proof (induction U n rs rule: string_loop.induct)
  case (2 U count r rs)
  then show ?case by (cases "count = MaxLen") (auto simp: Suc_diff_Suc split: if_splits)
qed simp

text \<open>What the loop has written it leaves alone.\<close>

lemma string_loop_again:
  "log_tables U \<Longrightarrow> string_loop U n (string_loop U n rs) = string_loop U n rs"
  by (induction U n rs rule: string_loop.induct) auto

lemma string_loop_clean:
  "n + length rs \<le> MaxLen \<Longrightarrow> \<forall>r \<in> set rs. \<not> hostile U r \<and> r \<noteq> rune_error \<Longrightarrow> string_loop U n rs = rs"
  by (induction U n rs rule: string_loop.induct) auto

lemma runes_LogString: "runes (LogString U s) = string_loop U 0 (runes s)"
  unfolding LogString_def
  by (rule runes_string_of_runes) (meson runes_scalar string_loop_scalar)

definition block_size :: "rune list \<Rightarrow> nat" where
  "block_size rs = (\<Sum>r\<leftarrow>rs. RuneLen r)"

lemma length_string_of_runes: "length (string_of_runes rs) = block_size rs"
  by (induction rs) (simp_all add: block_size_def RuneLen_def)

lemma block_rune_kept: "log_tables U \<Longrightarrow> hostile U (block_rune U r) \<Longrightarrow> block_rune U r \<in> {9, 10}"
  by (auto simp: block_rune_def)

lemma block_loop_kept:
  "log_tables U \<Longrightarrow> q \<in> set (block_loop U n rs) \<Longrightarrow> (hostile U q \<longrightarrow> q \<in> {9, 10}) \<and> q \<noteq> rune_error"
proof (induction U n rs rule: block_loop.induct)
  case (2 U sz r rs)
  have "r \<noteq> rune_error \<Longrightarrow> block_rune U r \<noteq> rune_error" by (simp add: block_rune_def)
  then show ?case using 2 block_rune_kept [of U r] by (auto simp: Let_def split: if_splits)
qed simp

lemma block_loop_scalar:
  "\<forall>r \<in> set rs. scalar r \<Longrightarrow> q \<in> set (block_loop U n rs) \<Longrightarrow> scalar q"
  by (induction U n rs rule: block_loop.induct) (auto simp: Let_def block_rune_def split: if_splits)

lemma block_loop_size: "n \<le> MaxBlockLen \<Longrightarrow> n + block_size (block_loop U n rs) \<le> MaxBlockLen + 3"
proof (induction U n rs rule: block_loop.induct)
  case (2 U sz r rs)
  then show ?case by (auto simp: Let_def block_size_def)
qed (simp add: block_size_def)

lemma block_loop_again:
  "log_tables U \<Longrightarrow> block_loop U n (block_loop U n rs) = block_loop U n rs"
proof (induction U n rs rule: block_loop.induct)
  case (2 U sz r rs)
  have marker: "block_rune U truncationMarker = truncationMarker"
    using 2(3) by (simp add: block_rune_def)
  have kept: "block_rune U (block_rune U r) = block_rune U r" "r \<noteq> rune_error \<Longrightarrow> block_rune U r \<noteq> rune_error"
    using 2(3) by (auto simp: block_rune_def)
  show ?case using 2 by (auto simp: Let_def marker kept)
qed simp

lemma runes_Block: "runes (Block U s) = block_loop U 0 (runes s)"
  unfolding Block_def
  by (rule runes_string_of_runes) (meson runes_scalar block_loop_scalar)

section \<open>Properties\<close>

text \<open>Whatever text it is given, \<^verbatim>\<open>String\<close> returns at most 256 runes, or 256 and the marker, and
  \<^verbatim>\<open>Block\<close> at most 16 KiB and the three bytes of the marker; neither result holds a control
  character, a format character, a line or paragraph separator or a replacement rune, except the
  newlines and tabs \<^verbatim>\<open>Block\<close> is for; and text that has been through either is not changed by it again.\<close>

theorem logged_text_harmless:
  assumes "log_tables U"
  shows "length (runes (LogString U s)) \<le> 257
    \<and> (length (runes (LogString U s)) = 257 \<longrightarrow> last (runes (LogString U s)) = truncationMarker)
    \<and> length (Block U s) \<le> 16387
    \<and> (\<forall>r. r \<in> set (runes (LogString U s)) \<longrightarrow> \<not> hostile U r \<and> r \<noteq> rune_error)
    \<and> (\<forall>r. r \<in> set (runes (Block U s)) \<longrightarrow> (hostile U r \<longrightarrow> r \<in> {9, 10}) \<and> r \<noteq> rune_error)
    \<and> LogString U (LogString U s) = LogString U s \<and> Block U (Block U s) = Block U s"
proof -
  have "length (string_loop U 0 (runes s)) \<le> 257 \<and>
      (length (string_loop U 0 (runes s)) = 257 \<longrightarrow> last (string_loop U 0 (runes s)) = truncationMarker)"
    using string_loop_length [of 0 U "runes s"] by (simp add: MaxLen_def)
  moreover have "length (Block U s) \<le> 16387"
    using block_loop_size [of 0 U "runes s"]
    by (simp add: Block_def length_string_of_runes MaxBlockLen_def)
  moreover have "LogString U (LogString U s) = LogString U s"
    by (simp add: LogString_def [of U "LogString U s"] runes_LogString string_loop_again [OF assms])
      (simp add: LogString_def)
  moreover have "Block U (Block U s) = Block U s"
    by (simp add: Block_def [of U "Block U s"] runes_Block block_loop_again [OF assms]) (simp add: Block_def)
  ultimately show ?thesis
    using string_loop_kept [OF assms] block_loop_kept [OF assms] by (simp add: runes_LogString runes_Block)
qed

lemma latin1_log_tables [simp]: "log_tables latin1"
  by (simp add: log_tables_def latin1_def truncationMarker_def)

lemma logged_text_harmless_witness:
  "LogString latin1 (LogString latin1 [CHR ''a'', CHR 0x0A, CHR ''b'']) = LogString latin1 [CHR ''a'', CHR 0x0A, CHR ''b'']
   \<and> LogString latin1 [CHR ''a'', CHR 0x0A, CHR ''b''] = ''a b''"
proof
  show "LogString latin1 (LogString latin1 [CHR ''a'', CHR 0x0A, CHR ''b'']) =
      LogString latin1 [CHR ''a'', CHR 0x0A, CHR ''b'']"
    using logged_text_harmless [OF latin1_log_tables] by blast
  show "LogString latin1 [CHR ''a'', CHR 0x0A, CHR ''b''] = ''a b''"
    by (simp add: LogString_def MaxLen_def hostile_def is_control_def latin1_def rune_error_def) code_simp
qed

end
