(* ===== verification/Strava.thy ===== *)
theory Strava
  imports Store
begin

text \<open>
  Package \<^verbatim>\<open>internal/strava\<close>: tokens and scopes, the error values, the HTTP client with its
  write guard and its retries, the calls this service makes, and the token source that
  refreshes and persists Strava's rotating token pair.

  What is outside the package is an argument: the HTTP transport, the waiting between attempts,
  the context, the jitter source and the JSON decoders are the fields of a \<open>network\<close>, functions
  of a world \<open>'w\<close> that stands for everything those calls may change. The client itself keeps the
  last rate limit; the model also keeps the trace of requests handed to the transport, with the
  answer to each, which is what the theorems about the write guard speak of.
\<close>

named_theorems strava_defs \<open>the client's operations\<close>

section \<open>Tokens and scopes (token.go, oauth.go)\<close>

definition ScopeActivityReadAll :: string where "ScopeActivityReadAll = ''activity:read_all''"

definition ScopeActivityWrite :: string where "ScopeActivityWrite = ''activity:write''"

definition Expired :: "Token \<Rightarrow> instant \<Rightarrow> duration \<Rightarrow> bool" where
  "Expired t now leeway \<longleftrightarrow>
     (if ExpiresAt t = time_zero then True else \<not> before (time_add now leeway) (ExpiresAt t))"

definition HasScope :: "Token \<Rightarrow> string \<Rightarrow> bool" where
  "HasScope t scope \<longleftrightarrow> List.member (Scopes t) scope"

definition MissingScopes :: "Token \<Rightarrow> string list" where
  "MissingScopes t = filter (\<lambda>s. \<not> HasScope t s) [ScopeActivityReadAll, ScopeActivityWrite]"

definition ParseScopes :: "string \<Rightarrow> string list" where
  "ParseScopes raw =
     filter (\<lambda>s. s \<noteq> []) (map trim_space (fields_func (\<lambda>r. r = byte CHR '','' \<or> r = byte CHR '' '') raw))"

section \<open>Errors (errors.go)\<close>

text \<open>
  The sentinels, the unexpected status, and the failures of the calls. \<open>Wrapped\<close> is
  \<^verbatim>\<open>fmt.Errorf\<close> with \<^verbatim>\<open>%w\<close>, \<open>Attempts\<close> the transport's last word after its retries, which
  wraps nothing when no attempt was made.
\<close>

datatype strava_error =
  ErrDryRun | ErrIncompleteToken | ErrRateLimited | ErrNotFound | ErrUnauthorized | ErrTokenNotFound
| StatusError int
| tokenError strava_error
| Transport string
| ContextDone
| BuildFailed | DecodeFailed | TrailingData | TooLarge
| EmptyTitle | NoFields | BadPage int | BadPerPage int | StoreFailed
| Wrapped strava_error
| Attempts "strava_error option"

definition StatusError_Is :: "int \<Rightarrow> strava_error \<Rightarrow> bool" where
  "StatusError_Is code target \<longleftrightarrow>
     (case target of
        ErrNotFound \<Rightarrow> code = 404
      | ErrUnauthorized \<Rightarrow> code = 401 \<or> code = 403
      | ErrRateLimited \<Rightarrow> code = 429
      | _ \<Rightarrow> False)"

text \<open>\<^verbatim>\<open>errors.Is\<close>: the error itself, its \<^verbatim>\<open>Is\<close> method, or what it wraps.\<close>

fun errors_Is :: "strava_error \<Rightarrow> strava_error \<Rightarrow> bool" where
  "errors_Is (StatusError c) target \<longleftrightarrow> StatusError c = target \<or> StatusError_Is c target"
| "errors_Is (tokenError e) target \<longleftrightarrow> tokenError e = target \<or> errors_Is e target"
| "errors_Is (Wrapped e) target \<longleftrightarrow> Wrapped e = target \<or> errors_Is e target"
| "errors_Is (Attempts (Some e)) target \<longleftrightarrow> Attempts (Some e) = target \<or> errors_Is e target"
| "errors_Is e target \<longleftrightarrow> e = target"

section \<open>The transport (client.go)\<close>

datatype WriteMode = WriteModeDryRun | WriteModeEnabled

record RateLimit =
  ShortLimit :: int
  DailyLimit :: int
  ShortUsage :: int
  DailyUsage :: int
  ReadShortLimit :: int
  ReadDailyLimit :: int
  ReadShortUsage :: int
  ReadDailyUsage :: int

definition no_limit :: RateLimit where
  "no_limit = \<lparr>ShortLimit = 0, DailyLimit = 0, ShortUsage = 0, DailyUsage = 0,
     ReadShortLimit = 0, ReadDailyLimit = 0, ReadShortUsage = 0, ReadDailyUsage = 0\<rparr>"

record request =
  Method :: string
  Url :: string
  Body :: "string option"

record response =
  StatusCode :: int
  Header :: "string \<Rightarrow> string"
  RespBody :: string

record 'w network =
  build_error :: "request \<Rightarrow> bool"
  access_token :: "'w \<Rightarrow> (strava_error + string) \<times> 'w"
  http_do :: "request \<Rightarrow> string \<Rightarrow> 'w \<Rightarrow> (strava_error + response) \<times> 'w"
  sleep_for :: "duration \<Rightarrow> 'w \<Rightarrow> strava_error option \<times> 'w"
  ctx_err :: "'w \<Rightarrow> strava_error option"
  random_below :: "int \<Rightarrow> 'w \<Rightarrow> int \<times> 'w"

record Client =
  writeMode :: WriteMode
  baseURL :: string
  maxRetries :: int

record 'w client_state =
  CWorld :: 'w
  Sent :: "(request \<times> (strava_error + response)) list"
  CRateLimit :: RateLimit

definition DefaultAPIBaseURL :: string where
  "DefaultAPIBaseURL = ''https://www.strava.com/api/v3''"

definition trim_slash :: "string \<Rightarrow> string" where
  "trim_slash s = (if s \<noteq> [] \<and> last s = CHR ''/'' then butlast s else s)"

text \<open>\<open>NewClient\<close>: the zero \<^verbatim>\<open>MaxRetries\<close> and the empty \<^verbatim>\<open>BaseURL\<close> take their defaults.\<close>

definition NewClient :: "bool \<Rightarrow> WriteMode \<Rightarrow> string \<Rightarrow> int \<Rightarrow> Client option" where
  "NewClient has_tokens mode base retries =
     (if \<not> has_tokens then None
      else Some \<lparr>writeMode = mode,
             baseURL = (if trim_slash base = [] then DefaultAPIBaseURL else trim_slash base),
             maxRetries = (if retries = 0 then 3 else retries)\<rparr>)"

definition str_cut :: "char \<Rightarrow> string \<Rightarrow> (string \<times> string) option" where
  "str_cut c s =
     (if c \<in> set s then Some (takeWhile (\<lambda>d. d \<noteq> c) s, tl (dropWhile (\<lambda>d. d \<noteq> c) s)) else None)"

text \<open>\<^verbatim>\<open>strconv.Atoi\<close>: an optional sign, decimal digits, and the range of \<^verbatim>\<open>int\<close>.\<close>

definition digits_value :: "string \<Rightarrow> int option" where
  "digits_value s =
     (if s \<noteq> [] \<and> list_all (\<lambda>c. ascii_digit (byte c)) s
      then Some (fold (\<lambda>c n. 10 * n + (int (byte c) - 48)) s 0) else None)"

definition atoi :: "string \<Rightarrow> int option" where
  "atoi s =
     (let v = (case s of
           CHR ''-'' # ds \<Rightarrow> map_option uminus (digits_value ds)
         | CHR ''+'' # ds \<Rightarrow> digits_value ds
         | _ \<Rightarrow> digits_value s)
      in case v of Some n \<Rightarrow> if int64 n then Some n else None | None \<Rightarrow> None)"

definition parsePair :: "string \<Rightarrow> int \<times> int" where
  "parsePair v =
     (case str_cut CHR '','' v of
        None \<Rightarrow> (0, 0)
      | Some (short, daily) \<Rightarrow>
          (case atoi (trim_space short) of
             None \<Rightarrow> (0, 0)
           | Some s \<Rightarrow> (case atoi (trim_space daily) of None \<Rightarrow> (s, 0) | Some d \<Rightarrow> (s, d))))"

definition recordRateLimit :: "(string \<Rightarrow> string) \<Rightarrow> RateLimit \<Rightarrow> RateLimit" where
  "recordRateLimit header old =
     (let limit = \<lparr>
        ShortLimit = fst (parsePair (header ''X-RateLimit-Limit'')),
        DailyLimit = snd (parsePair (header ''X-RateLimit-Limit'')),
        ShortUsage = fst (parsePair (header ''X-RateLimit-Usage'')),
        DailyUsage = snd (parsePair (header ''X-RateLimit-Usage'')),
        ReadShortLimit = fst (parsePair (header ''X-ReadRateLimit-Limit'')),
        ReadDailyLimit = snd (parsePair (header ''X-ReadRateLimit-Limit'')),
        ReadShortUsage = fst (parsePair (header ''X-ReadRateLimit-Usage'')),
        ReadDailyUsage = snd (parsePair (header ''X-ReadRateLimit-Usage''))\<rparr>
      in if limit = no_limit then old else limit)"

text \<open>
  \<open>backoff\<close>: a base that doubles, plus jitter below half of it. The shift is taken on a 64-bit
  integer, as \<^verbatim>\<open>1 << uint(attempt-1)\<close> is. \<^verbatim>\<open>rand.Int64N\<close> panics on a bound that is not positive, which the
  shift reaches from the 35th retry on; the service retries three times, so \<open>random_below\<close> is total here.
\<close>

definition backoff :: "'w network \<Rightarrow> nat \<Rightarrow> 'w \<Rightarrow> duration \<times> 'w" where
  "backoff net n w =
     (let base = wrap64 (wrap64 (2 ^ (n - 1)) * second);
          (jitter, w') = random_below net (go_div base 2) w
      in (wrap64 (base + jitter), w'))"

definition attempt :: "Client \<Rightarrow> 'w network \<Rightarrow> string \<Rightarrow> string \<Rightarrow> string option \<Rightarrow> 'w client_state \<Rightarrow>
    (strava_error + response) \<times> 'w client_state" where
  "attempt c net meth path body s =
     (let req = \<lparr>Method = meth, Url = baseURL c @ path, Body = body\<rparr> in
      if build_error net req then (Inl (Wrapped BuildFailed), s)
      else case access_token net (CWorld s) of
        (Inl e, w) \<Rightarrow> (Inl (tokenError e), s\<lparr>CWorld := w\<rparr>)
      | (Inr token, w) \<Rightarrow>
          (case http_do net req token w of
             (Inl e, w') \<Rightarrow> (Inl (Wrapped e), s\<lparr>CWorld := w', Sent := Sent s @ [(req, Inl e)]\<rparr>)
           | (Inr r, w') \<Rightarrow>
               (Inr r, s\<lparr>CWorld := w', Sent := Sent s @ [(req, Inr r)],
                         CRateLimit := recordRateLimit (Header r) (CRateLimit s)\<rparr>)))"

text \<open>
  The retry loop. \<open>left\<close> is the number of attempts the loop condition still allows, \<open>n\<close> the
  attempt number; the loop leaves with the error it saw last when none is left.
\<close>

fun do_loop :: "Client \<Rightarrow> 'w network \<Rightarrow> string \<Rightarrow> string \<Rightarrow> string option \<Rightarrow> nat \<Rightarrow> nat \<Rightarrow>
    strava_error option \<Rightarrow> 'w client_state \<Rightarrow> (strava_error + response) \<times> 'w client_state" where
  "do_loop c net meth path body 0 n last_err s = (Inl (Attempts last_err), s)"
| "do_loop c net meth path body (Suc left) n last_err s =
     (let (woken, s1) =
        (if n > 0
         then let (d, w) = backoff net n (CWorld s); (e, w') = sleep_for net d w
              in (e, s\<lparr>CWorld := w'\<rparr>)
         else (None, s))
      in case woken of
        Some e \<Rightarrow> (Inl e, s1)
      | None \<Rightarrow>
          (case attempt c net meth path body s1 of
             (Inl (tokenError e), s2) \<Rightarrow> (Inl e, s2)
           | (Inl e, s2) \<Rightarrow>
               (case ctx_err net (CWorld s2) of
                  Some stop \<Rightarrow> (Inl stop, s2)
                | None \<Rightarrow> do_loop c net meth path body left (Suc n) (Some e) s2)
           | (Inr r, s2) \<Rightarrow>
               if StatusCode r = 429 \<or> StatusCode r \<ge> 500
               then do_loop c net meth path body left (Suc n) (Some (StatusError (StatusCode r))) s2
               else if StatusCode r < 200 \<or> StatusCode r \<ge> 300
               then (Inl (StatusError (StatusCode r)), s2)
               else (Inr r, s2)))"

definition MethodGet :: string where "MethodGet = ''GET''"

definition MethodPut :: string where "MethodPut = ''PUT''"

definition do_request :: "Client \<Rightarrow> 'w network \<Rightarrow> string \<Rightarrow> string \<Rightarrow> string option \<Rightarrow> 'w client_state \<Rightarrow>
    (strava_error + response) \<times> 'w client_state" where
  "do_request c net meth path body s =
     (if meth \<noteq> MethodGet \<and> writeMode c \<noteq> WriteModeEnabled then (Inl (Wrapped ErrDryRun), s)
      else do_loop c net meth path body (nat (maxRetries c + 1)) 0 None s)"

section \<open>The calls (activity.go, activities.go, gear.go)\<close>

record SegmentAchievement =
  AchievementType :: string
  Rank :: int

record SegmentEffort =
  EffortName :: string
  PRRank :: int
  Achievements :: "SegmentAchievement list"
  SegmentName :: string

text \<open>The decoded activity; \<open>AAthleteObjectID\<close> is \<^verbatim>\<open>Athlete.ID\<close>, \<open>AAthleteID\<close> the field the client fills in.\<close>

record StravaActivity =
  AID :: int
  AAthleteID :: int
  AName :: string
  ADescription :: string
  ASportType :: string
  AType :: string
  ADistance :: real
  AMovingTime :: int
  AElapsedTime :: int
  ATotalElevGain :: real
  AAverageSpeed :: real
  AMaxSpeed :: real
  ATrainer :: bool
  ACommute :: bool
  APrivate :: bool
  AManual :: bool
  AStartDateLocal :: instant
  AStartDate :: instant
  ATimezone :: string
  AStartLatLng :: "real list"
  AEndLatLng :: "real list"
  AGearID :: string
  AAthleteObjectID :: int
  APolyline :: string
  ASummaryPolyline :: string
  ASegmentEfforts :: "SegmentEffort list"

definition Owner :: "StravaActivity \<Rightarrow> int" where
  "Owner a = (if AAthleteID a \<noteq> 0 then AAthleteID a else AAthleteObjectID a)"

record Gear =
  GearID :: string
  GearTitle :: string

text \<open>
  The JSON decoders, on the bytes the limited reader lets through: the first value and what is
  left after it. A body that breaks off is a body that does not decode.
\<close>

record decoders =
  decode_activity :: "string \<Rightarrow> (StravaActivity \<times> string) option"
  decode_activities :: "string \<Rightarrow> (StravaActivity list \<times> string) option"
  decode_gear :: "string \<Rightarrow> (Gear \<times> string) option"

definition maxActivityBytes :: nat where "maxActivityBytes = 2 ^ 20"

definition maxActivityListBytes :: nat where "maxActivityListBytes = 8 * 2 ^ 20"

definition maxGearBytes :: nat where "maxGearBytes = 64 * 2 ^ 10"

definition MaxActivitiesPerPage :: int where "MaxActivitiesPerPage = 200"

definition json_blank :: "string \<Rightarrow> bool" where
  "json_blank = list_all (\<lambda>c. byte c \<in> {32, 9, 10, 13})"

definition owned :: "StravaActivity \<Rightarrow> StravaActivity" where
  "owned a = a\<lparr>AAthleteID := AAthleteObjectID a\<rparr>"

text \<open>
  A strict read: one value and nothing after it, with one byte of headroom over the cap so that
  a body that ended is told from one that was cut.
\<close>

definition decode_strictly :: "(string \<Rightarrow> ('a \<times> string) option) \<Rightarrow> nat \<Rightarrow> string \<Rightarrow> strava_error + 'a" where
  "decode_strictly decode cap body =
     (case decode (take (cap + 1) body) of
        None \<Rightarrow> Inl (Wrapped DecodeFailed)
      | Some (v, rest) \<Rightarrow>
          if \<not> json_blank rest then Inl TrailingData
          else if length body \<ge> cap + 1 then Inl TooLarge
          else Inr v)"

definition activity_path :: "int \<Rightarrow> string" where
  "activity_path i = ''/activities/'' @ show_int i"

definition decode_one :: "decoders \<Rightarrow> response \<Rightarrow> strava_error + StravaActivity" where
  "decode_one D r =
     (case decode_activity D (take maxActivityBytes (RespBody r)) of
        None \<Rightarrow> Inl (Wrapped DecodeFailed)
      | Some (a, _) \<Rightarrow> Inr (owned a))"

definition GetActivity :: "decoders \<Rightarrow> Client \<Rightarrow> 'w network \<Rightarrow> int \<Rightarrow> 'w client_state \<Rightarrow>
    (strava_error + StravaActivity) \<times> 'w client_state" where
  "GetActivity D c net i s =
     (case do_request c net MethodGet (activity_path i) None s of
        (Inl e, s') \<Rightarrow> (Inl e, s')
      | (Inr r, s') \<Rightarrow> (decode_one D r, s'))"

definition ListActivities :: "decoders \<Rightarrow> Client \<Rightarrow> 'w network \<Rightarrow> int \<Rightarrow> int \<Rightarrow> 'w client_state \<Rightarrow>
    (strava_error + StravaActivity list) \<times> 'w client_state" where
  "ListActivities D c net page per_page s =
     (if page < 1 then (Inl (BadPage page), s)
      else if per_page < 1 \<or> per_page > MaxActivitiesPerPage then (Inl (BadPerPage per_page), s)
      else
        case do_request c net MethodGet
               (''/athlete/activities?page='' @ show_int page @ ''&per_page='' @ show_int per_page) None s of
          (Inl e, s') \<Rightarrow> (Inl e, s')
        | (Inr r, s') \<Rightarrow>
            (case decode_strictly (decode_activities D) maxActivityListBytes (RespBody r) of
               Inl e \<Rightarrow> (Inl e, s')
             | Inr activities \<Rightarrow> (Inr (map owned activities), s')))"

text \<open>\<^verbatim>\<open>url.QueryEscape\<close> and \<^verbatim>\<open>url.PathEscape\<close>: the unreserved bytes stay, the others are escaped.\<close>

definition hex_digit :: "nat \<Rightarrow> char" where
  "hex_digit n = char_of (if n < 10 then 48 + n else 55 + n)"

definition percent :: "char \<Rightarrow> string" where
  "percent c = [CHR ''%'', hex_digit (byte c div 16), hex_digit (byte c mod 16)]"

definition unreserved :: "char \<Rightarrow> bool" where
  "unreserved c \<longleftrightarrow> ascii_letter (byte c) \<or> ascii_digit (byte c) \<or> c \<in> set ''-_.~''"

definition QueryEscape :: "string \<Rightarrow> string" where
  "QueryEscape s =
     concat (map (\<lambda>c. if unreserved c then [c] else if c = CHR '' '' then ''+'' else percent c) s)"

definition PathEscape :: "string \<Rightarrow> string" where
  "PathEscape s =
     concat (map (\<lambda>c. if unreserved c \<or> c \<in> set ''$&+=:@'' then [c] else percent c) s)"

definition encode_pair :: "string \<times> string \<Rightarrow> string" where
  "encode_pair kv = QueryEscape (fst kv) @ ''='' @ QueryEscape (snd kv)"

text \<open>\<^verbatim>\<open>Values.Encode\<close>; the forms below list their keys in the order it sorts them into.\<close>

definition form_encode :: "(string \<times> string) list \<Rightarrow> string" where
  "form_encode form = join_with ''&'' (map encode_pair form)"

definition GetGear :: "decoders \<Rightarrow> Client \<Rightarrow> 'w network \<Rightarrow> string \<Rightarrow> 'w client_state \<Rightarrow>
    (strava_error + Gear) \<times> 'w client_state" where
  "GetGear D c net gear s =
     (let gear_id = trim_space gear in
      if gear_id = [] then (Inr \<lparr>GearID = [], GearTitle = []\<rparr>, s)
      else
        case do_request c net MethodGet (''/gear/'' @ PathEscape gear_id) None s of
          (Inl e, s') \<Rightarrow> (Inl e, s')
        | (Inr r, s') \<Rightarrow> (decode_strictly (decode_gear D) maxGearBytes (RespBody r), s'))"

definition update_form :: "string option \<Rightarrow> string option \<Rightarrow> (string \<times> string) list" where
  "update_form title description =
     (case description of None \<Rightarrow> [] | Some d \<Rightarrow> [(''description'', d)]) @
     (case title of None \<Rightarrow> [] | Some t \<Rightarrow> [(''name'', t)])"

definition update :: "decoders \<Rightarrow> Client \<Rightarrow> 'w network \<Rightarrow> int \<Rightarrow> string option \<Rightarrow> string option \<Rightarrow>
    'w client_state \<Rightarrow> (strava_error + StravaActivity) \<times> 'w client_state" where
  "update D c net i title description s =
     (if writeMode c \<noteq> WriteModeEnabled then (Inl (Wrapped ErrDryRun), s)
      else if title \<noteq> None \<and> trim_space (the title) = [] then (Inl EmptyTitle, s)
      else if title = None \<and> description = None then (Inl NoFields, s)
      else
        case do_request c net MethodPut (activity_path i)
               (Some (form_encode (update_form title description))) s of
          (Inl e, s') \<Rightarrow> (Inl e, s')
        | (Inr r, s') \<Rightarrow> (decode_one D r, s'))"

definition UpdateActivityName :: "decoders \<Rightarrow> Client \<Rightarrow> 'w network \<Rightarrow> int \<Rightarrow> string \<Rightarrow> 'w client_state \<Rightarrow>
    (strava_error + StravaActivity) \<times> 'w client_state" where
  "UpdateActivityName D c net i title = update D c net i (Some title) None"

definition UpdateActivityNameAndDescription :: "decoders \<Rightarrow> Client \<Rightarrow> 'w network \<Rightarrow> int \<Rightarrow> string \<Rightarrow>
    string \<Rightarrow> 'w client_state \<Rightarrow> (strava_error + StravaActivity) \<times> 'w client_state" where
  "UpdateActivityNameAndDescription D c net i title description =
     update D c net i (Some title) (Some description)"

definition UpdateActivityDescription :: "decoders \<Rightarrow> Client \<Rightarrow> 'w network \<Rightarrow> int \<Rightarrow> string \<Rightarrow>
    'w client_state \<Rightarrow> (strava_error + StravaActivity) \<times> 'w client_state" where
  "UpdateActivityDescription D c net i description = update D c net i None (Some description)"

section \<open>The OAuth token endpoint (oauth.go)\<close>

record OAuth =
  ClientID :: string
  ClientSecret :: string
  RedirectURL :: string
  OAuthURL :: string

record tokenResponse =
  PTokenType :: string
  PExpiresAt :: int
  PExpiresIn :: int
  PRefreshToken :: string
  PAccessToken :: string
  PScope :: string
  PAthlete :: int

definition oauth_base :: "OAuth \<Rightarrow> string" where
  "oauth_base o' = (if OAuthURL o' = [] then ''https://www.strava.com'' else trim_slash (OAuthURL o'))"

definition AuthorizeURL :: "OAuth \<Rightarrow> string \<Rightarrow> string" where
  "AuthorizeURL o' state = oauth_base o' @ ''/oauth/authorize?'' @ form_encode
     [(''approval_prompt'', ''force''), (''client_id'', ClientID o'), (''redirect_uri'', RedirectURL o'),
      (''response_type'', ''code''), (''scope'', ScopeActivityReadAll @ '','' @ ScopeActivityWrite),
      (''state'', state)]"

text \<open>\<open>now\<close> is the clock the endpoint's owner reads; \<open>post\<close> the transport, and \<open>decode\<close> the JSON decoder.\<close>

definition expiry :: "instant \<Rightarrow> tokenResponse \<Rightarrow> instant" where
  "expiry now p =
     (if PExpiresAt p > 0 then time_unix (PExpiresAt p)
      else if PExpiresIn p > 0 then time_add now (wrap64 (PExpiresIn p * second))
      else time_zero)"

definition maxTokenBytes :: nat where "maxTokenBytes = 2 ^ 16"

type_synonym 's poster = "string \<Rightarrow> (string \<times> string) list \<Rightarrow> 's \<Rightarrow> (strava_error + response) \<times> 's"

definition token_of :: "(string \<Rightarrow> tokenResponse option) \<Rightarrow> instant \<Rightarrow> response \<Rightarrow> strava_error + Token" where
  "token_of decode now r =
     (if StatusCode r \<noteq> 200 then Inl (Wrapped (StatusError (StatusCode r)))
      else case decode (take maxTokenBytes (RespBody r)) of
        None \<Rightarrow> Inl (Wrapped DecodeFailed)
      | Some p \<Rightarrow>
          if PAccessToken p = [] \<or> PRefreshToken p = [] then Inl ErrIncompleteToken
          else Inr \<lparr>AthleteID = PAthlete p, AccessToken = PAccessToken p, RefreshToken = PRefreshToken p,
                 ExpiresAt = expiry now p, Scopes = ParseScopes (PScope p)\<rparr>)"

definition token_request :: "OAuth \<Rightarrow> 's poster \<Rightarrow> (string \<Rightarrow> tokenResponse option) \<Rightarrow> instant \<Rightarrow>
    (string \<times> string) list \<Rightarrow> 's \<Rightarrow> (strava_error + Token) \<times> 's" where
  "token_request o' post decode now form s =
     (case post (oauth_base o' @ ''/oauth/token'') form s of
        (Inl e, s') \<Rightarrow> (Inl (Wrapped e), s')
      | (Inr r, s') \<Rightarrow> (token_of decode now r, s'))"

definition Exchange :: "OAuth \<Rightarrow> 's poster \<Rightarrow> (string \<Rightarrow> tokenResponse option) \<Rightarrow> instant \<Rightarrow> string \<Rightarrow>
    's \<Rightarrow> (strava_error + Token) \<times> 's" where
  "Exchange o' post decode now code = token_request o' post decode now
     [(''client_id'', ClientID o'), (''client_secret'', ClientSecret o'), (''code'', code),
      (''grant_type'', ''authorization_code'')]"

definition Refresh :: "OAuth \<Rightarrow> 's poster \<Rightarrow> (string \<Rightarrow> tokenResponse option) \<Rightarrow> instant \<Rightarrow> string \<Rightarrow>
    's \<Rightarrow> (strava_error + Token) \<times> 's" where
  "Refresh o' post decode now refresh = token_request o' post decode now
     [(''client_id'', ClientID o'), (''client_secret'', ClientSecret o'),
      (''grant_type'', ''refresh_token''), (''refresh_token'', refresh)]"

section \<open>The stored token source (tokensource.go)\<close>

text \<open>
  The source's fields, with the store and the token server it talks to. \<open>tcall\<close> is what one
  call meets: the clock, whether the load fails, and what becomes of the save.
\<close>

record ('m, 's) StoredTokenSource =
  SrcAthlete :: int
  Cached :: Token
  Loaded :: bool
  Persisted :: bool
  SrcStore :: 'm
  SrcServer :: 's

record tcall =
  CNow :: instant
  LoadFails :: bool
  SaveFault :: fault

definition refreshLeeway :: duration where "refreshLeeway = 5 * minute"

definition carry_across :: "int \<Rightarrow> Token \<Rightarrow> Token \<Rightarrow> Token" where
  "carry_across athlete old t =
     (let t1 = (if AthleteID t = 0 then t\<lparr>AthleteID := AthleteID old\<rparr> else t);
          t2 = (if Scopes t1 = [] then t1\<lparr>Scopes := Scopes old\<rparr> else t1)
      in if AthleteID t2 = 0 then t2\<lparr>AthleteID := athlete\<rparr> else t2)"

definition refreshLocked :: "('m \<Rightarrow> Token \<Rightarrow> 'm) \<Rightarrow> (instant \<Rightarrow> string \<Rightarrow> 's \<Rightarrow> (strava_error + Token) \<times> 's) \<Rightarrow>
    tcall \<Rightarrow> ('m, 's) StoredTokenSource \<Rightarrow> (strava_error + Token) \<times> ('m, 's) StoredTokenSource" where
  "refreshLocked save refresh c s =
     (if RefreshToken (Cached s) = [] then (Inl ErrTokenNotFound, s)
      else case refresh (CNow c) (RefreshToken (Cached s)) (SrcServer s) of
        (Inl e, srv) \<Rightarrow> (Inl (Wrapped e), s\<lparr>SrcServer := srv\<rparr>)
      | (Inr t, srv) \<Rightarrow>
          (let refreshed = carry_across (SrcAthlete s) (Cached s) t;
               s1 = s\<lparr>SrcServer := srv, Cached := refreshed, Persisted := False\<rparr>;
               (m, ok) = faulty (SaveFault c) (\<lambda>m. save m refreshed) (SrcStore s1)
           in if ok then (Inr refreshed, s1\<lparr>SrcStore := m, Persisted := True\<rparr>)
              else (Inl (Wrapped StoreFailed), s1\<lparr>SrcStore := m\<rparr>)))"

definition load_once :: "('m \<Rightarrow> int \<Rightarrow> Token option) \<Rightarrow> tcall \<Rightarrow> ('m, 's) StoredTokenSource \<Rightarrow>
    strava_error + ('m, 's) StoredTokenSource" where
  "load_once load c s =
     (if Loaded s then Inr s
      else if LoadFails c then Inl (Wrapped StoreFailed)
      else case load (SrcStore s) (SrcAthlete s) of
        None \<Rightarrow> Inl (Wrapped ErrTokenNotFound)
      | Some t \<Rightarrow> Inr (s\<lparr>Cached := t, Loaded := True, Persisted := True\<rparr>))"

definition CurrentToken :: "('m \<Rightarrow> int \<Rightarrow> Token option) \<Rightarrow> ('m \<Rightarrow> Token \<Rightarrow> 'm) \<Rightarrow>
    (instant \<Rightarrow> string \<Rightarrow> 's \<Rightarrow> (strava_error + Token) \<times> 's) \<Rightarrow> tcall \<Rightarrow> ('m, 's) StoredTokenSource \<Rightarrow>
    (strava_error + Token) \<times> ('m, 's) StoredTokenSource" where
  "CurrentToken load save refresh c s =
     (case load_once load c s of
        Inl e \<Rightarrow> (Inl e, s)
      | Inr s1 \<Rightarrow>
          if \<not> Expired (Cached s1) (CNow c) refreshLeeway
          then if Persisted s1 then (Inr (Cached s1), s1)
               else let (m, ok) = faulty (SaveFault c) (\<lambda>m. save m (Cached s1)) (SrcStore s1)
                    in (Inr (Cached s1), s1\<lparr>SrcStore := m, Persisted := ok\<rparr>)
          else refreshLocked save refresh c s1)"

definition AccessTokenOf :: "('m \<Rightarrow> int \<Rightarrow> Token option) \<Rightarrow> ('m \<Rightarrow> Token \<Rightarrow> 'm) \<Rightarrow>
    (instant \<Rightarrow> string \<Rightarrow> 's \<Rightarrow> (strava_error + Token) \<times> 's) \<Rightarrow> tcall \<Rightarrow> ('m, 's) StoredTokenSource \<Rightarrow>
    (strava_error + string) \<times> ('m, 's) StoredTokenSource" where
  "AccessTokenOf load save refresh c s =
     (case CurrentToken load save refresh c s of
        (Inl e, s') \<Rightarrow> (Inl e, s')
      | (Inr t, s') \<Rightarrow> (Inr (AccessToken t), s'))"

definition NewStoredTokenSource :: "'m \<Rightarrow> 's \<Rightarrow> int \<Rightarrow> ('m, 's) StoredTokenSource" where
  "NewStoredTokenSource m srv athlete =
     \<lparr>SrcAthlete = athlete,
      Cached = \<lparr>AthleteID = 0, AccessToken = [], RefreshToken = [], ExpiresAt = time_zero, Scopes = []\<rparr>,
      Loaded = False, Persisted = False, SrcStore = m, SrcServer = srv\<rparr>"

text \<open>A sequence of calls on one source, each meeting its own clock and faults.\<close>

primrec run_calls :: "('m \<Rightarrow> int \<Rightarrow> Token option) \<Rightarrow> ('m \<Rightarrow> Token \<Rightarrow> 'm) \<Rightarrow>
    (instant \<Rightarrow> string \<Rightarrow> 's \<Rightarrow> (strava_error + Token) \<times> 's) \<Rightarrow> tcall list \<Rightarrow>
    ('m, 's) StoredTokenSource \<Rightarrow> ('m, 's) StoredTokenSource" where
  "run_calls load save refresh [] s = s"
| "run_calls load save refresh (c # cs) s =
     run_calls load save refresh cs (snd (CurrentToken load save refresh c s))"

section \<open>What the transport sends and returns\<close>

definition retried :: "response \<Rightarrow> bool" where
  "retried r \<longleftrightarrow> StatusCode r = 429 \<or> StatusCode r \<ge> 500"

definition successful :: "response \<Rightarrow> bool" where
  "successful r \<longleftrightarrow> 200 \<le> StatusCode r \<and> StatusCode r < 300"

text \<open>
  What a run of at most \<open>n\<close> attempts leaves in the trace, and how its result follows from the
  answers: a transport error or a retried status goes on, any other status decides.
\<close>

fun attempt_run :: "request \<Rightarrow> nat \<Rightarrow> (request \<times> (strava_error + response)) list \<Rightarrow>
    strava_error + response \<Rightarrow> bool" where
  "attempt_run req n [] res \<longleftrightarrow> isl res"
| "attempt_run req 0 (x # new) res \<longleftrightarrow> False"
| "attempt_run req (Suc n) ((q, Inl e) # new) res \<longleftrightarrow> q = req \<and> attempt_run req n new res"
| "attempt_run req (Suc n) ((q, Inr r) # new) res \<longleftrightarrow> q = req \<and>
     (if retried r
      then if n = 0 then new = [] \<and> res = Inl (Attempts (Some (StatusError (StatusCode r))))
           else attempt_run req n new res
      else new = [] \<and> res = (if successful r then Inr r else Inl (StatusError (StatusCode r))))"

lemma attempt_run_Suc: "attempt_run req n new res \<Longrightarrow> attempt_run req (Suc n) new res"
  by (induction req n new res rule: attempt_run.induct) (auto split: if_splits)

lemma attempt_cases:
  assumes "attempt c net meth path body s = (res, s')"
  obtains (unsent) e where "res = Inl e" "Sent s' = Sent s"
  | (failed) e where "res = Inl (Wrapped e)"
      "Sent s' = Sent s @ [(\<lparr>Method = meth, Url = baseURL c @ path, Body = body\<rparr>, Inl e)]"
  | (answered) r where "res = Inr r"
      "Sent s' = Sent s @ [(\<lparr>Method = meth, Url = baseURL c @ path, Body = body\<rparr>, Inr r)]"
  using assms by (auto simp: attempt_def Let_def split: if_splits prod.splits sum.splits)

text \<open>One turn of the loop: it stops, or it goes on with one attempt fewer.\<close>

definition woken :: "'w network \<Rightarrow> nat \<Rightarrow> 'w client_state \<Rightarrow> strava_error option \<times> 'w client_state" where
  "woken net n s =
     (if n > 0
      then let (d, w) = backoff net n (CWorld s); (e, w') = sleep_for net d w in (e, s\<lparr>CWorld := w'\<rparr>)
      else (None, s))"

lemma woken_Sent: "woken net n s = (e, s1) \<Longrightarrow> Sent s1 = Sent s"
  by (auto simp: woken_def Let_def split: if_splits prod.splits)

lemma do_loop_asleep:
  "woken net n s = (Some e, s1) \<Longrightarrow> do_loop c net meth path body (Suc left) n l s = (Inl e, s1)"
  by (simp add: woken_def)

lemma do_loop_error:
  "woken net n s = (None, s1) \<Longrightarrow> attempt c net meth path body s1 = (Inl e, s2) \<Longrightarrow>
   (\<exists>e'. do_loop c net meth path body (Suc left) n l s = (Inl e', s2)) \<or>
   do_loop c net meth path body (Suc left) n l s = do_loop c net meth path body left (Suc n) (Some e) s2"
  by (cases "ctx_err net (CWorld s2)"; cases e) (simp_all add: woken_def)

lemma do_loop_answer:
  "woken net n s = (None, s1) \<Longrightarrow> attempt c net meth path body s1 = (Inr r, s2) \<Longrightarrow>
   do_loop c net meth path body (Suc left) n l s =
     (if retried r then do_loop c net meth path body left (Suc n) (Some (StatusError (StatusCode r))) s2
      else (if successful r then Inr r else Inl (StatusError (StatusCode r)), s2))"
  by (simp add: woken_def retried_def successful_def)

lemma do_loop_trace:
  "do_loop c net meth path body left n l s = (res, s') \<Longrightarrow>
   \<exists>new. Sent s' = Sent s @ new \<and>
     attempt_run \<lparr>Method = meth, Url = baseURL c @ path, Body = body\<rparr> left new res"
proof (induction left arbitrary: n l s)
  case 0
  then show ?case by auto
next
  case (Suc left)
  let ?req = "\<lparr>Method = meth, Url = baseURL c @ path, Body = body\<rparr>"
  obtain w s1 where w: "woken net n s = (w, s1)" by fastforce
  note sent = woken_Sent [OF w]
  show ?case
  proof (cases w)
    case (Some e)
    with do_loop_asleep w Suc.prems have "res = Inl e" "s' = s1" by (metis prod.inject)+
    with sent show ?thesis by auto
  next
    case None
    with w have w: "woken net n s = (None, s1)" by simp
    obtain a s2 where a: "attempt c net meth path body s1 = (a, s2)" by fastforce
    from a show ?thesis
    proof (cases rule: attempt_cases)
      case (unsent e)
      from do_loop_error [OF w a [unfolded unsent(1)], of left l] Suc.prems
      consider e' where "res = Inl e'" "s' = s2"
        | "do_loop c net meth path body left (Suc n) (Some e) s2 = (res, s')" by force
      then show ?thesis
      proof cases
        case 1
        with unsent sent show ?thesis by auto
      next
        case 2
        from Suc.IH [OF this] unsent sent show ?thesis by (metis attempt_run_Suc)
      qed
    next
      case (failed e)
      from do_loop_error [OF w a [unfolded failed(1)], of left l] Suc.prems
      consider e' where "res = Inl e'" "s' = s2"
        | "do_loop c net meth path body left (Suc n) (Some (Wrapped e)) s2 = (res, s')" by force
      then show ?thesis
      proof cases
        case 1
        with failed sent show ?thesis by auto
      next
        case 2
        from Suc.IH [OF this] obtain new where "Sent s' = Sent s2 @ new" "attempt_run ?req left new res"
          by auto
        then show ?thesis using failed sent by (intro exI [of _ "(?req, Inl e) # new"]) simp
      qed
    next
      case (answered r)
      note step = do_loop_answer [OF w a [unfolded answered(1)], of left l]
      show ?thesis
      proof (cases "retried r \<and> left \<noteq> 0")
        case True
        with step Suc.prems
        have "do_loop c net meth path body left (Suc n) (Some (StatusError (StatusCode r))) s2 = (res, s')"
          by simp
        from Suc.IH [OF this] obtain new where "Sent s' = Sent s2 @ new" "attempt_run ?req left new res"
          by auto
        then show ?thesis using answered sent True by (intro exI [of _ "(?req, Inr r) # new"]) simp
      next
        case False
        with step Suc.prems show ?thesis
          using answered sent by (intro exI [of _ "[(?req, Inr r)]"]) (auto split: if_splits)
      qed
    qed
  qed
qed

lemma do_request_trace:
  "do_request c net meth path body s = (res, s') \<Longrightarrow>
   \<exists>new. Sent s' = Sent s @ new \<and>
     attempt_run \<lparr>Method = meth, Url = baseURL c @ path, Body = body\<rparr> (nat (maxRetries c + 1)) new res \<and>
     (meth \<noteq> MethodGet \<and> writeMode c \<noteq> WriteModeEnabled \<longrightarrow> new = [])"
  using do_loop_trace by (fastforce simp: do_request_def split: if_splits)

lemma attempt_run_length: "attempt_run req n new res \<Longrightarrow> length new \<le> n"
  by (induction req n new res rule: attempt_run.induct) (auto split: if_splits)

lemma attempt_run_requests: "attempt_run req n new res \<Longrightarrow> x \<in> set new \<Longrightarrow> fst x = req"
  by (induction req n new res rule: attempt_run.induct) (auto split: if_splits)

lemma attempt_run_success: "attempt_run req n new (Inr r) \<Longrightarrow> new \<noteq> [] \<and> snd (last new) = Inr r \<and> successful r"
  by (induction req n new "Inr r :: strava_error + response" rule: attempt_run.induct)
     (auto split: if_splits)

lemma attempt_run_rate_limited:
  "attempt_run req n new res \<Longrightarrow> n > 0 \<Longrightarrow> length new = n \<Longrightarrow>
   \<forall>x \<in> set new. \<exists>r. snd x = Inr r \<and> StatusCode r = 429 \<Longrightarrow> \<exists>e. res = Inl e \<and> errors_Is e ErrRateLimited"
  by (induction req n new res rule: attempt_run.induct)
     (auto simp: retried_def StatusError_Is_def split: if_splits)

text \<open>The calls of the client, as one datatype, for statements about any sequence of them.\<close>

datatype client_op =
  OpGet int | OpList int int | OpGear string
| OpName int string | OpNameDescription int string string | OpDescription int string

fun run_op :: "decoders \<Rightarrow> Client \<Rightarrow> 'w network \<Rightarrow> client_op \<Rightarrow> 'w client_state \<Rightarrow> 'w client_state" where
  "run_op D c net (OpGet i) s = snd (GetActivity D c net i s)"
| "run_op D c net (OpList p n) s = snd (ListActivities D c net p n s)"
| "run_op D c net (OpGear g) s = snd (GetGear D c net g s)"
| "run_op D c net (OpName i t) s = snd (UpdateActivityName D c net i t s)"
| "run_op D c net (OpNameDescription i t d) s = snd (UpdateActivityNameAndDescription D c net i t d s)"
| "run_op D c net (OpDescription i d) s = snd (UpdateActivityDescription D c net i d s)"

definition only_reads :: "'w client_state \<Rightarrow> 'w client_state \<Rightarrow> bool" where
  "only_reads s s' \<longleftrightarrow> (\<exists>new. Sent s' = Sent s @ new \<and> list_all (\<lambda>x. Method (fst x) = MethodGet) new)"

lemma only_reads_refl [simp]: "only_reads s s"
  by (simp add: only_reads_def)

lemma only_reads_trans: "only_reads s t \<Longrightarrow> only_reads t u \<Longrightarrow> only_reads s u"
  by (auto simp: only_reads_def)

lemma get_only_reads: "do_request c net MethodGet path None s = (res, s') \<Longrightarrow> only_reads s s'"
  unfolding only_reads_def list_all_iff
  using do_request_trace by (metis attempt_run_requests request.select_convs(1))

lemma reads_only_read:
  "only_reads s (snd (GetActivity D c net i s))"
  "only_reads s (snd (ListActivities D c net p n s))"
  "only_reads s (snd (GetGear D c net g s))"
  using get_only_reads
  by (auto simp: GetActivity_def ListActivities_def GetGear_def Let_def split: prod.splits sum.splits)

lemma update_dry: "writeMode c \<noteq> WriteModeEnabled \<Longrightarrow> update D c net i title description s = (Inl (Wrapped ErrDryRun), s)"
  by (simp add: update_def)

lemmas updates = UpdateActivityName_def UpdateActivityNameAndDescription_def UpdateActivityDescription_def

lemma run_op_only_reads: "writeMode c \<noteq> WriteModeEnabled \<Longrightarrow> only_reads s (run_op D c net op s)"
  by (cases op) (simp_all add: reads_only_read updates update_dry)

text \<open>C34: A client that is not write-enabled never sends a mutating request: over any sequence of
  its calls the transport sees only GETs, and every update is refused with the dry-run error
  before anything is sent or any state changes.\<close>

theorem dry_run_only_reads:
  assumes "writeMode c \<noteq> WriteModeEnabled"
  shows "(\<exists>new. Sent (fold (run_op D c net) ops s) = Sent s @ new \<and>
            list_all (\<lambda>x. Method (fst x) = MethodGet) new) \<and>
         (\<exists>e. update D c net i title description s = (Inl e, s) \<and> errors_Is e ErrDryRun)"
proof
  have "only_reads s (fold (run_op D c net) ops s)"
  proof (induction ops arbitrary: s)
    case (Cons op ops)
    from only_reads_trans [OF run_op_only_reads [OF assms] Cons.IH] show ?case by simp
  qed simp
  then show "\<exists>new. Sent (fold (run_op D c net) ops s) = Sent s @ new \<and>
      list_all (\<lambda>x. Method (fst x) = MethodGet) new"
    by (simp add: only_reads_def)
  from assms show "\<exists>e. update D c net i title description s = (Inl e, s) \<and> errors_Is e ErrDryRun"
    by (simp add: update_dry)
qed

text \<open>A network over a list of scripted status codes, for the concrete runs.\<close>

definition scripted :: "int list network" where
  "scripted = \<lparr>build_error = (\<lambda>_. False), access_token = (\<lambda>w. (Inr ''t'', w)),
     http_do = (\<lambda>_ _ w. case w of [] \<Rightarrow> (Inl (Transport ''refused''), [])
                | c # cs \<Rightarrow> (Inr \<lparr>StatusCode = c, Header = (\<lambda>_. []), RespBody = ''{}''\<rparr>, cs)),
     sleep_for = (\<lambda>_ w. (None, w)), ctx_err = (\<lambda>_. None), random_below = (\<lambda>_ w. (0, w))\<rparr>"

definition script :: "int list \<Rightarrow> int list client_state" where
  "script codes = \<lparr>CWorld = codes, Sent = [], CRateLimit = no_limit\<rparr>"

definition no_decoders :: decoders where
  "no_decoders = \<lparr>decode_activity = Map.empty, decode_activities = Map.empty, decode_gear = Map.empty\<rparr>"

lemma dry_run_only_reads_witness:
  "\<exists>new. Sent (fold (run_op no_decoders \<lparr>writeMode = WriteModeDryRun, baseURL = [], maxRetries = 3\<rparr> scripted)
     [OpGet 7, OpName 7 ''Runde'', OpDescription 7 ''x''] (script [200, 200])) = new \<and>
     list_all (\<lambda>x. Method (fst x) = MethodGet) new"
  using dry_run_only_reads [of "\<lparr>writeMode = WriteModeDryRun, baseURL = [], maxRetries = 3\<rparr>" no_decoders
      scripted "[OpGet 7, OpName 7 ''Runde'', OpDescription 7 ''x'']" "script [200, 200]"]
  by (simp add: script_def)

text \<open>One update sends at most \<open>maxRetries + 1\<close> requests, every one the same PUT on the activity
  whose form names exactly the fields the caller gave, so an update of the description never
  carries the title. It succeeds only on a 2xx answer to the last of them, and an update whose
  every attempt was answered 429 reports the rate limit.\<close>

theorem update_requests:
  assumes "writeMode c = WriteModeEnabled" "title \<noteq> None \<longrightarrow> trim_space (the title) \<noteq> []"
    and "update D c net i title description s = (res, s')"
  shows "\<exists>new. Sent s' = Sent s @ new \<and> int (length new) \<le> max 0 (maxRetries c + 1) \<and>
     list_all (\<lambda>x. fst x = \<lparr>Method = MethodPut, Url = baseURL c @ activity_path i,
        Body = Some (form_encode (update_form title description))\<rparr>) new \<and>
     (''name'' \<in> set (map fst (update_form title description)) \<longleftrightarrow> title \<noteq> None) \<and>
     (\<forall>a. res = Inr a \<longrightarrow> (\<exists>r. new \<noteq> [] \<and> snd (last new) = Inr r \<and> successful r \<and> decode_one D r = Inr a)) \<and>
     (new \<noteq> [] \<and> int (length new) = maxRetries c + 1 \<and>
        list_all (\<lambda>x. \<exists>r. snd x = Inr r \<and> StatusCode r = 429) new \<longrightarrow>
        (\<exists>e. res = Inl e \<and> errors_Is e ErrRateLimited))"
proof (cases "title = None \<and> description = None")
  case True
  with assms show ?thesis by (auto simp: update_def update_form_def)
next
  case False
  let ?body = "Some (form_encode (update_form title description))"
  obtain out s1 where run: "do_request c net MethodPut (activity_path i) ?body s = (out, s1)"
    by fastforce
  from False assms run have res: "s' = s1 \<and> res = (case out of Inl e \<Rightarrow> Inl e | Inr r \<Rightarrow> decode_one D r)"
    by (auto simp: update_def split: sum.splits)
  from do_request_trace [OF run] obtain new where new: "Sent s' = Sent s @ new"
    and ok: "attempt_run \<lparr>Method = MethodPut, Url = baseURL c @ activity_path i, Body = ?body\<rparr>
      (nat (maxRetries c + 1)) new out" using res by auto
  have name: "''name'' \<in> set (map fst (update_form title description)) \<longleftrightarrow> title \<noteq> None"
    by (auto simp: update_form_def split: option.splits)
  have succ: "\<exists>r. new \<noteq> [] \<and> snd (last new) = Inr r \<and> successful r \<and> decode_one D r = Inr a"
    if "res = Inr a" for a
  proof (cases out)
    case (Inr r)
    with ok attempt_run_success have "new \<noteq> [] \<and> snd (last new) = Inr r \<and> successful r" by metis
    with that res Inr show ?thesis by auto
  qed (use that res in simp)
  have limited: "\<exists>e. res = Inl e \<and> errors_Is e ErrRateLimited"
    if "new \<noteq> [] \<and> int (length new) = maxRetries c + 1 \<and>
        list_all (\<lambda>x. \<exists>r. snd x = Inr r \<and> StatusCode r = 429) new"
  proof -
    from that have len: "length new = nat (maxRetries c + 1)" "0 < length new"
      by (linarith, simp)
    from that have "\<forall>x \<in> set new. \<exists>r. snd x = Inr r \<and> StatusCode r = 429"
      by (simp add: list_all_iff)
    from attempt_run_rate_limited [OF ok _ len(1) this] len
    obtain e where "out = Inl e" "errors_Is e ErrRateLimited" by auto
    with res show ?thesis by simp
  qed
  have len: "int (length new) \<le> max 0 (maxRetries c + 1)"
    using attempt_run_length [OF ok] by linarith
  have puts: "list_all (\<lambda>x. fst x = \<lparr>Method = MethodPut, Url = baseURL c @ activity_path i, Body = ?body\<rparr>) new"
    unfolding list_all_iff using attempt_run_requests [OF ok] by blast
  show ?thesis
    using new len puts name succ limited by blast
qed

lemma update_requests_witness:
  "\<exists>new. Sent (snd (update no_decoders \<lparr>writeMode = WriteModeEnabled, baseURL = [], maxRetries = 1\<rparr> scripted 7
        (Some ''Runde'') None (script [429, 200]))) = new \<and> int (length new) \<le> 2 \<and>
     list_all (\<lambda>x. fst x = \<lparr>Method = MethodPut, Url = activity_path 7, Body = Some ''name=Runde''\<rparr>) new"
proof -
  let ?c = "\<lparr>writeMode = WriteModeEnabled, baseURL = [], maxRetries = 1\<rparr>"
  obtain res s' where run: "update no_decoders ?c scripted 7 (Some ''Runde'') None (script [429, 200]) = (res, s')"
    by fastforce
  have title: "trim_space ''Runde'' \<noteq> []" by (simp add: trim_space_def is_space_def)
  have form: "form_encode (update_form (Some ''Runde'') None) = ''name=Runde''"
    by (simp add: form_encode_def update_form_def encode_pair_def QueryEscape_def unreserved_def
        ascii_letter_def ascii_upper_def ascii_digit_def)
  from update_requests [OF _ _ run] title
  have "\<exists>new. Sent s' = Sent (script [429, 200]) @ new \<and> int (length new) \<le> max 0 (maxRetries ?c + 1) \<and>
     list_all (\<lambda>x. fst x = \<lparr>Method = MethodPut, Url = baseURL ?c @ activity_path 7,
        Body = Some (form_encode (update_form (Some ''Runde'') None))\<rparr>) new" by fastforce
  then show ?thesis unfolding run snd_conv by (simp add: form script_def)
qed

section \<open>The token source never loses the live refresh token\<close>

text \<open>
  The \<^verbatim>\<open>TokenStore\<close> interface: a load returns what was saved last for the athlete, and a
  stored token is filed under its own athlete.
\<close>

locale token_store =
  fixes load :: "'m \<Rightarrow> int \<Rightarrow> Token option"
    and save :: "'m \<Rightarrow> Token \<Rightarrow> 'm"
    and inv :: "'m \<Rightarrow> bool"
  assumes inv_save: "inv m \<Longrightarrow> inv (save m t)"
    and load_save: "inv m \<Longrightarrow> load (save m t) a = (if a = AthleteID t then Some t else load m a)"
    and load_athlete: "inv m \<Longrightarrow> load m a = Some t \<Longrightarrow> AthleteID t = a"

text \<open>
  Strava's side of the contract, as it documents it: a refresh succeeds only with the live refresh token, and
  hands out the token that is live from then on, for no named athlete. Nothing is assumed of a refresh that
  fails: a request that timed out may have rotated the token with its answer lost.
\<close>

definition rotating :: "(instant \<Rightarrow> string \<Rightarrow> 's \<Rightarrow> (strava_error + Token) \<times> 's) \<Rightarrow> ('s \<Rightarrow> string) \<Rightarrow> bool" where
  "rotating refresh live \<longleftrightarrow>
     (\<forall>now rt s t s'. refresh now rt s = (Inr t, s') \<longrightarrow> rt = live s \<and> RefreshToken t = live s' \<and> AthleteID t = 0)"

text \<open>A call that reached the endpoint and was left with an error although the token rotated.\<close>

definition answer_lost :: "('m \<Rightarrow> int \<Rightarrow> Token option) \<Rightarrow> (instant \<Rightarrow> string \<Rightarrow> 's \<Rightarrow> (strava_error + Token) \<times> 's) \<Rightarrow>
    ('s \<Rightarrow> string) \<Rightarrow> tcall \<Rightarrow> ('m, 's) StoredTokenSource \<Rightarrow> bool" where
  "answer_lost load refresh live c s \<longleftrightarrow>
     (case load_once load c s of
        Inl _ \<Rightarrow> False
      | Inr s1 \<Rightarrow> Expired (Cached s1) (CNow c) refreshLeeway \<and> RefreshToken (Cached s1) \<noteq> [] \<and>
          (case refresh (CNow c) (RefreshToken (Cached s1)) (SrcServer s1) of
             (Inl _, srv) \<Rightarrow> live srv \<noteq> live (SrcServer s1)
           | (Inr _, _) \<Rightarrow> False))"

primrec lost_among :: "('m \<Rightarrow> int \<Rightarrow> Token option) \<Rightarrow> ('m \<Rightarrow> Token \<Rightarrow> 'm) \<Rightarrow>
    (instant \<Rightarrow> string \<Rightarrow> 's \<Rightarrow> (strava_error + Token) \<times> 's) \<Rightarrow> ('s \<Rightarrow> string) \<Rightarrow> tcall list \<Rightarrow>
    ('m, 's) StoredTokenSource \<Rightarrow> bool" where
  "lost_among load save refresh live [] s \<longleftrightarrow> False"
| "lost_among load save refresh live (c # cs) s \<longleftrightarrow>
     answer_lost load refresh live c s \<or>
     lost_among load save refresh live cs (snd (CurrentToken load save refresh c s))"

lemma rotating_ok:
  "rotating refresh live \<Longrightarrow> refresh now rt s = (Inr t, s') \<Longrightarrow> RefreshToken t = live s' \<and> AthleteID t = 0"
  unfolding rotating_def by blast

lemma carry_across_refresh [simp]:
  "RefreshToken (carry_across a old t) = RefreshToken t"
  "AthleteID old = a \<Longrightarrow> AthleteID t = 0 \<Longrightarrow> AthleteID (carry_across a old t) = a"
  by (auto simp: carry_across_def Let_def)

lemma refresh_failed [simp]: "refresh (CNow c) (RefreshToken (Cached s)) (SrcServer s) = (Inl e, srv) \<Longrightarrow>
  RefreshToken (Cached s) \<noteq> [] \<Longrightarrow> refreshLocked save refresh c s = (Inl (Wrapped e), s\<lparr>SrcServer := srv\<rparr>)"
  by (simp add: refreshLocked_def)

lemma refresh_adopted:
  "refresh (CNow c) (RefreshToken (Cached s)) (SrcServer s) = (Inr t, srv) \<Longrightarrow> RefreshToken (Cached s) \<noteq> [] \<Longrightarrow>
   refreshLocked save refresh c s =
     (let t' = carry_across (SrcAthlete s) (Cached s) t;
          s1 = s\<lparr>SrcServer := srv, Cached := t', Persisted := False\<rparr> in
      case SaveFault c of
        NoFault \<Rightarrow> (Inr t', s1\<lparr>SrcStore := save (SrcStore s) t', Persisted := True\<rparr>)
      | FaultLost \<Rightarrow> (Inl (Wrapped StoreFailed), s1)
      | FaultApplied \<Rightarrow> (Inl (Wrapped StoreFailed), s1\<lparr>SrcStore := save (SrcStore s) t'\<rparr>))"
  by (simp add: refreshLocked_def Let_def faulty_def split: fault.split)

context token_store
begin

text \<open>
  The source is sound when it holds the live token once loaded, and the store holds it whenever
  the source believes it does or has not looked yet.
\<close>

definition sound :: "('s \<Rightarrow> string) \<Rightarrow> ('m, 's) StoredTokenSource \<Rightarrow> bool" where
  "sound live s \<longleftrightarrow> inv (SrcStore s) \<and>
     (Loaded s \<longrightarrow> AthleteID (Cached s) = SrcAthlete s \<and> RefreshToken (Cached s) = live (SrcServer s)) \<and>
     (\<not> (Loaded s \<and> \<not> Persisted s) \<longrightarrow>
        (\<exists>t. load (SrcStore s) (SrcAthlete s) = Some t \<and> RefreshToken t = live (SrcServer s)))"

lemma load_once_sound: "sound live s \<Longrightarrow> load_once load c s = Inr s1 \<Longrightarrow> sound live s1 \<and> Loaded s1"
  using load_athlete by (auto simp: sound_def load_once_def split: if_splits option.splits)

lemma save_sound:
  "sound live s \<Longrightarrow> Loaded s \<Longrightarrow> faulty (SaveFault c) (\<lambda>m. save m (Cached s)) (SrcStore s) = (m, ok) \<Longrightarrow>
   sound live (s\<lparr>SrcStore := m, Persisted := ok\<rparr>)"
  by (cases "SaveFault c") (auto simp: sound_def faulty_def inv_save load_save)

lemma refreshLocked_sound:
  assumes "rotating refresh live" "sound live s" "Loaded s"
    and "\<And>e srv. refresh (CNow c) (RefreshToken (Cached s)) (SrcServer s) = (Inl e, srv) \<Longrightarrow>
      RefreshToken (Cached s) \<noteq> [] \<Longrightarrow> live srv = live (SrcServer s)"
  shows "sound live (snd (refreshLocked save refresh c s))"
proof (cases "RefreshToken (Cached s) = []")
  case True
  with assms show ?thesis by (simp add: refreshLocked_def)
next
  case False
  obtain res srv where r: "refresh (CNow c) (RefreshToken (Cached s)) (SrcServer s) = (res, srv)" by fastforce
  show ?thesis
  proof (cases res)
    case (Inl e)
    with r False assms(4) have "live srv = live (SrcServer s)" by blast
    with Inl r False assms(2,3) show ?thesis by (auto simp: sound_def)
  next
    case (Inr t)
    with r rotating_ok [OF assms(1)] have "RefreshToken t = live srv" "AthleteID t = 0" by metis+
    with Inr r False assms(2,3) show ?thesis
      by (cases "SaveFault c") (auto simp: refresh_adopted sound_def Let_def inv_save load_save)
  qed
qed

lemma CurrentToken_sound:
  assumes "rotating refresh live" "sound live s" "\<not> answer_lost load refresh live c s"
  shows "sound live (snd (CurrentToken load save refresh c s))"
proof (cases "load_once load c s")
  case (Inl e)
  with assms show ?thesis by (simp add: CurrentToken_def)
next
  case (Inr s1)
  from load_once_sound [OF assms(2) Inr] have s1: "sound live s1" "Loaded s1" by auto
  show ?thesis
  proof (cases "Expired (Cached s1) (CNow c) refreshLeeway")
    case True
    have "sound live (snd (refreshLocked save refresh c s1))"
      by (rule refreshLocked_sound [OF assms(1) s1]) (use assms(3) Inr True in \<open>simp add: answer_lost_def\<close>)
    with Inr True show ?thesis by (simp add: CurrentToken_def)
  next
    case False
    with Inr s1 save_sound [OF s1] show ?thesis by (auto simp: CurrentToken_def split: prod.splits)
  qed
qed

lemma run_calls_sound:
  "rotating refresh live \<Longrightarrow> sound live s \<Longrightarrow> \<not> lost_among load save refresh live cs s \<Longrightarrow>
   sound live (run_calls load save refresh cs s)"
  by (induction cs arbitrary: s) (simp_all add: CurrentToken_sound)

lemma answer_lost_strands:
  assumes "sound live s" "answer_lost load refresh live c s"
  shows "\<exists>e s'. CurrentToken load save refresh c s = (Inl (Wrapped e), s') \<and> Loaded s' \<and>
    RefreshToken (Cached s') \<noteq> live (SrcServer s')"
proof -
  obtain s1 where s1: "load_once load c s = Inr s1" "Expired (Cached s1) (CNow c) refreshLeeway" "RefreshToken (Cached s1) \<noteq> []"
    using assms(2) by (auto simp: answer_lost_def split: sum.splits)
  then obtain e srv where e: "refresh (CNow c) (RefreshToken (Cached s1)) (SrcServer s1) = (Inl e, srv)"
      "live srv \<noteq> live (SrcServer s1)"
    using assms(2) by (cases "refresh (CNow c) (RefreshToken (Cached s1)) (SrcServer s1)")
      (auto simp: answer_lost_def split: sum.splits)
  from load_once_sound [OF assms(1) s1(1)] have "RefreshToken (Cached s1) = live (SrcServer s1)" "Loaded s1"
    by (simp_all add: sound_def)
  with s1 e show ?thesis by (auto simp: CurrentToken_def)
qed

lemma CurrentToken_persists:
  assumes "CurrentToken load save refresh c s = (Inr t, s')" "SaveFault c = NoFault"
  shows "Loaded s' \<and> Persisted s'"
proof (cases "load_once load c s")
  case (Inl e)
  with assms show ?thesis by (simp add: CurrentToken_def)
next
  case (Inr s1)
  then have "Loaded s1" by (auto simp: load_once_def split: if_splits option.splits)
  with Inr assms show ?thesis
    by (auto simp: CurrentToken_def refreshLocked_def faulty_def Let_def split: if_splits prod.splits sum.splits)
qed

end

interpretation mt: token_store Load Save wf_Memory
proof
  fix m :: Memory and t :: Token and a
  assume wf: "wf_Memory m"
  then show "wf_Memory (Save m t)" by (rule wf_Memory_ops)
  show "Load (Save m t) a = (if a = AthleteID t then Some t else Load m a)"
    by (simp add: Load_def Save_def update_conv')
  assume "Load m a = Some t"
  then have "(a, t) \<in> set (mTokens m)" by (simp add: Load_def map_of_SomeD)
  with wf show "AthleteID t = a" by (auto simp: wf_Memory_def list_all_iff)
qed

text \<open>The endpoint's law, on the answers to refreshes that \<open>token_of\<close> reads as tokens.\<close>

definition rotating_endpoint :: "'s poster \<Rightarrow> (string \<Rightarrow> tokenResponse option) \<Rightarrow> ('s \<Rightarrow> string) \<Rightarrow> bool" where
  "rotating_endpoint post decode live \<longleftrightarrow>
     (\<forall>url form now s r s' t. (''grant_type'', ''refresh_token'') \<in> set form \<and>
        post url form s = (Inr r, s') \<and> token_of decode now r = Inr t \<longrightarrow>
        (''refresh_token'', live s) \<in> set form \<and> RefreshToken t = live s' \<and> AthleteID t = 0)"

lemma rotating_Refresh:
  assumes "rotating_endpoint post decode live"
  shows "rotating (Refresh o' post decode) live"
  unfolding rotating_def
proof (intro allI impI)
  fix now rt s t s'
  assume "Refresh o' post decode now rt s = (Inr t, s')"
  then obtain r where r: "post (oauth_base o' @ ''/oauth/token'') [(''client_id'', ClientID o'),
      (''client_secret'', ClientSecret o'), (''grant_type'', ''refresh_token''), (''refresh_token'', rt)] s = (Inr r, s')"
    "token_of decode now r = Inr t"
    by (auto simp: Refresh_def token_request_def split: prod.splits sum.splits)
  from assms [unfolded rotating_endpoint_def, rule_format, OF conjI, OF _ conjI, OF _ r]
  show "rt = live s \<and> RefreshToken t = live s' \<and> AthleteID t = 0" by simp
qed

text \<open>C35: Against an endpoint that rotates the refresh token whenever it answers, only an answer that is lost
  on the way strands the token source, whatever the clock says and whichever loads and saves fail, before
  or after taking effect. As long as no answer was lost, a source that has loaded a token holds the live
  refresh token; the store holds it too unless a save has failed since the last rotation; and the first call
  after that which returns a token with the store working again puts the live token into the store. A call
  whose answer is lost, the token having rotated, returns an error and leaves a refresh token that is no longer
  the live one.\<close>

theorem token_source_never_stranded:
  assumes "rotating_endpoint post decode live" "wf_Memory m"
    and "Load m athlete = Some t0" "RefreshToken t0 = live srv"
    and "\<not> lost_among Load Save (Refresh o' post decode) live cs (NewStoredTokenSource m srv athlete)"
    and "s = run_calls Load Save (Refresh o' post decode) cs (NewStoredTokenSource m srv athlete)"
  shows "(Loaded s \<longrightarrow> RefreshToken (Cached s) = live (SrcServer s)) \<and>
     (\<not> (Loaded s \<and> \<not> Persisted s) \<longrightarrow>
        (\<exists>t. Load (SrcStore s) (SrcAthlete s) = Some t \<and> RefreshToken t = live (SrcServer s))) \<and>
     (\<forall>c t s'. SaveFault c = NoFault \<and> CurrentToken Load Save (Refresh o' post decode) c s = (Inr t, s') \<longrightarrow>
        (\<exists>t'. Load (SrcStore s') (SrcAthlete s') = Some t' \<and> RefreshToken t' = live (SrcServer s'))) \<and>
     (\<forall>c. answer_lost Load (Refresh o' post decode) live c s \<longrightarrow>
        (\<exists>e s'. CurrentToken Load Save (Refresh o' post decode) c s = (Inl (Wrapped e), s') \<and>
           RefreshToken (Cached s') \<noteq> live (SrcServer s')))"
proof -
  note rot = rotating_Refresh [OF assms(1), of o']
  have "mt.sound live (NewStoredTokenSource m srv athlete)"
    using assms by (simp add: mt.sound_def NewStoredTokenSource_def)
  from mt.run_calls_sound [OF rot this assms(5)] have s: "mt.sound live s" by (simp add: assms(6))
  have persisted: "\<exists>t'. Load (SrcStore s') (SrcAthlete s') = Some t' \<and> RefreshToken t' = live (SrcServer s')"
    if c: "SaveFault c = NoFault" "CurrentToken Load Save (Refresh o' post decode) c s = (Inr t, s')" for c t s'
  proof -
    have "\<not> answer_lost Load (Refresh o' post decode) live c s"
      using mt.answer_lost_strands [OF s, of "Refresh o' post decode" c] c(2) by auto
    from mt.CurrentToken_sound [OF rot s this] c(2) have "mt.sound live s'" by simp
    with mt.CurrentToken_persists [OF c(2,1)] show ?thesis by (simp add: mt.sound_def)
  qed
  from mt.answer_lost_strands [OF s, of "Refresh o' post decode"]
  have "\<forall>c. answer_lost Load (Refresh o' post decode) live c s \<longrightarrow>
      (\<exists>e s'. CurrentToken Load Save (Refresh o' post decode) c s = (Inl (Wrapped e), s') \<and>
         RefreshToken (Cached s') \<noteq> live (SrcServer s'))" by blast
  with s persisted show ?thesis unfolding mt.sound_def by blast
qed

text \<open>An endpoint with two alternating tokens, which accepts exactly the one that is live.\<close>

definition live_token :: "bool \<Rightarrow> string" where
  "live_token b = (if b then ''r1'' else ''r0'')"

definition toggling :: "bool poster" where
  "toggling _ form b =
     (if (''refresh_token'', live_token b) \<in> set form
      then (Inr \<lparr>StatusCode = 200, Header = (\<lambda>_. []), RespBody = live_token (\<not> b)\<rparr>, \<not> b)
      else (Inr \<lparr>StatusCode = 400, Header = (\<lambda>_. []), RespBody = []\<rparr>, b))"

definition toggling_decode :: "string \<Rightarrow> tokenResponse option" where
  "toggling_decode body = Some \<lparr>PTokenType = ''Bearer'', PExpiresAt = 0, PExpiresIn = 21600,
     PRefreshToken = body, PAccessToken = ''a'', PScope = [], PAthlete = 0\<rparr>"

lemma toggling_rotates: "rotating_endpoint toggling toggling_decode live_token"
  by (auto simp: rotating_endpoint_def toggling_def token_of_def toggling_decode_def live_token_def
      maxTokenBytes_def split: if_splits)

definition seeded :: Memory where
  "seeded = Save NewMemory \<lparr>AthleteID = 1, AccessToken = ''a'', RefreshToken = ''r0'',
     ExpiresAt = time_zero, Scopes = []\<rparr>"

lemma token_source_never_stranded_witness:
  "let s = run_calls Load Save (Refresh \<lparr>ClientID = [], ClientSecret = [], RedirectURL = [], OAuthURL = []\<rparr>
       toggling toggling_decode)
       [\<lparr>CNow = 0, LoadFails = False, SaveFault = FaultLost\<rparr>] (NewStoredTokenSource seeded False 1)
   in Loaded s \<and> \<not> Persisted s \<and> RefreshToken (Cached s) = ''r1''"
proof -
  let ?o = "\<lparr>ClientID = [], ClientSecret = [], RedirectURL = [], OAuthURL = []\<rparr>"
  let ?cs = "[\<lparr>CNow = 0, LoadFails = False, SaveFault = FaultLost\<rparr>]"
  let ?s = "run_calls Load Save (Refresh ?o toggling toggling_decode) ?cs (NewStoredTokenSource seeded False 1)"
  have wf: "wf_Memory seeded" by (simp add: seeded_def wf_Memory_ops)
  have run: "Loaded ?s \<and> \<not> Persisted ?s \<and> SrcServer ?s"
    by (simp add: NewStoredTokenSource_def CurrentToken_def load_once_def seeded_def Load_def Save_def
        NewMemory_def Expired_def refreshLocked_def Refresh_def token_request_def toggling_def
        token_of_def toggling_decode_def live_token_def maxTokenBytes_def faulty_def carry_across_def Let_def)
  have "\<not> lost_among Load Save (Refresh ?o toggling toggling_decode) live_token ?cs (NewStoredTokenSource seeded False 1)"
    by (simp add: NewStoredTokenSource_def answer_lost_def load_once_def seeded_def Load_def Save_def
        NewMemory_def Refresh_def token_request_def toggling_def token_of_def toggling_decode_def live_token_def
        maxTokenBytes_def)
  from token_source_never_stranded [OF toggling_rotates wf _ _ this, of
        "\<lparr>AthleteID = 1, AccessToken = ''a'', RefreshToken = ''r0'', ExpiresAt = time_zero, Scopes = []\<rparr>" ?s] run
  have "RefreshToken (Cached ?s) = live_token (SrcServer ?s)"
    by (simp add: seeded_def Load_def Save_def NewMemory_def live_token_def)
  with run show ?thesis by (simp add: live_token_def)
qed

end
