(* ===== verification/Polyline.thy ===== *)
theory Polyline
  imports GoRuntime
begin

text \<open>
  Package \<^verbatim>\<open>internal/geo\<close>, \<^verbatim>\<open>polyline.go\<close>: the decoder of Google's encoded polyline
  format. The varint is accumulated in a 32-bit word, as the source does; an index into the
  encoded string is the suffix that starts there. Coordinates are reals, so the rounding of the
  final division to \<^verbatim>\<open>float64\<close> is not modelled.

  The encoder of the format is the specification the decoder is proved against.
\<close>

unbundle bit_operations_syntax

section \<open>The decoder\<close>

record GeoPoint =
  GLat :: real
  GLon :: real

datatype polyline_error = PolylineTooLong | Truncated | OutsideAlphabet | Unterminated | OutOfRange

definition maxEncodedPolylineBytes :: nat where "maxEncodedPolylineBytes = 512 * 2 ^ 10"

definition polylinePrecision :: real where "polylinePrecision = 100000"

definition minPolylineByte :: nat where "minPolylineByte = 63"

definition maxPolylineByte :: nat where "maxPolylineByte = 126"

definition maxValueBits :: nat where "maxValueBits = 30"

definition add_chunk :: "32 word \<Rightarrow> nat \<Rightarrow> nat \<Rightarrow> 32 word" where
  "add_chunk result shift chunk = result OR push_bit shift (word_of_nat chunk AND 31)"

fun decode_chunks :: "32 word \<Rightarrow> nat \<Rightarrow> string \<Rightarrow> polyline_error + (32 word \<times> string)" where
  "decode_chunks result shift [] = Inl Truncated"
| "decode_chunks result shift (c # cs) =
     (if byte c < minPolylineByte \<or> byte c > maxPolylineByte then Inl OutsideAlphabet
      else if shift \<ge> maxValueBits then Inl Unterminated
      else
        let chunk = byte c - minPolylineByte; result' = add_chunk result shift chunk
        in if chunk < 32 then Inr (result', cs) else decode_chunks result' (shift + 5) cs)"

definition zigzag :: "32 word \<Rightarrow> int" where
  "zigzag result =
     (let value = uint (drop_bit 1 result) in if result AND 1 \<noteq> 0 then NOT value else value)"

definition decodeValue :: "string \<Rightarrow> polyline_error + (int \<times> string)" where
  "decodeValue s =
     (case decode_chunks 0 0 s of
        Inl e \<Rightarrow> Inl e
      | Inr (result, rest) \<Rightarrow> Inr (zigzag result, rest))"

definition mk_point :: "int \<Rightarrow> int \<Rightarrow> GeoPoint" where
  "mk_point lat lon = \<lparr>GLat = of_int lat / polylinePrecision, GLon = of_int lon / polylinePrecision\<rparr>"

definition in_range :: "GeoPoint \<Rightarrow> bool" where
  "in_range p \<longleftrightarrow> \<not> (GLat p < -90 \<or> GLat p > 90 \<or> GLon p < -180 \<or> GLon p > 180)"

lemma decode_chunks_shorter: "decode_chunks result shift s = Inr (r, rest) \<Longrightarrow> length rest < length s"
  by (induction result shift s rule: decode_chunks.induct) (auto simp: Let_def intro: less_SucI split: if_splits)

lemma decodeValue_shorter: "decodeValue s = Inr (v, rest) \<Longrightarrow> length rest < length s"
  by (auto simp: decodeValue_def split: sum.splits dest: decode_chunks_shorter)

function decode_from :: "int \<Rightarrow> int \<Rightarrow> string \<Rightarrow> polyline_error + GeoPoint list" where
  "decode_from lat lon s =
     (if s = [] then Inr []
      else case decodeValue s of
        Inl e \<Rightarrow> Inl e
      | Inr (delta_lat, s1) \<Rightarrow>
          (case decodeValue s1 of
             Inl e \<Rightarrow> Inl e
           | Inr (delta_lon, s2) \<Rightarrow>
               let lat' = lat + delta_lat; lon' = lon + delta_lon; point = mk_point lat' lon' in
               if \<not> in_range point then Inl OutOfRange
               else (case decode_from lat' lon' s2 of Inl e \<Rightarrow> Inl e | Inr ps \<Rightarrow> Inr (point # ps))))"
  by auto

termination
  by (relation "measure (\<lambda>(_, _, s). length s)") (auto dest!: decodeValue_shorter)

declare decode_from.simps [simp del]

definition DecodePolyline :: "string \<Rightarrow> polyline_error + GeoPoint list" where
  "DecodePolyline encoded =
     (if length encoded > maxEncodedPolylineBytes then Inl PolylineTooLong else decode_from 0 0 encoded)"

section \<open>The format's encoder\<close>

text \<open>A value is zig-zagged, cut into groups of five bits, least significant first, each but the last flagged.\<close>

fun encode_chunks :: "nat \<Rightarrow> string" where
  "encode_chunks n =
     (if n < 32 then [char_of (n + 63)] else char_of (n mod 32 + 95) # encode_chunks (n div 32))"

declare encode_chunks.simps [simp del]

definition encode_value :: "int \<Rightarrow> string" where
  "encode_value v = encode_chunks (nat (if v < 0 then - 2 * v - 1 else 2 * v))"

primrec encode_from :: "int \<Rightarrow> int \<Rightarrow> (int \<times> int) list \<Rightarrow> string" where
  "encode_from lat lon [] = []"
| "encode_from lat lon (p # ps) =
     encode_value (fst p - lat) @ encode_value (snd p - lon) @ encode_from (fst p) (snd p) ps"

section \<open>Decoding what was encoded\<close>

lemma nat_or_push: "a < 2 ^ s \<Longrightarrow> a OR push_bit s c = a + push_bit s (c :: nat)"
proof -
  assume "a < 2 ^ s"
  then have "take_bit s a = a" by (simp add: take_bit_nat_eq_self)
  then have low: "\<not> bit a k" if "s \<le> k" for k
    using that by (metis bit_take_bit_iff not_le)
  have "a AND push_bit s c = 0"
    by (rule bit_eqI) (auto simp: bit_and_iff bit_push_bit_iff low)
  then show ?thesis by (simp add: disjunctive_add_eq_or)
qed

lemma unat_add_chunk:
  assumes "unat r < 2 ^ s" "s \<le> 25"
  shows "unat (add_chunk r s n) = unat r + (n mod 32) * 2 ^ s"
proof -
  have "unat (word_of_nat n :: 32 word) AND 31 = take_bit 5 (take_bit 32 n)"
    by (simp only: take_bit_eq_mask [of 5] unsigned_of_nat) (simp add: mask_eq_exp_minus_1)
  then have "unat (word_of_nat n AND 31 :: 32 word) = n mod 32"
    by (simp add: unsigned_and_eq take_bit_take_bit) (simp add: take_bit_nat_def mod_mod_cancel)
  moreover have "(n mod 32) * 2 ^ s < 2 ^ 32"
  proof -
    have "(2 :: nat) ^ s \<le> 2 ^ 25" using assms(2) by (rule power_increasing) simp
    then have "(n mod 32) * 2 ^ s \<le> 31 * 2 ^ 25" by (intro mult_le_mono) simp_all
    also have "(31 :: nat) * 2 ^ 25 < 2 ^ 32" by simp
    finally show ?thesis .
  qed
  ultimately have "unat (push_bit s (word_of_nat n AND 31 :: 32 word)) = push_bit s (n mod 32)"
    by (simp only: unsigned_push_bit_eq) (simp add: take_bit_nat_eq_self push_bit_eq_mult)
  then show ?thesis
    using nat_or_push [OF assms(1), of "n mod 32"]
    by (simp add: add_chunk_def unsigned_or_eq push_bit_eq_mult)
qed

lemma byte_chunk: "n < 64 \<Longrightarrow> byte (char_of (n + 63)) = n + 63"
  by (simp add: byte_char_of)

lemma decode_encode_chunks:
  "unat r < 2 ^ s \<Longrightarrow> n < 2 ^ (30 - s) \<Longrightarrow> s < 30 \<Longrightarrow> 5 dvd s \<Longrightarrow>
   \<exists>r'. decode_chunks r s (encode_chunks n @ rest) = Inr (r', rest) \<and> unat r' = unat r + n * 2 ^ s"
proof (induction n arbitrary: r s rule: encode_chunks.induct)
  case (1 n)
  from "1.prems" have s: "s \<le> 25" by (auto elim!: dvdE)
  note add = unat_add_chunk [OF "1.prems"(1) s]
  show ?case
  proof (cases "n < 32")
    case True
    with s add show ?thesis
      by (simp add: encode_chunks.simps [of n] byte_chunk minPolylineByte_def maxPolylineByte_def maxValueBits_def)
  next
    case False
    let ?c = "32 + n mod 32"
    let ?r = "add_chunk r s ?c"
    have c: "byte (char_of (n mod 32 + 95)) = n mod 32 + 95" "n mod 32 + 95 - 63 = ?c"
      using byte_chunk [of "n mod 32 + 32"] by simp_all
    have unat: "unat ?r = unat r + (n mod 32) * 2 ^ s" using add [of ?c] by simp
    have "5 dvd s + 5" using "1.prems" by simp
    moreover have "s + 5 < 30"
      using "1.prems"(2) False s "1.prems"(4) by (cases "s = 25") (auto elim!: dvdE)
    moreover have "n div 32 < 2 ^ (30 - (s + 5))"
    proof -
      have "(2 :: nat) ^ (30 - s) = 2 ^ (30 - (s + 5)) * 32"
        using \<open>s + 5 < 30\<close> power_add [of "2 :: nat" "30 - (s + 5)" 5] by simp
      with "1.prems"(2) show ?thesis by (simp add: less_mult_imp_div_less)
    qed
    moreover have "unat ?r < 2 ^ (s + 5)"
    proof -
      have "(n mod 32) * 2 ^ s \<le> 31 * 2 ^ s" by (intro mult_le_mono1) simp
      with "1.prems"(1) unat have "unat ?r < 32 * 2 ^ s" by linarith
      then show ?thesis by (simp add: power_add mult.commute)
    qed
    ultimately obtain r' where
      "decode_chunks ?r (s + 5) (encode_chunks (n div 32) @ rest) = Inr (r', rest)"
      "unat r' = unat ?r + (n div 32) * 2 ^ (s + 5)"
      using "1.IH" [OF False, of ?r "s + 5"] by auto
    moreover have "(n mod 32) * 2 ^ s + (n div 32) * 2 ^ (s + 5) = n * 2 ^ s"
    proof -
      have "(n mod 32) * 2 ^ s + (n div 32) * 2 ^ (s + 5) = (n mod 32 + n div 32 * 32) * 2 ^ s"
        by (simp only: power_add distrib_right) simp
      then show ?thesis by (simp only: mod_div_mult_eq)
    qed
    ultimately show ?thesis
      using False c s unat mod_less_divisor [of 32 n]
      by (simp add: encode_chunks.simps [of n] minPolylineByte_def maxPolylineByte_def maxValueBits_def)
  qed
qed

lemma zigzag_value:
  assumes "unat r = nat (if v < 0 then - 2 * v - 1 else 2 * v)"
  shows "zigzag r = v"
proof -
  have u: "uint r = (if v < 0 then - 2 * v - 1 else 2 * v)" 
    using arg_cong [OF assms, of int] by (simp split: if_splits)
  have half: "uint (drop_bit 1 r) = uint r div 2"  by (simp add: drop_bit_eq_div uint_div)
  have low: "r AND 1 \<noteq> 0 \<longleftrightarrow> odd (uint r)"
  proof -
    have "r AND 1 \<noteq> 0 \<longleftrightarrow> bit r 0" by (simp add: and_one_eq mod_2_eq_odd bit_0)
    also have "bit r 0 \<longleftrightarrow> bit (uint r) 0" by (simp add: bit_unsigned_iff)
    finally show ?thesis by (simp add: bit_0)
  qed
  show ?thesis unfolding zigzag_def Let_def half low u by (auto simp: not_int_def)
qed

lemma decodeValue_encode:
  assumes "\<bar>v\<bar> < 2 ^ 29"
  shows "decodeValue (encode_value v @ rest) = Inr (v, rest)"
proof -
  let ?n = "nat (if v < 0 then - 2 * v - 1 else 2 * v)"
  have "?n < 2 ^ (30 - 0)" using assms by (auto simp: nat_less_iff)
  then obtain r where "decode_chunks 0 0 (encode_chunks ?n @ rest) = Inr (r, rest)" "unat r = ?n"
    using decode_encode_chunks [of 0 0 ?n rest] by auto
  then show ?thesis by (simp add: decodeValue_def encode_value_def zigzag_value)
qed

definition fits :: "int \<times> int \<Rightarrow> bool" where
  "fits p \<longleftrightarrow> \<bar>fst p\<bar> \<le> 9000000 \<and> \<bar>snd p\<bar> \<le> 18000000"

lemma fits_in_range: "fits p \<Longrightarrow> in_range (mk_point (fst p) (snd p))"
proof -
  assume "fits p"
  then have "\<bar>real_of_int (fst p)\<bar> \<le> 9000000" "\<bar>real_of_int (snd p)\<bar> \<le> 18000000"
    by (auto simp: fits_def simp flip: of_int_abs)
  then show ?thesis by (auto simp: in_range_def mk_point_def polylinePrecision_def)
qed

lemma decode_from_encode:
  "fits (lat, lon) \<Longrightarrow> list_all fits ps \<Longrightarrow>
   decode_from lat lon (encode_from lat lon ps) = Inr (map (\<lambda>p. mk_point (fst p) (snd p)) ps)"
proof (induction ps arbitrary: lat lon)
  case Nil
  then show ?case by (simp add: decode_from.simps)
next
  case (Cons p ps)
  have small: "\<bar>fst p - lat\<bar> < 2 ^ 29" "\<bar>snd p - lon\<bar> < 2 ^ 29"
    using Cons.prems by (auto simp: fits_def)
  have ne: "encode_value v \<noteq> []" for v
    by (simp add: encode_value_def encode_chunks.simps)
  show ?case
    using Cons.IH [of "fst p" "snd p"] Cons.prems fits_in_range [of p]
    by (subst decode_from.simps) (simp add: ne decodeValue_encode [OF small(1)] decodeValue_encode [OF small(2)] Let_def)
qed

lemma decode_from_Inr:
  "decode_from lat lon s = Inr ps \<Longrightarrow> s = [] \<and> ps = [] \<or>
   (\<exists>a s1 b s2 qs. decodeValue s = Inr (a, s1) \<and> decodeValue s1 = Inr (b, s2) \<and>
      in_range (mk_point (lat + a) (lon + b)) \<and> decode_from (lat + a) (lon + b) s2 = Inr qs \<and>
      ps = mk_point (lat + a) (lon + b) # qs)"
  by (subst (asm) decode_from.simps) (auto simp: Let_def split: if_splits sum.splits)

lemma decode_from_in_range:
  "decode_from lat lon s = Inr ps \<Longrightarrow> list_all in_range ps \<and> 2 * length ps \<le> length s"
proof (induction "length s" arbitrary: lat lon s ps rule: less_induct)
  case less
  from decode_from_Inr [OF less.prems] show ?case
  proof (elim disjE exE conjE)
    fix a s1 b s2 qs
    assume v: "decodeValue s = Inr (a, s1)" "decodeValue s1 = Inr (b, s2)"
      and r: "in_range (mk_point (lat + a) (lon + b))"
      and d: "decode_from (lat + a) (lon + b) s2 = Inr qs" "ps = mk_point (lat + a) (lon + b) # qs"
    from v have len: "length s1 < length s" "length s2 < length s1" by (auto dest: decodeValue_shorter)
    with less.hyps [OF _ d(1)] r d(2) show ?thesis by auto
  qed simp
qed

lemma decode_chunks_error: "decode_chunks r n s = Inl e \<Longrightarrow> e \<noteq> PolylineTooLong"
  by (induction r n s rule: decode_chunks.induct) (auto simp: Let_def split: if_splits)

lemma decodeValue_error: "decodeValue s = Inl e \<Longrightarrow> e \<noteq> PolylineTooLong"
  by (auto simp: decodeValue_def split: sum.splits dest: decode_chunks_error)

lemma decode_from_error: "decode_from lat lon s = Inl e \<Longrightarrow> e \<noteq> PolylineTooLong"
proof (induction "length s" arbitrary: lat lon s rule: less_induct)
  case less
  have "(\<exists>s'. length s' < length s \<and> (\<exists>a b. decode_from a b s' = Inl e)) \<or> e = OutOfRange \<or>
      (\<exists>s'. decodeValue s' = Inl e)"
    using less.prems
    by (subst (asm) decode_from.simps)
       (auto simp: Let_def split: if_splits sum.splits dest!: decodeValue_shorter)
  with less.hyps show ?case by (auto dest: decodeValue_error)
qed

text \<open>C37: Decoding is the exact inverse of the encoding: any track of at least zero vertices whose
  coordinates, in units of 1e-5 degrees, lie on the globe, and whose encoding is within the byte
  limit, decodes to those vertices.\<close>

theorem polyline_roundtrip:
  assumes "list_all fits ps" "length (encode_from 0 0 ps) \<le> maxEncodedPolylineBytes"
  shows "DecodePolyline (encode_from 0 0 ps) = Inr (map (\<lambda>p. mk_point (fst p) (snd p)) ps)"
  using assms decode_from_encode [of 0 0 ps] by (simp add: DecodePolyline_def fits_def)

text \<open>The example of the format's specification: 38.5, -120.2; 40.7, -120.95; 43.252, -126.453.\<close>

lemma polyline_roundtrip_witness:
  "DecodePolyline (''_p'' @ [CHR 0x7E] @ ''iF'' @ [CHR 0x7E] @ ''ps'' @ [CHR 0x7C] @ ''U_ulLnnqC_mqNvxq'' @ [CHR 0x60, CHR 0x40])
     = Inr (map (\<lambda>p. mk_point (fst p) (snd p)) [(3850000, -12020000), (4070000, -12095000), (4325200, -12645300)])"
proof -
  let ?ps = "[(3850000, -12020000), (4070000, -12095000), (4325200, -12645300)] :: (int \<times> int) list"
  have enc: "encode_from 0 0 ?ps =
      ''_p'' @ [CHR 0x7E] @ ''iF'' @ [CHR 0x7E] @ ''ps'' @ [CHR 0x7C] @ ''U_ulLnnqC_mqNvxq'' @ [CHR 0x60, CHR 0x40]"
    by (simp add: encode_value_def encode_chunks.simps) code_simp
  have "list_all fits ?ps" by (simp add: fits_def)
  moreover have "length (encode_from 0 0 ?ps) \<le> maxEncodedPolylineBytes"
    unfolding enc maxEncodedPolylineBytes_def by simp
  ultimately have "DecodePolyline (encode_from 0 0 ?ps) = Inr (map (\<lambda>p. mk_point (fst p) (snd p)) ?ps)"
    by (rule polyline_roundtrip)
  then show ?thesis by (simp only: enc)
qed

text \<open>Whatever bytes arrive, decoding ends with an error or with points that all lie on the
  globe, at most one for every two bytes of an input within the limit.\<close>

theorem polyline_bounded:
  "case DecodePolyline s of
     Inl e \<Rightarrow> e = PolylineTooLong \<longleftrightarrow> length s > maxEncodedPolylineBytes
   | Inr ps \<Rightarrow> list_all in_range ps \<and> 2 * length ps \<le> length s \<and> length s \<le> maxEncodedPolylineBytes"
  using decode_from_in_range [of 0 0 s] decode_from_error [of 0 0 s]
  by (auto simp: DecodePolyline_def split: sum.split)

end
