(* ===== verification/Geo.thy ===== *)
theory Geo
  imports Polyline Store "HOL-Library.Sublist"
begin

text \<open>
  Package \<^verbatim>\<open>internal/geo\<close>: the sampling of a track, the resolution of the samples through the
  cache and the geocoder, the allow-list of place kinds, and the Nominatim client's own logic
  (\<^verbatim>\<open>geo.go\<close>, \<^verbatim>\<open>nominatim.go\<close>). The HTTP transport, the JSON decoder, SHA-256 and the clock are
  arguments. Coordinates and distances are reals.

  The theorems are the package's privacy rule: no place near an endpoint of the track is ever
  asked about, and no name that is not on the allow-list leaves the package or enters the cache.
\<close>

section \<open>The allow-list (nominatim.go)\<close>

record addressField =
  field_key :: string
  field_kind :: string
  field_token :: char

definition addressFields :: "addressField list" where
  "addressFields =
     [\<lparr>field_key = ''village'', field_kind = ''village'', field_token = CHR ''v''\<rparr>,
      \<lparr>field_key = ''hamlet'', field_kind = ''hamlet'', field_token = CHR ''h''\<rparr>,
      \<lparr>field_key = ''town'', field_kind = ''town'', field_token = CHR ''t''\<rparr>,
      \<lparr>field_key = ''city'', field_kind = ''city'', field_token = CHR ''c''\<rparr>,
      \<lparr>field_key = ''municipality'', field_kind = ''municipality'', field_token = CHR ''m''\<rparr>,
      \<lparr>field_key = ''suburb'', field_kind = ''suburb'', field_token = CHR ''s''\<rparr>,
      \<lparr>field_key = ''city_district'', field_kind = ''district'', field_token = CHR ''d''\<rparr>,
      \<lparr>field_key = ''county'', field_kind = ''county'', field_token = CHR ''y''\<rparr>]"

definition defaultPlaceFields :: "string list" where
  "defaultPlaceFields = [''hamlet'', ''village'', ''suburb'', ''town'']"

definition regionFields :: "string list" where
  "regionFields = [''state_district'', ''state'', ''region'', ''province'']"

definition naturalFeatures :: "((string \<times> string) \<times> string) list" where
  "naturalFeatures =
     map (\<lambda>t. ((''waterway'', t), t)) [''river'', ''stream'', ''canal''] @
     map (\<lambda>t. ((''natural'', t), t))
       [''water'', ''bay'', ''strait'', ''wood'', ''forest'', ''heath'', ''moor'', ''grassland'', ''beach'',
        ''cliff'', ''peak'', ''ridge'', ''valley'', ''saddle'', ''glacier'']"

definition allowedKinds :: "string list" where
  "allowedKinds = map field_kind addressFields @ map snd naturalFeatures"

definition IsAllowedKind :: "string \<Rightarrow> bool" where
  "IsAllowedKind kind \<longleftrightarrow> List.member allowedKinds kind"

datatype order_error = UnknownKeys "string list" "string list"

definition known_key :: "string \<Rightarrow> bool" where
  "known_key key \<longleftrightarrow> list_ex (\<lambda>f. field_key f = key) addressFields"

text \<open>The unknown and the repeated keys of an order, in the order they occur.\<close>

fun order_faults :: "string list \<Rightarrow> string list \<Rightarrow> string list \<times> string list" where
  "order_faults seen [] = ([], [])"
| "order_faults seen (key # keys) =
     (if List.member seen key
      then (let (unknown, duplicated) = order_faults seen keys in (unknown, key # duplicated))
      else let (unknown, duplicated) = order_faults (key # seen) keys
           in (if known_key key then unknown else key # unknown, duplicated))"

definition ValidatePlaceFields :: "string list \<Rightarrow> order_error option" where
  "ValidatePlaceFields order =
     (case order_faults [] order of
        ([], []) \<Rightarrow> None
      | (unknown, duplicated) \<Rightarrow> Some (UnknownKeys unknown duplicated))"

definition orderFields :: "string list \<Rightarrow> order_error + (addressField list \<times> string)" where
  "orderFields order0 =
     (let order = (if order0 = [] then defaultPlaceFields else order0) in
      case ValidatePlaceFields order of
        Some e \<Rightarrow> Inl e
      | None \<Rightarrow>
          (let chosen = map (\<lambda>key. hd (filter (\<lambda>f. field_key f = key) addressFields)) order in
           Inr (chosen @ filter (\<lambda>f. \<not> List.member order (field_key f)) addressFields,
                map field_token chosen)))"

text \<open>
  The error field of a reply, which is a string or an object. \<open>as_text\<close> and \<open>as_object\<close> are \<^verbatim>\<open>encoding/json\<close>
  on the bytes of the field: a string, and the message of an object with a code and a message.
\<close>

record nominatimError =
  ErrMessage :: string
  ErrPresent :: bool

definition UnmarshalError ::
  "(string \<Rightarrow> string option) \<Rightarrow> (string \<Rightarrow> string option) \<Rightarrow> string \<Rightarrow> nominatimError \<Rightarrow> nominatimError" where
  "UnmarshalError as_text as_object data e =
     (if data = ''null'' then e
      else case as_text data of
        Some text \<Rightarrow> e\<lparr>ErrMessage := text, ErrPresent := (text \<noteq> [])\<rparr>
      | None \<Rightarrow> (let e = e\<lparr>ErrPresent := True\<rparr> in
          case as_object data of Some message \<Rightarrow> e\<lparr>ErrMessage := message\<rparr> | None \<Rightarrow> e))"

definition reported :: "nominatimError \<Rightarrow> bool" where
  "reported e = ErrPresent e"

definition no_error_field :: nominatimError where
  "no_error_field = \<lparr>ErrMessage = [], ErrPresent = False\<rparr>"

text \<open>A field is an error whatever its shape, unless it is null or the empty string.\<close>

lemma reported_exact:
  "reported (UnmarshalError as_text as_object data no_error_field) \<longleftrightarrow> data \<noteq> ''null'' \<and> as_text data \<noteq> Some []"
  by (auto simp: UnmarshalError_def reported_def no_error_field_def Let_def split: option.splits)

record reverseResponse =
  RCategory :: string
  RType :: string
  RName :: string
  RAddress :: "(string \<times> string) list"
  RError :: nominatimError

definition address :: "reverseResponse \<Rightarrow> string \<Rightarrow> string" where
  "address p key = (case map_of (RAddress p) key of None \<Rightarrow> [] | Some v \<Rightarrow> v)"

definition placeFrom :: "addressField list \<Rightarrow> reverseResponse \<Rightarrow> Place" where
  "placeFrom place_fields payload =
     (let region = (case find (\<lambda>k. address payload k \<noteq> []) regionFields of
                      None \<Rightarrow> [] | Some k \<Rightarrow> address payload k);
          settled = find (\<lambda>f. address payload (field_key f) \<noteq> []) place_fields
      in case settled of
           Some f \<Rightarrow> \<lparr>PlaceName = address payload (field_key f), PlaceKind = field_kind f,
                      Region = region, Country = address payload ''country''\<rparr>
         | None \<Rightarrow>
             (case if RName payload \<noteq> [] then map_of naturalFeatures (RCategory payload, RType payload) else None of
                Some kind \<Rightarrow> \<lparr>PlaceName = RName payload, PlaceKind = kind,
                              Region = region, Country = address payload ''country''\<rparr>
              | None \<Rightarrow> \<lparr>PlaceName = [], PlaceKind = [],
                         Region = region, Country = address payload ''country''\<rparr>))"

section \<open>Place names without dotted abbreviations (geo.go)\<close>

text \<open>
  One pass of \<^verbatim>\<open>ReplaceAllString\<close>: leftmost, non-overlapping matches of letter, period, letter
  get a space after the period.
\<close>

fun space_dots :: "tables \<Rightarrow> (rune \<times> string) list \<Rightarrow> (rune \<times> string) list" where
  "space_dots U (a # d # b # rest) =
     (if is_letter U (fst a) \<and> fst d = 46 \<and> is_letter U (fst b)
      then a # d # (32, '' '') # b # space_dots U rest
      else a # space_dots U (d # b # rest))"
| "space_dots U xs = xs"

definition spaced :: "tables \<Rightarrow> string \<Rightarrow> string" where
  "spaced U name = bytes_of (space_dots U (segs name))"

text \<open>The loop of \<open>NormalizePlaceName\<close>, with fuel; \<open>normalized\<close> below shows that the fuel is enough.\<close>

primrec normalize_loop :: "tables \<Rightarrow> nat \<Rightarrow> string \<Rightarrow> string" where
  "normalize_loop U 0 name = name"
| "normalize_loop U (Suc n) name =
     (let s = spaced U name in if s = name then name else normalize_loop U n s)"

definition NormalizePlaceName :: "tables \<Rightarrow> string \<Rightarrow> string" where
  "NormalizePlaceName U name = normalize_loop U (length name) name"

lemma segs_insert_blank:
  "segs (bytes_of (A @ B)) = A @ B \<Longrightarrow> segs (bytes_of (A @ (32, '' '') # B)) = A @ (32, '' '') # B"
  using segs_prefix [of _ A B] segs_suffix [of _ A B] segs_append_ascii [of "CHR '' ''" "bytes_of A" "bytes_of B"]
  by simp

lemma segs_space_dots:
  "segs (bytes_of (P @ xs)) = P @ xs \<Longrightarrow> segs (bytes_of (P @ space_dots U xs)) = P @ space_dots U xs"
proof (induction U xs arbitrary: P rule: space_dots.induct)
  case (1 U a d b rest)
  show ?case
  proof (cases "is_letter U (fst a) \<and> fst d = 46 \<and> is_letter U (fst b)")
    case True
    have "segs (bytes_of ((P @ [a, d, (32, '' ''), b]) @ rest)) = (P @ [a, d, (32, '' ''), b]) @ rest"
      using segs_insert_blank [of "P @ [a, d]" "b # rest"] "1.prems" by simp
    from "1.IH"(1) [OF True this] True show ?thesis by simp
  next
    case False
    have "segs (bytes_of ((P @ [a]) @ d # b # rest)) = (P @ [a]) @ d # b # rest" using "1.prems" by simp
    from "1.IH"(2) [OF False this] show ?thesis by (simp only: space_dots.simps if_not_P [OF False]) simp
  qed
qed simp_all

lemma segs_spaced: "segs (spaced U s) = space_dots U (segs s)"
  using segs_space_dots [of "[]" "segs s" U] by (simp add: spaced_def)

text \<open>How many periods stand directly before a letter; every replacement removes one.\<close>

fun dotted :: "tables \<Rightarrow> rune list \<Rightarrow> nat" where
  "dotted U (d # b # rest) = (if d = 46 \<and> is_letter U b then 1 else 0) + dotted U (b # rest)"
| "dotted U xs = 0"

lemma dotted_space_dots:
  "\<not> is_letter U 32 \<Longrightarrow>
   dotted U (c # map fst (space_dots U xs)) + (if space_dots U xs = xs then 0 else 1) \<le> dotted U (c # map fst xs)"
proof (induction U xs arbitrary: c rule: space_dots.induct)
  case (1 U a d b rest)
  show ?case
  proof (cases "is_letter U (fst a) \<and> fst d = 46 \<and> is_letter U (fst b)")
    case True
    with "1.IH"(1) [OF True "1.prems", of "fst b"] "1.prems" show ?thesis by auto
  next
    case False
    then have S: "space_dots U (a # d # b # rest) = a # space_dots U (d # b # rest)" by auto
    have "dotted U (c # map fst (a # ys)) = (if c = 46 \<and> is_letter U (fst a) then 1 else 0)
        + dotted U (fst a # map fst ys)" for ys :: "(rune \<times> string) list" by simp
    with "1.IH"(2) [OF False "1.prems", of "fst a"] show ?thesis unfolding S by simp
  qed
qed simp_all

lemma dotted_head: "c \<noteq> 46 \<Longrightarrow> dotted U (c # xs) = dotted U xs"
  by (cases xs) simp_all

lemma dotted_spaced:
  assumes "\<not> is_letter U 32" "spaced U s \<noteq> s"
  shows "dotted U (runes (spaced U s)) < dotted U (runes s)"
proof -
  have "space_dots U (segs s) \<noteq> segs s"
    using assms(2) by (metis bytes_of_segs spaced_def)
  with dotted_space_dots [OF assms(1), of 0 "segs s"] show ?thesis
    by (simp add: dotted_head runes_def segs_spaced)
qed

lemma dotted_length: "dotted U xs \<le> length xs"
  by (induction U xs rule: dotted.induct) auto

lemma length_segs: "length (segs s) \<le> length s"
  by (induction s rule: segs.induct) (auto simp: segs.simps(2) split: prod.splits)

lemma normalize_loop_stable:
  "\<not> is_letter U 32 \<Longrightarrow> dotted U (runes s) \<le> n \<Longrightarrow> spaced U (normalize_loop U n s) = normalize_loop U n s"
proof (induction n arbitrary: s)
  case 0
  then show ?case using dotted_spaced [of U s] by fastforce
next
  case (Suc n)
  then show ?case using dotted_spaced [of U s] by (fastforce simp: Let_def)
qed

lemma normalized: "\<not> is_letter U 32 \<Longrightarrow> spaced U (NormalizePlaceName U s) = NormalizePlaceName U s"
  unfolding NormalizePlaceName_def
  using dotted_length [of U "runes s"] length_segs [of s]
  by (intro normalize_loop_stable) (simp_all add: runes_def)

fun has_abbreviation :: "tables \<Rightarrow> rune list \<Rightarrow> bool" where
  "has_abbreviation U (a # d # b # rest) \<longleftrightarrow>
     (is_letter U a \<and> d = 46 \<and> is_letter U b) \<or> has_abbreviation U (d # b # rest)"
| "has_abbreviation U xs \<longleftrightarrow> False"

lemma length_space_dots: "length xs \<le> length (space_dots U xs)"
  by (induction U xs rule: space_dots.induct) auto

lemma space_dots_stable: "space_dots U xs = xs \<longleftrightarrow> \<not> has_abbreviation U (map fst xs)"
proof (induction U xs rule: space_dots.induct)
  case (1 U a d b rest)
  then show ?case
    using length_space_dots [of rest U] by (auto dest: arg_cong [of _ _ length])
qed simp_all

lemma spaced_stable: "spaced U s = s \<longleftrightarrow> \<not> has_abbreviation U (runes s)"
  by (metis bytes_of_segs runes_def segs_spaced space_dots_stable spaced_def)

lemma filter_space_dots:
  "filter (\<lambda>x. x \<noteq> 32) (map fst (space_dots U xs)) = filter (\<lambda>x. x \<noteq> 32) (map fst xs)"
  by (induction U xs rule: space_dots.induct) auto

lemma filter_normalize_loop:
  "filter (\<lambda>x. x \<noteq> 32) (runes (normalize_loop U n s)) = filter (\<lambda>x. x \<noteq> 32) (runes s)"
  by (induction n arbitrary: s) (auto simp: Let_def runes_def segs_spaced filter_space_dots)

text \<open>A normalised place name carries no period between two letters, so no label of it can be
  taken for part of a host name; apart from spaces it has the runes of the name it came from, a
  name without such a period is left as it is, and normalising again changes nothing.\<close>

theorem normalize_place_name:
  assumes "tables_ok U"
  shows "\<not> has_abbreviation U (runes (NormalizePlaceName U s)) \<and>
     filter (\<lambda>x. x \<noteq> 32) (runes (NormalizePlaceName U s)) = filter (\<lambda>x. x \<noteq> 32) (runes s) \<and>
     (\<not> has_abbreviation U (runes s) \<longrightarrow> NormalizePlaceName U s = s) \<and>
     NormalizePlaceName U (NormalizePlaceName U s) = NormalizePlaceName U s"
proof -
  have "\<not> is_letter U 32" using assms by (simp add: tables_ok_def ascii_letter_def ascii_upper_def)
  note stable = normalized [OF this, of s]
  have same: "NormalizePlaceName U t = t" if "spaced U t = t" for t
    using that by (cases "length t") (simp_all add: NormalizePlaceName_def)
  from stable same show ?thesis
    by (simp add: spaced_stable filter_normalize_loop flip: NormalizePlaceName_def)
       (simp add: NormalizePlaceName_def filter_normalize_loop)
qed

lemma normalize_place_name_witness:
  "NormalizePlaceName latin1 ''Ruhstorf a.d.Rott'' = ''Ruhstorf a. d. Rott'' \<and>
   \<not> has_abbreviation latin1 (runes ''Ruhstorf a. d. Rott'')"
proof -
  have step: "spaced latin1 ''Ruhstorf a.d.Rott'' = ''Ruhstorf a. d.Rott''"
    "spaced latin1 ''Ruhstorf a. d.Rott'' = ''Ruhstorf a. d. Rott''"
    "spaced latin1 ''Ruhstorf a. d. Rott'' = ''Ruhstorf a. d. Rott''"
    by (simp_all add: spaced_def latin1_def ascii_letter_def ascii_upper_def)
  have "NormalizePlaceName latin1 ''Ruhstorf a.d.Rott'' = ''Ruhstorf a. d. Rott''"
    by (simp add: NormalizePlaceName_def eval_nat_numeral step)
  with normalize_place_name [OF latin1_ok, of "''Ruhstorf a.d.Rott''"] show ?thesis by simp
qed

section \<open>Cells and cache keys\<close>

definition cachePrecision :: nat where "cachePrecision = 3"

text \<open>\<^verbatim>\<open>math.Round\<close>: to the nearest integer, halves away from zero.\<close>

definition math_round :: "real \<Rightarrow> real" where
  "math_round x = sgn x * of_int \<lfloor>\<bar>x\<bar> + 1 / 2\<rfloor>"

definition round_cell :: "real \<Rightarrow> real" where
  "round_cell v =
     (let scale = 10 ^ cachePrecision; rounded = math_round (v * scale) / scale in
      if rounded = 0 then 0 else if rounded = -180 then 180 else rounded)"

definition cellOf :: "GeoPoint \<Rightarrow> real \<times> real" where
  "cellOf p = (round_cell (GLat p), round_cell (GLon p))"

text \<open>\<^verbatim>\<open>FormatFloat\<close> with three decimals.\<close>

definition show_fixed3 :: "real \<Rightarrow> string" where
  "show_fixed3 x = (let n = nat (round_even (1000 * \<bar>x\<bar>)) in
     (if x < 0 then ''-'' else []) @ show_nat (n div 1000) @ ''.'' @
     show_nat (n mod 1000 div 100) @ show_nat (n mod 100 div 10) @ show_nat (n mod 10))"

definition CacheKey :: "string \<Rightarrow> GeoPoint \<Rightarrow> string" where
  "CacheKey scope p =
     ''v2_'' @ scope @ ''_'' @ show_fixed3 (fst (cellOf p)) @ '','' @ show_fixed3 (snd (cellOf p))"

section \<open>Sampling\<close>

definition geo_radius :: real where "geo_radius = 6371000"

definition Distance :: "GeoPoint \<Rightarrow> GeoPoint \<Rightarrow> real" where
  "Distance a b =
     (let rad = pi / 180;
          lat1 = GLat a * rad; lat2 = GLat b * rad;
          dlat = (GLat b - GLat a) * rad; dlon = (GLon b - GLon a) * rad;
          sin_lat = sin (dlat / 2); sin_lon = sin (dlon / 2);
          h = sin_lat * sin_lat + cos lat1 * cos lat2 * sin_lon * sin_lon
      in 2 * geo_radius * arcsin (min 1 (sqrt h)))"

primrec lengths_from :: "real \<Rightarrow> GeoPoint \<Rightarrow> GeoPoint list \<Rightarrow> real list" where
  "lengths_from len prev [] = []"
| "lengths_from len prev (p # ps) =
     (len + Distance prev p) # lengths_from (len + Distance prev p) p ps"

text \<open>The cumulative distance at each point, the first being 0; the len is the last of them.\<close>

definition arcLengths :: "GeoPoint list \<Rightarrow> real list" where
  "arcLengths points = (case points of [] \<Rightarrow> [] | p # ps \<Rightarrow> 0 # lengths_from 0 p ps)"

definition shortestLonDelta :: "real \<Rightarrow> real \<Rightarrow> real" where
  "shortestLonDelta from_lon to_lon =
     (let delta = to_lon - from_lon in
      if delta > 180 then delta - 360 else if delta < -180 then delta + 360 else delta)"

definition wrapLongitude :: "real \<Rightarrow> real" where
  "wrapLongitude lon = (if lon > 180 then lon - 360 else if lon < -180 then lon + 360 else lon)"

definition interpolate :: "GeoPoint \<Rightarrow> GeoPoint \<Rightarrow> real \<Rightarrow> GeoPoint" where
  "interpolate p q fraction =
     \<lparr>GLat = GLat p + (GLat q - GLat p) * fraction,
      GLon = wrapLongitude (GLon p + shortestLonDelta (GLon p) (GLon q) * fraction)\<rparr>"

fun at_arc :: "GeoPoint \<Rightarrow> real \<Rightarrow> (GeoPoint \<times> real) list \<Rightarrow> real \<Rightarrow> GeoPoint" where
  "at_arc prev before_len [] target = prev"
| "at_arc prev before_len ((p, len) # rest) target =
     (let span = len - before_len in
      if len < target \<or> span \<le> 0 then at_arc p len rest target
      else interpolate prev p ((target - before_len) / span))"

definition pointAtArc :: "GeoPoint list \<Rightarrow> real list \<Rightarrow> real \<Rightarrow> GeoPoint" where
  "pointAtArc points cumulative target =
     at_arc (hd points) (hd cumulative) (zip (tl points) (tl cumulative)) target"

definition farthestFrom :: "GeoPoint \<Rightarrow> GeoPoint list \<Rightarrow> GeoPoint" where
  "farthestFrom start points =
     fst (fold (\<lambda>p (far, d). if Distance start p > d then (p, Distance start p) else (far, d))
            points (start, 0))"

definition dedupePoints :: "GeoPoint list \<Rightarrow> GeoPoint list" where
  "dedupePoints points =
     rev (fold (\<lambda>p kept. if List.member kept p then kept else p # kept) points [])"

definition withoutEndpoints :: "GeoPoint list \<Rightarrow> GeoPoint list \<Rightarrow> GeoPoint list" where
  "withoutEndpoints track samples =
     filter (\<lambda>s. \<not> (cellOf s = cellOf (hd track) \<or> cellOf s = cellOf (last track))) samples"

definition DefaultSampleCount :: int where "DefaultSampleCount = 6"

definition MaxSampleCount :: int where "MaxSampleCount = 6"

definition SamplePoints :: "GeoPoint list \<Rightarrow> int \<Rightarrow> GeoPoint list" where
  "SamplePoints points want =
     (if points = [] then []
      else
        let n = (if want \<le> 0 then DefaultSampleCount else want);
            cumulative = arcLengths points; whole = last cumulative;
            inner = (if whole > 0
                     then map (\<lambda>step. pointAtArc points cumulative
                            (of_int step * whole / of_int (n + 1))) [1..n]
                     else [])
        in dedupePoints (withoutEndpoints points (inner @ [farthestFrom (hd points) points])))"

lemma dedupe_aux:
  "distinct kept \<Longrightarrow>
   (let r = fold (\<lambda>p kept. if List.member kept p then kept else p # kept) xs kept in
    set r = set kept \<union> set xs \<and> distinct r \<and> length r \<le> length kept + length xs)"
proof (induction xs arbitrary: kept)
  case (Cons x xs)
  from Cons.IH [of kept] Cons.IH [of "x # kept"] Cons.prems show ?case by (auto simp: Let_def)
qed simp

lemma dedupePoints [simp]:
  "set (dedupePoints xs) = set xs" "distinct (dedupePoints xs)" "length (dedupePoints xs) \<le> length xs"
  using dedupe_aux [of "[]" xs] by (simp_all add: dedupePoints_def Let_def)

lemma farthestFrom_mem:
  assumes "start \<in> set points"
  shows "farthestFrom start points \<in> set points"
proof -
  have "fst (fold (\<lambda>p (far, d). if Distance start p > d then (p, Distance start p) else (far, d)) ps (far, d))
      \<in> insert far (set ps)" for ps far d
  proof (induction ps arbitrary: far d)
    case (Cons a ps)
    from Cons.IH [of a "Distance start a"] Cons.IH [of far d] show ?case by auto
  qed simp
  from this [of points start 0] assms show ?thesis unfolding farthestFrom_def by (simp add: insert_absorb)
qed

text \<open>A position on the track: a vertex, or a point of the way between two consecutive ones.\<close>

fun on_track :: "GeoPoint list \<Rightarrow> GeoPoint \<Rightarrow> bool" where
  "on_track [] q \<longleftrightarrow> False"
| "on_track [p] q \<longleftrightarrow> q = p"
| "on_track (p # p' # ps) q \<longleftrightarrow>
     q = p \<or> (\<exists>f. 0 \<le> f \<and> f \<le> 1 \<and> q = interpolate p p' f) \<or> on_track (p' # ps) q"

lemma on_track_vertex: "q \<in> set points \<Longrightarrow> on_track points q"
  by (induction points q rule: on_track.induct) auto

lemma at_arc_on_track:
  "before_len \<le> target \<Longrightarrow> on_track (prev # map fst rest) (at_arc prev before_len rest target)"
proof (induction prev before_len rest target rule: at_arc.induct)
  case (2 prev before_len p len rest target)
  show ?case
  proof (cases "len < target \<or> len - before_len \<le> 0")
    case True
    with 2 show ?thesis by auto
  next
    case False
    let ?f = "(target - before_len) / (len - before_len)"
    from False "2.prems" have "0 \<le> ?f" "?f \<le> 1" by (simp_all add: divide_le_eq)
    with False show ?thesis by auto
  qed
qed simp

lemma length_lengths_from [simp]: "length (lengths_from len p ps) = length ps"
  by (induction ps arbitrary: len p) simp_all

lemma pointAtArc_on_track:
  assumes "points \<noteq> []" "0 \<le> target"
  shows "on_track points (pointAtArc points (arcLengths points) target)"
proof -
  obtain p ps where points: "points = p # ps" using assms by (cases points) auto
  have "map fst (zip ps (lengths_from 0 p ps)) = ps" by simp
  with at_arc_on_track [OF assms(2), of p "zip ps (lengths_from 0 p ps)"] show ?thesis
    by (simp add: points pointAtArc_def arcLengths_def)
qed

text \<open>Whatever the track, no sample shares a cache cell with its first or its last point, so a
  place the athlete sets out from or arrives at is never asked about; every sample is a position
  on the track, no sample is taken twice, and there is at most one more than the count asked for.\<close>

theorem samples_avoid_endpoints:
  "list_all (\<lambda>s. cellOf s \<noteq> cellOf (hd points) \<and> cellOf s \<noteq> cellOf (last points) \<and> on_track points s)
     (SamplePoints points want) \<and>
   distinct (SamplePoints points want) \<and>
   int (length (SamplePoints points want)) \<le> (if want \<le> 0 then DefaultSampleCount else want) + 1"
proof (cases "points = []")
  case True
  then show ?thesis by (simp add: SamplePoints_def DefaultSampleCount_def)
next
  case False
  let ?count = "if want \<le> 0 then DefaultSampleCount else want"
  let ?whole = "last (arcLengths points)"
  let ?inner = "if ?whole > 0
      then map (\<lambda>step. pointAtArc points (arcLengths points) (of_int step * ?whole / of_int (?count + 1))) [1..?count]
      else []"
  let ?all = "?inner @ [farthestFrom (hd points) points]"
  have S: "SamplePoints points want = dedupePoints (withoutEndpoints points ?all)"
    using False by (simp add: SamplePoints_def Let_def)
  have pos: "0 < ?count" by (simp add: DefaultSampleCount_def)
  have inner: "on_track points s" if "s \<in> set ?inner" for s
    using that pos pointAtArc_on_track [OF False] by (auto split: if_splits)
  have far: "on_track points (farthestFrom (hd points) points)"
    using False by (simp add: on_track_vertex farthestFrom_mem)
  have "int (length ?all) \<le> ?count + 1" using pos by (simp add: DefaultSampleCount_def)
  moreover have "length (SamplePoints points want) \<le> length ?all"
    unfolding S withoutEndpoints_def by (rule le_trans [OF dedupePoints(3) length_filter_le])
  ultimately have "int (length (SamplePoints points want)) \<le> ?count + 1" by linarith
  then show ?thesis
    using inner far unfolding S by (auto simp: list_all_iff withoutEndpoints_def)
qed

section \<open>The describer\<close>

record Summary =
  Along :: "Place list"
  SummaryRegion :: string
  SummaryCountry :: string

definition no_summary :: Summary where
  "no_summary = \<lparr>Along = [], SummaryRegion = [], SummaryCountry = []\<rparr>"

definition Summary_Empty :: "Summary \<Rightarrow> bool" where
  "Summary_Empty s \<longleftrightarrow> Along s = [] \<and> SummaryRegion s = [] \<and> SummaryCountry s = []"

definition Names :: "Summary \<Rightarrow> string list" where
  "Names s = rev (fold (\<lambda>p names. if PlaceName p = [] \<or> List.member names (PlaceName p) then names
                          else PlaceName p # names) (Along s) [])"

datatype geo_error =
  BadPolyline polyline_error | CacheReadFailed | CacheWriteFailed
| ErrThrottled | ErrBlocked | ReverseStatus int | ReverseDecode | ReverseTransport | LimiterStopped

text \<open>
  The geocoder and the faults of the cache are functions of a world; \<open>Asked\<close> is the trace of
  the coordinates the geocoder was asked about.
\<close>

record 'w geo_env =
  reverse :: "GeoPoint \<Rightarrow> 'w \<Rightarrow> (geo_error + Place) \<times> 'w"
  cache_read_fails :: "'w \<Rightarrow> bool"
  cache_write :: "'w \<Rightarrow> fault"

record 'w geo_state =
  GWorld :: 'w
  Cache :: Memory
  Asked :: "GeoPoint list"

record Describer =
  sampleCount :: int
  scope :: string

definition NewDescriber :: "bool \<Rightarrow> bool \<Rightarrow> int \<Rightarrow> string \<Rightarrow> Describer option" where
  "NewDescriber has_reverser has_cache want cache_scope =
     (if \<not> has_reverser \<or> \<not> has_cache then None
      else if want < 0 \<or> want > MaxSampleCount then None
      else Some \<lparr>sampleCount = want, scope = cache_scope\<rparr>)"

definition allowedOnly :: "Place \<Rightarrow> Place" where
  "allowedOnly place =
     (if PlaceName place = [] \<or> IsAllowedKind (PlaceKind place) then place
      else place\<lparr>PlaceName := [], PlaceKind := []\<rparr>)"

definition resolve :: "'w geo_env \<Rightarrow> string \<Rightarrow> GeoPoint \<Rightarrow> 'w geo_state \<Rightarrow> (geo_error + Place) \<times> 'w geo_state" where
  "resolve env key point s =
     (if cache_read_fails env (GWorld s) then (Inl CacheReadFailed, s)
      else case GetPlace (Cache s) key of
        Some cached \<Rightarrow> (Inr (allowedOnly cached), s)
      | None \<Rightarrow>
          (case reverse env point (GWorld s) of
             (Inl e, w) \<Rightarrow> (Inl e, s\<lparr>GWorld := w, Asked := Asked s @ [point]\<rparr>)
           | (Inr answered, w) \<Rightarrow>
               (let place = allowedOnly answered;
                    (m, ok) = faulty (cache_write env w) (\<lambda>m. SavePlace m key place) (Cache s);
                    s' = s\<lparr>GWorld := w, Asked := Asked s @ [point], Cache := m\<rparr>
                in if ok then (Inr place, s') else (Inl CacheWriteFailed, s'))))"

definition normalized_place :: "tables \<Rightarrow> Place \<Rightarrow> Place" where
  "normalized_place U p =
     p\<lparr>PlaceName := NormalizePlaceName U (PlaceName p), Region := NormalizePlaceName U (Region p),
       Country := NormalizePlaceName U (Country p)\<rparr>"

text \<open>What one resolved place adds to the summary; \<open>names\<close> are the names already listed.\<close>

definition add_place :: "Place \<Rightarrow> Summary \<times> string list \<Rightarrow> Summary \<times> string list" where
  "add_place place sn =
     (case sn of (summary, names) \<Rightarrow>
      if Place_Empty place then (summary, names)
      else
        let summary1 = (if SummaryRegion summary = [] then summary\<lparr>SummaryRegion := Region place\<rparr> else summary);
            summary2 = (if SummaryCountry summary1 = [] then summary1\<lparr>SummaryCountry := Country place\<rparr> else summary1)
        in if PlaceName place = [] \<or> List.member names (PlaceName place) then (summary2, names)
           else (summary2\<lparr>Along := Along summary2 @ [place]\<rparr>, PlaceName place # names))"

fun describe_samples :: "tables \<Rightarrow> 'w geo_env \<Rightarrow> string \<Rightarrow> GeoPoint list \<Rightarrow> string list \<Rightarrow>
    Summary \<times> string list \<Rightarrow> 'w geo_state \<Rightarrow> (geo_error + Summary) \<times> 'w geo_state" where
  "describe_samples U env sc [] keys sn s = (Inr (fst sn), s)"
| "describe_samples U env sc (point # points) keys sn s =
     (let key = CacheKey sc point in
      if List.member keys key then describe_samples U env sc points keys sn s
      else case resolve env key point s of
        (Inl e, s') \<Rightarrow> (Inl e, s')
      | (Inr place, s') \<Rightarrow>
          describe_samples U env sc points (key # keys) (add_place (normalized_place U place) sn) s')"

definition Describe :: "tables \<Rightarrow> 'w geo_env \<Rightarrow> Describer \<Rightarrow> string \<Rightarrow> 'w geo_state \<Rightarrow>
    (geo_error + Summary) \<times> 'w geo_state" where
  "Describe U env d encoded s =
     (if encoded = [] then (Inr no_summary, s)
      else case DecodePolyline encoded of
        Inl e \<Rightarrow> (Inl (BadPolyline e), s)
      | Inr points \<Rightarrow>
          if points = [] then (Inr no_summary, s)
          else describe_samples U env (scope d) (SamplePoints points (sampleCount d)) [] (no_summary, []) s)"

section \<open>What leaves the package\<close>

definition allowed_place :: "Place \<Rightarrow> bool" where
  "allowed_place p \<longleftrightarrow> PlaceName p = [] \<or> IsAllowedKind (PlaceKind p)"

lemma allowedOnly_allowed [simp]: "allowed_place (allowedOnly p)"
  by (simp add: allowedOnly_def allowed_place_def)

lemma allowedOnly_id [simp]: "allowed_place p \<Longrightarrow> allowedOnly p = p"
  by (auto simp: allowedOnly_def allowed_place_def)

text \<open>The summary under construction: allowed kinds, and names that are present and distinct.\<close>

definition fine_summary :: "Summary \<times> string list \<Rightarrow> bool" where
  "fine_summary sn \<longleftrightarrow>
     list_all (\<lambda>p. IsAllowedKind (PlaceKind p) \<and> PlaceName p \<noteq> []) (Along (fst sn)) \<and>
     distinct (map PlaceName (Along (fst sn))) \<and> set (map PlaceName (Along (fst sn))) = set (snd sn)"

lemma NormalizePlaceName_Nil [simp]: "NormalizePlaceName U [] = []"
  by (simp add: NormalizePlaceName_def)

lemma add_place_fine:
  "fine_summary sn \<Longrightarrow> allowed_place p \<Longrightarrow> fine_summary (add_place (normalized_place U p) sn)"
  by (cases sn) (auto simp: fine_summary_def add_place_def allowed_place_def normalized_place_def Let_def)

text \<open>What the cache may have gained.\<close>

definition cache_grown :: "Memory \<Rightarrow> Memory \<Rightarrow> bool" where
  "cache_grown m m' \<longleftrightarrow>
     (\<forall>k p. GetPlace m' k = Some p \<longrightarrow> GetPlace m k = Some p \<or> allowed_place p)"

lemma cache_grown_refl [simp]: "cache_grown m m"
  by (simp add: cache_grown_def)

lemma cache_grown_trans: "cache_grown m m' \<Longrightarrow> cache_grown m' m'' \<Longrightarrow> cache_grown m m''"
  unfolding cache_grown_def by blast

lemma cache_grown_Save [simp]: "allowed_place p \<Longrightarrow> cache_grown m (SavePlace m k p)"
  by (auto simp: cache_grown_def GetPlace_def SavePlace_def update_conv' split: if_splits)

lemma resolve_step:
  "resolve env key point s = (res, s') \<Longrightarrow>
   (\<forall>p. res = Inr p \<longrightarrow> allowed_place p) \<and> cache_grown (Cache s) (Cache s') \<and>
   (Asked s' = Asked s \<or> Asked s' = Asked s @ [point])"
  by (auto simp: resolve_def Let_def faulty_def split: if_splits option.splits prod.splits sum.splits fault.splits)

lemma describe_samples_steps:
  "describe_samples U env sc points keys sn s = (res, s') \<Longrightarrow> fine_summary sn \<Longrightarrow>
   (\<forall>sum. res = Inr sum \<longrightarrow> (\<exists>names. fine_summary (sum, names))) \<and> cache_grown (Cache s) (Cache s') \<and>
   (\<exists>new. Asked s' = Asked s @ new \<and> subseq new points)"
proof (induction U env sc points keys sn s rule: describe_samples.induct)
  case (1 U env sc keys sn s)
  then show ?case by (cases sn) auto
next
  case (2 U env sc point points keys sn s)
  show ?case
  proof (cases "List.member keys (CacheKey sc point)")
    case True
    with "2.IH"(1) [OF refl True] "2.prems" show ?thesis
      by (auto intro: list_emb_Cons)
  next
    case False
    obtain r s1 where r: "resolve env (CacheKey sc point) point s = (r, s1)" by fastforce
    note step = resolve_step [OF r]
    show ?thesis
    proof (cases r)
      case (Inl e)
      with r False "2.prems" have "res = Inl e" "s' = s1" by auto
      moreover from step obtain new where "Asked s1 = Asked s @ new" "subseq new (point # points)"
        by (metis append.right_neutral list_emb_Nil subseq_Cons2)
      ultimately show ?thesis using step by auto
    next
      case (Inr place)
      let ?sn = "add_place (normalized_place U place) sn"
      have rec: "describe_samples U env sc points (CacheKey sc point # keys) ?sn s1 = (res, s')"
        using r Inr False "2.prems"(1) by simp
      have "fine_summary ?sn" using step Inr "2.prems"(2) by (simp add: add_place_fine)
      with "2.IH"(2) [OF refl False r [symmetric] Inr] rec
      obtain new where "Asked s' = Asked s1 @ new" "subseq new points"
        and rest: "\<forall>sum. res = Inr sum \<longrightarrow> (\<exists>names. fine_summary (sum, names))" "cache_grown (Cache s1) (Cache s')"
        by auto
      then show ?thesis
        using step cache_grown_trans [of "Cache s" "Cache s1" "Cache s'"]
        by (auto intro: exI [of _ new] exI [of _ "point # new"] list_emb_Cons)
    qed
  qed
qed

lemma Names_Along:
  "list_all (\<lambda>p. PlaceName p \<noteq> []) (Along s) \<Longrightarrow> distinct (map PlaceName (Along s)) \<Longrightarrow> Names s = map PlaceName (Along s)"
proof -
  have "list_all (\<lambda>p. PlaceName p \<noteq> []) ps \<Longrightarrow> distinct (map PlaceName ps @ acc) \<Longrightarrow>
    fold (\<lambda>p names. if PlaceName p = [] \<or> List.member names (PlaceName p) then names else PlaceName p # names) ps acc
      = rev (map PlaceName ps) @ acc" for ps acc
    by (induction ps arbitrary: acc) auto
  from this [of "Along s" "[]"] show "list_all (\<lambda>p. PlaceName p \<noteq> []) (Along s) \<Longrightarrow>
      distinct (map PlaceName (Along s)) \<Longrightarrow> Names s = map PlaceName (Along s)"
    by (simp add: Names_def)
qed

text \<open>C36: For a describer the constructor accepts, whatever the geocoder answers and the cache
  holds: one activity costs at most seven questions, none of them about a place in the cell of
  the track's first or last point; every name in the summary is of an allow-listed kind, present
  and listed once, and they are the names handed on; and the cache gains no name that is not of
  an allow-listed kind.\<close>

theorem describe_private:
  assumes "NewDescriber True True want sc = Some d" "Describe U env d encoded s = (res, s')"
  shows "(\<exists>new. Asked s' = Asked s @ new \<and> length new \<le> 7 \<and>
       (\<forall>points. DecodePolyline encoded = Inr points \<longrightarrow>
          list_all (\<lambda>p. cellOf p \<noteq> cellOf (hd points) \<and> cellOf p \<noteq> cellOf (last points)) new)) \<and>
     (\<forall>sum. res = Inr sum \<longrightarrow>
       list_all (\<lambda>p. IsAllowedKind (PlaceKind p) \<and> PlaceName p \<noteq> []) (Along sum) \<and>
       distinct (map PlaceName (Along sum)) \<and> Names sum = map PlaceName (Along sum)) \<and>
     cache_grown (Cache s) (Cache s')"
proof -
  have d: "sampleCount d = want" "0 \<le> want" "want \<le> 6"
    using assms(1) by (auto simp: NewDescriber_def MaxSampleCount_def split: if_splits)
  consider (idle) "Asked s' = Asked s" "Cache s' = Cache s" "\<forall>sum. res = Inr sum \<longrightarrow> sum = no_summary"
    | (run) points where "DecodePolyline encoded = Inr points"
        "describe_samples U env (scope d) (SamplePoints points want) [] (no_summary, []) s = (res, s')"
    using assms(2) d by (auto simp: Describe_def split: if_splits sum.splits)
  then show ?thesis
  proof cases
    case idle
    then show ?thesis by (auto simp: no_summary_def Names_def)
  next
    case run
    have "fine_summary (no_summary, [])" by (simp add: fine_summary_def no_summary_def)
    from describe_samples_steps [OF run(2) this] obtain new
      where new: "Asked s' = Asked s @ new" "subseq new (SamplePoints points want)"
        and fine: "\<forall>sum. res = Inr sum \<longrightarrow> (\<exists>names. fine_summary (sum, names))"
        and cache: "cache_grown (Cache s) (Cache s')" by auto
    note samples = samples_avoid_endpoints [of points want]
    have "length new \<le> 7"
      using list_emb_length [OF new(2)] samples d by (auto simp: DefaultSampleCount_def split: if_splits)
    moreover have "list_all (\<lambda>p. cellOf p \<noteq> cellOf (hd points) \<and> cellOf p \<noteq> cellOf (last points)) new"
      using samples list_emb_set [OF new(2)] by (fastforce simp: list_all_iff)
    moreover have "list_all (\<lambda>p. IsAllowedKind (PlaceKind p) \<and> PlaceName p \<noteq> []) (Along sum) \<and>
       distinct (map PlaceName (Along sum)) \<and> Names sum = map PlaceName (Along sum)" if "res = Inr sum" for sum
      using fine that Names_Along [of sum] by (auto simp: fine_summary_def list_all_iff)
    ultimately show ?thesis using new(1) cache run(1) by auto
  qed
qed

lemma describe_private_witness:
  "\<exists>new. Asked (snd (Describe latin1
       \<lparr>reverse = (\<lambda>_ w. (Inr \<lparr>PlaceName = ''Praxis'', PlaceKind = ''doctors'', Region = [], Country = ''DE''\<rparr>, w)),
        cache_read_fails = (\<lambda>_. False), cache_write = (\<lambda>_. NoFault)\<rparr>
       \<lparr>sampleCount = 6, scope = ''z16_hvst''\<rparr> ''_seK?_pR?'' \<lparr>GWorld = (), Cache = NewMemory, Asked = []\<rparr>)) = new \<and>
     length new \<le> 7"
proof -
  let ?env = "\<lparr>reverse = (\<lambda>_ w :: unit. (Inr \<lparr>PlaceName = ''Praxis'', PlaceKind = ''doctors'', Region = [],
      Country = ''DE''\<rparr>, w)), cache_read_fails = (\<lambda>_. False), cache_write = (\<lambda>_. NoFault)\<rparr>"
  let ?s = "\<lparr>GWorld = (), Cache = NewMemory, Asked = []\<rparr>"
  obtain res s' where run: "Describe latin1 ?env \<lparr>sampleCount = 6, scope = ''z16_hvst''\<rparr> ''_seK?_pR?'' ?s = (res, s')"
    by fastforce
  have "NewDescriber True True 6 ''z16_hvst'' = Some \<lparr>sampleCount = 6, scope = ''z16_hvst''\<rparr>"
    by (simp add: NewDescriber_def MaxSampleCount_def)
  from describe_private [OF this run] show ?thesis unfolding run snd_conv by auto
qed

section \<open>The Nominatim client\<close>

definition MinRequestInterval :: duration where "MinRequestInterval = second"

text \<open>The rate limiter; the clock and the sleep it is given are functions of a world.\<close>

record limiter =
  interval :: duration
  last_request :: instant

record 'w ticker =
  tick_now :: "'w \<Rightarrow> instant \<times> 'w"
  tick_sleep :: "duration \<Rightarrow> 'w \<Rightarrow> bool \<times> 'w"

definition limiter_wait :: "'w ticker \<Rightarrow> limiter \<Rightarrow> 'w \<Rightarrow> bool \<times> limiter \<times> 'w" where
  "limiter_wait c l w =
     (let (now, w1) = tick_now c w; elapsed = time_sub now (last_request l) in
      if last_request l \<noteq> time_zero \<and> elapsed < interval l
      then (case tick_sleep c (interval l - elapsed) w1 of
              (False, w2) \<Rightarrow> (False, l, w2)
            | (True, w2) \<Rightarrow>
                (let (now', w3) = tick_now c w2 in (True, l\<lparr>last_request := now'\<rparr>, w3)))
      else (True, l\<lparr>last_request := now\<rparr>, w1))"

record Nominatim =
  nominatim_base :: string
  zoom :: int
  placeFields :: "addressField list"
  nominatim_scope :: string
  nominatim_limiter :: limiter

definition DefaultNominatimBaseURL :: string where
  "DefaultNominatimBaseURL = ''https://nominatim.openstreetmap.org''"

text \<open>\<open>digest\<close> is the hexadecimal form of the first four bytes of SHA-256.\<close>

definition cacheScope :: "(string \<Rightarrow> string) \<Rightarrow> int \<Rightarrow> string \<Rightarrow> string \<Rightarrow> string" where
  "cacheScope digest z token base =
     (let sc = ''z'' @ show_int z @ ''_'' @ token in
      if base = DefaultNominatimBaseURL then sc else sc @ ''_h'' @ digest base)"

datatype nominatim_error = ErrNoUserAgent | ZoomOutside int | BadOrder order_error

definition NewNominatim :: "(string \<Rightarrow> string) \<Rightarrow> string \<Rightarrow> string \<Rightarrow> duration \<Rightarrow> int \<Rightarrow> string list \<Rightarrow>
    nominatim_error + Nominatim" where
  "NewNominatim digest user_agent base min_interval z order =
     (if trim_space user_agent = [] then Inl ErrNoUserAgent
      else
        let iv = (if min_interval < MinRequestInterval then MinRequestInterval else min_interval);
            z1 = (if z = 0 then 16 else z)
        in if z1 < 3 \<or> z1 > 18 then Inl (ZoomOutside z1)
           else case orderFields order of
             Inl e \<Rightarrow> Inl (BadOrder e)
           | Inr (order_fields, token) \<Rightarrow>
               (let trimmed = (if base \<noteq> [] \<and> last base = CHR ''/'' then butlast base else base);
                    url = (if trimmed = [] then DefaultNominatimBaseURL else trimmed)
                in Inr \<lparr>nominatim_base = url, zoom = z1, placeFields = order_fields,
                        nominatim_scope = cacheScope digest z1 token url,
                        nominatim_limiter = \<lparr>interval = iv, last_request = time_zero\<rparr>\<rparr>))"

text \<open>
  \<open>Reverse\<close>: \<open>query\<close> is the HTTP transport together with the JSON decoder of the bounded body,
  for one coordinate at a zoom: a transport error, a status, or a status and the payload.
\<close>

definition Reverse :: "'w ticker \<Rightarrow> (string \<Rightarrow> int \<Rightarrow> GeoPoint \<Rightarrow> 'w \<Rightarrow> (int \<times> reverseResponse option) option \<times> 'w) \<Rightarrow>
    Nominatim \<Rightarrow> GeoPoint \<Rightarrow> 'w \<Rightarrow> (geo_error + Place) \<times> Nominatim \<times> 'w" where
  "Reverse c query n point w =
     (case limiter_wait c (nominatim_limiter n) w of
        (False, l, w1) \<Rightarrow> (Inl LimiterStopped, n\<lparr>nominatim_limiter := l\<rparr>, w1)
      | (True, l, w1) \<Rightarrow>
          (let n1 = n\<lparr>nominatim_limiter := l\<rparr>; (answer, w2) = query (nominatim_base n) (zoom n) point w1 in
           case answer of
             None \<Rightarrow> (Inl ReverseTransport, n1, w2)
           | Some (status, payload) \<Rightarrow>
               if status = 429 then (Inl ErrThrottled, n1, w2)
               else if status = 403 then (Inl ErrBlocked, n1, w2)
               else if status \<noteq> 200 then (Inl (ReverseStatus status), n1, w2)
               else (case payload of
                       None \<Rightarrow> (Inl ReverseDecode, n1, w2)
                     | Some p \<Rightarrow>
                         if reported (RError p)
                         then (Inr \<lparr>PlaceName = [], PlaceKind = [], Region = [], Country = []\<rparr>, n1, w2)
                         else (Inr (placeFrom (placeFields n) p), n1, w2))))"

definition CacheScope :: "Nominatim \<Rightarrow> string" where
  "CacheScope n = nominatim_scope n"

lemma find_address: "find p xs = Some x \<Longrightarrow> x \<in> set xs \<and> p x"
  by (auto simp: find_Some_iff)

lemma naturalFeatures_kinds: "map_of naturalFeatures k = Some kind \<Longrightarrow> List.member allowedKinds kind"
  by (drule map_of_SomeD) (force simp: allowedKinds_def)

lemma placeFrom_allowed:
  assumes "set place_fields \<subseteq> set addressFields"
  shows "allowed_place (placeFrom place_fields payload)"
proof -
  have "IsAllowedKind (field_kind f)" if "f \<in> set addressFields" for f
    using that by (simp add: IsAllowedKind_def allowedKinds_def)
  with assms show ?thesis
    by (auto simp: placeFrom_def Let_def allowed_place_def IsAllowedKind_def
        split: option.splits dest!: find_address naturalFeatures_kinds)
qed

lemma order_faults_None:
  "order_faults seen order = ([], []) \<Longrightarrow> list_all known_key order \<and> distinct order \<and> set order \<inter> set seen = {}"
  by (induction seen order rule: order_faults.induct) (auto simp: Let_def split: if_splits prod.splits)

definition chosen_field :: "string \<Rightarrow> addressField" where
  "chosen_field key = hd (filter (\<lambda>f. field_key f = key) addressFields)"

lemma chosen_field: "known_key key \<Longrightarrow> chosen_field key \<in> set addressFields \<and> field_key (chosen_field key) = key"
proof -
  assume "known_key key"
  then have "filter (\<lambda>f. field_key f = key) addressFields \<noteq> []"
    by (auto simp: known_key_def filter_empty_conv list_ex_iff)
  then have "hd (filter (\<lambda>f. field_key f = key) addressFields) \<in> set (filter (\<lambda>f. field_key f = key) addressFields)"
    by (rule hd_in_set)
  then show ?thesis by (simp add: chosen_field_def)
qed

lemma field_keys_distinct: "inj_on field_key (set addressFields)" "distinct addressFields"
  by (simp_all add: addressFields_def)

lemma field_tokens_distinct: "inj_on field_token (set addressFields)"
  by (simp add: addressFields_def)

lemma orderFields_Inr:
  assumes "orderFields order0 = Inr (order_fields, token)"
  obtains order where "order = (if order0 = [] then defaultPlaceFields else order0)"
    "list_all known_key order" "distinct order" "token = map (field_token \<circ> chosen_field) order"
    "order_fields = map chosen_field order @ filter (\<lambda>f. \<not> List.member order (field_key f)) addressFields"
proof -
  let ?order = "if order0 = [] then defaultPlaceFields else order0"
  from assms have v: "ValidatePlaceFields ?order = None"
    and eq: "token = map (field_token \<circ> chosen_field) ?order"
      "order_fields = map chosen_field ?order @ filter (\<lambda>f. \<not> List.member ?order (field_key f)) addressFields"
    by (auto simp: orderFields_def Let_def chosen_field_def split: option.splits)
  from v have "order_faults [] ?order = ([], [])"
    by (auto simp: ValidatePlaceFields_def split: prod.splits list.splits)
  from order_faults_None [OF this] have k: "list_all known_key ?order" "distinct ?order" by auto
  from that [OF refl k eq] show ?thesis .
qed

lemma ordered_fields:
  assumes "list_all known_key order" "distinct order"
  defines "all \<equiv> map chosen_field order @ filter (\<lambda>f. \<not> List.member order (field_key f)) addressFields"
  shows "distinct all \<and> set all = set addressFields"
proof -
  have inj: "inj_on chosen_field (set order)"
    using assms(1) by (auto simp: inj_on_def list_all_iff) (metis chosen_field)
  have chosen: "f \<in> set (map chosen_field order) \<longleftrightarrow> f \<in> set addressFields \<and> field_key f \<in> set order" for f
    using assms(1) chosen_field field_keys_distinct(1)
    by (auto simp: list_all_iff image_iff) (metis inj_onD)
  have "distinct (map chosen_field order)" using inj assms(2) by (simp add: distinct_map)
  with chosen field_keys_distinct(2) show ?thesis unfolding all_def by (auto simp del: set_map)
qed

text \<open>Every accepted resolution order ranks exactly the allow-listed address keys, each once, so
  whatever Nominatim reports, the place read off it is of an allow-listed kind or has no name;
  and two configurations with the same token rank them the same, so a cached answer is never
  read back under another order.\<close>

theorem nominatim_order:
  assumes "orderFields order = Inr (order_fields, token)"
  shows "distinct order_fields \<and> set order_fields = set addressFields \<and> allowed_place (placeFrom order_fields payload) \<and>
     (\<forall>order' order_fields'. orderFields order' = Inr (order_fields', token) \<longrightarrow> order_fields' = order_fields)"
proof -
  from assms obtain ord where ord: "list_all known_key ord" "distinct ord"
    "token = map (field_token \<circ> chosen_field) ord"
    "order_fields = map chosen_field ord @ filter (\<lambda>f. \<not> List.member ord (field_key f)) addressFields"
    by (rule orderFields_Inr)
  have all: "distinct order_fields \<and> set order_fields = set addressFields"
    unfolding ord(4) by (rule ordered_fields) fact+
  then have place: "allowed_place (placeFrom order_fields payload)" by (simp add: placeFrom_allowed)
  have "order_fields' = order_fields" if "orderFields order' = Inr (order_fields', token)" for order' order_fields'
  proof -
    from that obtain ord' where ord': "list_all known_key ord'"
      "token = map (field_token \<circ> chosen_field) ord'"
      "order_fields' = map chosen_field ord' @ filter (\<lambda>f. \<not> List.member ord' (field_key f)) addressFields"
      by (rule orderFields_Inr)
    have "inj_on (field_token \<circ> chosen_field) {k. known_key k}"
      by (auto simp: inj_on_def) (metis chosen_field field_tokens_distinct inj_onD)
    moreover have "set ord \<union> set ord' \<subseteq> {k. known_key k}" using ord(1) ord'(1) by (auto simp: list_all_iff)
    moreover have "map (field_token \<circ> chosen_field) ord' = map (field_token \<circ> chosen_field) ord"
      using ord(3) ord'(2) by simp
    ultimately have "ord' = ord" by (metis inj_on_map_eq_map inj_on_subset sup_commute)
    with ord(4) ord'(3) show ?thesis by simp
  qed
  with all place show ?thesis by blast
qed

lemma nominatim_order_witness:
  "distinct (map chosen_field [''town'', ''city''] @ filter (\<lambda>f. \<not> List.member [''town'', ''city''] (field_key f)) addressFields) \<and>
   (\<exists>order_fields. orderFields [''town'', ''city''] = Inr (order_fields, ''tc''))"
proof -
  have o: "orderFields [''town'', ''city''] =
      Inr (map chosen_field [''town'', ''city''] @ filter (\<lambda>f. \<not> List.member [''town'', ''city''] (field_key f)) addressFields,
           ''tc'')"
    by (simp add: orderFields_def ValidatePlaceFields_def known_key_def chosen_field_def addressFields_def)
  from nominatim_order [OF o] o show ?thesis by blast
qed

text \<open>A clock that never runs backwards, and a sleep that lasts at least as long as asked.\<close>

definition steady :: "'w ticker \<Rightarrow> ('w \<Rightarrow> instant) \<Rightarrow> bool" where
  "steady c time \<longleftrightarrow>
     (\<forall>w. time_zero < time w \<and> fst (tick_now c w) = time w \<and> time w \<le> time (snd (tick_now c w))) \<and>
     (\<forall>d w. time w \<le> time (snd (tick_sleep c d w)) \<and>
        (fst (tick_sleep c d w) \<longrightarrow> time w + d \<le> time (snd (tick_sleep c d w))))"

text \<open>Rounds of waiting, with any amount of other work between them; the instants granted, newest first.\<close>

primrec granted :: "'w ticker \<Rightarrow> ('w \<Rightarrow> 'w) list \<Rightarrow> limiter \<Rightarrow> 'w \<Rightarrow> instant list \<Rightarrow> instant list" where
  "granted c [] l w acc = acc"
| "granted c (work # works) l w acc =
     (case limiter_wait c l (work w) of
        (False, l', w') \<Rightarrow> granted c works l' w' acc
      | (True, l', w') \<Rightarrow> granted c works l' w' (last_request l' # acc))"

fun spaced_by :: "duration \<Rightarrow> instant list \<Rightarrow> bool" where
  "spaced_by d (t # u # ts) \<longleftrightarrow> u + d \<le> t \<and> spaced_by d (u # ts)"
| "spaced_by d ts \<longleftrightarrow> True"

lemma limiter_wait_step:
  assumes "steady c time" "limiter_wait c l w = (ok, l', w')" "last_request l \<le> time w"
    and "0 \<le> interval l" "interval l < 2 ^ 63"
  shows "interval l' = interval l \<and> last_request l' \<le> time w' \<and>
     (if ok then time_zero < last_request l' \<and>
        (last_request l \<noteq> time_zero \<longrightarrow> last_request l + interval l \<le> last_request l')
      else l' = l)"
proof -
  obtain now w1 where now: "tick_now c w = (now, w1)" by fastforce
  with assms(1) have t: "now = time w" "time w \<le> time w1" "time_zero < time w"
    by (auto simp: steady_def dest!: spec [of _ w])
  show ?thesis
  proof (cases "last_request l \<noteq> time_zero \<and> time_sub now (last_request l) < interval l")
    case False
    with assms now t show ?thesis
      by (auto simp: limiter_wait_def Let_def time_sub_def)
  next
    case True
    let ?d = "interval l - time_sub now (last_request l)"
    obtain woke w2 where sleep: "tick_sleep c ?d w1 = (woke, w2)" by fastforce
    obtain now' w3 where now': "tick_now c w2 = (now', w3)" by fastforce
    from assms(1) sleep have s: "time w1 \<le> time w2" "woke \<Longrightarrow> time w1 + ?d \<le> time w2"
      by (auto simp: steady_def dest!: spec [of _ "?d"] spec [of _ w1])
    from assms(1) now' have n: "now' = time w2" "time w2 \<le> time w3" "time_zero < time w2"
      by (auto simp: steady_def dest!: spec [of _ w2])
    from t assms(3,5) True have "time_sub now (last_request l) = now - last_request l"
      by (auto simp: time_sub_def min_def max_def split: if_splits)
    with True assms(2,3) now sleep now' s n t show ?thesis
      by (cases woke) (auto simp: limiter_wait_def Let_def)
  qed
qed

text \<open>The limiter spaces the requests it lets through: however many rounds of waiting, with
  whatever work between them and whichever sleeps are cut short by the context, any two granted
  requests lie at least the configured interval apart, and the constructor never configures
  less than a second.\<close>

theorem limiter_spaces_requests:
  assumes "steady c time" "\<And>f w. f \<in> set works \<Longrightarrow> time w \<le> time (f w)"
    and "NewNominatim digest agent base iv z order = Inr n" "iv < 2 ^ 63"
  shows "spaced_by (interval (nominatim_limiter n)) (granted c works (nominatim_limiter n) w []) \<and>
     second \<le> interval (nominatim_limiter n)"
proof -
  let ?l = "nominatim_limiter n"
  have l: "second \<le> interval ?l" "interval ?l < 2 ^ 63" "last_request ?l = time_zero"
    using assms(3,4) by (auto simp: NewNominatim_def Let_def MinRequestInterval_def second_def
        split: if_splits sum.splits)
  have "spaced_by (interval l) (granted c works l w acc)"
    if "\<And>f w. f \<in> set works \<Longrightarrow> time w \<le> time (f w)"
      and "spaced_by (interval l) acc" "last_request l \<le> time w" "0 \<le> interval l" "interval l < 2 ^ 63"
      and "(acc = [] \<and> last_request l = time_zero) \<or>
        (\<exists>ts. acc = last_request l # ts \<and> time_zero < last_request l)" for works l w acc
    using that
  proof (induction works arbitrary: l w acc)
    case (Cons f works)
    obtain ok l' w' where run: "limiter_wait c l (f w) = (ok, l', w')"
      by (metis prod_cases3)
    have "last_request l \<le> time (f w)" using Cons.prems(1) [of f w] Cons.prems(3) by simp
    note step = limiter_wait_step [OF assms(1) run this Cons.prems(4,5)]
    show ?case
    proof (cases ok)
      case True
      have "spaced_by (interval l) (last_request l' # acc)"
        using step True Cons.prems by (cases acc) (auto simp: time_zero_def)
      with Cons.IH [of l' "last_request l' # acc" w'] step True Cons.prems show ?thesis
        by (simp add: run)
    next
      case False
      with step have "l' = l" "last_request l \<le> time w'" by auto
      with Cons.IH [of l acc w'] Cons.prems False show ?thesis by (simp add: run)
    qed
  qed simp
  moreover have "last_request ?l \<le> time w"
    using assms(1) l(3) by (auto simp: steady_def dest!: spec [of _ w])
  ultimately show ?thesis using l assms(2) by (simp add: second_def)
qed

definition counting_clock :: "nat ticker" where
  "counting_clock = \<lparr>tick_now = (\<lambda>w. (int w + 1, w)), tick_sleep = (\<lambda>d w. (True, w + nat d))\<rparr>"

lemma limiter_spaces_requests_witness:
  "\<exists>n. NewNominatim id ''titelheld'' [] 0 0 [] = Inr n \<and>
     spaced_by (interval (nominatim_limiter n))
       (granted counting_clock [\<lambda>w. w, \<lambda>w. w + 7, \<lambda>w. w] (nominatim_limiter n) 0 [])"
proof -
  obtain order_fields token where o: "orderFields [] = Inr (order_fields, token)"
    by (simp add: orderFields_def ValidatePlaceFields_def known_key_def addressFields_def defaultPlaceFields_def)
  have "trim_space ''titelheld'' \<noteq> []" by (simp add: trim_space_def is_space_def)
  with o obtain n where n: "NewNominatim id ''titelheld'' [] 0 0 [] = Inr n"
    by (auto simp: NewNominatim_def Let_def)
  have st: "steady counting_clock (\<lambda>w. int w + 1)"
    by (simp add: steady_def counting_clock_def time_zero_def)
  have "spaced_by (interval (nominatim_limiter n))
       (granted counting_clock [\<lambda>w. w, \<lambda>w. w + 7, \<lambda>w. w] (nominatim_limiter n) 0 [])"
    by (rule conjunct1 [OF limiter_spaces_requests [where time = "\<lambda>w. int w + 1", OF st _ n]]) auto
  with n show ?thesis by blast
qed

section \<open>Keys and cells\<close>

lemma show_nat_value: "fold (\<lambda>c n. 10 * n + (byte c - 48)) (show_nat n) 0 = n"
proof (induction n rule: show_nat.induct)
  case (1 n)
  then show ?case
    by (subst show_nat.simps) (simp add: byte_char_of)
qed

lemma show_nat_inject [simp]: "show_nat m = show_nat n \<longleftrightarrow> m = n"
  by (metis show_nat_value)

lemma show_nat_free: "\<not> ascii_digit (byte c) \<Longrightarrow> c \<notin> set (show_nat n)"
  using show_nat_digits by blast

lemma takeWhile_append_free:
  assumes "c \<notin> set xs" "c \<notin> set ys"
  shows "xs @ c # us = ys @ c # vs \<longleftrightarrow> xs = ys \<and> us = vs"
proof
  assume eq: "xs @ c # us = ys @ c # vs"
  have "takeWhile (\<lambda>x. x \<noteq> c) (zs @ c # ws) = zs" if "c \<notin> set zs" for zs ws
    using that by (induction zs) auto
  with assms eq have "xs = ys" by metis
  with eq show "xs = ys \<and> us = vs" by simp
qed simp

definition thousandths :: "int \<Rightarrow> string" where
  "thousandths n = (let m = nat \<bar>n\<bar> in
     (if n < 0 then ''-'' else []) @ show_nat (m div 1000) @ ''.'' @
     show_nat (m mod 1000 div 100) @ show_nat (m mod 100 div 10) @ show_nat (m mod 10))"

lemma show_fixed3_thousandths: "show_fixed3 (of_int n / 1000) = thousandths n"
proof -
  have int: "round_even (of_int k) = k" for k by (simp add: round_even_def)
  have "round_even (1000 * \<bar>real_of_int n / 1000\<bar>) = round_even (of_int \<bar>n\<bar>)"
    by (rule arg_cong [of _ _ round_even]) simp
  then have "round_even (1000 * \<bar>real_of_int n / 1000\<bar>) = \<bar>n\<bar>" by (simp only: int)
  then show ?thesis by (simp add: show_fixed3_def thousandths_def Let_def)
qed

lemma round_cell_thousandths: "\<exists>n. round_cell v = of_int n / 1000"
proof -
  have "\<exists>n. math_round x = of_int n" for x
    by (cases x "0 :: real" rule: linorder_cases)
       (auto simp: math_round_def intro: exI [of _ "- k" for k] exI [of _ 0])
  then obtain n where "math_round (v * 10 ^ cachePrecision) = of_int n" by blast
  then have "round_cell v \<in> {of_int 0 / 1000, of_int 180000 / 1000, of_int n / 1000}"
    by (auto simp: round_cell_def Let_def cachePrecision_def)
  then show ?thesis by blast
qed

lemma show_nat_digit: "d < 10 \<Longrightarrow> show_nat d = [char_of (48 + d)]"
  by (simp add: show_nat.simps)

lemma digits_inject: "d < 10 \<Longrightarrow> e < 10 \<Longrightarrow> show_nat d @ us = show_nat e @ vs \<longleftrightarrow> d = e \<and> us = vs"
  by (metis append_eq_append_conv length_Cons list.size(3) show_nat_digit show_nat_inject)

lemma thousandths_inject: "thousandths m = thousandths n \<longleftrightarrow> m = n"
proof
  assume eq: "thousandths m = thousandths n"
  have ne: "show_nat k \<noteq> []" for k by (subst show_nat.simps) simp
  have "hd (show_nat k @ xs) \<in> set (show_nat k)" for k xs by (simp add: ne)
  moreover have "CHR ''-'' \<notin> set (show_nat k)" for k by (rule show_nat_free) (simp add: ascii_digit_def)
  ultimately have "hd (thousandths k) = CHR ''-'' \<longleftrightarrow> k < 0" for k
    by (simp add: thousandths_def Let_def) metis
  with eq have sign: "m < 0 \<longleftrightarrow> n < 0" by metis
  have free: "CHR ''.'' \<notin> set (show_nat k)" for k by (rule show_nat_free) (simp add: ascii_digit_def)
  let ?m = "nat \<bar>m\<bar>" and ?n = "nat \<bar>n\<bar>"
  have "show_nat (?m div 1000) @ CHR ''.'' # show_nat (?m mod 1000 div 100) @ show_nat (?m mod 100 div 10) @ show_nat (?m mod 10)
      = show_nat (?n div 1000) @ CHR ''.'' # show_nat (?n mod 1000 div 100) @ show_nat (?n mod 100 div 10) @ show_nat (?n mod 10)"
    using eq sign by (simp add: thousandths_def Let_def)
  then have "?m div 1000 = ?n div 1000 \<and> ?m mod 1000 div 100 = ?n mod 1000 div 100 \<and>
      ?m mod 100 div 10 = ?n mod 100 div 10 \<and> ?m mod 10 = ?n mod 10"
    by (simp add: takeWhile_append_free free digits_inject)
  moreover have "x = 1000 * (x div 1000) + (100 * (x mod 1000 div 100) + (10 * (x mod 100 div 10) + x mod 10))" for x :: nat
  proof -
    have "x mod 1000 mod 100 = x mod 100" "x mod 100 mod 10 = x mod 10" by (simp_all add: mod_mod_cancel)
    then show ?thesis
      using mult_div_mod_eq [of 1000 x] mult_div_mod_eq [of 100 "x mod 1000"] mult_div_mod_eq [of 10 "x mod 100"]
      by linarith
  qed
  ultimately have "?m = ?n" by metis
  with sign show "m = n" by linarith
qed simp

text \<open>Two points have the same cache key under one scope exactly when they fall in the same
  cell, so the cache and the privacy rule agree on what one place is.\<close>

theorem cache_key_cell: "CacheKey sc p = CacheKey sc q \<longleftrightarrow> cellOf p = cellOf q"
proof -
  obtain a b c d where cells: "cellOf p = (of_int a / 1000, of_int b / 1000)" "cellOf q = (of_int c / 1000, of_int d / 1000)"
    using round_cell_thousandths unfolding cellOf_def by metis
  have free: "CHR '','' \<notin> set (thousandths k)" for k
    by (auto simp: thousandths_def Let_def show_nat_free ascii_digit_def)
  have "CacheKey sc p = CacheKey sc q \<longleftrightarrow> thousandths a @ CHR '','' # thousandths b = thousandths c @ CHR '','' # thousandths d"
    by (simp add: CacheKey_def cells show_fixed3_thousandths)
  also have "\<dots> \<longleftrightarrow> a = c \<and> b = d"
    by (simp add: takeWhile_append_free free thousandths_inject)
  finally show ?thesis by (simp add: cells)
qed

end
