(* ===== verification/Settings.thy ===== *)
theory Settings
  imports Strava Geo
begin

text \<open>
  \<^verbatim>\<open>internal/config\<close>: the settings of the service, read from the environment, which is a function from
  names to values (the empty string where a variable is unset). Every loader goes through all it reads
  and collects what is wrong; any error refuses the start. \<^verbatim>\<open>url.Parse\<close> is a parameter; a duration's
  fraction is computed exactly.
\<close>

section \<open>Environment variables\<close>

definition EnvStravaClientID :: string where "EnvStravaClientID = ''STRAVA_CLIENT_ID''"
definition EnvStravaClientSecret :: string where "EnvStravaClientSecret = ''STRAVA_CLIENT_SECRET''"
definition EnvStravaVerifyToken :: string where "EnvStravaVerifyToken = ''STRAVA_VERIFY_TOKEN''"
definition EnvStravaAthleteID :: string where "EnvStravaAthleteID = ''STRAVA_ATHLETE_ID''"
definition EnvWebhookPathSecret :: string where "EnvWebhookPathSecret = ''WEBHOOK_PATH_SECRET''"
definition EnvBaseURL :: string where "EnvBaseURL = ''BASE_URL''"
definition EnvProcessDelay :: string where "EnvProcessDelay = ''PROCESS_DELAY''"
definition EnvProvisionalSkipWindow :: string where "EnvProvisionalSkipWindow = ''PROVISIONAL_SKIP_WINDOW''"
definition EnvDryRun :: string where "EnvDryRun = ''DRY_RUN''"
definition EnvPort :: string where "EnvPort = ''PORT''"
definition EnvFirestoreProject :: string where "EnvFirestoreProject = ''FIRESTORE_PROJECT''"
definition EnvFirestoreDatabase :: string where "EnvFirestoreDatabase = ''FIRESTORE_DATABASE''"
definition EnvNominatimUserAgent :: string where "EnvNominatimUserAgent = ''NOMINATIM_USER_AGENT''"
definition EnvSweepPath :: string where "EnvSweepPath = ''SWEEP_PATH''"
definition EnvSweepAudience :: string where "EnvSweepAudience = ''SWEEP_AUDIENCE''"
definition EnvSweepServiceAccount :: string where "EnvSweepServiceAccount = ''SWEEP_SERVICE_ACCOUNT''"
definition EnvMaxInstances :: string where "EnvMaxInstances = ''MAX_INSTANCES''"
definition EnvLogPrompt :: string where "EnvLogPrompt = ''LOG_PROMPT''"
definition EnvLLMProvider :: string where "EnvLLMProvider = ''LLM_PROVIDER''"
definition EnvLLMModel :: string where "EnvLLMModel = ''LLM_MODEL''"
definition EnvLLMAPIKey :: string where "EnvLLMAPIKey = ''LLM_API_KEY''"
definition EnvLLMBaseURL :: string where "EnvLLMBaseURL = ''LLM_BASE_URL''"
definition EnvVertexProject :: string where "EnvVertexProject = ''VERTEX_PROJECT''"
definition EnvVertexLocation :: string where "EnvVertexLocation = ''VERTEX_LOCATION''"
definition EnvBannedWords :: string where "EnvBannedWords = ''BANNED_WORDS''"
definition EnvMachineTitles :: string where "EnvMachineTitles = ''MACHINE_TITLE_PATTERNS''"
definition EnvAnthropicFederationRuleID :: string where "EnvAnthropicFederationRuleID = ''ANTHROPIC_FEDERATION_RULE_ID''"
definition EnvAnthropicOrganizationID :: string where "EnvAnthropicOrganizationID = ''ANTHROPIC_ORGANIZATION_ID''"
definition EnvAnthropicServiceAccountID :: string where "EnvAnthropicServiceAccountID = ''ANTHROPIC_SERVICE_ACCOUNT_ID''"
definition EnvAnthropicWorkspaceID :: string where "EnvAnthropicWorkspaceID = ''ANTHROPIC_WORKSPACE_ID''"
definition EnvAnthropicWIFAudience :: string where "EnvAnthropicWIFAudience = ''ANTHROPIC_WIF_AUDIENCE''"
definition EnvGeoSampleCount :: string where "EnvGeoSampleCount = ''GEO_SAMPLE_COUNT''"
definition EnvNominatimZoom :: string where "EnvNominatimZoom = ''NOMINATIM_ZOOM''"
definition EnvNominatimPlaceFields :: string where "EnvNominatimPlaceFields = ''NOMINATIM_PLACE_FIELDS''"

lemmas env_names =
  EnvStravaClientID_def EnvStravaClientSecret_def EnvStravaVerifyToken_def EnvStravaAthleteID_def
  EnvWebhookPathSecret_def EnvBaseURL_def EnvProcessDelay_def EnvProvisionalSkipWindow_def EnvDryRun_def
  EnvPort_def EnvFirestoreProject_def EnvFirestoreDatabase_def EnvNominatimUserAgent_def EnvSweepPath_def
  EnvSweepAudience_def EnvSweepServiceAccount_def EnvMaxInstances_def EnvLogPrompt_def EnvLLMProvider_def
  EnvLLMModel_def EnvLLMAPIKey_def EnvLLMBaseURL_def EnvVertexProject_def EnvVertexLocation_def
  EnvBannedWords_def EnvMachineTitles_def EnvAnthropicFederationRuleID_def EnvAnthropicOrganizationID_def
  EnvAnthropicServiceAccountID_def EnvAnthropicWorkspaceID_def EnvAnthropicWIFAudience_def
  EnvGeoSampleCount_def EnvNominatimZoom_def EnvNominatimPlaceFields_def

section \<open>Parsing values\<close>

definition trim_right_slashes :: "string \<Rightarrow> string" where
  "trim_right_slashes s = rev (dropWhile (\<lambda>c. c = CHR ''/'') (rev s))"

definition trim_slashes :: "string \<Rightarrow> string" where
  "trim_slashes s = trim_right_slashes (dropWhile (\<lambda>c. c = CHR ''/'') s)"

definition first_set :: "string \<Rightarrow> string \<Rightarrow> string" where
  "first_set a b = (if a \<noteq> [] then a else b)"

text \<open>\<^verbatim>\<open>strings.Split\<close> at a byte, each piece trimmed and the blank ones dropped.\<close>

definition split_trimmed :: "char \<Rightarrow> string \<Rightarrow> string list" where
  "split_trimmed sep raw = filter (\<lambda>w. w \<noteq> []) (map trim_space (splits_by (\<lambda>c. c = sep) raw))"

definition splitList :: "string \<Rightarrow> string list" where
  "splitList = split_trimmed CHR '',''"

definition splitLines :: "string \<Rightarrow> string list" where
  "splitLines = split_trimmed CHR 0x0A"

text \<open>\<^verbatim>\<open>time.ParseDuration\<close>: a sign, then numbers with units; \<open>Inl ()\<close> is its error.\<close>

definition duration_unit :: "string \<Rightarrow> int option" where
  "duration_unit u = map_of
     [(''ns'', 1), (''us'', 1000), ([CHR 0xC2, CHR 0xB5, CHR ''s''], 1000), ([CHR 0xCE, CHR 0xBC, CHR ''s''], 1000),
      (''ms'', 1000000), (''s'', second), (''m'', minute), (''h'', hour)] u"

definition digit_char :: "char \<Rightarrow> bool" where
  "digit_char c \<longleftrightarrow> ascii_digit (byte c)"

fun leading_int :: "int \<Rightarrow> string \<Rightarrow> int option" where
  "leading_int x [] = Some x"
| "leading_int x (c # cs) =
     (if x > 2 ^ 63 div 10 then None
      else let y = x * 10 + (int (byte c) - 48) in if y > 2 ^ 63 then None else leading_int y cs)"

fun leading_fraction :: "int \<Rightarrow> int \<Rightarrow> string \<Rightarrow> int \<times> int" where
  "leading_fraction x scale [] = (x, scale)"
| "leading_fraction x scale (c # cs) =
     (if x > (2 ^ 63 - 1) div 10 then (x, scale)
      else let y = x * 10 + (int (byte c) - 48) in
        if y > 2 ^ 63 then (x, scale) else leading_fraction y (scale * 10) cs)"

definition duration_part :: "string \<Rightarrow> (int \<times> string) option" where
  "duration_part s =
     (let digits = takeWhile digit_char s; s1 = dropWhile digit_char s;
          point = (s1 \<noteq> [] \<and> hd s1 = CHR ''.'');
          s2 = (if point then tl s1 else s1);
          decimals = (if point then takeWhile digit_char s2 else []);
          s3 = (if point then dropWhile digit_char s2 else s2);
          u = takeWhile (\<lambda>c. c \<noteq> CHR ''.'' \<and> \<not> digit_char c) s3;
          rest = dropWhile (\<lambda>c. c \<noteq> CHR ''.'' \<and> \<not> digit_char c) s3
      in case leading_int 0 digits of
           None \<Rightarrow> None
         | Some v \<Rightarrow>
             if digits = [] \<and> decimals = [] then None
             else case duration_unit u of
               None \<Rightarrow> None
             | Some unit \<Rightarrow>
                 if v > 2 ^ 63 div unit then None
                 else case leading_fraction 0 1 decimals of (f, scale) \<Rightarrow>
                   (let w = v * unit + (if f > 0 then f * unit div scale else 0) in
                    if w > 2 ^ 63 then None else Some (w, rest)))"

lemma duration_part_shorter: "duration_part s = Some (w, rest) \<Longrightarrow> length rest < length s"
proof -
  assume part: "duration_part s = Some (w, rest)"
  let ?s1 = "dropWhile digit_char s"
  define point where "point = (?s1 \<noteq> [] \<and> hd ?s1 = CHR ''.'')"
  define s2 where "s2 = (if point then tl ?s1 else ?s1)"
  define s3 where "s3 = (if point then dropWhile digit_char s2 else s2)"
  let ?other = "\<lambda>c. c \<noteq> CHR ''.'' \<and> \<not> digit_char c"
  have u: "duration_unit (takeWhile ?other s3) \<noteq> None" and rest: "rest = dropWhile ?other s3"
    using part by (auto simp: duration_part_def point_def s2_def s3_def Let_def split: option.splits if_splits prod.splits)
  have "takeWhile ?other s3 \<noteq> []" using u by (auto simp: duration_unit_def split: if_splits)
  then have "length rest < length s3"
    unfolding rest by (metis append_Nil length_dropWhile_le nat_less_le takeWhile_dropWhile_id append_eq_append_conv)
  moreover have "length s3 \<le> length s2" by (simp add: s3_def length_dropWhile_le)
  moreover have "length s2 \<le> length ?s1" by (simp add: s2_def)
  moreover have "length ?s1 \<le> length s" by (rule length_dropWhile_le)
  ultimately show ?thesis by linarith
qed

function duration_sum :: "int \<Rightarrow> string \<Rightarrow> int option" where
  "duration_sum d s =
     (if s = [] then Some d
      else case duration_part s of
        None \<Rightarrow> None
      | Some (w, rest) \<Rightarrow> if d + w > 2 ^ 63 then None else duration_sum (d + w) rest)"
  by pat_completeness auto
termination
  by (relation "measure (\<lambda>(d, s). length s)") (auto dest: duration_part_shorter)

declare duration_sum.simps [simp del]

definition ParseDuration :: "string \<Rightarrow> duration option" where
  "ParseDuration s0 =
     (let signed = (s0 \<noteq> [] \<and> hd s0 \<in> {CHR ''-'', CHR ''+''});
          neg = (s0 \<noteq> [] \<and> hd s0 = CHR ''-'');
          s = (if signed then tl s0 else s0)
      in if s = ''0'' then Some 0
         else if s = [] then None
         else case duration_sum 0 s of
           None \<Rightarrow> None
         | Some d \<Rightarrow> if neg then Some (- d) else if d > 2 ^ 63 - 1 then None else Some d)"

section \<open>Settings and errors\<close>

record SweepConfig =
  SweepPath :: string
  SweepTokenAudience :: string
  SweepServiceAccount :: string

definition Enabled :: "SweepConfig \<Rightarrow> bool" where
  "Enabled s \<longleftrightarrow> SweepPath s \<noteq> [] \<and> SweepTokenAudience s \<noteq> [] \<and> SweepServiceAccount s \<noteq> []"

definition no_sweep :: SweepConfig where
  "no_sweep = \<lparr>SweepPath = [], SweepTokenAudience = [], SweepServiceAccount = []\<rparr>"

datatype LLMProvider = ProviderVertex | ProviderAnthropic | ProviderOpenRouter | ProviderAnthropicWIF

definition Keyed :: "LLMProvider \<Rightarrow> bool" where
  "Keyed p \<longleftrightarrow> p = ProviderAnthropic \<or> p = ProviderOpenRouter"

record AnthropicFederation =
  RuleID :: string
  OrganizationID :: string
  ServiceAccountID :: string
  WorkspaceID :: string
  WIFAudience :: string

definition no_federation :: AnthropicFederation where
  "no_federation = \<lparr>RuleID = [], OrganizationID = [], ServiceAccountID = [], WorkspaceID = [], WIFAudience = []\<rparr>"

record LLMSettings =
  LLMProviderOf :: LLMProvider
  LLMModel :: string
  APIKey :: string
  LLMBaseURL :: string
  VertexProject :: string
  VertexLocation :: string
  BannedWords :: "string list"
  MachineTitlePatterns :: "string list"
  Federation :: AnthropicFederation

record GeoSettings =
  GeoSampleCount :: int
  GeoZoom :: int
  GeoPlaceFields :: "string list"

record settings =
  HTTPPort :: int
  PublicURL :: string
  WebhookPath :: string
  AuthPath :: string
  SweepSettings :: SweepConfig
  OnlyAthlete :: int
  ProcessDelay :: duration
  SkipWindow :: duration
  MayWrite :: bool
  LogPrompt :: bool
  StravaClientID :: string
  StravaClientSecret :: string
  StravaVerifyToken :: string
  FirestoreProject :: string
  FirestoreDatabase :: string
  LLMOf :: LLMSettings
  NominatimUserAgent :: string
  GeoOf :: GeoSettings

definition PersistentStore :: "settings \<Rightarrow> bool" where
  "PersistentStore c \<longleftrightarrow> FirestoreProject c \<noteq> []"

definition DryRun :: "settings \<Rightarrow> bool" where
  "DryRun c \<longleftrightarrow> \<not> MayWrite c"

definition AuthCallbackPath :: string where "AuthCallbackPath = ''/auth/callback''"

definition HealthPath :: string where "HealthPath = ''/health''"

definition CallbackURL :: "settings \<Rightarrow> string" where
  "CallbackURL c = PublicURL c @ AuthCallbackPath"

datatype url_error =
  URLUnparsable | URLNotHTTPS | URLNotPlain | URLNotAPIRoot | URLBadPort

datatype config_error =
  DatabaseWithoutProject | ErrMissing string | MaxInstancesUnset | MaxInstancesNot string
| BadPathSecret | PathSecretIsCallback | BadPort string | BadAthleteID string | BadProcessDelay string
| BadSkipWindow string | WindowInsideDelay duration duration | BadDryRun string | BadLogPrompt string
| PartialSweep "string list" "string list" | BadSweepPath | BadSweepAudience string | BadSweepAccount string
| BadProvider string | KeyMissing LLMProvider | BadBaseURL url_error | FederationMissing string
| BadWIFAudience url_error | KeyMustBeUnset | BadVertexLocation string
| BadSampleCount string | BadZoom string | BadPlaceFields order_error

section \<open>Parts of the environment (config.go)\<close>

type_synonym getenv = "string \<Rightarrow> string"

definition path_char :: "char \<Rightarrow> bool" where
  "path_char c \<longleftrightarrow> ascii_letter (byte c) \<or> ascii_digit (byte c) \<or> c \<in> set ''._~-''"

definition pathSecretPattern :: "string \<Rightarrow> bool" where
  "pathSecretPattern s \<longleftrightarrow> list_all path_char s \<and> 8 \<le> length s \<and> length s \<le> 128"

definition sweepSegmentPattern :: "string \<Rightarrow> bool" where
  "sweepSegmentPattern s \<longleftrightarrow> list_all path_char s \<and> 8 \<le> length s \<and> length s \<le> 128"

definition authCallbackSegment :: string where "authCallbackSegment = ''callback''"

definition RequiredMaxInstances :: string where "RequiredMaxInstances = ''1''"

definition checkMaxInstances :: "string \<Rightarrow> config_error list" where
  "checkMaxInstances raw =
     (let value = trim_space raw in
      if value = [] then [MaxInstancesUnset]
      else if value \<noteq> RequiredMaxInstances then [MaxInstancesNot value]
      else [])"

definition loadFirestore :: "getenv \<Rightarrow> config_error list \<times> string \<times> string" where
  "loadFirestore env =
     (let project = trim_space (env EnvFirestoreProject); database = trim_space (env EnvFirestoreDatabase) in
      (if database \<noteq> [] \<and> project = [] then [DatabaseWithoutProject] else [], project, database))"

text \<open>An optional variable: its default where it is blank, an error where it does not parse.\<close>

definition setting :: "getenv \<Rightarrow> string \<Rightarrow> 'a \<Rightarrow> (string \<Rightarrow> 'a option) \<Rightarrow> (string \<Rightarrow> config_error) \<Rightarrow> config_error list \<times> 'a" where
  "setting env name dflt parse err =
     (let raw = trim_space (env name) in
      if raw = [] then ([], dflt)
      else case parse raw of None \<Rightarrow> ([err raw], dflt) | Some v \<Rightarrow> ([], v))"

definition in_range :: "int \<Rightarrow> int \<Rightarrow> int \<Rightarrow> int option" where
  "in_range lo hi n = (if lo \<le> n \<and> n \<le> hi then Some n else None)"

definition parse_port :: "string \<Rightarrow> int option" where
  "parse_port raw = Option.bind (atoi raw) (in_range 1 65535)"

definition parse_athlete :: "string \<Rightarrow> int option" where
  "parse_athlete raw = Option.bind (atoi raw) (\<lambda>n. if n \<le> 0 then None else Some n)"

definition parse_delay :: "string \<Rightarrow> duration option" where
  "parse_delay raw = Option.bind (ParseDuration raw) (\<lambda>d. if d < 0 then None else Some d)"

definition maxProvisionalSkipWindow :: duration where "maxProvisionalSkipWindow = 24 * hour"

definition parse_window :: "string \<Rightarrow> duration option" where
  "parse_window raw = Option.bind (ParseDuration raw) (in_range 0 maxProvisionalSkipWindow)"

definition true_words :: "string list" where "true_words = [''1'', ''t'', ''true'', ''y'', ''yes'', ''on'']"

definition false_words :: "string list" where "false_words = [''0'', ''f'', ''false'', ''n'', ''no'', ''off'']"

definition parseWritesEnabled :: "tables \<Rightarrow> string \<Rightarrow> config_error list \<times> bool" where
  "parseWritesEnabled U raw =
     (let value = to_lower U (trim_space raw) in
      if value = [] then ([], False)
      else if value \<in> set true_words then ([], False)
      else if value \<in> set false_words then ([], True)
      else ([BadDryRun raw], False))"

definition parseLogPrompt :: "tables \<Rightarrow> string \<Rightarrow> bool option" where
  "parseLogPrompt U raw =
     (let value = to_lower U (trim_space raw) in
      if value \<in> set true_words then Some True
      else if value \<in> set false_words then Some False
      else None)"

definition load_path :: "getenv \<Rightarrow> bool \<Rightarrow> config_error list \<times> string \<times> string" where
  "load_path env serving =
     (let secret = trim_slashes (trim_space (env EnvWebhookPathSecret)) in
      if secret = [] \<and> \<not> serving then ([], [], [])
      else if secret = [] then ([ErrMissing EnvWebhookPathSecret], [], [])
      else if \<not> pathSecretPattern secret then ([BadPathSecret], [], [])
      else if secret = authCallbackSegment then ([PathSecretIsCallback], [], [])
      else ([], ''/webhook/'' @ secret, ''/auth/'' @ secret))"

text \<open>The checks of a complete sweep configuration, and the loader before them.\<close>

definition check_sweep :: "SweepConfig \<Rightarrow> config_error list \<times> SweepConfig" where
  "check_sweep sweep =
     (case cut_prefix ''/sweep/'' (SweepPath sweep) of
        None \<Rightarrow> ([BadSweepPath], no_sweep)
      | Some segment \<Rightarrow>
          if \<not> sweepSegmentPattern segment then ([BadSweepPath], no_sweep)
          else if \<not> prefix ''https://'' (SweepTokenAudience sweep)
          then ([BadSweepAudience (SweepTokenAudience sweep)], no_sweep)
          else if \<not> str_contains (SweepServiceAccount sweep) ''@''
          then ([BadSweepAccount (SweepServiceAccount sweep)], no_sweep)
          else ([], sweep))"

definition loadSweep :: "getenv \<Rightarrow> config_error list \<times> SweepConfig" where
  "loadSweep env =
     (let sweep = \<lparr>SweepPath = trim_space (env EnvSweepPath), SweepTokenAudience = trim_space (env EnvSweepAudience),
            SweepServiceAccount = trim_space (env EnvSweepServiceAccount)\<rparr>;
          named = [(EnvSweepAudience, SweepTokenAudience sweep), (EnvSweepPath, SweepPath sweep),
            (EnvSweepServiceAccount, SweepServiceAccount sweep)];
          unset = map fst (filter (\<lambda>(_, v). v = []) named);
          present = map fst (filter (\<lambda>(_, v). v \<noteq> []) named)
      in if present = [] then ([], no_sweep)
         else if SweepTokenAudience sweep = [] \<and> SweepPath sweep \<noteq> [] \<and> SweepServiceAccount sweep \<noteq> []
         then ([], no_sweep)
         else if unset \<noteq> [] then ([PartialSweep present unset], no_sweep)
         else check_sweep sweep)"

section \<open>The naming layer (llm.go)\<close>

text \<open>What the loader needs of \<^verbatim>\<open>url.Parse\<close>.\<close>

record url_parts =
  Scheme :: string
  Hostname :: string
  URLPort :: string
  URLPath :: string
  HasUser :: bool
  RawQuery :: string
  Fragment :: string
  Opaque :: string

record loader =
  LUnicode :: tables
  parse_url :: "string \<Rightarrow> url_parts option"

definition plain_url :: "url_parts \<Rightarrow> bool" where
  "plain_url u \<longleftrightarrow> Hostname u \<noteq> [] \<and> \<not> HasUser u \<and> RawQuery u = [] \<and> Fragment u = [] \<and> Opaque u = []"

definition check_port :: "url_parts \<Rightarrow> url_error option" where
  "check_port u =
     (if URLPort u \<noteq> [] \<and> parse_port (URLPort u) = None then Some URLBadPort else None)"

definition checkBaseURL :: "loader \<Rightarrow> string \<Rightarrow> url_error option" where
  "checkBaseURL L raw =
     (case parse_url L raw of
        None \<Rightarrow> Some URLUnparsable
      | Some u \<Rightarrow>
          if Scheme u \<noteq> ''https'' then Some URLNotHTTPS
          else if \<not> plain_url u then Some URLNotPlain
          else if URLPath u = [] \<or> URLPath u = ''/'' \<or> str_contains (URLPath u) ''//'' then Some URLNotAPIRoot
          else check_port u)"

definition checkAudience :: "loader \<Rightarrow> string \<Rightarrow> url_error option" where
  "checkAudience L raw =
     (case parse_url L raw of
        None \<Rightarrow> Some URLUnparsable
      | Some u \<Rightarrow>
          if Scheme u \<noteq> ''https'' then Some URLNotHTTPS
          else if \<not> plain_url u then Some URLNotPlain
          else check_port u)"

definition wrap_url_error :: "(url_error \<Rightarrow> config_error) \<Rightarrow> url_error option \<Rightarrow> config_error list" where
  "wrap_url_error f e = (case e of None \<Rightarrow> [] | Some x \<Rightarrow> [f x])"

definition DefaultVertexLocation :: string where "DefaultVertexLocation = ''europe-west3''"

definition DefaultAnthropicWIFAudience :: string where
  "DefaultAnthropicWIFAudience = ''https://api.anthropic.com''"

definition lower_letter :: "char \<Rightarrow> bool" where
  "lower_letter c \<longleftrightarrow> 97 \<le> byte c \<and> byte c \<le> 122"

definition vertexLocationPattern :: "string \<Rightarrow> bool" where
  "vertexLocationPattern s \<longleftrightarrow> s = ''eu'' \<or>
     3 \<le> length s \<and> length s \<le> 40 \<and> lower_letter (hd s) \<and>
     list_all (\<lambda>c. lower_letter c \<or> digit_char c \<or> c = CHR ''-'') (butlast (tl s)) \<and>
     (lower_letter (last s) \<or> digit_char (last s))"

definition loadFederation :: "loader \<Rightarrow> getenv \<Rightarrow> config_error list \<times> AnthropicFederation" where
  "loadFederation L env =
     (let f = \<lparr>RuleID = trim_space (env EnvAnthropicFederationRuleID),
            OrganizationID = trim_space (env EnvAnthropicOrganizationID),
            ServiceAccountID = trim_space (env EnvAnthropicServiceAccountID),
            WorkspaceID = trim_space (env EnvAnthropicWorkspaceID),
            WIFAudience = first_set (trim_space (env EnvAnthropicWIFAudience)) DefaultAnthropicWIFAudience\<rparr>;
          missing = map (FederationMissing \<circ> fst) (filter (\<lambda>(_, v). v = [])
            [(EnvAnthropicFederationRuleID, RuleID f), (EnvAnthropicOrganizationID, OrganizationID f),
             (EnvAnthropicServiceAccountID, ServiceAccountID f)])
      in (missing @ wrap_url_error BadWIFAudience (checkAudience L (WIFAudience f)) @
          (if trim_space (env EnvLLMAPIKey) \<noteq> [] then [KeyMustBeUnset] else []), f))"

definition load_provider :: "loader \<Rightarrow> getenv \<Rightarrow> config_error list \<times> LLMProvider" where
  "load_provider L env =
     (let raw = to_lower (LUnicode L) (trim_space (env EnvLLMProvider)) in
      if raw = [] \<or> raw = ''gemini'' then ([], ProviderVertex)
      else if raw = ''anthropic'' then ([], ProviderAnthropic)
      else if raw = ''openrouter'' then ([], ProviderOpenRouter)
      else if raw = ''anthropic-wif'' then ([], ProviderAnthropicWIF)
      else ([BadProvider raw], ProviderVertex))"

definition loadLLM :: "loader \<Rightarrow> getenv \<Rightarrow> string \<Rightarrow> config_error list \<times> LLMSettings" where
  "loadLLM L env firestoreProject =
     (let (provider_errs, provider) = load_provider L env;
          key = (if Keyed provider then trim_space (env EnvLLMAPIKey) else []);
          base = (if provider = ProviderOpenRouter then trim_right_slashes (trim_space (env EnvLLMBaseURL)) else []);
          location = first_set (trim_space (env EnvVertexLocation)) DefaultVertexLocation;
          (federation_errs, federation) =
            (if provider = ProviderAnthropicWIF then loadFederation L env else ([], no_federation))
      in (provider_errs
          @ (if Keyed provider \<and> key = [] then [KeyMissing provider] else [])
          @ (if base \<noteq> [] then wrap_url_error BadBaseURL (checkBaseURL L base) else [])
          @ federation_errs
          @ (if \<not> vertexLocationPattern location then [BadVertexLocation location] else []),
          \<lparr>LLMProviderOf = provider, LLMModel = trim_space (env EnvLLMModel), APIKey = key, LLMBaseURL = base,
           VertexProject = first_set (trim_space (env EnvVertexProject)) firestoreProject,
           VertexLocation = location, BannedWords = splitList (env EnvBannedWords),
           MachineTitlePatterns = splitLines (env EnvMachineTitles), Federation = federation\<rparr>))"

section \<open>The geography layer (geo.go)\<close>

definition MinZoom :: int where "MinZoom = 3"

definition MaxZoom :: int where "MaxZoom = 18"

definition loadPlaceFields :: "getenv \<Rightarrow> config_error list \<times> string list" where
  "loadPlaceFields env =
     (let order = splitList (env EnvNominatimPlaceFields) in
      if order = [] then ([], [])
      else case ValidatePlaceFields order of
        Some e \<Rightarrow> ([BadPlaceFields e], [])
      | None \<Rightarrow> ([], order))"

definition loadGeo :: "getenv \<Rightarrow> config_error list \<times> GeoSettings" where
  "loadGeo env =
     (let (count_errs, count) = setting env EnvGeoSampleCount 0
            (\<lambda>raw. Option.bind (atoi raw) (in_range 1 MaxSampleCount)) BadSampleCount;
          (zoom_errs, zoom) = setting env EnvNominatimZoom 0
            (\<lambda>raw. Option.bind (atoi raw) (in_range MinZoom MaxZoom)) BadZoom;
          (order_errs, order) = loadPlaceFields env
      in (count_errs @ zoom_errs @ order_errs,
          \<lparr>GeoSampleCount = count, GeoZoom = zoom, GeoPlaceFields = order\<rparr>))"

section \<open>Loading (Load, LoadImport, LoadStore)\<close>

definition DefaultPort :: int where "DefaultPort = 8080"

definition DefaultProcessDelay :: duration where "DefaultProcessDelay = 10 * minute"

definition DefaultProvisionalSkipWindow :: duration where "DefaultProvisionalSkipWindow = 60 * minute"

definition missing_vars :: "(string \<times> string) list \<Rightarrow> config_error list" where
  "missing_vars required = map (ErrMissing \<circ> fst) (filter (\<lambda>(_, v). v = []) required)"

definition window_inside :: "duration \<Rightarrow> duration \<Rightarrow> config_error list" where
  "window_inside window delay =
     (if window > 0 \<and> window \<le> delay then [WindowInsideDelay window delay] else [])"

definition default_agent :: "string \<Rightarrow> string \<Rightarrow> string" where
  "default_agent agent base =
     (if agent = [] \<and> base \<noteq> [] then ''titelheld/1.0 (+'' @ base @ '')'' else agent)"

definition base_url :: "getenv \<Rightarrow> string" where
  "base_url env = trim_right_slashes (trim_space (env EnvBaseURL))"

definition required :: "getenv \<Rightarrow> bool \<Rightarrow> (string \<times> string) list" where
  "required env serving =
     [(EnvStravaClientID, trim_space (env EnvStravaClientID)), (EnvStravaClientSecret, env EnvStravaClientSecret)] @
     (if serving then [(EnvStravaVerifyToken, env EnvStravaVerifyToken), (EnvBaseURL, base_url env)] else [])"

definition load_port :: "getenv \<Rightarrow> config_error list \<times> int" where
  "load_port env = setting env EnvPort DefaultPort parse_port BadPort"

definition load_athlete :: "getenv \<Rightarrow> config_error list \<times> int" where
  "load_athlete env = setting env EnvStravaAthleteID 0 parse_athlete BadAthleteID"

definition load_delay :: "getenv \<Rightarrow> config_error list \<times> duration" where
  "load_delay env = setting env EnvProcessDelay DefaultProcessDelay parse_delay BadProcessDelay"

definition load_window :: "getenv \<Rightarrow> config_error list \<times> duration" where
  "load_window env = setting env EnvProvisionalSkipWindow DefaultProvisionalSkipWindow parse_window BadSkipWindow"

definition load_log :: "loader \<Rightarrow> getenv \<Rightarrow> config_error list \<times> bool" where
  "load_log L env = setting env EnvLogPrompt True (parseLogPrompt (LUnicode L)) BadLogPrompt"

text \<open>What is wrong, in the order the code comes upon it, and the configuration it builds meanwhile.\<close>

definition load_errors :: "loader \<Rightarrow> getenv \<Rightarrow> bool \<Rightarrow> config_error list" where
  "load_errors L env serving =
     fst (loadFirestore env)
     @ missing_vars (required env serving)
     @ (if serving then checkMaxInstances (env EnvMaxInstances) else [])
     @ fst (load_path env serving)
     @ fst (loadSweep env)
     @ fst (loadLLM L env (fst (snd (loadFirestore env))))
     @ fst (loadGeo env)
     @ fst (load_port env) @ fst (load_athlete env) @ fst (load_delay env) @ fst (load_window env)
     @ window_inside (snd (load_window env)) (snd (load_delay env))
     @ fst (parseWritesEnabled (LUnicode L) (env EnvDryRun))
     @ fst (load_log L env)"

definition load_values :: "loader \<Rightarrow> getenv \<Rightarrow> bool \<Rightarrow> settings" where
  "load_values L env serving =
     \<lparr>HTTPPort = snd (load_port env), PublicURL = base_url env,
      WebhookPath = fst (snd (load_path env serving)), AuthPath = snd (snd (load_path env serving)),
      SweepSettings = snd (loadSweep env), OnlyAthlete = snd (load_athlete env),
      ProcessDelay = snd (load_delay env), SkipWindow = snd (load_window env),
      MayWrite = snd (parseWritesEnabled (LUnicode L) (env EnvDryRun)), LogPrompt = snd (load_log L env),
      StravaClientID = trim_space (env EnvStravaClientID), StravaClientSecret = env EnvStravaClientSecret,
      StravaVerifyToken = env EnvStravaVerifyToken,
      FirestoreProject = fst (snd (loadFirestore env)), FirestoreDatabase = snd (snd (loadFirestore env)),
      LLMOf = snd (loadLLM L env (fst (snd (loadFirestore env)))),
      NominatimUserAgent = default_agent (trim_space (env EnvNominatimUserAgent)) (base_url env),
      GeoOf = snd (loadGeo env)\<rparr>"

definition load :: "loader \<Rightarrow> getenv \<Rightarrow> bool \<Rightarrow> config_error list + settings" where
  "load L env serving =
     (let errs = load_errors L env serving in
      if errs \<noteq> [] then Inl errs else Inr (load_values L env serving))"

definition LoadConfig :: "loader \<Rightarrow> getenv \<Rightarrow> config_error list + settings" where
  "LoadConfig L env = load L env True"

definition LoadImport :: "loader \<Rightarrow> getenv \<Rightarrow> config_error list + settings" where
  "LoadImport L env = load L env False"

definition no_settings :: settings where
  "no_settings = \<lparr>HTTPPort = 0, PublicURL = [], WebhookPath = [], AuthPath = [], SweepSettings = no_sweep,
     OnlyAthlete = 0, ProcessDelay = 0, SkipWindow = 0, MayWrite = False, LogPrompt = False,
     StravaClientID = [], StravaClientSecret = [], StravaVerifyToken = [], FirestoreProject = [],
     FirestoreDatabase = [],
     LLMOf = \<lparr>LLMProviderOf = ProviderVertex, LLMModel = [], APIKey = [], LLMBaseURL = [], VertexProject = [],
       VertexLocation = [], BannedWords = [], MachineTitlePatterns = [], Federation = no_federation\<rparr>,
     NominatimUserAgent = [], GeoOf = \<lparr>GeoSampleCount = 0, GeoZoom = 0, GeoPlaceFields = []\<rparr>\<rparr>"

definition LoadStore :: "getenv \<Rightarrow> config_error list + settings" where
  "LoadStore env =
     (case loadFirestore env of
        (errs, project, database) \<Rightarrow>
          if errs \<noteq> [] then Inl errs
          else Inr (no_settings\<lparr>FirestoreProject := project, FirestoreDatabase := database\<rparr>))"

section \<open>What an accepted configuration is\<close>

lemma setting_ok:
  "fst (setting env name dflt parse err) = [] \<Longrightarrow> P dflt \<Longrightarrow> (\<And>raw w. parse raw = Some w \<Longrightarrow> P w) \<Longrightarrow>
   P (snd (setting env name dflt parse err))"
  by (auto simp: setting_def Let_def split: if_splits option.splits)

lemma load_Inr: "load L env serving = Inr c \<longleftrightarrow> load_errors L env serving = [] \<and> c = load_values L env serving"
  by (auto simp: load_def Let_def)

lemma in_range_Some: "in_range lo hi n = Some m \<longleftrightarrow> m = n \<and> lo \<le> n \<and> n \<le> hi"
  by (auto simp: in_range_def)

lemma load_path_ok:
  "fst (load_path env serving) = [] \<Longrightarrow>
   load_path env serving = ([], [], []) \<and> \<not> serving \<or>
   (\<exists>secret. pathSecretPattern secret \<and> secret \<noteq> authCallbackSegment \<and>
      load_path env serving = ([], ''/webhook/'' @ secret, ''/auth/'' @ secret))"
  by (auto simp: load_path_def Let_def split: if_splits)

lemma load_path_serving:
  "fst (load_path env True) = [] \<Longrightarrow> load_path env False = load_path env True"
  by (auto simp: load_path_def Let_def split: if_splits)

lemma check_sweep_ok:
  "snd (check_sweep s) = no_sweep \<or> snd (check_sweep s) = s \<and>
   (\<exists>segment. SweepPath s = ''/sweep/'' @ segment \<and> sweepSegmentPattern segment) \<and>
   prefix ''https://'' (SweepTokenAudience s) \<and> str_contains (SweepServiceAccount s) ''@''"
proof (cases "cut_prefix ''/sweep/'' (SweepPath s)")
  case (Some segment)
  then have "SweepPath s = ''/sweep/'' @ segment"
    by (metis append_eq_conv_conj cut_prefix_def option.inject option.distinct(1) prefixE)
  then show ?thesis using Some by (simp add: check_sweep_def)
qed (simp add: check_sweep_def)

lemma snd_ifs:
  "snd (if a then ([], z) else if b then ([], z) else if c then (es, z) else r) = z \<or>
   snd (if a then ([], z) else if b then ([], z) else if c then (es, z) else r) = snd r"
  by simp

lemma loadSweep_check: "\<exists>s. snd (loadSweep env) = no_sweep \<or> snd (loadSweep env) = snd (check_sweep s)"
  unfolding loadSweep_def Let_def by (rule exI, rule snd_ifs)

lemma no_sweep_disabled [simp]: "\<not> Enabled no_sweep"
  by (simp add: Enabled_def no_sweep_def)

lemma loadSweep_ok:
  "snd (loadSweep env) = no_sweep \<or>
   (\<exists>segment. SweepPath (snd (loadSweep env)) = ''/sweep/'' @ segment \<and> sweepSegmentPattern segment) \<and>
   prefix ''https://'' (SweepTokenAudience (snd (loadSweep env))) \<and>
   str_contains (SweepServiceAccount (snd (loadSweep env))) ''@''"
  using loadSweep_check [of env] check_sweep_ok by metis

lemma loadSweep_enabled:
  "Enabled (snd (loadSweep env)) \<or> snd (loadSweep env) = no_sweep"
proof -
  have "s \<noteq> []" if "prefix ''https://'' s" for s using that by auto
  moreover have "s \<noteq> []" if "str_contains s ''@''" for s using that by auto
  ultimately show ?thesis using loadSweep_ok [of env] by (fastforce simp: Enabled_def)
qed

text \<open>The routes cannot collide: the webhook, the authorization, the callback, the health and the sweep path.\<close>

definition routes :: "settings \<Rightarrow> string list" where
  "routes c = [HealthPath, AuthCallbackPath, AuthPath c, WebhookPath c] @
     (if Enabled (SweepSettings c) then [SweepPath (SweepSettings c)] else [])"

lemma routes_distinct:
  assumes "load L env True = Inr c"
  shows "distinct (routes c)"
proof -
  from assms have "fst (load_path env True) = []" and c: "c = load_values L env True"
    by (simp_all add: load_Inr load_errors_def)
  from load_path_ok [OF this(1)] obtain secret where
    secret: "secret \<noteq> authCallbackSegment" "load_path env True = ([], ''/webhook/'' @ secret, ''/auth/'' @ secret)"
    by auto
  have "SweepPath (snd (loadSweep env)) \<noteq> [] \<Longrightarrow> Enabled (snd (loadSweep env)) \<Longrightarrow>
      \<exists>segment. SweepPath (snd (loadSweep env)) = ''/sweep/'' @ segment"
    using loadSweep_ok [of env] by auto
  then show ?thesis using secret
    by (auto simp: routes_def c load_values_def Enabled_def HealthPath_def AuthCallbackPath_def authCallbackSegment_def)
qed

lemma load_numbers:
  assumes "load L env serving = Inr c"
  shows "1 \<le> HTTPPort c \<and> HTTPPort c \<le> 65535" "0 \<le> OnlyAthlete c" "0 \<le> ProcessDelay c"
    "0 \<le> SkipWindow c \<and> SkipWindow c \<le> maxProvisionalSkipWindow" "SkipWindow c = 0 \<or> ProcessDelay c < SkipWindow c"
proof -
  have e: "fst (load_port env) = []" "fst (load_athlete env) = []" "fst (load_delay env) = []"
    "fst (load_window env) = []" "window_inside (snd (load_window env)) (snd (load_delay env)) = []"
    and c: "c = load_values L env serving"
    using assms by (simp_all add: load_Inr load_errors_def)
  have bind: "Option.bind x f = Some y \<longleftrightarrow> (\<exists>v. x = Some v \<and> f v = Some y)" for x :: "int option" and f and y :: int
    by (cases x) auto
  note parsers = parse_port_def parse_athlete_def parse_delay_def parse_window_def bind in_range_Some
  show "1 \<le> HTTPPort c \<and> HTTPPort c \<le> 65535"
    using e(1) unfolding c load_values_def settings.simps load_port_def
    by (rule setting_ok) (auto simp: DefaultPort_def parsers)
  show "0 \<le> OnlyAthlete c"
    using e(2) unfolding c load_values_def settings.simps load_athlete_def
    by (rule setting_ok) (auto simp: parsers split: if_splits)
  show "0 \<le> ProcessDelay c"
    using e(3) unfolding c load_values_def settings.simps load_delay_def
    by (rule setting_ok) (auto simp: parsers DefaultProcessDelay_def minute_def second_def split: if_splits)
  show w: "0 \<le> SkipWindow c \<and> SkipWindow c \<le> maxProvisionalSkipWindow"
    using e(4) unfolding c load_values_def settings.simps load_window_def
    by (rule setting_ok)
      (auto simp: parsers DefaultProvisionalSkipWindow_def maxProvisionalSkipWindow_def hour_def minute_def second_def)
  show "SkipWindow c = 0 \<or> ProcessDelay c < SkipWindow c"
    using e(5) w by (auto simp: c load_values_def window_inside_def split: if_splits)
qed

lemma load_writes:
  assumes "load L env serving = Inr c"
  shows "MayWrite c \<longleftrightarrow> to_lower (LUnicode L) (trim_space (env EnvDryRun)) \<in> set false_words"
proof -
  have "fst (parseWritesEnabled (LUnicode L) (env EnvDryRun)) = []" and c: "c = load_values L env serving"
    using assms by (simp_all add: load_Inr load_errors_def)
  then show ?thesis
    by (auto simp: c load_values_def parseWritesEnabled_def Let_def true_words_def false_words_def split: if_splits)
qed

lemma loadLLM_ok:
  assumes "fst (loadLLM L env project) = []"
  shows "APIKey (snd (loadLLM L env project)) \<noteq> [] \<longleftrightarrow> Keyed (LLMProviderOf (snd (loadLLM L env project)))"
    and "LLMProviderOf (snd (loadLLM L env project)) = ProviderAnthropicWIF \<Longrightarrow> trim_space (env EnvLLMAPIKey) = []"
proof -
  let ?p = "snd (load_provider L env)"
  have key: "\<not> (Keyed ?p \<and> (if Keyed ?p then trim_space (env EnvLLMAPIKey) else []) = [])"
    and fed: "?p = ProviderAnthropicWIF \<Longrightarrow> fst (loadFederation L env) = []"
    using assms by (simp_all add: loadLLM_def Let_def case_prod_beta split: if_split_asm)
  show "APIKey (snd (loadLLM L env project)) \<noteq> [] \<longleftrightarrow> Keyed (LLMProviderOf (snd (loadLLM L env project)))"
    using key by (simp add: loadLLM_def Let_def case_prod_beta)
  show "trim_space (env EnvLLMAPIKey) = []" if "LLMProviderOf (snd (loadLLM L env project)) = ProviderAnthropicWIF"
  proof -
    have "fst (loadFederation L env) = []" using that by (intro fed) (simp add: loadLLM_def Let_def case_prod_beta)
    then show ?thesis by (simp add: loadFederation_def Let_def split: if_split_asm)
  qed
qed

lemma load_keys:
  assumes "load L env serving = Inr c"
  shows "APIKey (LLMOf c) \<noteq> [] \<longleftrightarrow> Keyed (LLMProviderOf (LLMOf c))"
    and "LLMProviderOf (LLMOf c) = ProviderAnthropicWIF \<Longrightarrow> trim_space (env EnvLLMAPIKey) = []"
    and "FirestoreDatabase c \<noteq> [] \<Longrightarrow> PersistentStore c"
proof -
  have llm: "fst (loadLLM L env (fst (snd (loadFirestore env)))) = []" and store: "fst (loadFirestore env) = []"
    and c: "c = load_values L env serving"
    using assms by (simp_all add: load_Inr load_errors_def)
  show "APIKey (LLMOf c) \<noteq> [] \<longleftrightarrow> Keyed (LLMProviderOf (LLMOf c))"
    and "LLMProviderOf (LLMOf c) = ProviderAnthropicWIF \<Longrightarrow> trim_space (env EnvLLMAPIKey) = []"
    using loadLLM_ok [OF llm] by (simp_all add: c load_values_def)
  show "FirestoreDatabase c \<noteq> [] \<Longrightarrow> PersistentStore c"
    using store by (simp add: c load_values_def loadFirestore_def Let_def PersistentStore_def split: if_split_asm)
qed

lemma missing_vars_none: "missing_vars vs = [] \<longleftrightarrow> (\<forall>v \<in> set vs. snd v \<noteq> [])"
  by (auto simp: missing_vars_def filter_empty_conv)

section \<open>A concrete environment\<close>

definition sample_vars :: "(string \<times> string) list" where
  "sample_vars = [(''STRAVA_CLIENT_ID'', ''1''), (''STRAVA_CLIENT_SECRET'', ''s''), (''STRAVA_VERIFY_TOKEN'', ''v''),
     (''BASE_URL'', ''https://x/''), (''MAX_INSTANCES'', ''1''), (''WEBHOOK_PATH_SECRET'', ''/abcdefgh''),
     (''PROCESS_DELAY'', ''1m30s''), (''DRY_RUN'', ''no'')]"

definition sample_getenv :: getenv where
  "sample_getenv n = (case map_of sample_vars n of None \<Rightarrow> [] | Some v \<Rightarrow> v)"

definition sample_loader :: loader where
  "sample_loader = \<lparr>LUnicode = latin1, parse_url = (\<lambda>_. None)\<rparr>"

lemma trim_samples [simp]:
  "trim_space [] = []" "trim_space ''1'' = ''1''" "trim_space ''https://x/'' = ''https://x/''"
  "trim_space ''/abcdefgh'' = ''/abcdefgh''" "trim_space ''1m30s'' = ''1m30s''" "trim_space ''no'' = ''no''"
  by (simp_all add: trim_space_def is_space_def)

lemma lower_samples [simp]: "to_lower latin1 [] = []" "to_lower latin1 ''no'' = ''no''"
proof -
  show "to_lower latin1 [] = []" by (simp add: to_lower_def map_runes_def map_filter_def)
  have "to_lower latin1 ''no'' = [char_of (110 :: nat), char_of (111 :: nat)]"
    by (simp add: to_lower_def map_runes_def map_filter_def latin1_def latin_lower_def ascii_upper_def)
  also have "\<dots> = ''no''" by code_simp
  finally show "to_lower latin1 ''no'' = ''no''" .
qed

lemma sample_delay: "ParseDuration ''1m30s'' = Some (90 * second)"
  by code_simp

lemma sample_errors: "load_errors sample_loader sample_getenv True = []"
proof -
  note vars = sample_getenv_def sample_vars_def env_names
  have "loadFirestore sample_getenv = ([], [], [])" by (simp add: loadFirestore_def vars)
  moreover have "missing_vars (required sample_getenv True) = []"
    by (simp add: missing_vars_none required_def base_url_def trim_right_slashes_def vars)
  moreover have "checkMaxInstances (sample_getenv EnvMaxInstances) = []"
    by (simp add: checkMaxInstances_def RequiredMaxInstances_def vars)
  moreover have "fst (load_path sample_getenv True) = []"
    by (simp add: load_path_def Let_def trim_slashes_def trim_right_slashes_def pathSecretPattern_def path_char_def
        ascii_letter_def authCallbackSegment_def vars)
  moreover have "loadSweep sample_getenv = ([], no_sweep)" by (simp add: loadSweep_def vars)
  moreover have "loadGeo sample_getenv = ([], \<lparr>GeoSampleCount = 0, GeoZoom = 0, GeoPlaceFields = []\<rparr>)"
    by (simp add: loadGeo_def setting_def loadPlaceFields_def splitList_def split_trimmed_def vars)
  moreover have "fst (loadLLM sample_loader sample_getenv []) = []"
    by (simp add: loadLLM_def load_provider_def sample_loader_def Keyed_def first_set_def DefaultVertexLocation_def
        vertexLocationPattern_def lower_letter_def digit_char_def ascii_digit_def vars)
  moreover have "load_port sample_getenv = ([], 8080)" "load_athlete sample_getenv = ([], 0)"
      "load_delay sample_getenv = ([], 90 * second)" "load_window sample_getenv = ([], 60 * minute)"
      "load_log sample_loader sample_getenv = ([], True)"
    by (simp_all add: load_port_def load_athlete_def load_delay_def load_window_def load_log_def setting_def
        DefaultPort_def DefaultProvisionalSkipWindow_def parse_delay_def sample_delay second_def vars)
  moreover have "parseWritesEnabled (LUnicode sample_loader) (sample_getenv EnvDryRun) = ([], True)"
    by (simp add: parseWritesEnabled_def sample_loader_def true_words_def false_words_def vars)
  ultimately show ?thesis by (simp add: load_errors_def window_inside_def minute_def second_def)
qed

lemma sample_loaded: "LoadConfig sample_loader sample_getenv = Inr (load_values sample_loader sample_getenv True)"
  by (simp add: LoadConfig_def load_def sample_errors)

section \<open>Properties\<close>

text \<open>C21: What the service starts with is safe. A configuration it accepts names one instance, may write only
  where DRY_RUN holds one of the six words that say no, has an unguessable path, routes that cannot collide,
  and a sweep route only with a path, an https audience and an account; its port, athlete, delay and window
  are in range, and a window that is not off outlasts the delay; a database comes with a project; and a
  model key is set exactly for a provider that takes one.\<close>

theorem accepted_configuration_safe:
  assumes "LoadConfig L env = Inr c"
  shows "trim_space (env EnvMaxInstances) = RequiredMaxInstances
    \<and> (MayWrite c \<longleftrightarrow> to_lower (LUnicode L) (trim_space (env EnvDryRun)) \<in> set false_words)
    \<and> (\<exists>secret. pathSecretPattern secret \<and> WebhookPath c = ''/webhook/'' @ secret \<and> AuthPath c = ''/auth/'' @ secret)
    \<and> distinct (routes c)
    \<and> (Enabled (SweepSettings c) \<and> prefix ''https://'' (SweepTokenAudience (SweepSettings c)) \<or>
        SweepSettings c = no_sweep)
    \<and> (1 \<le> HTTPPort c \<and> HTTPPort c \<le> 65535) \<and> 0 \<le> OnlyAthlete c \<and> 0 \<le> ProcessDelay c
    \<and> 0 \<le> SkipWindow c \<and> SkipWindow c \<le> 24 * hour \<and> (SkipWindow c = 0 \<or> ProcessDelay c < SkipWindow c)
    \<and> (FirestoreDatabase c = [] \<or> PersistentStore c)
    \<and> (APIKey (LLMOf c) \<noteq> [] \<longleftrightarrow> Keyed (LLMProviderOf (LLMOf c)))
    \<and> StravaClientID c \<noteq> [] \<and> StravaClientSecret c \<noteq> [] \<and> StravaVerifyToken c \<noteq> [] \<and> PublicURL c \<noteq> []"
proof -
  have load: "load L env True = Inr c" using assms by (simp add: LoadConfig_def)
  then have errs: "fst (load_path env True) = []" "missing_vars (required env True) = []"
      "checkMaxInstances (env EnvMaxInstances) = []" and c: "c = load_values L env True"
    by (simp_all add: load_Inr load_errors_def)
  have "trim_space (env EnvMaxInstances) = RequiredMaxInstances"
    using errs(3) by (auto simp: checkMaxInstances_def Let_def split: if_splits)
  moreover have "\<exists>secret. pathSecretPattern secret \<and> WebhookPath c = ''/webhook/'' @ secret \<and> AuthPath c = ''/auth/'' @ secret"
    using load_path_ok [OF errs(1)] by (auto simp: c load_values_def)
  moreover have "StravaClientID c \<noteq> [] \<and> StravaClientSecret c \<noteq> [] \<and> StravaVerifyToken c \<noteq> [] \<and> PublicURL c \<noteq> []"
    using errs(2) by (simp add: missing_vars_none required_def c load_values_def)
  moreover have "Enabled (SweepSettings c) \<and> prefix ''https://'' (SweepTokenAudience (SweepSettings c)) \<or>
      SweepSettings c = no_sweep"
    using loadSweep_enabled [of env] loadSweep_ok [of env] by (auto simp: c load_values_def)
  ultimately show ?thesis
    using load_writes [OF load] routes_distinct [OF load] load_numbers [OF load] load_keys [OF load]
    unfolding maxProvisionalSkipWindow_def by blast
qed

lemma accepted_configuration_safe_witness: "distinct (routes (load_values sample_loader sample_getenv True))"
  using accepted_configuration_safe [OF sample_loaded] by blast

text \<open>The three loaders agree: whatever the service accepts an import accepts with the very same settings,
  and the seeding command with the same store; and an import needs nothing the service does not need.\<close>

theorem loaders_agree:
  assumes "LoadConfig L env = Inr c"
  shows "LoadImport L env = Inr c
    \<and> LoadStore env = Inr (no_settings\<lparr>FirestoreProject := FirestoreProject c, FirestoreDatabase := FirestoreDatabase c\<rparr>)"
proof -
  from assms have errs: "load_errors L env True = []" and c: "c = load_values L env True"
    by (simp_all add: LoadConfig_def load_Inr)
  then have path: "load_path env False = load_path env True"
    by (intro load_path_serving) (simp add: load_errors_def)
  have "load_errors L env False = []"
    using errs path by (simp add: load_errors_def missing_vars_none required_def)
  moreover have "load_values L env False = c" by (simp add: c load_values_def path)
  ultimately have "LoadImport L env = Inr c" by (simp add: LoadImport_def load_Inr)
  moreover have "fst (loadFirestore env) = []" using errs by (simp add: load_errors_def)
  ultimately show ?thesis by (simp add: LoadStore_def case_prod_beta c load_values_def)
qed

lemma loaders_agree_witness: "LoadImport sample_loader sample_getenv = LoadConfig sample_loader sample_getenv"
  using loaders_agree [OF sample_loaded] by (simp add: sample_loaded)

text \<open>The keyless default reads no key: with the Vertex provider the outcome of loading, error or settings,
  is the same whatever LLM_API_KEY and the base URL hold.\<close>

theorem keyless_reads_no_key:
  assumes "snd (load_provider L env) = ProviderVertex"
    and "\<And>n. n \<noteq> EnvLLMAPIKey \<Longrightarrow> n \<noteq> EnvLLMBaseURL \<Longrightarrow> env' n = env n"
  shows "load L env' serving = load L env serving"
proof -
  have same: "env' EnvStravaClientID = env EnvStravaClientID" "env' EnvStravaClientSecret = env EnvStravaClientSecret"
    "env' EnvStravaVerifyToken = env EnvStravaVerifyToken" "env' EnvStravaAthleteID = env EnvStravaAthleteID"
    "env' EnvWebhookPathSecret = env EnvWebhookPathSecret" "env' EnvBaseURL = env EnvBaseURL"
    "env' EnvProcessDelay = env EnvProcessDelay" "env' EnvProvisionalSkipWindow = env EnvProvisionalSkipWindow"
    "env' EnvDryRun = env EnvDryRun" "env' EnvPort = env EnvPort" "env' EnvFirestoreProject = env EnvFirestoreProject"
    "env' EnvFirestoreDatabase = env EnvFirestoreDatabase" "env' EnvNominatimUserAgent = env EnvNominatimUserAgent"
    "env' EnvSweepPath = env EnvSweepPath" "env' EnvSweepAudience = env EnvSweepAudience"
    "env' EnvSweepServiceAccount = env EnvSweepServiceAccount" "env' EnvMaxInstances = env EnvMaxInstances"
    "env' EnvLogPrompt = env EnvLogPrompt" "env' EnvLLMProvider = env EnvLLMProvider"
    "env' EnvLLMModel = env EnvLLMModel" "env' EnvVertexProject = env EnvVertexProject"
    "env' EnvVertexLocation = env EnvVertexLocation" "env' EnvBannedWords = env EnvBannedWords"
    "env' EnvMachineTitles = env EnvMachineTitles" "env' EnvGeoSampleCount = env EnvGeoSampleCount"
    "env' EnvNominatimZoom = env EnvNominatimZoom" "env' EnvNominatimPlaceFields = env EnvNominatimPlaceFields"
    by (rule assms(2); simp add: env_names)+
  have provider: "load_provider L env' = load_provider L env" by (simp add: load_provider_def same)
  have llm: "loadLLM L env' project = loadLLM L env project" for project
    using assms(1) by (simp add: loadLLM_def provider case_prod_beta Let_def Keyed_def same)
  have parts: "loadFirestore env' = loadFirestore env" "load_path env' serving = load_path env serving"
    "loadSweep env' = loadSweep env" "loadGeo env' = loadGeo env" "load_port env' = load_port env"
    "load_athlete env' = load_athlete env" "load_delay env' = load_delay env" "load_window env' = load_window env"
    "load_log L env' = load_log L env" "base_url env' = base_url env" "required env' serving = required env serving"
    by (simp_all only: loadFirestore_def load_path_def loadSweep_def loadGeo_def loadPlaceFields_def load_port_def
        load_athlete_def load_delay_def load_window_def load_log_def base_url_def required_def setting_def same)
  show ?thesis by (simp only: load_def load_errors_def load_values_def llm parts same)
qed

lemma keyless_reads_no_key_witness:
  "load sample_loader (sample_getenv(EnvLLMAPIKey := ''k'')) True = load sample_loader sample_getenv True"
proof (rule keyless_reads_no_key)
  show "snd (load_provider sample_loader sample_getenv) = ProviderVertex"
    by (simp add: load_provider_def sample_loader_def sample_getenv_def sample_vars_def env_names)
qed simp

end
