(* ===== verification/Http.thy ===== *)
theory Http
  imports GoRuntime
begin

text \<open>
  What the handlers use of \<^verbatim>\<open>net/http\<close>, \<^verbatim>\<open>net/url\<close> and \<^verbatim>\<open>encoding/json\<close>: a request with its query
  already parsed, the response a handler has written when it returns, and the JSON text of a string.
\<close>

section \<open>Requests and responses\<close>

record http_request =
  ReqMethod :: string
  ReqQuery :: "(string \<times> string) list"
  Authorization :: string
  ReqBody :: string

record http_response =
  RespStatus :: int
  RespHeaders :: "(string \<times> string) list"
  RespText :: string

text \<open>\<^verbatim>\<open>Values.Get\<close>, and an index into a \<^verbatim>\<open>map[string]string\<close>: the empty string where there is no value.\<close>

definition get_value :: "(string \<times> string) list \<Rightarrow> string \<Rightarrow> string" where
  "get_value kvs k = (case map_of kvs k of None \<Rightarrow> [] | Some v \<Rightarrow> v)"

definition newline :: string where "newline = [CHR 0x0A]"

definition http_error :: "string \<Rightarrow> int \<Rightarrow> http_response" where
  "http_error msg code = \<lparr>RespStatus = code,
     RespHeaders = [(''Content-Type'', ''text/plain; charset=utf-8''), (''X-Content-Type-Options'', ''nosniff'')],
     RespText = msg @ newline\<rparr>"

lemma http_error_status [simp]: "RespStatus (http_error msg code) = code"
  by (simp add: http_error_def)

section \<open>JSON strings\<close>

definition lower_hex :: "nat \<Rightarrow> char" where
  "lower_hex n = char_of (if n < 10 then 48 + n else 87 + n)"

definition backslash :: char where "backslash = CHR 0x5C"

definition json_escape :: "rune \<Rightarrow> string" where
  "json_escape r = [backslash, CHR ''u'', lower_hex (r div 4096 mod 16), lower_hex (r div 256 mod 16),
     lower_hex (r div 16 mod 16), lower_hex (r mod 16)]"

definition json_rune :: "rune \<times> string \<Rightarrow> string" where
  "json_rune rb = (case rb of (r, b) \<Rightarrow>
     if r = 92 \<or> r = 34 then [backslash, char_of r]
     else if r = 8 then [backslash, CHR ''b'']
     else if r = 12 then [backslash, CHR ''f'']
     else if r = 10 then [backslash, CHR ''n'']
     else if r = 13 then [backslash, CHR ''r'']
     else if r = 9 then [backslash, CHR ''t'']
     else if r < 32 \<or> r = 60 \<or> r = 62 \<or> r = 38 then json_escape r
     else if r = rune_error \<and> length b = 1 then json_escape rune_error
     else if r = 8232 \<or> r = 8233 then json_escape r
     else b)"

definition json_string :: "string \<Rightarrow> string" where
  "json_string s = [CHR 0x22] @ concat (map json_rune (segs s)) @ [CHR 0x22]"

end
