(* ===== verification/Effects.thy ===== *)
theory Effects
  imports GoRuntime "HOL-Library.State_Monad"
begin

text \<open>
  Programs that read the world and change state, as the library's state monad, with the rules
  the theories over them share. A Go call that returns a value and an error is a program whose
  result is a sum; \<open>check\<close> is the early return \<^verbatim>\<open>if err != nil\<close>. A \<open>triple\<close> is a
  statement about one run, and the locale \<open>effect\<close> one about what a program may change, for a
  relation that composes.
\<close>

section \<open>Programs\<close>

abbreviation return :: "'a \<Rightarrow> ('s, 'a) state" where
  "return \<equiv> State_Monad.return"

definition reads :: "('s \<Rightarrow> 'a) \<Rightarrow> ('s, 'a) state" where
  "reads f = State (\<lambda>s. (f s, s))"

definition changes :: "('s \<Rightarrow> 's) \<Rightarrow> ('s, unit) state" where
  "changes f = State (\<lambda>s. ((), f s))"

definition check :: "('s, 'e + 'a) state \<Rightarrow> ('e \<Rightarrow> 'f) \<Rightarrow> ('a \<Rightarrow> ('s, 'f + 'b) state) \<Rightarrow> ('s, 'f + 'b) state" where
  "check m wrap k = do {
     r \<leftarrow> m;
     case r of Inl e \<Rightarrow> return (Inl (wrap e)) | Inr a \<Rightarrow> k a }"

lemma run_reads [simp]: "run_state (reads f) s = (f s, s)"
  by (simp add: reads_def)

lemma run_changes [simp]: "run_state (changes f) s = ((), f s)"
  by (simp add: changes_def)

lemma run_check [simp]:
  "run_state (check m wrap k) s =
     (case run_state m s of (Inl e, s') \<Rightarrow> (Inl (wrap e), s') | (Inr a, s') \<Rightarrow> run_state (k a) s')"
  by (simp add: check_def split: prod.splits sum.splits)

section \<open>Triples\<close>

definition triple :: "('s \<Rightarrow> bool) \<Rightarrow> ('s, 'a) state \<Rightarrow> ('a \<Rightarrow> 's \<Rightarrow> bool) \<Rightarrow> bool" where
  "triple P m Q \<longleftrightarrow> (\<forall>s. P s \<longrightarrow> Q (fst (run_state m s)) (snd (run_state m s)))"

lemma tripleI: "(\<And>s. P s \<Longrightarrow> Q (fst (run_state m s)) (snd (run_state m s))) \<Longrightarrow> triple P m Q"
  by (simp add: triple_def)

lemma tripleD: "triple P m Q \<Longrightarrow> run_state m s = (a, s') \<Longrightarrow> P s \<Longrightarrow> Q a s'"
  unfolding triple_def by force

lemma triple_return: "(\<And>s. P s \<Longrightarrow> Q a s) \<Longrightarrow> triple P (return a) Q"
  by (simp add: triple_def)

lemma triple_bind:
  "triple P m R \<Longrightarrow> (\<And>a. triple (R a) (f a) Q) \<Longrightarrow> triple P (State_Monad.bind m f) Q"
  by (auto simp: triple_def split: prod.splits)

lemma triple_check:
  assumes "triple P m R" "\<And>e s. R (Inl e) s \<Longrightarrow> Q (Inl (wrap e)) s" "\<And>a. triple (R (Inr a)) (k a) Q"
  shows "triple P (check m wrap k) Q"
  unfolding check_def
  by (rule triple_bind [OF assms(1)]) (auto split: sum.splits intro!: triple_return assms(2,3))

lemma triple_reads: "(\<And>s. P s \<Longrightarrow> Q (f s) s) \<Longrightarrow> triple P (reads f) Q"
  by (simp add: triple_def)

lemma triple_changes: "(\<And>s. P s \<Longrightarrow> Q () (f s)) \<Longrightarrow> triple P (changes f) Q"
  by (simp add: triple_def)

lemma triple_conseq:
  "triple P' m Q' \<Longrightarrow> (\<And>s. P s \<Longrightarrow> P' s) \<Longrightarrow> (\<And>a s. Q' a s \<Longrightarrow> Q a s) \<Longrightarrow> triple P m Q"
  by (simp add: triple_def)

lemma triple_post: "triple P m Q' \<Longrightarrow> (\<And>a s. Q' a s \<Longrightarrow> Q a s) \<Longrightarrow> triple P m Q"
  by (simp add: triple_def)

lemma triple_if: "(b \<Longrightarrow> triple P m Q) \<Longrightarrow> (\<not> b \<Longrightarrow> triple P n Q) \<Longrightarrow> triple P (if b then m else n) Q"
  by simp

lemma triple_True: "triple P m (\<lambda>_ _. True)"
  by (simp add: triple_def)

section \<open>What a program may change\<close>

locale effect =
  fixes R :: "'s \<Rightarrow> 's \<Rightarrow> bool"
  assumes same: "R s s"
    and compose: "R s t \<Longrightarrow> R t u \<Longrightarrow> R s u"
begin

definition may :: "('s, 'a) state \<Rightarrow> bool" where
  "may m \<longleftrightarrow> state_io_rel R m"

lemma mayI: "(\<And>s a s'. run_state m s = (a, s') \<Longrightarrow> R s s') \<Longrightarrow> may m"
  unfolding may_def by (rule state_io_relI)

lemma mayD: "may m \<Longrightarrow> run_state m s = (a, s') \<Longrightarrow> R s s'"
  unfolding may_def by (rule state_io_relD)

lemma may_return: "may (return a)"
  by (auto intro!: mayI same)

lemma may_reads: "may (reads f)"
  by (auto intro!: mayI same)

lemma may_changes: "(\<And>s. R s (f s)) \<Longrightarrow> may (changes f)"
  by (auto intro!: mayI)

lemma may_bind: "may m \<Longrightarrow> (\<And>a. may (f a)) \<Longrightarrow> may (State_Monad.bind m f)"
  by (auto intro!: mayI split: prod.splits) (blast intro: compose mayD)

lemma may_check: "may m \<Longrightarrow> (\<And>a. may (k a)) \<Longrightarrow> may (check m wrap k)"
  unfolding check_def by (rule may_bind) (auto split: sum.splits intro: may_return)

lemma may_if: "(b \<Longrightarrow> may m) \<Longrightarrow> (\<not> b \<Longrightarrow> may n) \<Longrightarrow> may (if b then m else n)"
  by simp

lemma may_option: "(x = None \<Longrightarrow> may m) \<Longrightarrow> (\<And>a. x = Some a \<Longrightarrow> may (f a)) \<Longrightarrow>
    may (case x of None \<Rightarrow> m | Some a \<Rightarrow> f a)"
  by (simp split: option.splits)

lemma may_sum: "(\<And>a. x = Inl a \<Longrightarrow> may (f a)) \<Longrightarrow> (\<And>b. x = Inr b \<Longrightarrow> may (g b)) \<Longrightarrow>
    may (case x of Inl a \<Rightarrow> f a | Inr b \<Rightarrow> g b)"
  by (simp split: sum.splits)

lemma may_prod: "(\<And>a b. x = (a, b) \<Longrightarrow> may (f a b)) \<Longrightarrow> may (case x of (a, b) \<Rightarrow> f a b)"
  by (simp split: prod.splits)

lemma may_Let: "(\<And>a. may (f a)) \<Longrightarrow> may (let a = x in f a)"
  by simp

lemma may_kept: "may m \<Longrightarrow> (\<And>s s'. P s \<Longrightarrow> R s s' \<Longrightarrow> P s') \<Longrightarrow> triple P m (\<lambda>_. P)"
  unfolding triple_def by (metis mayD prod.collapse)

lemmas may_rules = may_return may_reads may_bind may_check may_if may_option may_sum may_prod

end

end
