(* ===== verification/Pipeline.thy ===== *)
theory Pipeline
  imports Effects Classifier Attribution Prompt Strava Geo
begin

text \<open>
  What package \<^verbatim>\<open>internal/processor\<close> runs on (\<^verbatim>\<open>Deps\<close>, \<^verbatim>\<open>Processor\<close> and the interfaces
  \<^verbatim>\<open>Activities\<close>, \<^verbatim>\<open>Geographer\<close>, \<^verbatim>\<open>Provider\<close> and \<^verbatim>\<open>Store\<close> of processor.go).

  The store is \<^verbatim>\<open>Memory\<close> behind a connection that may fail: a read answers or does not, a write
  is lost, applied, or applied without the caller learning of it. Everything else the processor
  calls through an interface is a function of a world \<open>'w\<close>: the clock, the context, the Strava
  calls, the geographer, the language model. The state is that world, the store, the three
  caches of a \<^verbatim>\<open>Processor\<close>, and two traces the theorems speak of: the changes asked of Strava,
  each with the row the named log held when it was asked, and the prompts put to the model.
  Logging has no part in the model; the caches' mutexes make each access one step.
\<close>

section \<open>Dependencies\<close>

record deps =
  ClassifierConfig :: Config
  DValidator :: Validator
  DFranchises :: "Franchise list option"
  DisableAttribution :: bool
  ProvisionalSkipWindow :: duration
  WritesEnabled :: bool
  HasGeo :: bool
  HasProvider :: bool

record 'w env =
  Unicode :: tables
  JSON :: json_decoder
  clock :: "'w \<Rightarrow> instant \<times> 'w"
  ctx_done :: "'w \<Rightarrow> bool"
  read_fails :: "'w \<Rightarrow> bool \<times> 'w"
  write_fault :: "'w \<Rightarrow> fault \<times> 'w"
  get_activity :: "int \<Rightarrow> 'w \<Rightarrow> (strava_error + StravaActivity) \<times> 'w"
  get_gear :: "string \<Rightarrow> 'w \<Rightarrow> (strava_error + Gear) \<times> 'w"
  put_activity :: "int \<Rightarrow> string option \<Rightarrow> string option \<Rightarrow> 'w \<Rightarrow> (strava_error + StravaActivity option) \<times> 'w"
  describe_places :: "string \<Rightarrow> 'w \<Rightarrow> (geo_error + Summary) \<times> 'w"
  complete_prompt :: "Prompt \<Rightarrow> 'w \<Rightarrow> (string + string) \<times> 'w"

text \<open>
  The errors, by the place that wraps them. \<open>IndexPanic\<close> is the run-time panic of an index out
  of range, which is not returned but ends the sweep.
\<close>

datatype proc_error =
  ReadQueue | ReadNamedLog | FetchActivity strava_error
| RecordHumanTitle | UnhandledAction | NoProvider | ResolveGeography geo_error | ReadHistory
| ProviderFailed string | UnusableTitle naming_error
| RecordTitle | WriteTitle strava_error
| ReReadActivity strava_error | RecordRename | RemoveLine strava_error
| IndexPanic

section \<open>State\<close>

datatype put =
  TitlePut int int string "string option" "NamedTitle option"
| DescriptionPut int int string "NamedTitle option"

record 'w sys =
  World :: 'w
  SStore :: Memory
  GearCache :: "(string \<times> string) list"
  ExampleCache :: "(int \<times> Example) list"
  FranchiseCache :: "(int \<times> Franchise list) list"
  Puts :: "put list"
  Prompts :: "Prompt list"

definition NewProcessor :: "'w \<Rightarrow> Memory \<Rightarrow> 'w sys" where
  "NewProcessor w m = \<lparr>World = w, SStore = m, GearCache = [], ExampleCache = [],
     FranchiseCache = [], Puts = [], Prompts = []\<rparr>"

section \<open>Calls\<close>

definition call :: "('w \<Rightarrow> 'a \<times> 'w) \<Rightarrow> ('w sys, 'a) state" where
  "call f = State (\<lambda>s. case f (World s) of (a, w) \<Rightarrow> (a, s\<lparr>World := w\<rparr>))"

definition now_of :: "'w env \<Rightarrow> ('w sys, instant) state" where
  "now_of E = call (clock E)"

text \<open>A read of the store answers \<^const>\<open>None\<close> where the code sees an error.\<close>

definition store_read :: "'w env \<Rightarrow> (Memory \<Rightarrow> 'a) \<Rightarrow> ('w sys, 'a option) state" where
  "store_read E f = do {
     failed \<leftarrow> call (read_fails E);
     if failed then return None else reads (\<lambda>s. Some (f (SStore s))) }"

definition store_write :: "'w env \<Rightarrow> (Memory \<Rightarrow> Memory) \<Rightarrow> ('w sys, bool) state" where
  "store_write E f = do {
     d \<leftarrow> call (write_fault E);
     State (\<lambda>s. case faulty d f (SStore s) of (m, ok) \<Rightarrow> (ok, s\<lparr>SStore := m\<rparr>)) }"

definition GetActivityCall :: "'w env \<Rightarrow> int \<Rightarrow> ('w sys, strava_error + StravaActivity) state" where
  "GetActivityCall E i = call (get_activity E i)"

text \<open>
  The three updates. The athlete is not sent; it is kept in the trace with the row the named log
  held for the activity at that moment.
\<close>

definition put_title :: "'w env \<Rightarrow> int \<Rightarrow> int \<Rightarrow> string \<Rightarrow> string option \<Rightarrow>
    ('w sys, strava_error + StravaActivity option) state" where
  "put_title E athlete i title description = do {
     changes (\<lambda>s. s\<lparr>Puts := Puts s @ [TitlePut athlete i title description (Named (SStore s) athlete i)]\<rparr>);
     call (put_activity E i (Some title) description) }"

definition put_description :: "'w env \<Rightarrow> int \<Rightarrow> int \<Rightarrow> string \<Rightarrow>
    ('w sys, strava_error + StravaActivity option) state" where
  "put_description E athlete i description = do {
     changes (\<lambda>s. s\<lparr>Puts := Puts s @ [DescriptionPut athlete i description (Named (SStore s) athlete i)]\<rparr>);
     call (put_activity E i None (Some description)) }"

definition complete_call :: "'w env \<Rightarrow> Prompt \<Rightarrow> ('w sys, string + string) state" where
  "complete_call E p = do {
     changes (\<lambda>s. s\<lparr>Prompts := Prompts s @ [p]\<rparr>);
     call (complete_prompt E p) }"

lemma run_call [simp]:
  "run_state (call f) s = (case f (World s) of (a, w) \<Rightarrow> (a, s\<lparr>World := w\<rparr>))"
  by (simp add: call_def)

section \<open>What the calls change\<close>

text \<open>
  Two relations that compose: the store and the requests stay as they are; and so do the prompts.
\<close>

definition quiet :: "'w sys \<Rightarrow> 'w sys \<Rightarrow> bool" where
  "quiet s t \<longleftrightarrow> SStore t = SStore s \<and> Puts t = Puts s"

definition silent :: "'w sys \<Rightarrow> 'w sys \<Rightarrow> bool" where
  "silent s t \<longleftrightarrow> SStore t = SStore s \<and> Puts t = Puts s \<and> Prompts t = Prompts s"

interpretation quiet: effect quiet
  by unfold_locales (simp_all add: quiet_def)

interpretation silent: effect silent
  by unfold_locales (simp_all add: silent_def)

lemma silent_call [simp, intro]: "silent.may (call f)"
  by (rule silent.mayI) (auto simp: silent_def split: prod.splits)

lemma silent_quiet: "silent.may m \<Longrightarrow> quiet.may m"
  by (rule quiet.mayI) (auto dest: silent.mayD simp: silent_def quiet_def)

lemma silent_primitives [simp, intro]:
  "silent.may (now_of E)" "silent.may (store_read E f)" "silent.may (GetActivityCall E i)"
  by (auto simp: now_of_def store_read_def GetActivityCall_def
      intro!: silent.may_rules)

lemma quiet_primitives [simp, intro]:
  "quiet.may (call f)" "quiet.may (now_of E)" "quiet.may (store_read E g)" "quiet.may (GetActivityCall E i)"
  by (auto intro: silent_quiet)

lemma quiet_complete_call [simp, intro]: "quiet.may (complete_call E p)"
  unfolding complete_call_def
  by (rule quiet.may_bind [OF quiet.may_changes]) (simp_all add: quiet_def)

lemma run_store_read:
  "run_state (store_read E f) s =
     (case read_fails E (World s) of (failed, w) \<Rightarrow>
        (if failed then None else Some (f (SStore s)), s\<lparr>World := w\<rparr>))"
  by (simp add: store_read_def split: prod.splits)

lemma run_store_write:
  "run_state (store_write E f) s =
     (case write_fault E (World s) of (d, w) \<Rightarrow>
        (d = NoFault, s\<lparr>World := w, SStore := (if d = FaultLost then SStore s else f (SStore s))\<rparr>))"
  by (auto simp: store_write_def faulty_def split: prod.splits fault.splits)

section \<open>A concrete setting\<close>

text \<open>
  The witnesses' setting: one due entry, an errand that Strava still calls an evening ride, writes
  enabled, nothing that fails, and no language model.
\<close>

definition sample_activity :: StravaActivity where
  "sample_activity = \<lparr>AID = 1, AAthleteID = 7, AName = ''Evening Ride '', ADescription = [],
     ASportType = ''Ride'', AType = ''Ride'', ADistance = 21000, AMovingTime = 1200, AElapsedTime = 1300,
     ATotalElevGain = 0, AAverageSpeed = 5, AMaxSpeed = 9, ATrainer = False, ACommute = True,
     APrivate = False, AManual = False, AStartDateLocal = 0, AStartDate = 0, ATimezone = [],
     AStartLatLng = [], AEndLatLng = [], AGearID = [], AAthleteObjectID = 7, APolyline = [],
     ASummaryPolyline = [], ASegmentEfforts = []\<rparr>"

definition sample_env :: "nat env" where
  "sample_env = \<lparr>Unicode = latin1, JSON = (\<lambda>_. None), clock = (\<lambda>w. (1000, w)),
     ctx_done = (\<lambda>_. False), read_fails = (\<lambda>w. (False, w)), write_fault = (\<lambda>w. (NoFault, w)),
     get_activity = (\<lambda>i w. (Inr (sample_activity\<lparr>AID := i\<rparr>), w)),
     get_gear = (\<lambda>i w. (Inl ErrNotFound, w)), put_activity = (\<lambda>i t d w. (Inr None, w)),
     describe_places = (\<lambda>p w. (Inr no_summary, w)), complete_prompt = (\<lambda>p w. (Inl [], w))\<rparr>"

definition sample_deps :: deps where
  "sample_deps = \<lparr>ClassifierConfig = DefaultConfig, DValidator = [], DFranchises = None,
     DisableAttribution = True, ProvisionalSkipWindow = 0, WritesEnabled = True, HasGeo = False,
     HasProvider = False\<rparr>"

definition sample_pending :: Pending where
  "sample_pending = \<lparr>PAthleteID = 7, PActivityID = 1, Aspect = ''create'', EnqueuedAt = 0, ProcessAfter = 5\<rparr>"

definition sample_start :: "nat sys" where
  "sample_start = NewProcessor 0 (NewMemory\<lparr>mPending := [((7, 1), sample_pending)]\<rparr>)"

lemma sample_start_world [simp]: "World sample_start = 0" "sample_start\<lparr>World := 0\<rparr> = sample_start"
  by (simp_all add: sample_start_def NewProcessor_def)

lemma sample_env_select [simp]:
  "clock sample_env w = (1000, w)" "read_fails sample_env w = (False, w)" "\<not> ctx_done sample_env w"
  "write_fault sample_env w = (NoFault, w)" "get_activity sample_env i w = (Inr (sample_activity\<lparr>AID := i\<rparr>), w)"
  "put_activity sample_env i x d w = (Inr None, w)" "complete_prompt sample_env p w = (Inl [], w)"
  "describe_places sample_env p' w = (Inr no_summary, w)" "Unicode sample_env = latin1"
  by (simp_all add: sample_env_def)

definition sample_series :: Franchise where
  "sample_series = \<lparr>FName = ''s'', FSportTypes = [], FGearName = [], FTitles = [''A'', ''B''], FReserved = [''A'']\<rparr>"

definition sample_ride :: Ride where
  "sample_ride = \<lparr>RSportType = ''Ride'', DistanceKm = 21, MovingTimeMinutes = 20, ElevationGainMeters = 0,
     AverageSpeedKmh = 18, StartLocal = 0, RGearName = [], RPlaces = [], RRegion = [], RCountry = [],
     RAchievements = [], RFacts = []\<rparr>"

end
