(* ===== verification/Gather.thy ===== *)
theory Gather
  imports Pipeline
begin

text \<open>
  \<^verbatim>\<open>internal/processor/context.go\<close>: what a prompt says beyond the ride, from the title history, the
  athlete's series and the activities the examples describe.
\<close>

section \<open>Series (FranchisesFromStored, FranchisesToStored, franchises, franchiseNext)\<close>

fun FranchisesFromStored :: "StoredFranchise list \<Rightarrow> Franchise list" where
  "FranchisesFromStored [] = []"
| "FranchisesFromStored (entry # stored) =
     (let name = trim_space (SName entry) in
      if name = [] then FranchisesFromStored stored
      else \<lparr>FName = name, FSportTypes = SSportTypes entry, FGearName = trim_space (SGearName entry),
             FTitles = STitles entry, FReserved = SReserved entry\<rparr> # FranchisesFromStored stored)"

definition FranchisesToStored :: "Franchise list \<Rightarrow> StoredFranchise list" where
  "FranchisesToStored franchises =
     map (\<lambda>f. \<lparr>SName = FName f, SSportTypes = FSportTypes f, SGearName = FGearName f,
               STitles = FTitles f, SReserved = FReserved f\<rparr>) franchises"

definition franchises :: "'w env \<Rightarrow> deps \<Rightarrow> int \<Rightarrow> ('w sys, Franchise list) state" where
  "franchises E D athlete =
     (case DFranchises D of
        Some configured \<Rightarrow> return configured
      | None \<Rightarrow> do {
          cache \<leftarrow> reads FranchiseCache;
          case map_of cache athlete of
            Some cached \<Rightarrow> return cached
          | None \<Rightarrow> do {
              config \<leftarrow> store_read E (\<lambda>m. GetAthleteConfig m athlete);
              case config of
                None \<Rightarrow> return DefaultProfile
              | Some found \<Rightarrow> do {
                  let resolved = (case found of
                      None \<Rightarrow> DefaultProfile | Some c \<Rightarrow> FranchisesFromStored (Franchises c));
                  changes (\<lambda>s. s\<lparr>FranchiseCache := AList.update athlete resolved (FranchiseCache s)\<rparr>);
                  return resolved } } })"

definition no_franchise :: Franchise where
  "no_franchise = \<lparr>FName = [], FSportTypes = [], FGearName = [], FTitles = [], FReserved = []\<rparr>"

definition offer :: "tables \<Rightarrow> Franchise \<Rightarrow> int option \<Rightarrow> string \<times> int \<times> Franchise" where
  "offer U f position =
     (case position of
        None \<Rightarrow> ([], 0, f)
      | Some p \<Rightarrow>
          (case Next U f p of
             None \<Rightarrow> ([], 0, f)
           | Some (next', index) \<Rightarrow> if \<not> Offerable U next' then ([], 0, f) else (next', index, f)))"

definition franchiseNext :: "'w env \<Rightarrow> deps \<Rightarrow> int \<Rightarrow> Ride \<Rightarrow> ('w sys, string \<times> int \<times> Franchise) state" where
  "franchiseNext E D athlete ride = do {
     configured \<leftarrow> franchises E D athlete;
     case FranchiseFor (Unicode E) configured (RSportType ride) (RGearName ride) of
       None \<Rightarrow> return ([], 0, no_franchise)
     | Some f \<Rightarrow> do {
         position \<leftarrow> store_read E (\<lambda>m. FranchisePosition m athlete (FName f));
         return (offer (Unicode E) f position) } }"

section \<open>Examples (examplesFrom, example, situationOf)\<close>

definition exampleCount :: nat where "exampleCount = 6"

definition maxExampleFailures :: nat where "maxExampleFailures = 2"

definition worthNotRepeating :: "NamedTitle list \<Rightarrow> NamedTitle list" where
  "worthNotRepeating history = filter (\<lambda>e. Source e \<noteq> SourceTemplate) history"

definition teachesStyle :: "NamedTitle list \<Rightarrow> NamedTitle list" where
  "teachesStyle history = filter (\<lambda>e. Source e = SourceHuman) history"

definition titlesOf :: "NamedTitle list \<Rightarrow> string list" where
  "titlesOf history = map NamedTitle.Title history"

definition exampleLanguage :: "string \<Rightarrow> Language" where
  "exampleLanguage language = (if language = German \<or> language = English then language else German)"

text \<open>
  \<^verbatim>\<open>^(\p{L}+( \p{L}+){0,2}|[0-9]+([.,][0-9]+)?)$\<close>: up to three runs of letters with one blank
  between them, or a number.
\<close>

definition difficultyShape :: "tables \<Rightarrow> string \<Rightarrow> bool" where
  "difficultyShape U v =
     (let rs = runes v; words = splits_by (\<lambda>r. r = 32) rs;
          rest = dropWhile ascii_digit rs
      in length words \<le> 3 \<and> list_all (\<lambda>w. w \<noteq> [] \<and> list_all (is_letter U) w) words
         \<or> takeWhile ascii_digit rs \<noteq> [] \<and>
           (case rest of
              [] \<Rightarrow> True
            | c # ds \<Rightarrow> (c = 46 \<or> c = 44) \<and> ds \<noteq> [] \<and> list_all ascii_digit ds))"

definition difficultyOf :: "tables \<Rightarrow> string \<Rightarrow> string" where
  "difficultyOf U description =
     (case find (\<lambda>f. FLabel f = LabelDifficulty \<and> difficultyShape U (FValue f)) (ParseFacts U description) of
        None \<Rightarrow> [] | Some f \<Rightarrow> FValue f)"

definition situationOf :: "tables \<Rightarrow> StravaActivity \<Rightarrow> string" where
  "situationOf U a = join_with '', ''
     ((if ADistance a > 0 then [show_fixed0 (ADistance a / 1000) @ '' km''] else []) @
      [if ASportType a = [] then ''ride'' else ASportType a] @
      (if ATotalElevGain a > 0 then [show_fixed0 (ATotalElevGain a) @ '' m climbing''] else []) @
      (let difficulty = difficultyOf U (ADescription a) in
       if difficulty \<noteq> [] then [''difficulty '' @ difficulty] else []) @
      (if AStartDateLocal a \<noteq> time_zero
       then [weekday_name (weekday_of (AStartDateLocal a)) @ '' '' @
             show_2digits (hour_of (AStartDateLocal a)) @ '':00''] else []))"

definition example :: "'w env \<Rightarrow> NamedTitle \<Rightarrow> ('w sys, Example option) state" where
  "example E entry = do {
     cache \<leftarrow> reads ExampleCache;
     case map_of cache (ActivityID entry) of
       Some cached \<Rightarrow> return (Some cached)
     | None \<Rightarrow> do {
         r \<leftarrow> GetActivityCall E (ActivityID entry);
         case r of
           Inl _ \<Rightarrow> return None
         | Inr activity \<Rightarrow> do {
             let ex = mk_example (situationOf (Unicode E) activity) (NamedTitle.Title entry)
                        (exampleLanguage (NamedTitle.Language entry));
             changes (\<lambda>s. s\<lparr>ExampleCache := AList.update (ActivityID entry) ex (ExampleCache s)\<rparr>);
             return (Some ex) } } }"

primrec derive_examples :: "'w env \<Rightarrow> NamedTitle list \<Rightarrow> Example list \<Rightarrow> nat \<Rightarrow>
    ('w sys, Example list) state" where
  "derive_examples E [] examples failures = return examples"
| "derive_examples E (entry # history) examples failures =
     (if length examples \<ge> exampleCount \<or> failures \<ge> maxExampleFailures then return examples
      else do {
        r \<leftarrow> example E entry;
        case r of
          None \<Rightarrow> derive_examples E history examples (failures + 1)
        | Some ex \<Rightarrow> derive_examples E history (examples @ [ex]) failures })"

definition examplesFrom :: "'w env \<Rightarrow> NamedTitle list \<Rightarrow> ('w sys, Example list) state" where
  "examplesFrom E history0 = (let history = teachesStyle history0 in
     if history = [] then return SyntheticExamples
     else do {
       examples \<leftarrow> derive_examples E history [] 0;
       return (if examples = [] then SyntheticExamples else examples) })"

section \<open>The prompt context (promptContext, history)\<close>

record gathered =
  GContext :: Context
  GSeries :: Franchise
  GFranchiseIndex :: int

definition history :: "'w env \<Rightarrow> int \<Rightarrow> ('w sys, proc_error + NamedTitle list) state" where
  "history E athlete = do {
     r \<leftarrow> store_read E (\<lambda>m. RecentTitles m athlete (int RecentTitleLimit));
     return (case r of None \<Rightarrow> Inl ReadHistory | Some titles \<Rightarrow> Inr titles) }"

definition promptContext :: "'w env \<Rightarrow> deps \<Rightarrow> int \<Rightarrow> Ride \<Rightarrow> ('w sys, proc_error + gathered) state" where
  "promptContext E D athlete ride = check (history E athlete) id (\<lambda>titles. do {
     examples \<leftarrow> examplesFrom E titles;
     (next', index, series) \<leftarrow> franchiseNext E D athlete ride;
     return (Inr
       \<lparr>GContext = \<lparr>CRecentTitles = titlesOf (worthNotRepeating titles), FranchiseNext = next',
                    Examples = examples\<rparr>,
        GSeries = series, GFranchiseIndex = index\<rparr>) })"

section \<open>Lemmas\<close>

lemma silent_gather [simp, intro]:
  "silent.may (franchises E D a)" "silent.may (franchiseNext E D a r)" "silent.may (example E e)"
  "silent.may (history E a)"
proof -
  have cache: "silent.may (changes (\<lambda>s. s\<lparr>FranchiseCache := f s\<rparr>))"
    "silent.may (changes (\<lambda>s. s\<lparr>ExampleCache := g s\<rparr>))" for f g
    by (auto simp: silent_def intro: silent.may_changes)
  show fr: "silent.may (franchises E D a)"
    unfolding franchises_def Let_def by (intro silent.may_rules silent_primitives cache)
  show "silent.may (franchiseNext E D a r)"
    unfolding franchiseNext_def by (intro silent.may_rules silent_primitives fr)
  show "silent.may (example E e)"
    unfolding example_def Let_def by (intro silent.may_rules silent_primitives cache)
  show "silent.may (history E a)"
    unfolding history_def by (intro silent.may_rules silent_primitives)
qed

lemma silent_derive [simp, intro]: "silent.may (derive_examples E h xs n)"
  by (induction h arbitrary: xs n) (auto intro!: silent.may_rules)

lemma silent_examplesFrom [simp, intro]: "silent.may (examplesFrom E h)"
  unfolding examplesFrom_def Let_def by (intro silent.may_rules silent_derive)

lemma silent_promptContext [simp, intro]: "silent.may (promptContext E D a r)"
  unfolding promptContext_def by (intro silent.may_rules silent_gather silent_examplesFrom)


lemma run_example:
  "run_state (example E e) s = (r, s') \<Longrightarrow>
     (\<exists>x. map_of (ExampleCache s) (ActivityID e) = Some x \<and> r = Some x \<and> s' = s)
     \<or> map_of (ExampleCache s) (ActivityID e) = None \<and> r = None \<and> ExampleCache s' = ExampleCache s
     \<or> map_of (ExampleCache s) (ActivityID e) = None \<and> (\<exists>x. r = Some x \<and> ETitle x = NamedTitle.Title e
          \<and> ELanguage x \<in> {German, English} \<and> ExampleCache s' = AList.update (ActivityID e) x (ExampleCache s))"
  by (auto simp: example_def GetActivityCall_def mk_example_def exampleLanguage_def Let_def
      split: option.splits sum.splits prod.splits if_splits)

text \<open>
  The cache keeps what it derived under the activity, title included: a row whose title the
  athlete has since changed is still taught, and forbidden, under the old one.
\<close>

lemma example_outlives_rename:
  assumes "run_state (example E e) s = (Some x, s1)" "ActivityID e' = ActivityID e"
  shows "run_state (example E e') (s1\<lparr>World := w, SStore := m\<rparr>) = (Some x, s1\<lparr>World := w, SStore := m\<rparr>)"
proof -
  have "map_of (ExampleCache s1) (ActivityID e) = Some x"
    using run_example [OF assms(1)] by (auto simp: update_conv')
  with assms(2) show ?thesis by (simp add: example_def)
qed

definition taught :: "(int \<times> Example) list \<Rightarrow> NamedTitle list \<Rightarrow> Example \<Rightarrow> bool" where
  "taught cache h x \<longleftrightarrow> (\<exists>e \<in> set h. map_of cache (ActivityID e) = Some x \<or>
     ETitle x = NamedTitle.Title e \<and> ELanguage x \<in> {German, English})"

lemma derive_examples_taught:
  assumes "run_state (derive_examples E h xs n) s = (ys, s')" "length xs \<le> exampleCount"
    "list_all (taught c (g @ h)) xs" "\<And>i x. map_of (ExampleCache s) i = Some x \<Longrightarrow>
       map_of c i = Some x \<or> taught c g x"
  shows "length ys \<le> exampleCount \<and> list_all (taught c (g @ h)) ys"
  using assms
proof (induction h arbitrary: xs n s g)
  case (Cons e h)
  show ?case
  proof (cases "length xs \<ge> exampleCount \<or> n \<ge> maxExampleFailures")
    case True
    with Cons.prems show ?thesis by auto
  next
    case False
    obtain r s1 where r: "run_state (example E e) s = (r, s1)" by fastforce
    have mono: "taught c g x \<Longrightarrow> taught c (g @ [e]) x" for x by (auto simp: taught_def)
    have cache: "map_of (ExampleCache s1) i = Some x \<Longrightarrow> map_of c i = Some x \<or> taught c (g @ [e]) x" for i x
      using run_example [OF r] Cons.prems(4) mono
      by (auto simp: update_conv' split: if_splits) (auto simp: taught_def)
    show ?thesis
    proof (cases r)
      case None
      with Cons.prems(1) False r have "run_state (derive_examples E h xs (n + 1)) s1 = (ys, s')" by simp
      from Cons.IH [OF this, of "g @ [e]"] Cons.prems(2,3) cache show ?thesis by simp
    next
      case (Some x)
      with Cons.prems(1) False r have run: "run_state (derive_examples E h (xs @ [x]) n) s1 = (ys, s')" by simp
      have "taught c (g @ e # h) x"
        using run_example [OF r] Some Cons.prems(4) by (fastforce simp: taught_def)
      with Cons.IH [OF run, of "g @ [e]"] Cons.prems(3) cache False show ?thesis by simp
    qed
  qed
qed simp

text \<open>
  Which series are an athlete's: those the service was built with; or those resolved before, which a
  process keeps; or the ones of the stored document, and the shipped profile where there is none or it
  cannot be read. Nothing that runs before \<open>franchises\<close> in a naming touches what was resolved.
\<close>

definition athletes_series :: "deps \<Rightarrow> int \<Rightarrow> 'w sys \<Rightarrow> Franchise list \<Rightarrow> bool" where
  "athletes_series D athlete s fs \<longleftrightarrow>
     (case DFranchises D of
        Some configured \<Rightarrow> fs = configured
      | None \<Rightarrow>
          (case map_of (FranchiseCache s) athlete of
             Some cached \<Rightarrow> fs = cached
           | None \<Rightarrow> fs = DefaultProfile \<or>
               (\<exists>c. GetAthleteConfig (SStore s) athlete = Some c \<and> fs = FranchisesFromStored (Franchises c))))"

lemma run_franchises: "run_state (franchises E D athlete) s = (fs, s') \<Longrightarrow> athletes_series D athlete s fs"
  by (auto simp: franchises_def athletes_series_def run_store_read Let_def
      split: option.splits prod.splits if_splits)

definition series_stay :: "'w sys \<Rightarrow> 'w sys \<Rightarrow> bool" where
  "series_stay s t \<longleftrightarrow> FranchiseCache t = FranchiseCache s"

interpretation series_stay: effect series_stay
  by unfold_locales (simp_all add: series_stay_def)

lemma series_stay_call [simp, intro]: "series_stay.may (call f)" "series_stay.may (store_read E g)"
    "series_stay.may (GetActivityCall E i)"
  by (auto intro!: series_stay.mayI simp: series_stay_def run_store_read GetActivityCall_def split: prod.splits)

lemma series_stay_history: "series_stay.may (history E athlete)"
  unfolding history_def by (intro series_stay.may_rules series_stay_call)

lemma series_stay_examples: "series_stay.may (examplesFrom E titles)"
proof -
  have "series_stay.may (changes (\<lambda>s. s\<lparr>ExampleCache := g s\<rparr>))" for g
    by (auto simp: series_stay_def intro: series_stay.may_changes)
  then have "series_stay.may (example E e)" for e
    unfolding example_def Let_def by (intro series_stay.may_rules series_stay_call)
  then have "series_stay.may (derive_examples E h xs n)" for h xs n
    by (induction h arbitrary: xs n) (auto intro!: series_stay.may_rules)
  then show ?thesis unfolding examplesFrom_def Let_def by (intro series_stay.may_rules)
qed

lemma athletes_series_same:
  "series_stay s t \<Longrightarrow> SStore t = SStore s \<Longrightarrow> athletes_series D athlete t fs = athletes_series D athlete s fs"
  by (simp add: series_stay_def athletes_series_def split: option.splits)

lemma franchiseNext_offers:
  assumes "run_state (franchiseNext E D athlete ride) s = ((entry, i, f), s')" and "entry \<noteq> []"
  shows "\<exists>fs. athletes_series D athlete s fs
    \<and> FranchiseFor (Unicode E) fs (RSportType ride) (RGearName ride) = Some f
    \<and> next_entry (Unicode E) f (FranchisePosition (SStore s) athlete (FName f)) entry i"
proof -
  let ?U = "Unicode E"
  obtain fs s1 where fs: "run_state (franchises E D athlete) s = (fs, s1)" by fastforce
  have q: "silent s s1" by (rule silent.mayD [OF _ fs]) simp
  obtain g where g: "FranchiseFor ?U fs (RSportType ride) (RGearName ride) = Some g"
    using assms fs by (cases "FranchiseFor ?U fs (RSportType ride) (RGearName ride)")
      (auto simp: franchiseNext_def)
  have "offer ?U g (Some (FranchisePosition (SStore s) athlete (FName g))) = (entry, i, f)"
    using assms fs g q
    by (auto simp: franchiseNext_def run_store_read silent_def offer_def [of _ _ None] split: prod.splits if_splits)
  then have "f = g" "Next ?U f (FranchisePosition (SStore s) athlete (FName f)) = Some (entry, i)"
    using assms(2) by (auto simp: offer_def split: option.splits if_splits)
  with g run_franchises [OF fs] Next_entry show ?thesis by blast
qed

section \<open>Properties\<close>

text \<open>Only the athlete teaches: the examples of a prompt are the shipped synthetic set, or at most
  six, each for a row of the history whose source is the athlete's own hand, carrying that row's
  title and a language, or what the cache holds for that row's activity.\<close>

theorem examples_from_human:
  assumes "run_state (examplesFrom E titles) s = (xs, s')"
  shows "xs = SyntheticExamples \<or> length xs \<le> 6 \<and> list_all (\<lambda>x. \<exists>e \<in> set titles. Source e = SourceHuman
    \<and> (map_of (ExampleCache s) (ActivityID e) = Some x
       \<or> ETitle x = NamedTitle.Title e \<and> ELanguage x \<in> {German, English})) xs"
proof (cases "teachesStyle titles = []")
  case True
  with assms show ?thesis by (simp add: examplesFrom_def)
next
  case False
  obtain ys s1 where ys: "run_state (derive_examples E (teachesStyle titles) [] 0) s = (ys, s1)" by fastforce
  have "length ys \<le> exampleCount \<and> list_all (taught (ExampleCache s) ([] @ teachesStyle titles)) ys"
    by (rule derive_examples_taught [OF ys]) simp_all
  with assms False ys show ?thesis
    by (auto simp: examplesFrom_def Let_def exampleCount_def taught_def teachesStyle_def list_all_iff split: if_splits)
qed

lemma examples_from_human_witness:
  "length (fst (run_state (examplesFrom sample_env
     [\<lparr>ActivityID = 2, Title = ''A'', Language = ''de'', Source = SourceHuman, NamedAt = 0\<rparr>]) sample_start)) \<le> 6"
proof -
  let ?h = "[\<lparr>ActivityID = 2, Title = ''A'', Language = ''de'', Source = SourceHuman, NamedAt = 0\<rparr>]"
  obtain xs s' where run: "run_state (examplesFrom sample_env ?h) sample_start = (xs, s')" by fastforce
  have "length SyntheticExamples \<le> 6" by (simp add: SyntheticExamples_def)
  with examples_from_human [OF run] run show ?thesis by auto
qed

lemma offerable_B: "Offerable latin1 ''B''" "\<not> IsReserved latin1 sample_series ''B''"
  "IsReserved latin1 sample_series ''A''"
  by (simp_all add: Offerable_def core_words_def match_words_def str_fields_def fields_func_def fields_by_def
      map_runes_def match_rune_def IsReserved_def SameEntry_def equal_fold_def sample_series_def trim_space_def
      latin1_def latin_lower_def is_space_def bytes_of_def List.map_filter_def word_rune_def encode_def
      encode_scalar_def scalar_def ascii_letter_def ascii_upper_def MaxTitleRunes_def)

lemma sample_offer:
  "run_state (franchiseNext sample_env (sample_deps\<lparr>DFranchises := Some [sample_series]\<rparr>) 7
     sample_ride) sample_start = ((''B'', 1, sample_series), sample_start)"
  using offerable_B
  by (simp add: franchiseNext_def franchises_def FranchiseFor_def Applies_def run_store_read offer_def
      Next_def sample_series_def FranchisePosition_def NewProcessor_def NewMemory_def sample_start_def)

text \<open>A series survives its document: what a stored document yields is written back and read again
  unchanged, every series it yields has a name, no name or gear carries surrounding blanks, and the
  shipped profile is read back from the document it seeds.\<close>

theorem series_roundtrip:
  "FranchisesFromStored (FranchisesToStored (FranchisesFromStored stored)) = FranchisesFromStored stored
   \<and> FranchisesFromStored (FranchisesToStored DefaultProfile) = DefaultProfile
   \<and> list_all (\<lambda>f. FName f \<noteq> [] \<and> trim_space (FName f) = FName f \<and> trim_space (FGearName f) = FGearName f)
       (FranchisesFromStored stored)"
proof (intro conjI)
  show "FranchisesFromStored (FranchisesToStored (FranchisesFromStored stored)) = FranchisesFromStored stored"
    by (induction stored) (auto simp: FranchisesToStored_def Let_def)
  show "list_all (\<lambda>f. FName f \<noteq> [] \<and> trim_space (FName f) = FName f \<and> trim_space (FGearName f) = FGearName f)
      (FranchisesFromStored stored)"
    by (induction stored) (auto simp: Let_def)
  have "trim_space ''pink-panther'' = ''pink-panther''" "trim_space ''Pink Panther'' = ''Pink Panther''"
    by (simp_all add: trim_space_def is_space_def bytes_of_def)
  then show "FranchisesFromStored (FranchisesToStored DefaultProfile) = DefaultProfile"
    by (simp add: DefaultProfile_def FranchisesToStored_def)
qed

end
