(* ===== verification/Produce.thy ===== *)
theory Produce
  imports Gather
begin

text \<open>
  \<^verbatim>\<open>internal/processor/title.go\<close>: the title for an activity the classifier has cleared, from a
  template or from the model, and every check a model's title passes.
\<close>

record titled =
  TText :: string
  TLanguage :: Language
  TFranchise :: string
  TFranchiseEntry :: string
  TFranchiseIndex :: int
  TSource :: string

definition template_title :: "string \<Rightarrow> titled" where
  "template_title text = \<lparr>TText = text, TLanguage = German, TFranchise = [], TFranchiseEntry = [],
     TFranchiseIndex = 0, TSource = SourceTemplate\<rparr>"

section \<open>The ride (achievementsOf, gearName, geography)\<close>

definition maxAchievements :: nat where "maxAchievements = 6"

definition maxGearNameRunes :: nat where "maxGearNameRunes = 60"

definition notableEffort :: "SegmentEffort \<Rightarrow> bool" where
  "notableEffort e \<longleftrightarrow> PRRank e \<ge> 1 \<and> PRRank e \<le> 3 \<or> length (Achievements e) > 0"

definition effort_name :: "SegmentEffort \<Rightarrow> string" where
  "effort_name e =
     (let name = trim_space (EffortName e) in if name = [] then trim_space (SegmentName e) else name)"

fun pick_efforts :: "tables \<Rightarrow> SegmentEffort list \<Rightarrow> string list \<Rightarrow> string list \<Rightarrow> string list" where
  "pick_efforts U [] seen names = names"
| "pick_efforts U (e # es) seen names =
     (if length names \<ge> maxAchievements then names
      else if \<not> notableEffort e then pick_efforts U es seen names
      else let name = effort_name e; key = to_lower U name in
        if name = [] \<or> key \<in> set seen then pick_efforts U es seen names
        else pick_efforts U es (key # seen) (names @ [name]))"

definition achievementsOf :: "tables \<Rightarrow> StravaActivity \<Rightarrow> string list" where
  "achievementsOf U a = pick_efforts U (ASegmentEfforts a) [] []"

definition sanitizeGearName :: "string \<Rightarrow> string" where
  "sanitizeGearName name =
     (let n = squeeze (map_runes
            (\<lambda>r. Some (if r = 10 \<or> r = 13 \<or> r = 9 \<or> is_control r then 32 else r)) name)
      in if length (runes n) > maxGearNameRunes
         then string_of_runes (take maxGearNameRunes (runes n)) else n)"

definition gearName_of :: "'w env \<Rightarrow> string \<Rightarrow> ('w sys, string) state" where
  "gearName_of E gear_id =
     (if gear_id = [] then return []
      else do {
        cache \<leftarrow> reads GearCache;
        case map_of cache gear_id of
          Some cached \<Rightarrow> return cached
        | None \<Rightarrow> do {
            r \<leftarrow> call (get_gear E gear_id);
            case r of
              Inl _ \<Rightarrow> return []
            | Inr gear \<Rightarrow> do {
                let name = sanitizeGearName (GearTitle gear);
                changes (\<lambda>s. s\<lparr>GearCache := AList.update gear_id name (GearCache s)\<rparr>);
                return name } } })"

definition geography :: "'w env \<Rightarrow> deps \<Rightarrow> StravaActivity \<Rightarrow> ('w sys, proc_error + Summary) state" where
  "geography E D a =
     (if \<not> HasGeo D \<or> ASummaryPolyline a = [] then return (Inr no_summary)
      else check (call (describe_places E (ASummaryPolyline a))) ResolveGeography (\<lambda>s. return (Inr s)))"

definition base_ride :: "tables \<Rightarrow> StravaActivity \<Rightarrow> string \<Rightarrow> Ride" where
  "base_ride U a gear =
     \<lparr>RSportType = ASportType a, DistanceKm = ADistance a / 1000,
      MovingTimeMinutes = go_div (AMovingTime a) 60, ElevationGainMeters = ATotalElevGain a,
      AverageSpeedKmh = AAverageSpeed a * 3.6, StartLocal = AStartDateLocal a, RGearName = gear,
      RPlaces = [], RRegion = [], RCountry = [], RAchievements = achievementsOf U a,
      RFacts = ParseFacts U (ADescription a)\<rparr>"

section \<open>Asking the model (ask, complete)\<close>

text \<open>The checks of \<^verbatim>\<open>ask\<close> on what came back, in order.\<close>

definition vet :: "tables \<Rightarrow> json_decoder \<Rightarrow> Validator \<Rightarrow> Guarded \<Rightarrow> string list \<Rightarrow> string list \<Rightarrow> Figures \<Rightarrow>
    string \<Rightarrow> proc_error + Title" where
  "vet U decode v guard achievements forbidden stated raw =
     (case fst (ParseAndValidate U decode v raw) of
        Inl e \<Rightarrow> Inl (UnusableTitle e)
      | Inr title \<Rightarrow>
          if Claimed U guard (TitleText title) \<noteq> None then Inl (UnusableTitle ErrTitleClaimsEntry)
          else if CopiesAchievement U (TitleText title) achievements \<noteq> None
          then Inl (UnusableTitle ErrTitleCopiesSegment)
          else if RepeatsTitle U (TitleText title) forbidden \<noteq> None
          then Inl (UnusableTitle ErrTitleRepeatsKnown)
          else if UnstatedFigure U (TitleText title) stated \<noteq> None
          then Inl (UnusableTitle ErrTitleFiguresUnstated)
          else Inr title)"

definition ask :: "'w env \<Rightarrow> deps \<Rightarrow> Prompt \<Rightarrow> Guarded \<Rightarrow> string list \<Rightarrow> string list \<Rightarrow> Figures \<Rightarrow>
    ('w sys, proc_error + Title) state" where
  "ask E D prompt guard achievements forbidden stated =
     check (complete_call E prompt) ProviderFailed (\<lambda>raw.
       return (vet (Unicode E) (JSON E) (DValidator D) guard achievements forbidden stated raw))"

definition maxFranchiseOffers :: nat where "maxFranchiseOffers = 2"

text \<open>
  The loop of offers: \<open>n\<close> is how many are left, \<open>again\<close> one more call with the same prompt,
  \<open>plain\<close> the call without the series.
\<close>

primrec offers :: "(string \<Rightarrow> bool) \<Rightarrow> ('s, 'e + Title) state \<Rightarrow> ('s, 'e + Title) state \<Rightarrow> nat \<Rightarrow> Title \<Rightarrow>
    ('s, 'e + (Title \<times> bool)) state" where
  "offers uses again plain 0 title = return (Inr (title, False))"
| "offers uses again plain (Suc n) title =
     (if uses (TitleText title) then return (Inr (title, True))
      else if n = 0 then do {
        r \<leftarrow> plain;
        return (case r of Inl _ \<Rightarrow> Inr (title, False) | Inr plainTitle \<Rightarrow> Inr (plainTitle, False)) }
      else do {
        r \<leftarrow> again;
        case r of Inl _ \<Rightarrow> return (Inr (title, False)) | Inr retry \<Rightarrow> offers uses again plain n retry })"

definition offered_ask :: "'w env \<Rightarrow> deps \<Rightarrow> Ride \<Rightarrow> gathered \<Rightarrow> ('w sys, proc_error + Title) state" where
  "offered_ask E D ride g =
     (let U = Unicode E; entry = FranchiseNext (GContext g);
          prompt = BuildPrompt ride (GContext g)
      in ask E D prompt (Guard U (GSeries g) entry) (RAchievements ride) (ForbiddenTitles (GContext g))
           (StatedFigures U (User prompt) [entry]))"

definition plain_ask :: "'w env \<Rightarrow> deps \<Rightarrow> Ride \<Rightarrow> gathered \<Rightarrow> ('w sys, proc_error + Title) state" where
  "plain_ask E D ride g =
     (let U = Unicode E;
          prompt = BuildPrompt ride ((GContext g)\<lparr>FranchiseNext := []\<rparr>)
      in ask E D prompt (Guard U (GSeries g) []) (RAchievements ride) (ForbiddenTitles (GContext g))
           (StatedFigures U (User prompt) []))"

definition complete :: "'w env \<Rightarrow> deps \<Rightarrow> Ride \<Rightarrow> gathered \<Rightarrow> ('w sys, proc_error + (Title \<times> bool)) state" where
  "complete E D ride g =
     (let entry = FranchiseNext (GContext g) in
      check (offered_ask E D ride g) id (\<lambda>title.
        if entry = [] then return (Inr (title, False))
        else offers (\<lambda>t. UsesEntry (Unicode E) t entry) (offered_ask E D ride g) (plain_ask E D ride g)
               maxFranchiseOffers title))"

section \<open>The title (llmTitle, errandTitle, title)\<close>

definition service_title :: "gathered \<Rightarrow> Title \<Rightarrow> bool \<Rightarrow> titled" where
  "service_title g title used =
     \<lparr>TText = TitleText title, TLanguage = TitleLanguage title,
      TFranchise = (if used then FName (GSeries g) else []),
      TFranchiseEntry = (if used then FranchiseNext (GContext g) else []),
      TFranchiseIndex = (if used then GFranchiseIndex g else 0), TSource = SourceService\<rparr>"

definition locate :: "'w env \<Rightarrow> deps \<Rightarrow> StravaActivity \<Rightarrow> Action \<Rightarrow> Ride \<Rightarrow> ('w sys, proc_error + Ride) state" where
  "locate E D a act ride =
     (if act = ActionLLM then
        check (geography E D a) id (\<lambda>summary. return (Inr (ride\<lparr>RPlaces := Names summary,
          RRegion := SummaryRegion summary, RCountry := SummaryCountry summary\<rparr>)))
      else return (Inr ride))"

definition llmTitle :: "'w env \<Rightarrow> deps \<Rightarrow> int \<Rightarrow> StravaActivity \<Rightarrow> Decision \<Rightarrow>
    ('w sys, proc_error + titled) state" where
  "llmTitle E D athlete a d =
     (if \<not> HasProvider D then return (Inl NoProvider)
      else do {
        gear \<leftarrow> gearName_of E (AGearID a);
        check (locate E D a (ActionOf d) (base_ride (Unicode E) a gear)) id (\<lambda>ride.
        check (promptContext E D athlete ride) id (\<lambda>g.
        check (complete E D ride g) id (\<lambda>(title, used).
          return (Inr (service_title g title used))))) })"

text \<open>\<^verbatim>\<open>%\<close> truncates, so a negative identifier indexes below the pool.\<close>

definition errandTitle :: "StravaActivity \<Rightarrow> string option" where
  "errandTitle a =
     (let pool = DefaultErrandTitles; index = go_mod (AID a) (int (length pool)) in
      if index < 0 then None else Some (pool ! nat index))"

definition title_of :: "'w env \<Rightarrow> deps \<Rightarrow> int \<Rightarrow> StravaActivity \<Rightarrow> Decision \<Rightarrow>
    ('w sys, proc_error + titled) state" where
  "title_of E D athlete a d =
     (case ActionOf d of
        ActionCommuteTemplate \<Rightarrow>
          return (Inr (template_title (CommuteTitle (ClassifierConfig D) (DirectionOf d))))
      | ActionErrandTemplate \<Rightarrow>
          return (case errandTitle a of None \<Rightarrow> Inl IndexPanic | Some text \<Rightarrow> Inr (template_title text))
      | ActionLLM \<Rightarrow> llmTitle E D athlete a d
      | ActionLLMIndoor \<Rightarrow> llmTitle E D athlete a d
      | ActionSkip \<Rightarrow> return (Inl UnhandledAction))"

section \<open>Producing a title changes nothing but caches\<close>

lemma quiet_ask [simp, intro]: "quiet.may (ask E D p g a f s)"
  unfolding ask_def by (intro quiet.may_rules quiet_complete_call)

lemma quiet_offers: "quiet.may again \<Longrightarrow> quiet.may plain \<Longrightarrow> quiet.may (offers uses again plain n t)"
  by (induction n arbitrary: t) (auto intro!: quiet.may_rules)

lemma quiet_complete [simp, intro]: "quiet.may (complete E D ride g)"
  unfolding complete_def offered_ask_def plain_ask_def Let_def
  by (intro quiet.may_rules quiet_offers quiet_ask)

lemma silent_gearName [simp, intro]: "silent.may (gearName_of E i)"
proof -
  have "silent.may (changes (\<lambda>s. s\<lparr>GearCache := f s\<rparr>))" for f
    by (auto simp: silent_def intro: silent.may_changes)
  then show ?thesis unfolding gearName_of_def Let_def by (intro silent.may_rules silent_call)
qed

lemma silent_locate [simp, intro]: "silent.may (locate E D a act ride)"
  unfolding locate_def geography_def by (intro silent.may_rules silent_call)

lemma quiet_llmTitle [simp, intro]: "quiet.may (llmTitle E D athlete a d)"
  unfolding llmTitle_def
  by (intro quiet.may_rules silent_quiet [OF silent_gearName] silent_quiet [OF silent_locate]
      silent_quiet [OF silent_promptContext] quiet_complete)

lemma quiet_title_of [simp, intro]: "quiet.may (title_of E D athlete a d)"
  unfolding title_of_def by (cases "ActionOf d") (simp_all add: quiet.may_return)


section \<open>What the model's title has passed\<close>

lemma run_ask:
  "run_state (ask E D p g a f s0) s = (r, s') \<Longrightarrow>
     Prompts s' = Prompts s @ [p] \<and>
     (\<forall>t. r = Inr t \<longrightarrow> (\<exists>raw. vet (Unicode E) (JSON E) (DValidator D) g a f s0 raw = Inr t))"
  by (auto simp: ask_def complete_call_def split: prod.splits sum.splits)

text \<open>Each program of \<open>offers\<close> is \<open>again\<close> or \<open>plain\<close>; the title was in hand or came from one of them.\<close>

lemma run_offers:
  assumes "run_state (offers uses again plain n t) s = (r, s')"
    "\<And>s x s'. run_state again s = (x, s') \<Longrightarrow> Prompts s' = Prompts s @ [p] \<and> (\<forall>u. x = Inr u \<longrightarrow> A u)"
    "\<And>s x s'. run_state plain s = (x, s') \<Longrightarrow> Prompts s' = Prompts s @ [q] \<and> (\<forall>u. x = Inr u \<longrightarrow> B u)"
    "A t"
  shows "(\<exists>ps. Prompts s' = Prompts s @ ps \<and> length ps \<le> n \<and> set ps \<subseteq> {p, q}) \<and>
    (\<exists>u used. r = Inr (u, used) \<and> (A u \<or> B u \<and> \<not> used) \<and> (used \<longrightarrow> uses (TitleText u)))"
  using assms(1,4)
proof (induction n arbitrary: t s)
  case (Suc n)
  consider (used) "uses (TitleText t)" | (last) "\<not> uses (TitleText t)" "n = 0" | (more) "\<not> uses (TitleText t)" "n \<noteq> 0"
    by blast
  then show ?case
  proof cases
    case used
    with Suc.prems show ?thesis by auto
  next
    case last
    obtain x s1 where x: "run_state plain s = (x, s1)" by fastforce
    from assms(3) [OF this] last Suc.prems x show ?thesis by (cases x) auto
  next
    case more
    obtain x s1 where x: "run_state again s = (x, s1)" by fastforce
    show ?thesis
    proof (cases x)
      case (Inl e)
      with assms(2) [OF x] more Suc.prems x show ?thesis by auto
    next
      case (Inr u)
      with more Suc.prems x have "run_state (offers uses again plain n u) s1 = (r, s')" by simp
      from Suc.IH [OF this] assms(2) [OF x] Inr
      obtain ps where ps: "Prompts s' = Prompts s1 @ ps" "length ps \<le> n" "set ps \<subseteq> {p, q}"
        and rest: "\<exists>u used. r = Inr (u, used) \<and> (A u \<or> B u \<and> \<not> used) \<and> (used \<longrightarrow> uses (TitleText u))"
        by blast
      have "Prompts s' = Prompts s @ (p # ps)" "length (p # ps) \<le> Suc n" "set (p # ps) \<subseteq> {p, q}"
        using ps assms(2) [OF x] by auto
      with rest show ?thesis by blast
    qed
  qed
qed auto

definition plain_context :: "gathered \<Rightarrow> Context" where
  "plain_context g = (GContext g)\<lparr>FranchiseNext := []\<rparr>"

text \<open>The two vettings a completed title can have passed.\<close>

definition offered_vet :: "'w env \<Rightarrow> deps \<Rightarrow> Ride \<Rightarrow> gathered \<Rightarrow> Title \<Rightarrow> bool" where
  "offered_vet E D ride g t \<longleftrightarrow> (\<exists>raw. vet (Unicode E) (JSON E) (DValidator D)
     (Guard (Unicode E) (GSeries g) (FranchiseNext (GContext g))) (RAchievements ride)
     (ForbiddenTitles (GContext g))
     (StatedFigures (Unicode E) (User (BuildPrompt ride (GContext g))) [FranchiseNext (GContext g)])
     raw = Inr t)"

definition plain_vet :: "'w env \<Rightarrow> deps \<Rightarrow> Ride \<Rightarrow> gathered \<Rightarrow> Title \<Rightarrow> bool" where
  "plain_vet E D ride g t \<longleftrightarrow> (\<exists>raw. vet (Unicode E) (JSON E) (DValidator D)
     (Guard (Unicode E) (GSeries g) []) (RAchievements ride) (ForbiddenTitles (GContext g))
     (StatedFigures (Unicode E) (User (BuildPrompt ride (plain_context g))) []) raw = Inr t)"

lemma run_complete:
  assumes "run_state (complete E D ride g) s = (r, s')"
  shows "(\<exists>ps. Prompts s' = Prompts s @ ps \<and> length ps \<le> (if FranchiseNext (GContext g) = [] then 1 else 3)
      \<and> set ps \<subseteq> {BuildPrompt ride (GContext g), BuildPrompt ride (plain_context g)})
    \<and> (\<forall>t used. r = Inr (t, used) \<longrightarrow> (offered_vet E D ride g t \<or> plain_vet E D ride g t \<and> \<not> used)
      \<and> (used \<longrightarrow> FranchiseNext (GContext g) \<noteq> [] \<and> UsesEntry (Unicode E) (TitleText t) (FranchiseNext (GContext g))))"
proof -
  let ?e = "FranchiseNext (GContext g)"
  let ?p = "BuildPrompt ride (GContext g)"
  let ?q = "BuildPrompt ride (plain_context g)"
  have again: "Prompts s' = Prompts s @ [?p] \<and> (\<forall>u. x = Inr u \<longrightarrow> offered_vet E D ride g u)"
    if "run_state (offered_ask E D ride g) s = (x, s')" for s x s'
    using run_ask [OF that [unfolded offered_ask_def Let_def]] by (simp add: offered_vet_def)
  have plain: "Prompts s' = Prompts s @ [?q] \<and> (\<forall>u. x = Inr u \<longrightarrow> plain_vet E D ride g u)"
    if "run_state (plain_ask E D ride g) s = (x, s')" for s x s'
    using run_ask [OF that [unfolded plain_ask_def Let_def]] by (simp add: plain_vet_def plain_context_def)
  obtain x s1 where x: "run_state (offered_ask E D ride g) s = (x, s1)" by fastforce
  show ?thesis
  proof (cases x)
    case (Inl e)
    with again [OF x] x assms show ?thesis by (auto simp: complete_def intro!: exI [of _ "[?p]"])
  next
    case (Inr t)
    show ?thesis
    proof (cases "?e = []")
      case True
      with again [OF x] x Inr assms show ?thesis by (auto simp: complete_def intro!: exI [of _ "[?p]"])
    next
      case False
      with x Inr assms have "run_state (offers (\<lambda>t. UsesEntry (Unicode E) t ?e) (offered_ask E D ride g)
        (plain_ask E D ride g) 2 t) s1 = (r, s')"
        by (simp add: complete_def maxFranchiseOffers_def)
      from run_offers [OF this again plain] again [OF x] Inr
      obtain ps u used where u: "Prompts s' = Prompts s1 @ ps" "length ps \<le> 2" "set ps \<subseteq> {?p, ?q}"
        "r = Inr (u, used)" "offered_vet E D ride g u \<or> plain_vet E D ride g u \<and> \<not> used"
        "used \<longrightarrow> UsesEntry (Unicode E) (TitleText u) ?e" by blast
      have "Prompts s' = Prompts s @ (?p # ps)" "length (?p # ps) \<le> 3" "set (?p # ps) \<subseteq> {?p, ?q}"
        using u again [OF x] by auto
      with u False show ?thesis by (intro conjI exI [of _ "?p # ps"]) auto
    qed
  qed
qed


lemma vet_Inr:
  assumes "vet U decode v guard achievements forbidden stated raw = Inr t"
  shows "Validate U v (TitleText t) (TitleLanguage t) = Inr t \<and> Claimed U guard (TitleText t) = None
    \<and> CopiesAchievement U (TitleText t) achievements = None \<and> RepeatsTitle U (TitleText t) forbidden = None
    \<and> UnstatedFigure U (TitleText t) stated = None"
proof -
  from assms have "fst (ParseAndValidate U decode v raw) = Inr t"
    by (auto simp: vet_def split: sum.splits if_splits)
  then have "Validate U v (TitleText t) (TitleLanguage t) = Inr t"
    by (auto simp: ParseAndValidate_def intro: Validate_again split: prod.splits option.splits if_splits)
  with assms show ?thesis by (auto simp: vet_def split: sum.splits if_splits)
qed

text \<open>A guard that releases nothing refuses whatever one that releases an entry refuses.\<close>

lemma Claimed_unreleased:
  assumes "Claimed U (Guard U f []) title = None"
  shows "Claimed U (Guard U f offered) title = None"
proof -
  have "claims U (Guard U f offered) = claims U (Guard U f [])"
    by (intro ext) (simp add: claims_def isMotif_def Guard_def)
  moreover have "set (entries (Guard U f offered)) \<subseteq> set (entries (Guard U f []))"
    by (auto simp: Guard_def)
  ultimately show ?thesis
    using assms unfolding Claimed_def find_None_iff by auto
qed

text \<open>What a title that spends an entry of a series carries.\<close>

definition spends :: "'w env \<Rightarrow> deps \<Rightarrow> int \<Rightarrow> StravaActivity \<Rightarrow> 'w sys \<Rightarrow> titled \<Rightarrow> bool" where
  "spends E D athlete a s t \<longleftrightarrow> UsesEntry (Unicode E) (TText t) (TFranchiseEntry t) \<and>
     (\<exists>fs f. athletes_series D athlete s fs
        \<and> FranchiseFor (Unicode E) fs (ASportType a) (fst (run_state (gearName_of E (AGearID a)) s)) = Some f
        \<and> FName f = TFranchise t
        \<and> next_entry (Unicode E) f (FranchisePosition (SStore s) athlete (FName f)) (TFranchiseEntry t) (TFranchiseIndex t))"

lemma promptContext_offers:
  assumes "run_state (promptContext E D athlete ride) s = (Inr g, s')" "FranchiseNext (GContext g) \<noteq> []"
  shows "\<exists>fs. athletes_series D athlete s fs
    \<and> FranchiseFor (Unicode E) fs (RSportType ride) (RGearName ride) = Some (GSeries g)
    \<and> next_entry (Unicode E) (GSeries g) (FranchisePosition (SStore s) athlete (FName (GSeries g)))
        (FranchiseNext (GContext g)) (GFranchiseIndex g)"
proof -
  obtain h s1 where h: "run_state (history E athlete) s = (h, s1)" by fastforce
  then obtain titles where titles: "h = Inr titles" using assms(1) by (cases h) (auto simp: promptContext_def)
  obtain xs s2 where xs: "run_state (examplesFrom E titles) s1 = (xs, s2)" by fastforce
  obtain e i f s3 where fr: "run_state (franchiseNext E D athlete ride) s2 = ((e, i, f), s3)"
    by (metis prod.collapse)
  have g: "FranchiseNext (GContext g) = e" "GSeries g = f" "GFranchiseIndex g = i"
    using assms(1) h titles xs fr by (auto simp: promptContext_def)
  have st: "SStore s2 = SStore s"
    using silent.mayD [OF silent_gather(4) h] silent.mayD [OF silent_examplesFrom xs] by (simp add: silent_def)
  have "series_stay s s2"
    by (rule series_stay.compose) (rule series_stay.mayD [OF series_stay_history h] series_stay.mayD [OF series_stay_examples xs])+
  note same = athletes_series_same [OF this st]
  from franchiseNext_offers [OF fr] assms(2) g(1) have "\<exists>fs. athletes_series D athlete s2 fs
      \<and> FranchiseFor (Unicode E) fs (RSportType ride) (RGearName ride) = Some f
      \<and> next_entry (Unicode E) f (FranchisePosition (SStore s2) athlete (FName f)) e i" by simp
  then show ?thesis unfolding same st g .
qed

lemma series_stay_before:
  "series_stay.may (gearName_of E i)" "series_stay.may (locate E D a act ride)"
proof -
  have "series_stay.may (changes (\<lambda>s. s\<lparr>GearCache := f s\<rparr>))" for f
    by (auto simp: series_stay_def intro: series_stay.may_changes)
  then show "series_stay.may (gearName_of E i)"
    unfolding gearName_of_def Let_def by (intro series_stay.may_rules series_stay_call)
  show "series_stay.may (locate E D a act ride)"
    unfolding locate_def geography_def by (intro series_stay.may_rules series_stay_call)
qed

lemma locate_same:
  "run_state (locate E D a act ride) s = (Inr ride', s') \<Longrightarrow>
     RSportType ride' = RSportType ride \<and> RGearName ride' = RGearName ride"
  by (auto simp: locate_def geography_def split: if_splits sum.splits prod.splits)

lemma title_of_spends:
  assumes "run_state (title_of E D athlete a d) s = (Inr t, s')" "TFranchise t \<noteq> []"
  shows "spends E D athlete a s t"
proof -
  have llm: "run_state (llmTitle E D athlete a d) s = (Inr t, s')"
    using assms by (cases "ActionOf d") (auto simp: title_of_def template_title_def split: option.splits)
  then have "HasProvider D" by (simp add: llmTitle_def split: if_splits)
  obtain gear s1 where 1: "run_state (gearName_of E (AGearID a)) s = (gear, s1)" by fastforce
  obtain x s2 where 2: "run_state (locate E D a (ActionOf d) (base_ride (Unicode E) a gear)) s1 = (x, s2)"
    by fastforce
  then obtain ride where ride: "x = Inr ride"
    using llm 1 \<open>HasProvider D\<close> by (cases x) (auto simp: llmTitle_def)
  obtain y s3 where 3: "run_state (promptContext E D athlete ride) s2 = (y, s3)" by fastforce
  then obtain g where g: "y = Inr g"
    using llm 1 2 ride \<open>HasProvider D\<close> by (cases y) (auto simp: llmTitle_def)
  obtain z s4 where 4: "run_state (complete E D ride g) s3 = (z, s4)" by fastforce
  then obtain title used where z: "z = Inr (title, used)" "t = service_title g title used"
    using llm 1 2 3 ride g \<open>HasProvider D\<close> by (cases z) (auto simp: llmTitle_def)
  with assms(2) have used: used by (simp add: service_title_def split: if_splits)
  have st: "SStore s2 = SStore s"
    using silent.mayD [OF silent_gearName 1] silent.mayD [OF silent_locate 2] by (simp add: silent_def)
  have "series_stay s s2"
    by (rule series_stay.compose) (rule series_stay.mayD [OF series_stay_before(1) 1] series_stay.mayD [OF series_stay_before(2) 2])+
  note same = athletes_series_same [OF this st]
  have "RSportType ride = ASportType a" "RGearName ride = fst (run_state (gearName_of E (AGearID a)) s)"
    using locate_same [OF 2 [unfolded ride]] 1 by (simp_all add: base_ride_def)
  moreover from run_complete [OF 4] z used have "FranchiseNext (GContext g) \<noteq> []"
    "UsesEntry (Unicode E) (TitleText title) (FranchiseNext (GContext g))" by auto
  ultimately show ?thesis
    using promptContext_offers [OF 3 [unfolded g]] st used same
    by (auto simp: spends_def z(2) service_title_def)
qed

definition sample_gathered :: gathered where
  "sample_gathered = \<lparr>GContext = \<lparr>CRecentTitles = [], FranchiseNext = [], Examples = []\<rparr>,
     GSeries = no_franchise, GFranchiseIndex = 0\<rparr>"

definition talking_env :: "nat env" where
  "talking_env = sample_env\<lparr>JSON := (\<lambda>_. Some ((''B'', ''de''), 1)), complete_prompt := (\<lambda>p w. (Inr ''x'', w))\<rparr>"

lemma vet_B: "vet latin1 (\<lambda>_. Some ((''B'', ''de''), 1)) [] (Guard latin1 no_franchise []) [] [] stated ''x''
    = Inr \<lparr>TitleText = ''B'', TitleLanguage = ''de''\<rparr>"
proof -
  have "str_fields ''B'' = [''B'']" "trim_space ''x'' = ''x''" "trim_space ''de'' = ''de''"
    by (simp_all add: str_fields_def fields_func_def fields_by_def is_space_def bytes_of_def trim_space_def)
  moreover have "to_lower latin1 ''de'' = ''de''"
    by (simp add: to_lower_def map_runes_def latin1_def latin_lower_def ascii_upper_def map_filter_simps
        encode_def encode_scalar_def scalar_def char_of_def bit_Suc_0_iff)
  moreover have "figureTokens latin1 ''B'' = [mk_token tokenWord ''B'' ''b'']"
    by (simp add: figureTokens_def tokens.simps(2) latin1_def ascii_digit_def ascii_letter_def ascii_upper_def
        map_runes_def latin_lower_def map_filter_simps encode_def encode_scalar_def scalar_def char_of_def bit_Suc_0_iff)
  moreover have "map_of numberWords ''b'' = None" by (simp add: numberWords_def)
  ultimately show ?thesis
    by (simp add: vet_def ParseAndValidate_def unfence_def fence_def Validate_def squeeze_def Language_Valid_def
        German_def MaxTitleRunes_def checkShape_def quotation_def is_control_def isEmojiPart_def latin1_def
        Claimed_def Guard_def no_franchise_def CopiesAchievement_def RepeatsTitle_def UnstatedFigure_def
        halfHour_def mk_token_def covers_def Let_def)
qed

lemma sample_complete:
  "run_state (complete talking_env sample_deps sample_ride sample_gathered) sample_start =
     (Inr (\<lparr>TitleText = ''B'', TitleLanguage = ''de''\<rparr>, False),
      sample_start\<lparr>Prompts := [BuildPrompt sample_ride (GContext sample_gathered)]\<rparr>)"
proof -
  have "ForbiddenTitles (GContext sample_gathered) = []"
    by (simp add: ForbiddenTitles_def sample_gathered_def capTitles_def RecentTitleLimit_def)
  then show ?thesis
    using vet_B
    by (simp add: complete_def offered_ask_def ask_def complete_call_def talking_env_def sample_gathered_def
        sample_deps_def sample_ride_def Let_def)
      (simp add: sample_env_def sample_start_def NewProcessor_def)
qed

section \<open>Properties\<close>

text \<open>C5: No title of the model escapes a check: a title the completion returns is one the validator
  accepts unchanged, claims no entry of the ride's series but the one offered, is no segment's
  name, repeats no title the prompt shows or the history holds, and carries no figure beyond those
  the prompt it answers states; it is reported as using the offered entry only where it contains it.\<close>

theorem complete_accepts:
  assumes "run_state (complete E D ride g) s = (Inr (t, used), s')"
  shows "Validate (Unicode E) (DValidator D) (TitleText t) (TitleLanguage t) = Inr t
    \<and> Claimed (Unicode E) (Guard (Unicode E) (GSeries g) (FranchiseNext (GContext g))) (TitleText t) = None
    \<and> CopiesAchievement (Unicode E) (TitleText t) (RAchievements ride) = None
    \<and> RepeatsTitle (Unicode E) (TitleText t) (ForbiddenTitles (GContext g)) = None
    \<and> (\<exists>(ctx, also') \<in> {(GContext g, [FranchiseNext (GContext g)]), ((GContext g)\<lparr>FranchiseNext := []\<rparr>, [])}.
         UnstatedFigure (Unicode E) (TitleText t)
           (StatedFigures (Unicode E) (User (BuildPrompt ride ctx)) also') = None)
    \<and> (used \<longrightarrow> FranchiseNext (GContext g) \<noteq> [] \<and>
         UsesEntry (Unicode E) (TitleText t) (FranchiseNext (GContext g)))"
proof -
  from run_complete [OF assms]
  have v: "offered_vet E D ride g t \<or> plain_vet E D ride g t"
    and u: "used \<longrightarrow> FranchiseNext (GContext g) \<noteq> [] \<and>
         UsesEntry (Unicode E) (TitleText t) (FranchiseNext (GContext g))" by auto
  from v show ?thesis
  proof
    assume "offered_vet E D ride g t"
    then obtain raw where "vet (Unicode E) (JSON E) (DValidator D)
       (Guard (Unicode E) (GSeries g) (FranchiseNext (GContext g))) (RAchievements ride)
       (ForbiddenTitles (GContext g)) (StatedFigures (Unicode E)
         (User (BuildPrompt ride (GContext g))) [FranchiseNext (GContext g)]) raw = Inr t"
      by (auto simp: offered_vet_def)
    from vet_Inr [OF this] u show ?thesis by simp
  next
    assume "plain_vet E D ride g t"
    then obtain raw where "vet (Unicode E) (JSON E) (DValidator D)
       (Guard (Unicode E) (GSeries g) []) (RAchievements ride) (ForbiddenTitles (GContext g))
       (StatedFigures (Unicode E) (User (BuildPrompt ride (plain_context g))) []) raw = Inr t"
      by (auto simp: plain_vet_def)
    from vet_Inr [OF this] u show ?thesis by (simp add: Claimed_unreleased plain_context_def)
  qed
qed

lemma complete_accepts_witness:
  "Validate latin1 [] ''B'' ''de'' = Inr \<lparr>TitleText = ''B'', TitleLanguage = ''de''\<rparr>"
  using complete_accepts [OF sample_complete]
  by (simp add: talking_env_def) (simp add: sample_deps_def)

text \<open>The model is asked at most three times for one activity, once where no series entry is offered,
  and only ever with the prompt of that ride, with or without the entry; a template tier asks it
  nothing. Producing a title, by whichever tier, changes neither the store nor Strava.\<close>

theorem model_calls_bounded:
  assumes "run_state (title_of E D athlete a d) s = (r, s')"
  shows "\<exists>ps. Prompts s' = Prompts s @ ps
    \<and> length ps \<le> (if ActionOf d = ActionLLM \<or> ActionOf d = ActionLLMIndoor then 3 else 0)
    \<and> (\<exists>ride (g :: gathered). set ps \<subseteq> {BuildPrompt ride (GContext g),
          BuildPrompt ride ((GContext g)\<lparr>FranchiseNext := []\<rparr>)}
        \<and> (FranchiseNext (GContext g) = [] \<longrightarrow> length ps \<le> 1))
    \<and> SStore s' = SStore s \<and> Puts s' = Puts s"
proof -
  have q: "SStore s' = SStore s \<and> Puts s' = Puts s"
    using quiet.mayD [OF quiet_title_of assms] by (simp add: quiet_def)
  have llm: "\<exists>ps ride (g :: gathered). Prompts s' = Prompts s @ ps \<and> length ps \<le> 3
      \<and> set ps \<subseteq> {BuildPrompt ride (GContext g),
          BuildPrompt ride ((GContext g)\<lparr>FranchiseNext := []\<rparr>)}
      \<and> (FranchiseNext (GContext g) = [] \<longrightarrow> length ps \<le> 1)"
    if "run_state (llmTitle E D athlete a d) s = (r, s')"
  proof -
    obtain gear s1 where 1: "run_state (gearName_of E (AGearID a)) s = (gear, s1)" by fastforce
    obtain x s2 where 2: "run_state (locate E D a (ActionOf d) (base_ride (Unicode E) a gear)) s1 = (x, s2)"
      by fastforce
    have p2: "Prompts s2 = Prompts s"
      using silent.mayD [OF silent_gearName 1] silent.mayD [OF silent_locate 2] by (simp add: silent_def)
    show ?thesis
    proof (cases "HasProvider D \<and> (\<exists>ride. x = Inr ride)")
      case False
      with that 1 2 p2 show ?thesis
        by (cases x) (auto simp: llmTitle_def split: if_splits intro!: exI [of _ "[]"])
    next
      case True
      then obtain ride where ride: "x = Inr ride" by blast
      obtain y s3 where 3: "run_state (promptContext E D athlete ride) s2 = (y, s3)" by fastforce
      have p3: "Prompts s3 = Prompts s"
        using silent.mayD [OF silent_promptContext 3] p2 by (simp add: silent_def)
      show ?thesis
      proof (cases y)
        case (Inl e)
        with that 1 2 3 p3 True ride show ?thesis by (auto simp: llmTitle_def intro!: exI [of _ "[]"])
      next
        case (Inr g)
        obtain z s4 where 4: "run_state (complete E D ride g) s3 = (z, s4)" by fastforce
        with Inr that 1 2 3 True ride have "s' = s4" by (auto simp: llmTitle_def split: sum.splits prod.splits)
        moreover obtain ps where "Prompts s4 = Prompts s3 @ ps"
          "length ps \<le> (if FranchiseNext (GContext g) = [] then 1 else 3)"
          "set ps \<subseteq> {BuildPrompt ride (GContext g),
            BuildPrompt ride ((GContext g)\<lparr>FranchiseNext := []\<rparr>)}"
          using run_complete [OF 4] by (auto simp: plain_context_def)
        ultimately show ?thesis
          using p3 by (intro exI [of _ ps] exI [of _ ride] exI [of _ g]) (simp split: if_splits)
      qed
    qed
  qed
  show ?thesis
    using assms q llm
    by (cases "ActionOf d") (auto simp: title_of_def intro!: exI [of _ "[]"])
qed


lemma model_calls_bounded_witness:
  "Prompts (snd (run_state (title_of sample_env sample_deps 7 sample_activity
     (decision TierErrand ActionErrandTemplate [])) sample_start)) = []"
proof -
  let ?d = "decision TierErrand ActionErrandTemplate []"
  obtain r s' where run: "run_state (title_of sample_env sample_deps 7 sample_activity ?d) sample_start = (r, s')"
    by fastforce
  from model_calls_bounded [OF run] have "Prompts s' = Prompts sample_start" by auto
  with run show ?thesis by (simp add: sample_start_def NewProcessor_def)
qed

end
