(* ===== verification/Writer.thy ===== *)
theory Writer
  imports Produce
begin

text \<open>
  \<^verbatim>\<open>internal/processor/write.go\<close>: the title is recorded, the series advanced, and only then is
  Strava asked to change; what Strava kept corrects the record.
\<close>

section \<open>Operations\<close>

definition naming :: "int \<Rightarrow> int \<Rightarrow> string \<Rightarrow> string \<Rightarrow> string \<Rightarrow> instant \<Rightarrow> Naming" where
  "naming athlete i text language source date =
     \<lparr>NAthleteID = athlete, NActivityID = i, NTitle = text, NLanguage = language, NAt = date,
      NSource = source\<rparr>"

definition mark_named :: "'w env \<Rightarrow> Naming \<Rightarrow> ('w sys, bool) state" where
  "mark_named E n = store_write E (\<lambda>m. MarkNamed m n)"

definition new_description :: "'w env \<Rightarrow> deps \<Rightarrow> StravaActivity \<Rightarrow> ('w sys, string option) state" where
  "new_description E D a =
     (if DisableAttribution D then return None
      else do {
        r \<leftarrow> GetActivityCall E (AID a);
        return (case r of
            Inl _ \<Rightarrow> None
          | Inr fresh \<Rightarrow>
              (case Attribution.Describe (ADescription fresh) True of
                 (updated, changed) \<Rightarrow> if changed then Some updated else None)) })"

definition advance_store :: "int \<Rightarrow> string \<Rightarrow> int \<Rightarrow> Memory \<Rightarrow> Memory" where
  "advance_store athlete series index m =
     (case AdvanceFranchisePast m athlete series index of None \<Rightarrow> m | Some (m', _) \<Rightarrow> m')"

definition recordFranchise :: "'w env \<Rightarrow> int \<Rightarrow> titled \<Rightarrow> ('w sys, bool) state" where
  "recordFranchise E athlete t =
     (if TFranchise t = [] then return False
      else store_write E (advance_store athlete (TFranchise t) (TFranchiseIndex t)))"

definition reconcileTitle :: "'w env \<Rightarrow> int \<Rightarrow> int \<Rightarrow> titled \<Rightarrow> StravaActivity option \<Rightarrow> ('w sys, bool) state" where
  "reconcileTitle E athlete i t written =
     (case written of
        None \<Rightarrow> return False
      | Some a \<Rightarrow>
          if AName a = [] \<or> AName a = TText t then return False
          else do {
            date \<leftarrow> now_of E;
            mark_named E (naming athlete i (AName a) (TLanguage t) (TSource t) date) })"

definition write_title :: "'w env \<Rightarrow> deps \<Rightarrow> int \<Rightarrow> StravaActivity \<Rightarrow> titled \<Rightarrow>
    ('w sys, proc_error + bool) state" where
  "write_title E D athlete a t =
     (if \<not> WritesEnabled D then return (Inr False)
      else do {
        description \<leftarrow> new_description E D a;
        date \<leftarrow> now_of E;
        recorded \<leftarrow> mark_named E (naming athlete (AID a) (TText t) (TLanguage t) (TSource t) date);
        if \<not> recorded then return (Inl RecordTitle)
        else do {
          _ \<leftarrow> recordFranchise E athlete t;
          check (put_title E athlete (AID a) (TText t) description) WriteTitle (\<lambda>written. do {
            _ \<leftarrow> reconcileTitle E athlete (AID a) t written;
            return (Inr True) }) } })"

section \<open>What changes\<close>

text \<open>
  \<open>touches a i\<close>: the queue is as it was, the named log changed at most in the row of the
  activity, which is not removed, and every request is about that activity.
\<close>

fun put_key :: "put \<Rightarrow> int \<times> int" where
  "put_key (TitlePut athlete i _ _ _) = (athlete, i)"
| "put_key (DescriptionPut athlete i _ _) = (athlete, i)"

fun title_put :: "put \<Rightarrow> bool" where
  "title_put (TitlePut _ _ _ _ _) = True"
| "title_put (DescriptionPut _ _ _ _) = False"

definition touches :: "int \<Rightarrow> int \<Rightarrow> 'w sys \<Rightarrow> 'w sys \<Rightarrow> bool" where
  "touches athlete i s t \<longleftrightarrow>
     mPending (SStore t) = mPending (SStore s)
     \<and> (\<forall>b j. (b, j) \<noteq> (athlete, i) \<longrightarrow> Named (SStore t) b j = Named (SStore s) b j)
     \<and> (Named (SStore s) athlete i \<noteq> None \<longrightarrow> Named (SStore t) athlete i \<noteq> None)
     \<and> (wf_Memory (SStore s) \<longrightarrow> wf_Memory (SStore t))
     \<and> (\<exists>new. Puts t = Puts s @ new \<and> list_all (\<lambda>p. put_key p = (athlete, i)) new)"

interpretation touches: effect "touches athlete i" for athlete i
proof
  show "touches athlete i s s" for s :: "'a sys" by (auto simp: touches_def)
  show "touches athlete i s u" if "touches athlete i s t" "touches athlete i t u" for s t u :: "'a sys"
  proof -
    from that obtain x y where "Puts t = Puts s @ x" "Puts u = Puts t @ y"
      "list_all (\<lambda>p. put_key p = (athlete, i)) (x @ y)"
      by (auto simp: touches_def)
    then have "\<exists>new. Puts u = Puts s @ new \<and> list_all (\<lambda>p. put_key p = (athlete, i)) new"
      by (intro exI [of _ "x @ y"]) simp
    with that show ?thesis by (simp add: touches_def)
  qed
qed

lemma quiet_touches: "quiet.may m \<Longrightarrow> touches.may a i m"
  by (rule touches.mayI) (auto dest: quiet.mayD simp: quiet_def touches_def)

lemma Named_MarkNamed:
  "Named (MarkNamed m n) b j =
     (if b = NAthleteID n \<and> j = NActivityID n then Some (naming_row n) else Named m b j)"
  by (simp add: Named_def MarkNamed_def update_conv')

lemma MarkNamed_pending [simp]: "mPending (MarkNamed m n) = mPending m"
  by (simp add: MarkNamed_def)

lemma advance_store_same [simp]:
  "mPending (advance_store a f k m) = mPending m" "mNamed (advance_store a f k m) = mNamed m"
  by (auto simp: advance_store_def AdvanceFranchisePast_def Let_def split: option.splits)

lemma wf_advance_store: "wf_Memory m \<Longrightarrow> wf_Memory (advance_store a f k m)"
  by (auto simp: advance_store_def split: option.splits dest: wf_Memory_ops(7))

lemma naming_select [simp]:
  "NAthleteID (naming a i x l c d) = a" "NActivityID (naming a i x l c d) = i"
  by (simp_all add: naming_def)

lemma touches_mark [simp, intro]: "touches.may a i (mark_named E (naming a i x l c d))"
  by (rule touches.mayI)
    (auto simp: mark_named_def run_store_write touches_def Named_MarkNamed wf_Memory_ops
      split: prod.splits if_splits)

lemma touches_puts [simp, intro]:
  "touches.may a i (put_title E a i x d)" "touches.may a i (put_description E a i y)"
  by (auto intro!: touches.mayI simp: put_title_def put_description_def touches_def split: prod.splits)

lemma touches_franchise [simp, intro]: "touches.may a i (recordFranchise E a t)"
  by (rule touches.mayI)
    (auto simp: recordFranchise_def run_store_write touches_def Named_def wf_advance_store
      split: prod.splits if_splits)

lemma touches_reconcileTitle [simp, intro]: "touches.may a i (reconcileTitle E a i t w)"
  unfolding reconcileTitle_def
  by (intro touches.may_rules touches_mark quiet_touches quiet_primitives)

lemma silent_new_description [simp, intro]: "silent.may (new_description E D a)"
  unfolding new_description_def by (intro silent.may_rules silent_primitives)

lemma touches_write [simp, intro]: "touches.may a (AID act) (write_title E D a act t)"
  unfolding write_title_def
  by (intro touches.may_rules touches_mark touches_franchise touches_puts touches_reconcileTitle
      quiet_touches quiet_primitives silent_quiet [OF silent_new_description])

section \<open>Recorded before it is sent\<close>

fun recorded_put :: "put \<Rightarrow> bool" where
  "recorded_put (TitlePut athlete i text d row) \<longleftrightarrow>
     (\<exists>r. row = Some r \<and> NamedTitle.Title r = text \<and> ActivityID r = i)"
| "recorded_put (DescriptionPut athlete i d row) \<longleftrightarrow> True"

lemma MarkNamed_franchises [simp]: "mFranchises (MarkNamed m n) = mFranchises m"
  by (simp add: MarkNamed_def)

lemma run_mark_named:
  "run_state (mark_named E n) s = (ok, s') \<Longrightarrow>
     Puts s' = Puts s \<and> mFranchises (SStore s') = mFranchises (SStore s) \<and> (ok \<longrightarrow> SStore s' = MarkNamed (SStore s) n)"
  by (auto simp: mark_named_def run_store_write split: prod.splits if_splits)

lemma position_advance:
  "FranchisePosition (advance_store a f k m) b g =
     (if b = a \<and> g = f \<and> 0 \<le> k then max (FranchisePosition m b g) (k + 1) else FranchisePosition m b g)"
  by (auto simp: advance_store_def AdvanceFranchisePast_def Let_def FranchisePosition_def update_conv'
      split: option.splits)

lemma position_same: "mFranchises m = mFranchises n \<Longrightarrow> FranchisePosition m a f = FranchisePosition n a f"
  by (simp add: FranchisePosition_def)

definition spent :: "int \<Rightarrow> titled \<Rightarrow> Memory \<Rightarrow> Memory \<Rightarrow> bool" where
  "spent athlete t m n \<longleftrightarrow> (\<forall>b g. FranchisePosition n b g = FranchisePosition m b g \<or>
     b = athlete \<and> g = TFranchise t \<and> g \<noteq> [] \<and> 0 \<le> TFranchiseIndex t
     \<and> FranchisePosition n b g = max (FranchisePosition m b g) (TFranchiseIndex t + 1))"

lemma run_recordFranchise:
  "run_state (recordFranchise E a t) s = (ok, s') \<Longrightarrow>
     Puts s' = Puts s \<and> mNamed (SStore s') = mNamed (SStore s) \<and> spent a t (SStore s) (SStore s')"
  by (auto simp: recordFranchise_def run_store_write spent_def position_advance split: prod.splits if_splits)

lemma run_reconcileTitle: "run_state (reconcileTitle E a i t w) s = (ok, s') \<Longrightarrow>
    Puts s' = Puts s \<and> mFranchises (SStore s') = mFranchises (SStore s)"
  by (auto simp: reconcileTitle_def now_of_def split: option.splits if_splits prod.splits
      dest: run_mark_named)

text \<open>The three ways through \<open>write_title\<close>.\<close>

lemma write_title_cases:
  assumes "run_state (write_title E D athlete a t) s = (r, s')"
  obtains (off) "\<not> WritesEnabled D" "r = Inr False" "s' = s"
  | (unrecorded) "WritesEnabled D" "r = Inl RecordTitle" "Puts s' = Puts s"
      "mFranchises (SStore s') = mFranchises (SStore s)"
  | (sent) d row where "WritesEnabled D" "r = Inr True \<or> (\<exists>e. r = Inl (WriteTitle e))"
      "d = fst (run_state (new_description E D a) s)"
      "Puts s' = Puts s @ [TitlePut athlete (AID a) (TText t) d (Some row)]"
      "NamedTitle.Title row = TText t" "ActivityID row = AID a" "Source row = TSource t"
      "Named (SStore s') athlete (AID a) \<noteq> None" "spent athlete t (SStore s) (SStore s')"
proof (cases "WritesEnabled D")
  case False
  with assms off show ?thesis by (auto simp: write_title_def)
next
  case True
  obtain d s1 where 1: "run_state (new_description E D a) s = (d, s1)" by fastforce
  obtain date s2 where 2: "run_state (now_of E) s1 = (date, s2)" by fastforce
  let ?n = "naming athlete (AID a) (TText t) (TLanguage t) (TSource t) date"
  obtain ok s3 where 3: "run_state (mark_named E ?n) s2 = (ok, s3)" by fastforce
  have q: "Puts s2 = Puts s" "SStore s2 = SStore s"
    using silent.mayD [OF silent_new_description 1] silent.mayD [OF silent_primitives(1) 2]
    by (simp_all add: silent_def)
  note m = run_mark_named [OF 3]
  show ?thesis
  proof (cases ok)
    case False
    with assms True 1 2 3 q m unrecorded show ?thesis by (auto simp: write_title_def)
  next
    case ok: True
    obtain x s4 where 4: "run_state (recordFranchise E athlete t) s3 = (x, s4)" by fastforce
    note f = run_recordFranchise [OF 4]
    obtain w s5 where 5: "run_state (put_title E athlete (AID a) (TText t) d) s4 = (w, s5)" by fastforce
    have row: "Named (SStore s4) athlete (AID a) = Some (naming_row ?n)" "Puts s4 = Puts s"
      using m ok q f by (simp_all add: Named_def [of "SStore s4"])
        (simp add: Named_def [symmetric] Named_MarkNamed)
    have p5: "Puts s5 = Puts s @ [TitlePut athlete (AID a) (TText t) d (Some (naming_row ?n))]"
      "SStore s5 = SStore s4"
      using 5 row by (auto simp: put_title_def split: prod.splits)
    have sp: "spent athlete t (SStore s) (SStore s5)"
      using f m q p5(2) position_same [of "SStore s3" "SStore s"] by (simp add: spent_def)
    have fin: "Named (SStore s') athlete (AID a) \<noteq> None \<and> Puts s' = Puts s5
        \<and> mFranchises (SStore s') = mFranchises (SStore s5) \<and> (r = Inr True \<or> (\<exists>e. r = Inl (WriteTitle e)))"
    proof (cases w)
      case (Inl e)
      with assms True ok 1 2 3 4 5 p5 row show ?thesis by (auto simp: write_title_def)
    next
      case (Inr b)
      obtain y s6 where 6: "run_state (reconcileTitle E athlete (AID a) t b) s5 = (y, s6)" by fastforce
      with Inr assms True ok 1 2 3 4 5 have "s' = s6" "r = Inr True" by (auto simp: write_title_def)
      with touches.mayD [OF touches_reconcileTitle 6] run_reconcileTitle [OF 6] p5 row show ?thesis
        by (simp add: touches_def)
    qed
    have "NamedTitle.Title (naming_row ?n) = TText t" "ActivityID (naming_row ?n) = AID a"
      "Source (naming_row ?n) = TSource t"
      by (simp_all add: naming_row_def naming_def)
    moreover have "spent athlete t (SStore s) (SStore s')"
      using sp fin position_same [of "SStore s'" "SStore s5"] by (simp add: spent_def)
    ultimately show ?thesis
      using fin p5 True 1 by (intro sent [of d "naming_row ?n"]) simp_all
  qed
qed

definition sample_row :: NamedTitle where
  "sample_row = \<lparr>ActivityID = 1, Title = ''In die Stadt'', Language = ''de'', Source = ''template'', NamedAt = 1000\<rparr>"

lemma sample_write:
  "run_state (write_title sample_env sample_deps 7 (sample_activity\<lparr>AID := 1\<rparr>) (template_title ''In die Stadt''))
     sample_start =
   (Inr True, sample_start\<lparr>SStore := (SStore sample_start)\<lparr>mNamed := [((7, 1), sample_row)]\<rparr>,
      Puts := [TitlePut 7 1 ''In die Stadt'' None (Some sample_row)]\<rparr>)"
  by (simp add: write_title_def new_description_def now_of_def mark_named_def run_store_write
      recordFranchise_def reconcileTitle_def template_title_def put_title_def Named_MarkNamed)
   (simp add: sample_deps_def MarkNamed_def sample_start_def NewProcessor_def NewMemory_def naming_def
      naming_row_def sample_row_def German_def SourceTemplate_def)

section \<open>Properties\<close>

text \<open>The description a write carries, from the copy read at that moment.\<close>

definition merged_description :: "deps \<Rightarrow> strava_error + StravaActivity \<Rightarrow> string option" where
  "merged_description D reread =
     (if DisableAttribution D then None
      else case reread of
        Inl _ \<Rightarrow> None
      | Inr fresh \<Rightarrow>
          if HasAttribution (ADescription fresh) then None
          else Some (attribution_line @
            (if ADescription fresh = [] then [] else newline @ newline @ ADescription fresh)))"

text \<open>C10: Attribution never blocks a naming, and never loses a byte of a description: with writes on,
  whatever the re-read answers, either the title could not be recorded and nothing is sent, or
  the client is called once to update the activity (it may retry the HTTP request), with this title, after
  it was recorded; the call carries a description only where attribution is on and the description read at
  that moment has no such line yet, and then it is the line followed by that description in full.\<close>

theorem write_sends_once:
  assumes "run_state (write_title E D athlete a t) s = (r, s')" and "WritesEnabled D"
  shows "if r = Inl RecordTitle then Puts s' = Puts s
    else \<exists>row. Puts s' = Puts s @
           [TitlePut athlete (AID a) (TText t) (merged_description D (fst (get_activity E (AID a) (World s)))) (Some row)]
      \<and> NamedTitle.Title row = TText t \<and> Source row = TSource t"
  using assms(1)
proof (cases rule: write_title_cases)
  case (sent d row)
  have "d = merged_description D (fst (get_activity E (AID a) (World s)))"
    unfolding sent(3)
    by (cases "fst (get_activity E (AID a) (World s))")
      (auto simp: new_description_def GetActivityCall_def merged_description_def Attribution.Describe_def
        split: prod.splits)
  with sent show ?thesis by auto
qed (use assms in auto)

lemma write_sends_once_witness:
  "\<exists>row. Puts (snd (run_state (write_title sample_env sample_deps 7 (sample_activity\<lparr>AID := 1\<rparr>)
       (template_title ''In die Stadt'')) sample_start)) =
     [TitlePut 7 1 ''In die Stadt'' (merged_description sample_deps (Inr (sample_activity\<lparr>AID := 1\<rparr>))) (Some row)]"
proof -
  have "WritesEnabled sample_deps" "Puts sample_start = []"
    by (simp_all add: sample_deps_def sample_start_def NewProcessor_def)
  with write_sends_once [OF sample_write]
  have "merged_description sample_deps (Inr (sample_activity\<lparr>AID := 1\<rparr>)) = None"
    by (simp add: template_title_def)
  then show ?thesis by (simp add: sample_write)
qed

end
