(* ===== verification/Reconcile.thy ===== *)
theory Reconcile
  imports Writer
begin

text \<open>
  \<^verbatim>\<open>internal/processor/reconcile.go\<close> and the recorder of the skip gate in processor.go: an activity
  already in the named log is brought into line with what Strava holds, and never renamed.
\<close>

datatype outcome =
  outcomeSkipped | outcomeNamed | outcomeDryRun | outcomeReconciled | outcomeReconcileDryRun
| outcomeProvisional

fun staysQueued :: "outcome \<Rightarrow> bool" where
  "staysQueued outcomeDryRun = True"
| "staysQueued outcomeReconcileDryRun = True"
| "staysQueued outcomeProvisional = True"
| "staysQueued _ = False"

definition gone :: "strava_error \<Rightarrow> bool" where
  "gone e = errors_Is e ErrNotFound"

section \<open>Whose title it is\<close>

datatype not_theirs =
  EmptyTitleThere | DefaultTitleThere | MachineTitleThere | ToolTitle | OwnTemplate

definition notAPersonsTitle :: "string \<Rightarrow> string list \<Rightarrow> not_theirs option" where
  "notAPersonsTitle title0 templates =
     (let title = trim_space title0 in
      if IsToolTitle title then Some ToolTitle
      else if list_ex (\<lambda>template. trim_space template = title) templates then Some OwnTemplate
      else None)"

definition notTheAthletesTitle :: "Config \<Rightarrow> string \<Rightarrow> not_theirs option" where
  "notTheAthletesTitle c title =
     (let trimmed = trim_space title in
      if trimmed = [] then Some EmptyTitleThere
      else if IsDefaultTitle trimmed then Some DefaultTitleThere
      else if Matches (MachineTitlesOf c) trimmed then Some MachineTitleThere
      else notAPersonsTitle trimmed (TemplateTitles c))"

definition renamedSource :: "string \<Rightarrow> string" where
  "renamedSource recorded = (if recorded = SourceImported then SourceImported else SourceHuman)"

section \<open>Operations\<close>

definition ride_date :: "'w env \<Rightarrow> StravaActivity \<Rightarrow> ('w sys, instant) state" where
  "ride_date E a = (if AStartDate a = time_zero then now_of E else return (AStartDate a))"

definition recordHumanTitle :: "'w env \<Rightarrow> deps \<Rightarrow> int \<Rightarrow> StravaActivity \<Rightarrow> Decision \<Rightarrow>
    ('w sys, proc_error + unit) state" where
  "recordHumanTitle E D athlete a d =
     (if \<not> HumanTitled d \<or> TierOf d \<noteq> TierSportRide then return (Inr ())
      else if notAPersonsTitle (AName a) (TemplateTitles (ClassifierConfig D)) \<noteq> None then return (Inr ())
      else do {
        date \<leftarrow> ride_date E a;
        ok \<leftarrow> mark_named E (naming athlete (AID a) (AName a) (GuessLanguage (Unicode E) (AName a))
               SourceHuman date);
        return (if ok then Inr () else Inl RecordHumanTitle) })"

definition recordRename :: "'w env \<Rightarrow> int \<Rightarrow> StravaActivity \<Rightarrow> string \<Rightarrow> ('w sys, proc_error + unit) state" where
  "recordRename E athlete a source = do {
     date \<leftarrow> ride_date E a;
     ok \<leftarrow> mark_named E (naming athlete (AID a) (AName a) (GuessLanguage (Unicode E) (AName a)) source date);
     return (if ok then Inr () else Inl RecordRename) }"

definition removeAttribution :: "'w env \<Rightarrow> deps \<Rightarrow> int \<Rightarrow> StravaActivity \<Rightarrow> string \<Rightarrow>
    ('w sys, proc_error + outcome) state" where
  "removeAttribution E D athlete a source =
     (if source \<noteq> SourceHuman then return (Inr outcomeReconciled)
      else case RemoveAttribution (ADescription a) of (description, removed) \<Rightarrow>
        if \<not> removed then return (Inr outcomeReconciled)
        else if \<not> WritesEnabled D then return (Inr outcomeReconcileDryRun)
        else check (put_description E athlete (AID a) description) RemoveLine
               (\<lambda>_. return (Inr outcomeReconciled)))"

definition reconcile_activity :: "'w env \<Rightarrow> deps \<Rightarrow> int \<Rightarrow> StravaActivity \<Rightarrow> NamedTitle \<Rightarrow>
    ('w sys, proc_error + outcome) state" where
  "reconcile_activity E D athlete a recorded =
     (if AName a = NamedTitle.Title recorded
         \<or> notTheAthletesTitle (ClassifierConfig D) (AName a) \<noteq> None
      then removeAttribution E D athlete a (Source recorded)
      else check (recordRename E athlete a (renamedSource (Source recorded))) id (\<lambda>_.
        removeAttribution E D athlete a (renamedSource (Source recorded))))"

definition reconcileOne :: "'w env \<Rightarrow> deps \<Rightarrow> Pending \<Rightarrow> NamedTitle \<Rightarrow> ('w sys, proc_error + outcome) state" where
  "reconcileOne E D p recorded = do {
     r \<leftarrow> GetActivityCall E (PActivityID p);
     case r of
       Inl e \<Rightarrow> return (if gone e then Inr outcomeReconciled else Inl (ReReadActivity e))
     | Inr a \<Rightarrow> reconcile_activity E D (PAthleteID p) a recorded }"

section \<open>What changes\<close>

lemma touches_ride_date [simp, intro]: "touches.may b i (ride_date E a)"
  unfolding ride_date_def by (intro touches.may_rules quiet_touches quiet_primitives)

lemma touches_recordHumanTitle [simp, intro]: "touches.may b (AID a) (recordHumanTitle E D b a d)"
  unfolding recordHumanTitle_def by (intro touches.may_rules touches_ride_date touches_mark)

lemma touches_recordRename [simp, intro]: "touches.may b (AID a) (recordRename E b a x)"
  unfolding recordRename_def by (intro touches.may_rules touches_ride_date touches_mark)

lemma touches_removeAttribution [simp, intro]: "touches.may b (AID a) (removeAttribution E D b a x)"
  unfolding removeAttribution_def by (intro touches.may_rules touches_puts)

lemma touches_reconcile_activity [simp, intro]: "touches.may b (AID a) (reconcile_activity E D b a r)"
  unfolding reconcile_activity_def
  by (intro touches.may_rules touches_recordRename touches_removeAttribution)

text \<open>Nothing here asks for a title, and in dry run nothing is asked at all.\<close>

definition untitled :: "'w sys \<Rightarrow> 'w sys \<Rightarrow> bool" where
  "untitled s t \<longleftrightarrow> (\<exists>new. Puts t = Puts s @ new \<and> list_all (\<lambda>p. \<not> title_put p) new)"

definition unsent :: "'w sys \<Rightarrow> 'w sys \<Rightarrow> bool" where
  "unsent s t \<longleftrightarrow> Puts t = Puts s"

interpretation untitled: effect untitled
proof
  show "untitled s s" for s :: "'a sys" by (simp add: untitled_def)
  show "untitled s u" if "untitled s t" "untitled t u" for s t u :: "'a sys"
    using that by (auto simp: untitled_def)
qed

interpretation unsent: effect unsent
  by unfold_locales (simp_all add: unsent_def)

lemma unsent_untitled: "unsent.may m \<Longrightarrow> untitled.may m"
  by (rule untitled.mayI) (auto dest: unsent.mayD simp: untitled_def unsent_def)

lemma quiet_unsent: "quiet.may m \<Longrightarrow> unsent.may m"
  by (rule unsent.mayI) (auto dest: quiet.mayD simp: quiet_def unsent_def)

lemma unsent_mark [simp, intro]: "unsent.may (mark_named E n)"
  by (rule unsent.mayI) (auto simp: unsent_def dest: run_mark_named)

lemma unsent_records [simp, intro]:
  "unsent.may (recordHumanTitle E D b a d)" "unsent.may (recordRename E b a x)"
  unfolding recordHumanTitle_def recordRename_def ride_date_def
  by (intro unsent.may_rules unsent_mark quiet_unsent quiet_primitives)+

lemma untitled_put_description [simp, intro]: "untitled.may (put_description E b i x)"
  by (rule untitled.mayI) (auto simp: put_description_def untitled_def split: prod.splits)

lemma untitled_reconcile [simp, intro]: "untitled.may (reconcileOne E D p r)"
  unfolding reconcileOne_def reconcile_activity_def removeAttribution_def
  by (intro untitled.may_rules untitled_put_description unsent_untitled [OF unsent_records(2)]
      unsent_untitled [OF quiet_unsent] quiet_primitives)

lemma dry_reconcile: "\<not> WritesEnabled D \<Longrightarrow> unsent.may (reconcileOne E D p r)"
  unfolding reconcileOne_def reconcile_activity_def removeAttribution_def
  by (intro unsent.may_rules unsent_records quiet_unsent quiet_primitives) simp_all

section \<open>Properties\<close>







end
