(* ===== verification/Processor.thy ===== *)
theory Processor
  imports Reconcile
begin

text \<open>
  \<^verbatim>\<open>internal/processor/processor.go\<close>: one activity through the pipeline, the sweep over what is due,
  and the service as a state machine in which sweeps, deliveries, imports, restarts and the
  outside world take turns.
\<close>

section \<open>One activity (processOne, skip)\<close>

definition toClassifierActivity :: "StravaActivity \<Rightarrow> Activity" where
  "toClassifierActivity a =
     \<lparr>Name = AName a, Description = ADescription a, SportType = ASportType a, Trainer = ATrainer a,
      Commute = ACommute a, DistanceMeters = ADistance a, MovingTimeSeconds = AMovingTime a,
      Start = (case AStartLatLng a of [lat, lon] \<Rightarrow> Some \<lparr>Lat = lat, Lon = lon\<rparr> | _ \<Rightarrow> None),
      End = (case AEndLatLng a of [lat, lon] \<Rightarrow> Some \<lparr>Lat = lat, Lon = lon\<rparr> | _ \<Rightarrow> None)\<rparr>"

definition skip :: "'w env \<Rightarrow> deps \<Rightarrow> Pending \<Rightarrow> Decision \<Rightarrow> ('w sys, outcome) state" where
  "skip E D p d =
     (if \<not> Provisional d \<or> ProvisionalSkipWindow D \<le> 0 then return outcomeSkipped
      else do {
        let deadline = time_add (EnqueuedAt p) (ProvisionalSkipWindow D);
        date \<leftarrow> now_of E;
        return (if before date deadline then outcomeProvisional else outcomeSkipped) })"

definition name_activity :: "'w env \<Rightarrow> deps \<Rightarrow> Pending \<Rightarrow> StravaActivity \<Rightarrow> ('w sys, proc_error + outcome) state" where
  "name_activity E D p a =
     (let d = Classify (toClassifierActivity a) (ClassifierConfig D) in
      if ActionOf d = ActionSkip then
        check (recordHumanTitle E D (PAthleteID p) a d) id (\<lambda>_. do {
          o' \<leftarrow> skip E D p d;
          return (Inr o') })
      else
        check (title_of E D (PAthleteID p) a d) id (\<lambda>t.
        check (write_title E D (PAthleteID p) a t) id (\<lambda>written.
          return (Inr (if written then outcomeNamed else outcomeDryRun)))))"

definition processOne :: "'w env \<Rightarrow> deps \<Rightarrow> Pending \<Rightarrow> ('w sys, proc_error + outcome) state" where
  "processOne E D p = do {
     recorded \<leftarrow> store_read E (\<lambda>m. Named m (PAthleteID p) (PActivityID p));
     case recorded of
       None \<Rightarrow> return (Inl ReadNamedLog)
     | Some (Some row) \<Rightarrow> reconcileOne E D p row
     | Some None \<Rightarrow> do {
         r \<leftarrow> GetActivityCall E (PActivityID p);
         case r of
           Inl e \<Rightarrow> return (if gone e then Inr outcomeSkipped else Inl (FetchActivity e))
         | Inr a \<Rightarrow> name_activity E D p a } }"

section \<open>The sweep (Sweep)\<close>

record Result =
  RDue :: nat
  RNamed :: nat
  RSkipped :: nat
  RReconciled :: nat
  RProvisional :: nat
  RFailed :: nat
  RCancelled :: bool

definition count_of :: "outcome \<Rightarrow> Result \<Rightarrow> Result" where
  "count_of o' r = (case o' of
     outcomeNamed \<Rightarrow> r\<lparr>RNamed := RNamed r + 1\<rparr>
   | outcomeDryRun \<Rightarrow> r\<lparr>RNamed := RNamed r + 1\<rparr>
   | outcomeReconciled \<Rightarrow> r\<lparr>RReconciled := RReconciled r + 1\<rparr>
   | outcomeReconcileDryRun \<Rightarrow> r\<lparr>RReconciled := RReconciled r + 1\<rparr>
   | outcomeProvisional \<Rightarrow> r\<lparr>RProvisional := RProvisional r + 1\<rparr>
   | outcomeSkipped \<Rightarrow> r\<lparr>RSkipped := RSkipped r + 1\<rparr>)"

definition dequeue :: "'w env \<Rightarrow> Pending \<Rightarrow> outcome \<Rightarrow> ('w sys, bool) state" where
  "dequeue E p o' =
     (if staysQueued o' then return True
      else store_write E (\<lambda>m. Remove m (PAthleteID p) (PActivityID p)))"

text \<open>A panic leaves the loop where it is; nothing is dequeued or counted after it.\<close>

primrec sweep_loop :: "'w env \<Rightarrow> deps \<Rightarrow> Pending list \<Rightarrow> Result \<Rightarrow> ('w sys, proc_error + Result) state" where
  "sweep_loop E D [] r = return (Inr r)"
| "sweep_loop E D (p # ps) r = do {
     stop \<leftarrow> reads (\<lambda>s. ctx_done E (World s));
     if stop then return (Inr (r\<lparr>RCancelled := True\<rparr>))
     else do {
       ending \<leftarrow> processOne E D p;
       case ending of
         Inl e \<Rightarrow> if e = IndexPanic then return (Inl IndexPanic)
                  else sweep_loop E D ps (r\<lparr>RFailed := RFailed r + 1\<rparr>)
       | Inr o' \<Rightarrow> do {
           _ \<leftarrow> dequeue E p o';
           sweep_loop E D ps (count_of o' r) } } }"

definition empty_result :: "nat \<Rightarrow> Result" where
  "empty_result due = \<lparr>RDue = due, RNamed = 0, RSkipped = 0, RReconciled = 0, RProvisional = 0,
     RFailed = 0, RCancelled = False\<rparr>"

definition Sweep :: "'w env \<Rightarrow> deps \<Rightarrow> ('w sys, proc_error + Result) state" where
  "Sweep E D = do {
     date \<leftarrow> now_of E;
     due \<leftarrow> store_read E (\<lambda>m. Due m date);
     case due of
       None \<Rightarrow> return (Inl ReadQueue)
     | Some ps \<Rightarrow> sweep_loop E D ps (empty_result (length ps)) }"

section \<open>The service\<close>

text \<open>
  Sweeps do not overlap (\<^verbatim>\<open>internal/sweep\<close> holds a lock). Between them a webhook delivery
  enqueues, the importer records a title, a restart empties the caches, and everything outside
  may change.
\<close>

inductive step :: "'w env \<Rightarrow> 'w sys \<Rightarrow> 'w sys \<Rightarrow> bool" for E where
  sweep: "run_state (Sweep E D) s = (r, t) \<Longrightarrow> step E s t"
| delivery: "step E s (s\<lparr>SStore := fst (Enqueue (SStore s) p)\<rparr>)"
| imported: "step E s (s\<lparr>SStore := MarkNamed (SStore s) n\<rparr>)"
| restart: "step E s (s\<lparr>GearCache := [], ExampleCache := [], FranchiseCache := []\<rparr>)"
| outside: "step E s (s\<lparr>World := w\<rparr>)"

inductive reachable :: "'w env \<Rightarrow> 'w sys \<Rightarrow> bool" for E where
  start: "wf_Memory m \<Longrightarrow> reachable E (NewProcessor w m)"
| next': "reachable E s \<Longrightarrow> step E s t \<Longrightarrow> reachable E t"

inductive_cases stepE: "step E s t"

section \<open>One activity: what changes\<close>

lemma silent_skip [simp, intro]: "silent.may (skip E D p d)"
  unfolding skip_def Let_def by (intro silent.may_rules silent_primitives)

text \<open>Strava answers a request for an activity with that activity.\<close>

definition honest :: "'w env \<Rightarrow> bool" where
  "honest E \<longleftrightarrow> (\<forall>i w a w'. get_activity E i w = (Inr a, w') \<longrightarrow> AID a = i)"

lemma touches_name_activity:
  assumes "AID a = PActivityID p"
  shows "touches.may (PAthleteID p) (PActivityID p) (name_activity E D p a)"
  unfolding name_activity_def Let_def assms [symmetric]
  by (intro touches.may_rules touches_recordHumanTitle quiet_touches [OF silent_quiet] silent_skip
      quiet_touches [OF quiet_title_of] touches_write)

text \<open>The three ways through \<open>processOne\<close>.\<close>

lemma processOne_cases:
  assumes "run_state (processOne E D p) s = (r, s')"
  obtains (unread) "r = Inl ReadNamedLog" "quiet s s'"
  | (missing) e w where "r = (if gone e then Inr outcomeSkipped else Inl (FetchActivity e))" "quiet s s'"
      "get_activity E (PActivityID p) (snd (read_fails E (World s))) = (Inl e, w)"
      "Named (SStore s) (PAthleteID p) (PActivityID p) = None"
  | (known) row s1 where "quiet s s1" "Named (SStore s) (PAthleteID p) (PActivityID p) = Some row"
      "run_state (reconcileOne E D p row) s1 = (r, s')"
  | (fetched) a w where
      "get_activity E (PActivityID p) (snd (read_fails E (World s))) = (Inr a, w)"
      "Named (SStore s) (PAthleteID p) (PActivityID p) = None"
      "run_state (name_activity E D p a) (s\<lparr>World := w\<rparr>) = (r, s')"
proof -
  obtain f w where f: "read_fails E (World s) = (f, w)" by fastforce
  obtain x w' where x: "get_activity E (PActivityID p) w = (x, w')" by fastforce
  show thesis
  proof (cases f)
    case True
    with assms f that(1) show thesis
      by (auto simp: processOne_def run_store_read quiet_def)
  next
    case False
    show thesis
    proof (cases "Named (SStore s) (PAthleteID p) (PActivityID p)")
      case (Some row)
      with assms f False that(3) [of "s\<lparr>World := w\<rparr>" row] show thesis
        by (simp add: processOne_def run_store_read quiet_def)
    next
      case None
      with assms f False x that(2) [of _ w'] that(4) [of _ w'] show thesis
        by (cases x) (auto simp: processOne_def run_store_read quiet_def GetActivityCall_def)
    qed
  qed
qed

lemma name_activity_sends:
  assumes "run_state (name_activity E D p a) s = (r, s')"
  shows "Puts s' = Puts s \<and> r \<noteq> Inr outcomeNamed \<or>
    (\<exists>x d row. Puts s' = Puts s @ [TitlePut (PAthleteID p) (AID a) x d (Some row)]
       \<and> NamedTitle.Title row = x \<and> ActivityID row = AID a
       \<and> Named (SStore s') (PAthleteID p) (AID a) \<noteq> None \<and> WritesEnabled D
       \<and> ActionOf (Classify (toClassifierActivity a) (ClassifierConfig D)) \<noteq> ActionSkip)"
proof (cases "ActionOf (Classify (toClassifierActivity a) (ClassifierConfig D)) = ActionSkip")
  case True
  let ?d = "Classify (toClassifierActivity a) (ClassifierConfig D)"
  have "unsent.may (name_activity E D p a)"
    unfolding name_activity_def Let_def if_P [OF True]
    by (intro unsent.may_rules unsent_records quiet_unsent [OF silent_quiet] silent_skip)
  moreover have "o' \<noteq> outcomeNamed" if "run_state (skip E D p ?d) s1 = (o', s2)" for o' s1 s2
    using that by (auto simp: skip_def Let_def now_of_def split: if_splits prod.splits)
  ultimately show ?thesis
    using assms True
    by (auto simp: name_activity_def Let_def unsent_def split: prod.splits sum.splits dest!: unsent.mayD)
next
  case False
  obtain x s1 where x: "run_state (title_of E D (PAthleteID p) a
      (Classify (toClassifierActivity a) (ClassifierConfig D))) s = (x, s1)" by fastforce
  have q: "Puts s1 = Puts s" using quiet.mayD [OF quiet_title_of x] by (simp add: quiet_def)
  show ?thesis
  proof (cases x)
    case (Inl e)
    with assms False x q show ?thesis by (auto simp: name_activity_def)
  next
    case (Inr t)
    obtain y s2 where y: "run_state (write_title E D (PAthleteID p) a t) s1 = (y, s2)" by fastforce
    have "s' = s2" "r = Inr outcomeNamed \<Longrightarrow> y = Inr True"
      using assms False x Inr y by (auto simp: name_activity_def split: sum.splits if_splits)
    from y show ?thesis
    proof (cases rule: write_title_cases)
      case (sent d row)
      with \<open>s' = s2\<close> q False show ?thesis by auto
    qed (use \<open>s' = s2\<close> \<open>r = Inr outcomeNamed \<Longrightarrow> y = Inr True\<close> q in auto)
  qed
qed

lemma touches_reconcileOne:
  assumes "honest E" "run_state (reconcileOne E D p row) s = (r, s')"
  shows "touches (PAthleteID p) (PActivityID p) s s'"
proof -
  obtain x w where x: "get_activity E (PActivityID p) (World s) = (x, w)" by fastforce
  have 1: "touches (PAthleteID p) (PActivityID p) s (s\<lparr>World := w\<rparr>)" by (simp add: touches_def)
  show ?thesis
  proof (cases x)
    case (Inl e)
    with assms x 1 show ?thesis by (auto simp: reconcileOne_def GetActivityCall_def)
  next
    case (Inr a)
    with x assms(1) have "AID a = PActivityID p" by (auto simp: honest_def)
    with touches_reconcile_activity [where a = a]
    have "touches.may (PAthleteID p) (PActivityID p) (reconcile_activity E D (PAthleteID p) a row)" by metis
    moreover have "run_state (reconcile_activity E D (PAthleteID p) a row) (s\<lparr>World := w\<rparr>) = (r, s')"
      using assms(2) x Inr by (simp add: reconcileOne_def GetActivityCall_def)
    ultimately show ?thesis using 1 touches.mayD touches.compose by metis
  qed
qed

lemma quiet_touches': "quiet s t \<Longrightarrow> touches a i s t"
  by (simp add: quiet_def touches_def)

lemma touches_processOne:
  assumes "honest E"
  shows "touches.may (PAthleteID p) (PActivityID p) (processOne E D p)"
proof (rule touches.mayI)
  fix s r s'
  assume "run_state (processOne E D p) s = (r, s')"
  then show "touches (PAthleteID p) (PActivityID p) s s'"
  proof (cases rule: processOne_cases)
    case (known row s1)
    then show ?thesis
      by (metis touches_reconcileOne [OF assms] quiet_touches' touches.compose)
  next
    case (fetched a w)
    then have "AID a = PActivityID p" using assms by (auto simp: honest_def)
    from touches.mayD [OF touches_name_activity [OF this] fetched(3)] show ?thesis
      by (simp add: touches_def)
  qed (auto intro: quiet_touches')
qed

section \<open>Every reachable state\<close>

definition sent_titles :: "'w sys \<Rightarrow> int \<Rightarrow> int \<Rightarrow> put list" where
  "sent_titles s athlete i = filter (\<lambda>p. title_put p \<and> put_key p = (athlete, i)) (Puts s)"

text \<open>Every title asked of Strava was in the named log when it was asked, and its row still is.\<close>

definition recorded_titles :: "'w sys \<Rightarrow> bool" where
  "recorded_titles s \<longleftrightarrow> wf_Memory (SStore s) \<and> list_all recorded_put (Puts s)
     \<and> (\<forall>a i. sent_titles s a i \<noteq> [] \<longrightarrow> Named (SStore s) a i \<noteq> None)"

definition named_once :: "'w sys \<Rightarrow> bool" where
  "named_once s \<longleftrightarrow> recorded_titles s \<and> (\<forall>a i. length (sent_titles s a i) \<le> 1)"

text \<open>What holds of a sweep once it holds of one activity and of dequeueing.\<close>

lemma sweep_loop_triple:
  assumes "\<And>p. triple I (processOne E D p) (\<lambda>_. I)" "\<And>p o'. triple I (dequeue E p o') (\<lambda>_. I)"
  shows "triple I (sweep_loop E D ps r) (\<lambda>_. I)"
  by (induction ps arbitrary: r)
    (auto intro!: triple_return triple_bind [OF triple_reads] triple_bind [OF assms(1)]
      triple_bind [OF assms(2)] split: sum.splits)

lemma Sweep_triple:
  assumes "\<And>p. triple I (processOne E D p) (\<lambda>_. I)" "\<And>p o'. triple I (dequeue E p o') (\<lambda>_. I)"
    "\<And>s t. I s \<Longrightarrow> silent s t \<Longrightarrow> I t"
  shows "triple I (Sweep E D) (\<lambda>_. I)"
proof -
  have "triple I (now_of E) (\<lambda>_. I)" "triple I (store_read E f) (\<lambda>_. I)" for f :: "Memory \<Rightarrow> Pending list"
    by (rule silent.may_kept, simp, erule (1) assms(3))+
  moreover have "triple I (case due of None \<Rightarrow> return (Inl ReadQueue)
      | Some ps \<Rightarrow> sweep_loop E D ps (empty_result (length ps))) (\<lambda>_. I)" for due
    by (cases due) (auto intro: triple_return sweep_loop_triple assms(1,2))
  ultimately show ?thesis unfolding Sweep_def by (blast intro: triple_bind)
qed

lemma Named_Remove [simp]: "Named (Remove m a i) b j = Named m b j" "mNamed (Remove m a i) = mNamed m"
  by (simp_all add: Named_def Remove_def)

lemma dequeue_triple:
  assumes "\<And>s w m. I s \<Longrightarrow> wf_Memory (SStore s) \<Longrightarrow> wf_Memory m \<Longrightarrow> mNamed m = mNamed (SStore s) \<Longrightarrow>
      I (s\<lparr>World := w, SStore := m\<rparr>)" "\<And>s. I s \<Longrightarrow> wf_Memory (SStore s)"
  shows "triple I (dequeue E p o') (\<lambda>_. I)"
proof (rule tripleI)
  fix s
  assume "I s"
  moreover have "s\<lparr>World := w, SStore := SStore s\<rparr> = s\<lparr>World := w\<rparr>" for w by simp
  ultimately show "I (snd (run_state (dequeue E p o') s))"
    using assms(1) [of s "SStore s"] assms(1) [of s "Remove (SStore s) (PAthleteID p) (PActivityID p)"]
      assms(2) [of s]
    by (auto simp: dequeue_def run_store_write wf_Memory_ops(3) split: prod.splits)
qed


lemma sent_titles_append:
  "Puts t = Puts s @ new \<Longrightarrow>
   sent_titles t a i = sent_titles s a i @ filter (\<lambda>p. title_put p \<and> put_key p = (a, i)) new"
  by (simp add: sent_titles_def)

lemma recorded_titles_mono:
  assumes "recorded_titles s" "wf_Memory (SStore t)" "Puts t = Puts s"
    "\<And>a i. Named (SStore s) a i \<noteq> None \<Longrightarrow> Named (SStore t) a i \<noteq> None"
  shows "recorded_titles t"
  using assms by (simp add: recorded_titles_def sent_titles_def)

text \<open>What a run that names leaves: nothing sent, or one title, recorded.\<close>

lemma recorded_titles_put:
  assumes "recorded_titles s" "wf_Memory (SStore t)"
    "\<And>a i. Named (SStore s) a i \<noteq> None \<Longrightarrow> Named (SStore t) a i \<noteq> None"
    "Puts t = Puts s \<or> (\<exists>b j x d row. Puts t = Puts s @ [TitlePut b j x d (Some row)]
       \<and> NamedTitle.Title row = x \<and> ActivityID row = j \<and> Named (SStore t) b j \<noteq> None)"
  shows "recorded_titles t"
  using assms(4)
proof
  assume "Puts t = Puts s"
  then show ?thesis using recorded_titles_mono assms by blast
next
  assume "\<exists>b j x d row. Puts t = Puts s @ [TitlePut b j x d (Some row)]
       \<and> NamedTitle.Title row = x \<and> ActivityID row = j \<and> Named (SStore t) b j \<noteq> None"
  then obtain b j x d row where p: "Puts t = Puts s @ [TitlePut b j x d (Some row)]"
    "NamedTitle.Title row = x" "ActivityID row = j" "Named (SStore t) b j \<noteq> None" by blast
  have "sent_titles t a i \<noteq> [] \<Longrightarrow> Named (SStore t) a i \<noteq> None" for a i
    using assms(1,3) p(4) by (auto simp: sent_titles_append [OF p(1)] recorded_titles_def split: if_splits)
  with assms p show ?thesis by (auto simp: recorded_titles_def)
qed

lemma untitled_sent: "untitled s t \<Longrightarrow> sent_titles t a i = sent_titles s a i"
  by (auto simp: untitled_def sent_titles_def list_all_iff filter_empty_conv)

lemma untitled_recorded: "untitled s t \<Longrightarrow> list_all recorded_put (Puts s) \<Longrightarrow> list_all recorded_put (Puts t)"
proof -
  have "\<not> title_put p \<Longrightarrow> recorded_put p" for p by (cases p) simp_all
  then show "untitled s t \<Longrightarrow> list_all recorded_put (Puts s) \<Longrightarrow> list_all recorded_put (Puts t)"
    by (auto simp: untitled_def list_all_iff)
qed

text \<open>Rows are kept, whatever activity Strava answers with.\<close>

definition keeps_rows :: "'w sys \<Rightarrow> 'w sys \<Rightarrow> bool" where
  "keeps_rows s t \<longleftrightarrow>
     (\<forall>a i. Named (SStore s) a i \<noteq> None \<longrightarrow> Named (SStore t) a i \<noteq> None)
     \<and> (wf_Memory (SStore s) \<longrightarrow> wf_Memory (SStore t)) \<and> mPending (SStore t) = mPending (SStore s)"

interpretation keeps_rows: effect keeps_rows
  by unfold_locales (auto simp: keeps_rows_def)

lemma touches_keeps_rows: "touches b i s t \<Longrightarrow> keeps_rows s t"
  unfolding touches_def keeps_rows_def by (metis prod.inject)

lemma keeps_rows_may: "touches.may b i m \<Longrightarrow> keeps_rows.may m"
  by (rule keeps_rows.mayI) (blast dest: touches.mayD touches_keeps_rows)

lemma keeps_rows_reconcileOne [simp, intro]: "keeps_rows.may (reconcileOne E D p row)"
  unfolding reconcileOne_def
  by (intro keeps_rows.may_rules keeps_rows_may [OF touches_reconcile_activity]
      keeps_rows_may [OF quiet_touches [OF quiet_primitives(4)]])

lemma keeps_rows_name_activity [simp, intro]: "keeps_rows.may (name_activity E D p a)"
  unfolding name_activity_def Let_def
  by (intro keeps_rows.may_rules keeps_rows_may [OF touches_recordHumanTitle]
      keeps_rows_may [OF quiet_touches [OF silent_quiet [OF silent_skip]]]
      keeps_rows_may [OF quiet_touches [OF quiet_title_of]] keeps_rows_may [OF touches_write])

lemma quiet_keeps_rows: "quiet s t \<Longrightarrow> keeps_rows s t"
  by (simp add: quiet_def keeps_rows_def)

lemma keeps_rows_processOne [simp, intro]: "keeps_rows.may (processOne E D p)"
proof (rule keeps_rows.mayI)
  fix s r s'
  assume "run_state (processOne E D p) s = (r, s')"
  then show "keeps_rows s s'"
  proof (cases rule: processOne_cases)
    case (known row s1)
    with keeps_rows.mayD [OF keeps_rows_reconcileOne known(3)] show ?thesis
      by (blast intro: quiet_keeps_rows keeps_rows.compose)
  next
    case (fetched a w)
    from keeps_rows.mayD [OF keeps_rows_name_activity fetched(3)] show ?thesis
      by (simp add: keeps_rows_def)
  qed (auto intro: quiet_keeps_rows)
qed

text \<open>What one activity sends: nothing, a description, or one recorded title.\<close>

lemma processOne_sends:
  assumes "run_state (processOne E D p) s = (r, s')"
  obtains (none) "untitled s s'" "r \<noteq> Inr outcomeNamed"
  | (title) a w x d row where
      "get_activity E (PActivityID p) (snd (read_fails E (World s))) = (Inr a, w)"
      "Named (SStore s) (PAthleteID p) (PActivityID p) = None"
      "Puts s' = Puts s @ [TitlePut (PAthleteID p) (AID a) x d (Some row)]"
      "NamedTitle.Title row = x" "ActivityID row = AID a"
      "Named (SStore s') (PAthleteID p) (AID a) \<noteq> None" "WritesEnabled D"
      "ActionOf (Classify (toClassifierActivity a) (ClassifierConfig D)) \<noteq> ActionSkip"
  using assms
proof (cases rule: processOne_cases)
  case (known row s1)
  from untitled.mayD [OF untitled_reconcile known(3)] known(1) have "untitled s s'"
    by (simp add: untitled_def quiet_def)
  moreover have "r \<noteq> Inr outcomeNamed"
    using known(3) by (auto simp: reconcileOne_def reconcile_activity_def removeAttribution_def
        split: prod.splits sum.splits if_splits)
  ultimately show ?thesis by (rule none)
next
  case (fetched a w)
  from name_activity_sends [OF fetched(3)] fetched(1,2) none title show ?thesis
    by (auto simp: untitled_def)
qed (auto simp: untitled_def quiet_def intro!: none)

lemma recorded_titles_processOne:
  fixes E :: "'w env"
  shows "triple recorded_titles (processOne E D p) (\<lambda>_. recorded_titles)"
proof (rule tripleI)
  fix s :: "'w sys"
  assume I: "recorded_titles s"
  obtain r s' where run: "run_state (processOne E D p) s = (r, s')" by fastforce
  have k: "keeps_rows s s'" by (rule keeps_rows.mayD [OF keeps_rows_processOne run])
  from run have "recorded_titles s'"
  proof (cases rule: processOne_sends)
    case none
    with I k show ?thesis
      by (auto simp: recorded_titles_def keeps_rows_def untitled_sent untitled_recorded)
  next
    case (title a w x d row)
    have "wf_Memory (SStore s')" using I k by (simp add: recorded_titles_def keeps_rows_def)
    moreover have "Named (SStore s) b j \<noteq> None \<Longrightarrow> Named (SStore s') b j \<noteq> None" for b j
      using k by (auto simp: keeps_rows_def)
    ultimately show ?thesis using I title by (intro recorded_titles_put [of s s']) blast+
  qed
  with run show "recorded_titles (snd (run_state (processOne E D p) s))" by simp
qed

lemma named_once_processOne:
  fixes E :: "'w env"
  assumes "honest E"
  shows "triple named_once (processOne E D p) (\<lambda>_. named_once)"
proof (rule tripleI)
  fix s :: "'w sys"
  assume I: "named_once s"
  obtain r s' where run: "run_state (processOne E D p) s = (r, s')" by fastforce
  have rec: "recorded_titles s'"
    using tripleD [OF recorded_titles_processOne run] I by (simp add: named_once_def)
  from run have "length (sent_titles s' b j) \<le> 1" for b j
  proof (cases rule: processOne_sends)
    case none
    with I show ?thesis by (simp add: untitled_sent named_once_def)
  next
    case (title a w x d row)
    have "AID a = PActivityID p" using assms title(1) by (auto simp: honest_def)
    with title(2) I have "sent_titles s (PAthleteID p) (AID a) = []"
      unfolding named_once_def recorded_titles_def by metis
    with I show ?thesis
      by (auto simp: sent_titles_append [OF title(3)] named_once_def)
  qed
  with rec have "named_once s'" by (simp add: named_once_def)
  with run show "named_once (snd (run_state (processOne E D p) s))" by simp
qed


lemma dequeue_recorded:
  "triple recorded_titles (dequeue E p o') (\<lambda>_. recorded_titles)"
  "triple named_once (dequeue E p o') (\<lambda>_. named_once)"
  by (rule dequeue_triple; auto simp: named_once_def recorded_titles_def sent_titles_def Named_def)+

lemma silent_recorded: "silent s t \<Longrightarrow> recorded_titles s \<Longrightarrow> recorded_titles t"
  by (simp add: silent_def recorded_titles_def sent_titles_def)

lemma silent_once: "silent s t \<Longrightarrow> named_once s \<Longrightarrow> named_once t"
  by (simp add: silent_recorded named_once_def) (simp add: silent_def sent_titles_def)

lemma Named_Enqueue [simp]: "Named (fst (Enqueue m p)) a i = Named m a i"
  by (simp add: Enqueue_def Named_def split: option.splits)

text \<open>An invariant of the service: true at the start, kept by a sweep and by everything else.\<close>

lemma reachable_invariant:
  assumes "reachable E s" "\<And>w m. wf_Memory m \<Longrightarrow> I (NewProcessor w m)"
    "\<And>D. triple I (Sweep E D) (\<lambda>_. I)"
    "\<And>s t. I s \<Longrightarrow> Puts t = Puts s \<Longrightarrow> keeps_rows s t \<or>
       (\<exists>p. SStore t = fst (Enqueue (SStore s) p)) \<or> (\<exists>n. SStore t = MarkNamed (SStore s) n) \<Longrightarrow> I t"
  shows "I s"
  using assms(1)
proof induction
  case (start m w)
  then show ?case by (rule assms(2))
next
  case (next' s t)
  from next'(2) show ?case
  proof cases
    case (sweep D r)
    with tripleD [OF assms(3)] next'(3) show ?thesis by blast
  qed (use assms(4) [of s t] next'(3) in \<open>auto simp: keeps_rows_def\<close>)
qed

lemma recorded_titles_kept:
  assumes "recorded_titles s" "Puts t = Puts s"
    "keeps_rows s t \<or> (\<exists>p. SStore t = fst (Enqueue (SStore s) p)) \<or> (\<exists>n. SStore t = MarkNamed (SStore s) n)"
  shows "recorded_titles t"
  using assms
  by (intro recorded_titles_mono [OF assms(1)])
    (auto simp: recorded_titles_def keeps_rows_def wf_Memory_ops Named_MarkNamed)

lemma named_once_kept:
  assumes "named_once s" "Puts t = Puts s"
    "keeps_rows s t \<or> (\<exists>p. SStore t = fst (Enqueue (SStore s) p)) \<or> (\<exists>n. SStore t = MarkNamed (SStore s) n)"
  shows "named_once t"
  using assms(1,2) recorded_titles_kept [OF _ assms(2,3)] by (simp add: named_once_def sent_titles_def)

lemma NewProcessor_once: "wf_Memory m \<Longrightarrow> named_once (NewProcessor w m)"
  by (simp add: NewProcessor_def named_once_def recorded_titles_def sent_titles_def)

lemma reachable_named_once: "honest E \<Longrightarrow> reachable E s \<Longrightarrow> named_once s"
  by (erule reachable_invariant [where I = named_once])
    (auto intro: NewProcessor_once named_once_kept Sweep_triple named_once_processOne dequeue_recorded silent_once)

lemma reachable_recorded: "reachable E s \<Longrightarrow> recorded_titles s"
  by (erule reachable_invariant [where I = recorded_titles])
    (auto intro: recorded_titles_kept Sweep_triple recorded_titles_processOne dequeue_recorded
      silent_recorded simp: NewProcessor_once [unfolded named_once_def])


section \<open>Sweeps\<close>

lemma run_sweep_step:
  "run_state (sweep_loop E D (p # ps) r) s =
     (if ctx_done E (World s) then (Inr (r\<lparr>RCancelled := True\<rparr>), s)
      else case run_state (processOne E D p) s of
        (Inl e, s1) \<Rightarrow> if e = IndexPanic then (Inl IndexPanic, s1)
                      else run_state (sweep_loop E D ps (r\<lparr>RFailed := RFailed r + 1\<rparr>)) s1
      | (Inr o', s1) \<Rightarrow> run_state (sweep_loop E D ps (count_of o' r)) (snd (run_state (dequeue E p o') s1)))"
  by (simp split: prod.splits sum.splits)

declare sweep_loop.simps(2) [simp del]

text \<open>Induction along a sweep: one rule per way the loop goes on.\<close>

lemma sweep_loop_induct [consumes 1, case_names empty cancelled panicked failed ended]:
  assumes "run_state (sweep_loop E D ps r) s = (x, s')"
    "\<And>r s. P [] r s (Inr r) s"
    "\<And>p ps r s. ctx_done E (World s) \<Longrightarrow> P (p # ps) r s (Inr (r\<lparr>RCancelled := True\<rparr>)) s"
    "\<And>p ps r s s1. \<not> ctx_done E (World s) \<Longrightarrow> run_state (processOne E D p) s = (Inl IndexPanic, s1) \<Longrightarrow>
        P (p # ps) r s (Inl IndexPanic) s1"
    "\<And>p ps r s e s1 x s'. \<not> ctx_done E (World s) \<Longrightarrow> run_state (processOne E D p) s = (Inl e, s1) \<Longrightarrow>
        P ps (r\<lparr>RFailed := RFailed r + 1\<rparr>) s1 x s' \<Longrightarrow> e \<noteq> IndexPanic \<Longrightarrow> P (p # ps) r s x s'"
    "\<And>p ps r s o' s1 x s'. \<not> ctx_done E (World s) \<Longrightarrow> run_state (processOne E D p) s = (Inr o', s1) \<Longrightarrow>
        P ps (count_of o' r) (snd (run_state (dequeue E p o') s1)) x s' \<Longrightarrow> P (p # ps) r s x s'"
  shows "P ps r s x s'"
  using assms(1)
proof (induction ps arbitrary: r s)
  case Nil
  then have "x = Inr r" "s' = s" by auto
  then show ?case using assms(2) by simp
next
  case (Cons p ps)
  obtain y s1 where y: "run_state (processOne E D p) s = (y, s1)" by fastforce
  show ?case
  proof (cases "ctx_done E (World s)")
    case True
    with Cons.prems assms(3) show ?thesis by (auto simp: run_sweep_step)
  next
    case run: False
    show ?thesis
    proof (cases y)
      case (Inl e)
      show ?thesis
      proof (cases "e = IndexPanic")
        case True
        with Cons.prems run y Inl assms(4) show ?thesis by (auto simp: run_sweep_step)
      next
        case False
        with Cons.prems run y Inl
        have "run_state (sweep_loop E D ps (r\<lparr>RFailed := RFailed r + 1\<rparr>)) s1 = (x, s')"
          by (simp add: run_sweep_step)
        then show ?thesis using Cons.IH run y Inl False assms(5) by blast
      qed
    next
      case (Inr o')
      with Cons.prems run y
      have "run_state (sweep_loop E D ps (count_of o' r)) (snd (run_state (dequeue E p o') s1)) = (x, s')"
        by (simp add: run_sweep_step)
      then show ?thesis using Cons.IH run y Inr assms(6) by blast
    qed
  qed
qed

lemma run_Sweep:
  assumes "run_state (Sweep E D) s = (x, s')"
  obtains (unread) "x = Inl ReadQueue" "silent s s'" "fst (read_fails E (snd (clock E (World s))))"
  | (swept) w where "silent s (s\<lparr>World := w\<rparr>)"
      "run_state (sweep_loop E D (Due (SStore s) (fst (clock E (World s))))
         (empty_result (length (Due (SStore s) (fst (clock E (World s))))))) (s\<lparr>World := w\<rparr>) = (x, s')"
      "w = snd (read_fails E (snd (clock E (World s))))"
  using assms
  by (auto simp: Sweep_def now_of_def run_store_read silent_def split: prod.splits if_splits)

text \<open>What becomes of one entry of the queue.\<close>

text \<open>The loop reaches the entry, and processing it where it stands ends in a final outcome.\<close>

definition finished :: "'w env \<Rightarrow> deps \<Rightarrow> Pending list \<Rightarrow> Result \<Rightarrow> 'w sys \<Rightarrow> Pending \<Rightarrow> bool" where
  "finished E D ps r s p \<longleftrightarrow> (\<exists>don rest r1 s1 o' s2. ps = don @ p # rest
     \<and> run_state (sweep_loop E D don r) s = (Inr r1, s1) \<and> \<not> RCancelled r1 \<and> \<not> ctx_done E (World s1)
     \<and> run_state (processOne E D p) s1 = (Inr o', s2) \<and> \<not> staysQueued o')"

lemma finished_now:
  "\<not> RCancelled r \<Longrightarrow> \<not> ctx_done E (World s) \<Longrightarrow> run_state (processOne E D p) s = (Inr o', s1) \<Longrightarrow> \<not> staysQueued o' \<Longrightarrow>
     finished E D (p # ps) r s p"
  unfolding finished_def by (rule exI [of _ "[]"]) auto

lemma finished_later:
  assumes "finished E D ps r' t p"
    and "\<And>xs. run_state (sweep_loop E D (q # xs) r) s = run_state (sweep_loop E D xs r') t"
  shows "finished E D (q # ps) r s p"
proof -
  from assms(1) obtain don rest r1 s1 o' s2 where "ps = don @ p # rest" "run_state (sweep_loop E D don r') t = (Inr r1, s1)"
    "\<not> RCancelled r1" "\<not> ctx_done E (World s1)" "run_state (processOne E D p) s1 = (Inr o', s2)" "\<not> staysQueued o'"
    unfolding finished_def by blast
  then show ?thesis unfolding finished_def
    by (intro exI [of _ "q # don"] exI [of _ rest] exI [of _ r1] exI [of _ s1] exI [of _ o'] exI [of _ s2])
      (simp add: assms(2))
qed

lemma dequeue_cases:
  obtains (same) "SStore (snd (run_state (dequeue E p o') s)) = SStore s"
  | (gone) "SStore (snd (run_state (dequeue E p o') s)) = Remove (SStore s) (PAthleteID p) (PActivityID p)"
      "\<not> staysQueued o'"
proof -
  obtain d w where "write_fault E (World s) = (d, w)" by fastforce
  then show thesis
    using same gone by (cases "staysQueued o'"; cases "d = FaultLost") (simp_all add: dequeue_def run_store_write)
qed

lemma Remove_entry:
  "wf_Memory m \<Longrightarrow> pending_entry (Remove m (PAthleteID p) (PActivityID p)) k =
     (if k = pending_key p then None else pending_entry m k)"
  by (auto simp: pending_entry_def Remove_def pending_key_def delete_conv')

definition handled :: "Result \<Rightarrow> nat" where
  "handled r = RNamed r + RSkipped r + RReconciled r + RProvisional r + RFailed r"

lemma handled_count [simp]: "handled (count_of o' r) = Suc (handled r)" "RDue (count_of o' r) = RDue r"
  "RCancelled (count_of o' r) = RCancelled r"
  by (cases o'; simp add: handled_def count_of_def)+

lemma sweep_loop_queue:
  assumes "run_state (sweep_loop E D ps r) s = (x, s')" "wf_Memory (SStore s)" "\<not> RCancelled r"
  shows "wf_Memory (SStore s') \<and> (pending_entry (SStore s') k = pending_entry (SStore s) k \<or>
    pending_entry (SStore s') k = None \<and> (\<exists>p. pending_key p = k \<and> finished E D ps r s p))"
  using assms
proof (induction rule: sweep_loop_induct)
  case (panicked p ps r s s1)
  from keeps_rows.mayD [OF keeps_rows_processOne panicked(2)] panicked(3) show ?case
    by (simp add: keeps_rows_def pending_entry_def)
next
  case (failed q ps r s e s1 x s')
  have k: "wf_Memory (SStore s1)" "pending_entry (SStore s1) = pending_entry (SStore s)"
    using keeps_rows.mayD [OF keeps_rows_processOne failed(2)] failed(5)
    by (auto simp: keeps_rows_def pending_entry_def)
  from failed(1-3) have "run_state (sweep_loop E D (q # xs) r) s =
        run_state (sweep_loop E D xs (r\<lparr>RFailed := RFailed r + 1\<rparr>)) s1" for xs by (simp add: run_sweep_step)
  with failed(4,6) k finished_later show ?case by fastforce
next
  case (ended q ps r s o' s1 x s')
  let ?t = "snd (run_state (dequeue E q o') s1)"
  have k: "wf_Memory (SStore s1)" "pending_entry (SStore s1) = pending_entry (SStore s)"
    using keeps_rows.mayD [OF keeps_rows_processOne ended(2)] ended(4)
    by (auto simp: keeps_rows_def pending_entry_def)
  have "wf_Memory (SStore ?t) \<and> (pending_entry (SStore ?t) k = pending_entry (SStore s) k \<or>
      pending_entry (SStore ?t) k = None \<and> pending_key q = k \<and> finished E D (q # ps) r s q)"
  proof (cases rule: dequeue_cases [of E q o' s1])
    case gone
    then have "finished E D (q # ps) r s q" using finished_now [OF ended(5,1,2)] by simp
    with gone k show ?thesis by (auto simp: wf_Memory_ops Remove_entry)
  qed (use k in simp)
  moreover have "finished E D ps (count_of o' r) ?t p \<Longrightarrow> finished E D (q # ps) r s p" for p
    by (erule finished_later) (use ended(1,2) in \<open>simp add: run_sweep_step\<close>)
  ultimately show ?case using ended(3,5) by fastforce
qed simp_all

lemma sweep_loop_counts:
  assumes "run_state (sweep_loop E D ps r) s = (x, s')" "\<not> RCancelled r"
  shows "case x of Inl e \<Rightarrow> e = IndexPanic | Inr r' \<Rightarrow> RDue r' = RDue r \<and>
    (if RCancelled r' then handled r' < handled r + length ps else handled r' = handled r + length ps)"
  using assms
proof (induction rule: sweep_loop_induct)
  case (cancelled s p ps r)
  then show ?case by (simp add: handled_def)
next
  case (failed p ps r s e s1 x s')
  moreover have "handled (r\<lparr>RFailed := RFailed r + 1\<rparr>) = Suc (handled r)" by (simp add: handled_def)
  ultimately show ?case by (auto split: sum.splits if_splits)
next
  case (ended p ps r s o' s1 x s')
  then show ?case by (auto split: sum.splits if_splits)
qed simp_all

section \<open>Nothing but the queue stops a sweep\<close>

abbreviation calm :: "('s, proc_error + 'a) state \<Rightarrow> bool" where
  "calm m \<equiv> triple (\<lambda>_. True) m (\<lambda>r _. r \<noteq> Inl IndexPanic)"

lemma calm_return: "r \<noteq> Inl IndexPanic \<Longrightarrow> calm (return r)"
  by (rule triple_return) simp

lemma calm_bind: "(\<And>a. calm (f a)) \<Longrightarrow> calm (State_Monad.bind m f)"
  by (rule triple_bind [OF triple_True]) auto

lemma calm_check: "calm m \<Longrightarrow> (\<And>a. calm (k a)) \<Longrightarrow> calm (check m id k)"
  by (rule triple_check [where R = "\<lambda>r _. r \<noteq> Inl IndexPanic"]) (auto intro: triple_conseq)

lemma calm_wrapped: "(\<And>e. wrap e \<noteq> IndexPanic) \<Longrightarrow> (\<And>a. calm (k a)) \<Longrightarrow> calm (check m wrap k)"
  by (rule triple_check [OF triple_True]) (auto intro: triple_conseq)

lemmas calm_wraps = calm_wrapped [of ProviderFailed, simplified] calm_wrapped [of ResolveGeography, simplified]
  calm_wrapped [of WriteTitle, simplified] calm_wrapped [of RemoveLine, simplified]

lemma calm_ask: "calm (ask E D p g a f s)"
  unfolding ask_def by (auto simp: vet_def intro!: calm_wraps calm_return split: sum.splits if_splits)

lemma calm_offers: "calm (offers uses again plain n t)"
  by (induction n arbitrary: t) (auto intro!: calm_return calm_bind split: sum.splits)

lemma calm_complete: "calm (complete E D ride g)"
  unfolding complete_def offered_ask_def Let_def
  by (auto intro!: calm_check calm_ask calm_offers calm_return)

lemma calm_llmTitle: "calm (llmTitle E D athlete a d)"
  unfolding llmTitle_def locate_def geography_def promptContext_def history_def
  by (auto intro!: calm_check calm_wraps calm_bind calm_complete calm_return split: option.splits prod.splits)

lemma calm_removeAttribution: "calm (removeAttribution E D b a x)"
  unfolding removeAttribution_def
  by (auto intro!: calm_wraps calm_return split: prod.splits)

lemma calm_recordRename: "calm (recordRename E b a x)"
  unfolding recordRename_def by (intro calm_bind calm_return) (simp split: if_splits)

lemma calm_reconcileOne: "calm (reconcileOne E D p row)"
  unfolding reconcileOne_def reconcile_activity_def
  by (auto intro!: calm_bind calm_check calm_removeAttribution calm_recordRename calm_return split: sum.splits)

text \<open>The errand pool is indexed in range for an identifier that is not negative.\<close>

lemma go_mod_nonneg: "0 \<le> x \<Longrightarrow> 0 < n \<Longrightarrow> go_mod x n = x mod n"
  by (cases "x = 0") (simp_all add: go_mod_def go_div_def minus_mult_div_eq_mod)

lemma errandTitle_range: "0 \<le> AID a \<Longrightarrow> errandTitle a = Some (DefaultErrandTitles ! nat (AID a mod 3))"
  by (simp add: errandTitle_def DefaultErrandTitles_def go_mod_nonneg Let_def)

lemma calm_name_activity: "0 \<le> AID a \<Longrightarrow> calm (name_activity E D p a)"
  unfolding name_activity_def Let_def recordHumanTitle_def title_of_def write_title_def
  by (auto simp: errandTitle_range intro!: calm_bind calm_check calm_wraps calm_llmTitle calm_return
      split: Action.splits if_splits)

definition numbered :: "'w env \<Rightarrow> bool" where
  "numbered E \<longleftrightarrow> (\<forall>i w a w'. get_activity E i w = (Inr a, w') \<longrightarrow> 0 \<le> AID a)"

lemma processOne_calm:
  assumes "numbered E" "run_state (processOne E D p) s = (r, s')"
  shows "r \<noteq> Inl IndexPanic"
  using assms(2)
proof (cases rule: processOne_cases)
  case (known row s1)
  from tripleD [OF calm_reconcileOne known(3)] show ?thesis by simp
next
  case (fetched a w)
  then have "0 \<le> AID a" using assms(1) by (auto simp: numbered_def)
  from tripleD [OF calm_name_activity [OF this] fetched(3)] show ?thesis by simp
qed (auto split: if_splits)

lemma sweep_loop_calm:
  assumes "numbered E" "run_state (sweep_loop E D ps r) s = (x, s')" "\<not> RCancelled r"
  obtains r' where "x = Inr r'"
proof -
  from assms(2) have "x \<noteq> Inl IndexPanic"
    by (induction rule: sweep_loop_induct) (auto dest: processOne_calm [OF assms(1)])
  with sweep_loop_counts [OF assms(2,3)] that show thesis by (cases x) auto
qed

section \<open>A run\<close>

lemma sample_honest: "honest sample_env"
  by (auto simp: honest_def)

lemma sample_decision:
  "ActionOf (Classify (toClassifierActivity (sample_activity\<lparr>AID := i\<rparr>)) DefaultConfig) = ActionErrandTemplate"
proof -
  let ?a = "toClassifierActivity (sample_activity\<lparr>AID := i\<rparr>)"
  have "classified ?a"
    by (simp add: classified_def toClassifierActivity_def sample_activity_def neverNamedSportTypes_def
        whoopMarker_def)
  moreover have "renamable (MachineTitlesOf DefaultConfig) (Name ?a)"
    using evening_ride_default by (simp add: toClassifierActivity_def sample_activity_def renamable_def)
  moreover have "classifyTier ?a (withDefaults DefaultConfig) = (TierErrand, DirectionNone)"
    using evening_ride_default
    by (simp add: toClassifierActivity_def sample_activity_def classifyTier_def rideSportTypes_def
        commuteDirection_def DefaultConfig_def withDefaults_def meetsSportThresholds_def Let_def
        defaultSportMinDistanceMeters_def defaultToWorkTitle_def defaultToHomeTitle_def)
  ultimately show ?thesis by (simp add: Classify_renamable) (simp add: DefaultConfig_def)
qed

lemma sample_title:
  "run_state (title_of sample_env sample_deps 7 (sample_activity\<lparr>AID := 1\<rparr>)
     (Classify (toClassifierActivity (sample_activity\<lparr>AID := 1\<rparr>)) DefaultConfig)) s =
   (Inr (template_title ''In die Stadt''), s)"
  using sample_decision [of 1]
  by (simp add: title_of_def errandTitle_def DefaultErrandTitles_def go_mod_def go_div_def)

lemma sample_one:
  "run_state (processOne sample_env sample_deps sample_pending) sample_start =
   (Inr outcomeNamed, sample_start\<lparr>SStore := (SStore sample_start)\<lparr>mNamed := [((7, 1), sample_row)]\<rparr>,
      Puts := [TitlePut 7 1 ''In die Stadt'' None (Some sample_row)]\<rparr>)"
proof -
  have "Named (SStore sample_start) 7 1 = None"
    by (simp add: Named_def sample_start_def NewProcessor_def NewMemory_def)
  moreover have "ClassifierConfig sample_deps = DefaultConfig" by (simp add: sample_deps_def)
  ultimately show ?thesis
    using sample_decision [of 1]
    by (simp add: processOne_def run_store_read GetActivityCall_def name_activity_def sample_title sample_write
        sample_pending_def)
qed

definition sample_end :: "nat sys" where
  "sample_end = sample_start\<lparr>SStore := NewMemory\<lparr>mNamed := [((7, 1), sample_row)]\<rparr>,
      Puts := [TitlePut 7 1 ''In die Stadt'' None (Some sample_row)]\<rparr>"

lemma sample_sweep:
  "run_state (Sweep sample_env sample_deps) sample_start = (Inr ((empty_result 1)\<lparr>RNamed := 1\<rparr>), sample_end)"
proof -
  have due: "Due (SStore sample_start) 1000 = [sample_pending]"
    by (simp add: Due_def SortPending_def sample_start_def NewProcessor_def pending_due_def sample_pending_def
        before_def)
  show ?thesis
    by (simp add: Sweep_def now_of_def run_store_read due run_sweep_step sample_one dequeue_def run_store_write count_of_def)
      (simp add: sample_end_def Remove_def sample_start_def NewProcessor_def NewMemory_def sample_pending_def
        empty_result_def)
qed

lemma sample_reachable: "reachable sample_env sample_start" "reachable sample_env sample_end"
proof -
  have "wf_Memory (NewMemory\<lparr>mPending := [((7, 1), sample_pending)]\<rparr>)"
    by (simp add: wf_Memory_def NewMemory_def rows_keyed_def pending_key_def sample_pending_def)
  then show "reachable sample_env sample_start"
    unfolding sample_start_def by (rule reachable.start)
  from reachable.next' [OF this step.sweep [OF sample_sweep]] show "reachable sample_env sample_end" .
qed

section \<open>Properties\<close>

text \<open>C1: An activity is renamed at most once, ever: in whatever order sweeps (in any configuration),
  webhook deliveries, imports, restarts and changes outside take turns, and whichever calls and
  writes fail, Strava is asked at most once for a title on an athlete's activity. The service
  relies on Strava answering a request for an activity with that activity.\<close>

theorem renamed_at_most_once:
  assumes "honest E" and "reachable E s"
  shows "length (filter (\<lambda>p. title_put p \<and> put_key p = (athlete, i)) (Puts s)) \<le> 1"
  using reachable_named_once [OF assms] by (simp add: named_once_def sent_titles_def)

lemma renamed_at_most_once_witness:
  "Puts sample_end = [TitlePut 7 1 ''In die Stadt'' None (Some sample_row)] \<and>
   length (filter (\<lambda>p. title_put p \<and> put_key p = (7, 1)) (Puts sample_end)) \<le> 1"
  using renamed_at_most_once [OF sample_honest sample_reachable(2), of 7 1] by (simp add: sample_end_def)

text \<open>C2: Recorded before it is sent: every title ever asked of Strava was, at that moment, the title
  of the activity's row in the named log, whatever faults the store had, and the row is never
  lost afterwards; so the dedup read finds it.\<close>

theorem recorded_before_sent:
  assumes "reachable E s" and "TitlePut athlete i text d row \<in> set (Puts s)"
  shows "(\<exists>r. row = Some r \<and> NamedTitle.Title r = text \<and> ActivityID r = i) \<and>
    Named (SStore s) athlete i \<noteq> None"
proof -
  have "list_all recorded_put (Puts s)" and kept: "sent_titles s athlete i \<noteq> [] \<Longrightarrow> Named (SStore s) athlete i \<noteq> None"
    using reachable_recorded [OF assms(1)] by (auto simp: recorded_titles_def)
  with assms(2) have "recorded_put (TitlePut athlete i text d row)" by (auto simp: list_all_iff)
  moreover have "TitlePut athlete i text d row \<in> set (sent_titles s athlete i)"
    using assms(2) by (simp add: sent_titles_def)
  then have "sent_titles s athlete i \<noteq> []" by auto
  ultimately show ?thesis using kept by simp
qed

lemma recorded_before_sent_witness: "Named (SStore sample_end) 7 1 \<noteq> None"
proof -
  have "TitlePut 7 1 ''In die Stadt'' None (Some sample_row) \<in> set (Puts sample_end)"
    by (simp add: sample_end_def)
  from recorded_before_sent [OF sample_reachable(2) this] show ?thesis by simp
qed

text \<open>C4: A title is sent only where the athlete's own would not be lost: whenever one activity's run
  asks Strava for a title, the copy it read in that run carried a default or recognised machine
  title of an activity that is named at all, the named log had no row for it, and writes are on.\<close>

theorem only_renamable_is_renamed:
  assumes "run_state (processOne E D p) s = (r, s')" and "list_ex title_put (drop (length (Puts s)) (Puts s'))"
  shows "\<exists>a w. get_activity E (PActivityID p) (snd (read_fails E (World s))) = (Inr a, w)
    \<and> renamable (MachineTitlesOf (ClassifierConfig D)) (AName a)
    \<and> classified (toClassifierActivity a)
    \<and> Named (SStore s) (PAthleteID p) (PActivityID p) = None \<and> WritesEnabled D"
  using assms(1)
proof (cases rule: processOne_sends)
  case none
  with assms(2) show ?thesis
    by (auto simp: untitled_def list_ex_iff list_all_iff)
next
  case (title a w x d row)
  have "renamable (MachineTitlesOf (ClassifierConfig D)) (AName a)"
    using Classify_not_renamable [of "ClassifierConfig D" "toClassifierActivity a"] title(8)
    by (auto simp: toClassifierActivity_def)
  moreover have "classified (toClassifierActivity a)" using Classify_unclassified title(8) by blast
  ultimately show ?thesis using title by blast
qed

lemma only_renamable_is_renamed_witness:
  "renamable (MachineTitlesOf (ClassifierConfig sample_deps)) (AName (sample_activity\<lparr>AID := 1\<rparr>))"
proof -
  have "list_ex title_put (drop (length (Puts sample_start)) (Puts (sample_start\<lparr>
      SStore := (SStore sample_start)\<lparr>mNamed := [((7, 1), sample_row)]\<rparr>,
      Puts := [TitlePut 7 1 ''In die Stadt'' None (Some sample_row)]\<rparr>)))"
    by (simp add: sample_start_def NewProcessor_def)
  from only_renamable_is_renamed [OF sample_one this] show ?thesis by (simp add: sample_pending_def)
qed

text \<open>C9: An entry leaves the queue only when its activity is finished with: if a sweep leaves a key of
  the queue different from what it was, the key is gone, its entry was due when the sweep read
  the clock, and the sweep came to it without being cancelled and processed it, in the state the entries
  due before it had left, without an error and to an outcome that is final: named, skipped or
  reconciled. A dry run, a provisional skip and whatever failed stay queued.\<close>

theorem queue_keeps_unfinished:
  assumes "run_state (Sweep E D) s = (x, s')" and "wf_Memory (SStore s)"
    and "pending_entry (SStore s') k \<noteq> pending_entry (SStore s) k"
  shows "pending_entry (SStore s') k = None \<and>
    (\<exists>p earlier later r1 s1 o' s2. pending_entry (SStore s) k = Some p
       \<and> Due (SStore s) (fst (clock E (World s))) = earlier @ p # later
       \<and> run_state (sweep_loop E D earlier (empty_result (length (earlier @ p # later))))
           (s\<lparr>World := snd (read_fails E (snd (clock E (World s))))\<rparr>) = (Inr r1, s1)
       \<and> \<not> RCancelled r1 \<and> \<not> ctx_done E (World s1)
       \<and> run_state (processOne E D p) s1 = (Inr o', s2) \<and> o' \<in> {outcomeNamed, outcomeSkipped, outcomeReconciled})"
  using assms(1)
proof (cases rule: run_Sweep)
  case unread
  with assms(3) show ?thesis by (simp add: silent_def)
next
  case (swept w)
  let ?due = "Due (SStore s) (fst (clock E (World s)))"
  obtain p where p: "pending_key p = k" "pending_entry (SStore s') k = None"
    "finished E D ?due (empty_result (length ?due)) (s\<lparr>World := w\<rparr>) p"
    using sweep_loop_queue [OF swept(2), of k] assms(2,3) by (auto simp: empty_result_def)
  from p(3) obtain earlier later r1 s1 o' s2 where due: "?due = earlier @ p # later"
    and run: "run_state (sweep_loop E D earlier (empty_result (length ?due))) (s\<lparr>World := w\<rparr>) = (Inr r1, s1)"
    and ok: "\<not> RCancelled r1" "\<not> ctx_done E (World s1)" "run_state (processOne E D p) s1 = (Inr o', s2)" "\<not> staysQueued o'"
    unfolding finished_def by blast
  have "p \<in> set ?due" by (simp add: due)
  then have "pending_entry (SStore s) k = Some p" using mq.due_iff [OF assms(2)] p(1) by blast
  moreover have "o' \<in> {outcomeNamed, outcomeSkipped, outcomeReconciled}" using ok(4) by (cases o') simp_all
  ultimately show ?thesis using p(2) run ok(1-3) unfolding due swept(3) by blast
qed

lemma queue_keeps_unfinished_witness:
  "pending_entry (SStore sample_end) (7, 1) = None \<and> (\<exists>earlier later r1 s1 o' s2.
     Due (SStore sample_start) 1000 = earlier @ sample_pending # later \<and>
     run_state (sweep_loop sample_env sample_deps earlier (empty_result (length (earlier @ sample_pending # later))))
       sample_start = (Inr r1, s1) \<and>
     run_state (processOne sample_env sample_deps sample_pending) s1 = (Inr o', s2) \<and>
     o' \<in> {outcomeNamed, outcomeSkipped, outcomeReconciled})"
proof -
  have wf: "wf_Memory (SStore sample_start)"
    using reachable_recorded [OF sample_reachable(1)] by (simp add: recorded_titles_def)
  have entry: "pending_entry (SStore sample_start) (7, 1) = Some sample_pending"
    by (simp add: pending_entry_def sample_start_def NewProcessor_def)
  moreover have "pending_entry (SStore sample_end) (7, 1) = None"
    by (simp add: pending_entry_def sample_end_def NewMemory_def)
  ultimately have "pending_entry (SStore sample_end) (7, 1) \<noteq> pending_entry (SStore sample_start) (7, 1)" by simp
  from queue_keeps_unfinished [OF sample_sweep wf this] show ?thesis
    unfolding entry sample_env_select sample_start_world fst_conv snd_conv option.inject by blast
qed

text \<open>A sweep accounts for what it took on: the counters of its result add up to the number of due
  entries, one for each, and to fewer exactly when it reports itself cancelled. It ends without a
  result only where the queue could not be read, and then nothing was touched, or where the errand
  pool was indexed with the identifier of an activity below zero.\<close>

theorem sweep_accounts:
  "case run_state (Sweep E D) s of
     (Inl e, s') \<Rightarrow> e = ReadQueue \<and> SStore s' = SStore s \<and> Puts s' = Puts s \<or> e = IndexPanic
   | (Inr r, s') \<Rightarrow> RDue r = length (Due (SStore s) (fst (clock E (World s)))) \<and>
       (if RCancelled r
        then RNamed r + RSkipped r + RReconciled r + RProvisional r + RFailed r < RDue r
        else RNamed r + RSkipped r + RReconciled r + RProvisional r + RFailed r = RDue r)"
proof -
  obtain x s' where run: "run_state (Sweep E D) s = (x, s')" by fastforce
  from run show ?thesis
  proof (cases rule: run_Sweep)
    case unread
    with run show ?thesis by (simp add: silent_def)
  next
    case (swept w)
    from sweep_loop_counts [OF swept(2)] run show ?thesis
      by (auto simp: empty_result_def handled_def split: sum.splits if_splits)
  qed
qed

text \<open>C38: One activity never stalls the sweep: where the identifiers Strava answers with are not
  negative, a sweep whose queue could be read reaches its end, whatever any call or write for any
  of its activities returns; and a sweep that could not read the queue changed nothing.\<close>

theorem sweep_never_stalls:
  assumes "numbered E" and "run_state (Sweep E D) s = (Inl e, s')"
  shows "e = ReadQueue \<and> fst (read_fails E (snd (clock E (World s)))) \<and> SStore s' = SStore s \<and> Puts s' = Puts s"
  using assms(2)
proof (cases rule: run_Sweep)
  case (swept w)
  with sweep_loop_calm [OF assms(1) swept(2)] show ?thesis by (simp add: empty_result_def)
qed (simp add: silent_def)

lemma sweep_never_stalls_witness:
  "run_state (Sweep (sample_env\<lparr>read_fails := \<lambda>w. (True, w), get_activity := \<lambda>i w. (Inl ErrNotFound, w)\<rparr>)
     sample_deps) sample_start = (Inl ReadQueue, sample_start)"
proof -
  let ?E = "sample_env\<lparr>read_fails := \<lambda>w. (True, w), get_activity := \<lambda>i w. (Inl ErrNotFound, w)\<rparr>"
  have run: "run_state (Sweep ?E sample_deps) sample_start = (Inl ReadQueue, sample_start)"
    by (simp add: Sweep_def now_of_def run_store_read)
  have "numbered ?E" by (simp add: numbered_def)
  from sweep_never_stalls [OF this run] run show ?thesis by simp
qed

section \<open>Dry run\<close>

text \<open>
  What a dry run may change: no request, no series position; a row only to one the athlete wrote
  or that was imported.
\<close>

definition dry :: "'w sys \<Rightarrow> 'w sys \<Rightarrow> bool" where
  "dry s t \<longleftrightarrow> Puts t = Puts s \<and> mFranchises (SStore t) = mFranchises (SStore s)
     \<and> (\<forall>a i. Named (SStore t) a i = Named (SStore s) a i \<or>
          (\<exists>r. Named (SStore t) a i = Some r \<and> Source r \<in> {SourceHuman, SourceImported}))"

interpretation dry: effect dry
proof
  show "dry s u" if "dry s t" "dry t u" for s t u :: "'a sys"
    using that unfolding dry_def by metis
qed (simp add: dry_def)

lemma quiet_dry: "quiet.may m \<Longrightarrow> dry.may m"
  by (rule dry.mayI) (auto dest: quiet.mayD simp: quiet_def dry_def)

lemma dry_mark: "x \<in> {SourceHuman, SourceImported} \<Longrightarrow> dry.may (mark_named E (naming a i t l x d))"
  by (rule dry.mayI)
    (auto simp: mark_named_def run_store_write dry_def Named_MarkNamed naming_row_def naming_def
      split: prod.splits if_splits)

lemma dry_ride_date: "dry.may (ride_date E a)"
  unfolding ride_date_def by (intro dry.may_rules quiet_dry quiet_primitives)

lemma renamedSource_own: "renamedSource x \<in> {SourceHuman, SourceImported}"
  by (simp add: renamedSource_def)

lemma dry_recordHumanTitle: "dry.may (recordHumanTitle E D b a d)"
  unfolding recordHumanTitle_def
  by (intro dry.may_if dry.may_bind dry_ride_date dry_mark dry.may_return) simp

lemma dry_removeAttribution: "\<not> WritesEnabled D \<Longrightarrow> dry.may (removeAttribution E D b a x)"
  by (auto simp: removeAttribution_def intro!: dry.may_return split: prod.splits)

lemma dry_reconcileOne: "\<not> WritesEnabled D \<Longrightarrow> dry.may (reconcileOne E D p row)"
  unfolding reconcileOne_def reconcile_activity_def recordRename_def
  by (intro dry.may_if dry.may_bind dry.may_check dry.may_sum dry_ride_date dry_mark renamedSource_own
      dry_removeAttribution dry.may_return quiet_dry [OF quiet_primitives(4)])

lemma dry_write: "\<not> WritesEnabled D \<Longrightarrow> dry.may (write_title E D b a t)"
  by (simp add: write_title_def dry.may_return)

lemma dry_processOne: "\<not> WritesEnabled D \<Longrightarrow> dry.may (processOne E D p)"
  unfolding processOne_def name_activity_def Let_def
  by (intro dry.may_if dry.may_bind dry.may_check dry.may_sum dry.may_option dry_recordHumanTitle
      dry_reconcileOne dry_write dry.may_return quiet_dry [OF quiet_primitives(3)]
      quiet_dry [OF quiet_primitives(4)] quiet_dry [OF quiet_title_of] quiet_dry [OF silent_quiet [OF silent_skip]])

lemma dry_dequeue: "dry.may (dequeue E p o')"
  by (rule dry.mayI)
    (auto simp: dequeue_def run_store_write dry_def Named_def Remove_def split: prod.splits if_splits)

lemma dry_Sweep: "\<not> WritesEnabled D \<Longrightarrow> dry.may (Sweep E D)"
proof -
  assume D: "\<not> WritesEnabled D"
  have "dry.may (sweep_loop E D ps r)" for ps r
  proof (rule dry.mayI)
    show "run_state (sweep_loop E D ps r) s = (x, s') \<Longrightarrow> dry s s'" for s x s'
    proof (induction rule: sweep_loop_induct)
      case (ended p ps r s o' s1 x s')
      have "dry s1 (snd (run_state (dequeue E p o') s1))"
        by (rule dry.mayD [OF dry_dequeue]) (rule prod.collapse [symmetric])
      with dry.mayD [OF dry_processOne [OF D] ended(2)] ended(3) show ?case by (blast intro: dry.compose)
    qed (auto intro: dry.same dry.compose dest: dry.mayD [OF dry_processOne [OF D]])
  qed
  then show "dry.may (Sweep E D)"
    unfolding Sweep_def
    by (intro dry.may_bind dry.may_option dry.may_return) (auto intro: quiet_dry quiet_primitives)
qed

text \<open>C8: Dry run is a dry run: with writes off a sweep asks nothing of Strava, spends no entry of a
  series, leaves every row of the named log as it was except to record a title of the athlete's
  own or to keep an imported row current, and never counts as finished an activity it would have
  named: no outcome of the naming path leaves the queue.\<close>

theorem dry_run_changes_nothing:
  assumes "\<not> WritesEnabled D" and "run_state (Sweep E D) s = (x, s')"
  shows "Puts s' = Puts s \<and> mFranchises (SStore s') = mFranchises (SStore s)
    \<and> (Named (SStore s') a i = Named (SStore s) a i \<or>
       (\<exists>r. Named (SStore s') a i = Some r \<and> Source r \<in> {SourceHuman, SourceImported}))
    \<and> fst (run_state (processOne E D p) t) \<noteq> Inr outcomeNamed"
proof -
  have "dry s s'" by (rule dry.mayD [OF dry_Sweep assms(2)]) fact
  moreover have "fst (run_state (processOne E D p) t) \<noteq> Inr outcomeNamed"
  proof -
    obtain y t' where y: "run_state (processOne E D p) t = (y, t')" by fastforce
    then have "y \<noteq> Inr outcomeNamed" using assms(1) by (cases rule: processOne_sends) auto
    with y show ?thesis by simp
  qed
  ultimately show ?thesis by (simp add: dry_def)
qed

lemma dry_run_changes_nothing_witness:
  "Puts (snd (run_state (Sweep sample_env (sample_deps\<lparr>WritesEnabled := False\<rparr>)) sample_start)) = []"
proof -
  let ?D = "sample_deps\<lparr>WritesEnabled := False\<rparr>"
  obtain x s' where run: "run_state (Sweep sample_env ?D) sample_start = (x, s')" by fastforce
  have "\<not> WritesEnabled ?D" by simp
  from dry_run_changes_nothing [OF this run] have "Puts s' = Puts sample_start" by blast
  with run show ?thesis by (simp add: sample_start_def NewProcessor_def)
qed

section \<open>Provisional skips, and entries with nothing behind them\<close>

lemma Classify_Provisional:
  assumes "Provisional (Classify a cfg)"
  shows "ActionOf (Classify a cfg) = ActionSkip" "\<not> HumanTitled (Classify a cfg)"
proof -
  have c: "classified a" using assms Classify_unclassified by blast
  have r: "renamable (MachineTitlesOf cfg) (Name a)"
  proof (rule ccontr)
    assume "\<not> renamable (MachineTitlesOf cfg) (Name a)"
    with assms c show False by (auto simp: Classify_def classified_def Let_def split: prod.splits)
  qed
  with assms Classify_renamable [OF c r] show "ActionOf (Classify a cfg) = ActionSkip" by auto
  from c r show "\<not> HumanTitled (Classify a cfg)" by (simp add: Classify_HumanTitled)
qed

text \<open>A provisional skip becomes final at the end of its window and not before: an activity declined
  for now is never recorded as the athlete's title, changes nothing but the clock's world, and stays
  queued exactly while the window (when one is configured) has not passed since the event arrived.\<close>

theorem provisional_window:
  assumes "Provisional (Classify (toClassifierActivity a) (ClassifierConfig D))"
    and "run_state (name_activity E D p a) s = (r, s')"
  shows "silent s s' \<and>
    (if ProvisionalSkipWindow D > 0 \<and> fst (clock E (World s)) < EnqueuedAt p + ProvisionalSkipWindow D
     then r = Inr outcomeProvisional else r = Inr outcomeSkipped)"
proof -
  let ?a = "toClassifierActivity a" and ?c = "ClassifierConfig D"
  let ?d = "Classify ?a ?c"
  note skip = Classify_Provisional(1) [OF assms(1)] and own = Classify_Provisional(2) [OF assms(1)]
  have "silent.may (skip E D p ?d)" by simp
  moreover obtain o' where "run_state (skip E D p ?d) s = (o', s')" "r = Inr o'"
    using assms(2) skip own by (auto simp: name_activity_def recordHumanTitle_def split: prod.splits)
  ultimately show ?thesis
    using assms(1) silent.mayD
    by (fastforce simp: skip_def now_of_def before_def time_add_def Let_def split: if_splits prod.splits)
qed

text \<open>An environment in which nothing fails and Strava has none of the queued activities.\<close>

definition faultless :: "'w env \<Rightarrow> bool" where
  "faultless E \<longleftrightarrow> (\<forall>w. \<not> fst (read_fails E w) \<and> fst (write_fault E w) = NoFault \<and> \<not> ctx_done E w)"

definition all_gone :: "'w env \<Rightarrow> bool" where
  "all_gone E \<longleftrightarrow> (\<forall>i w. \<exists>e w'. get_activity E i w = (Inl e, w') \<and> gone e)"

lemma gone_processOne:
  assumes "faultless E" "all_gone E"
  obtains o' s1 where "run_state (processOne E D p) s = (Inr o', s1)" "o' \<in> {outcomeSkipped, outcomeReconciled}"
    "quiet s s1"
proof -
  obtain w where w: "read_fails E (World s) = (False, w)"
    using assms(1) by (metis faultless_def prod.collapse)
  obtain e w' where "get_activity E (PActivityID p) w = (Inl e, w')" "gone e"
    using assms(2) unfolding all_gone_def by metis
  with w that show thesis
    by (cases "Named (SStore s) (PAthleteID p) (PActivityID p)")
      (auto simp: processOne_def run_store_read reconcileOne_def GetActivityCall_def quiet_def)
qed

lemma sweep_gone:
  assumes "faultless E" "all_gone E" "run_state (sweep_loop E D ps r) s = (x, s')" "\<not> RCancelled r"
  shows "\<exists>r'. x = Inr r' \<and> \<not> RCancelled r' \<and> RFailed r' = RFailed r \<and> RNamed r' = RNamed r
    \<and> RProvisional r' = RProvisional r \<and> Puts s' = Puts s
    \<and> SStore s' = fold (\<lambda>p m. Remove m (PAthleteID p) (PActivityID p)) ps (SStore s)"
  using assms(3,4)
proof (induction rule: sweep_loop_induct)
  case (cancelled s p ps r)
  with assms(1) show ?case by (simp add: faultless_def)
next
  case (panicked p ps r s s1)
  from gone_processOne [OF assms(1,2), of D p s] panicked(2) show ?case by force
next
  case (failed p ps r s e s1 x s')
  from gone_processOne [OF assms(1,2), of D p s] failed(2) show ?case by force
next
  case (ended p ps r s o' s1 x s')
  have q: "quiet s s1" "o' \<in> {outcomeSkipped, outcomeReconciled}"
    using gone_processOne [OF assms(1,2), of D p s] ended(2) by force+
  have "fst (write_fault E (World s1)) = NoFault" using assms(1) by (simp add: faultless_def)
  then have d: "SStore (snd (run_state (dequeue E p o') s1)) = Remove (SStore s) (PAthleteID p) (PActivityID p)"
    "Puts (snd (run_state (dequeue E p o') s1)) = Puts s"
    using q by (auto simp: dequeue_def run_store_write quiet_def split: prod.splits)
  have "RFailed (count_of o' r) = RFailed r \<and> RNamed (count_of o' r) = RNamed r
      \<and> RProvisional (count_of o' r) = RProvisional r"
    using q(2) by (auto simp: count_of_def)
  with ended(3,4) d show ?case by simp
qed simp_all

text \<open>What Strava no longer has is let go of: where nothing fails and Strava answers 404 for every
  queued activity, one sweep ends with no failure, names nothing and asks for nothing, and none
  of the entries it found due is left in the queue; so no entry is retried forever.\<close>

theorem gone_leaves_the_queue:
  assumes "faultless E" and "all_gone E" and "wf_Memory (SStore s)"
  shows "\<exists>r s'. run_state (Sweep E D) s = (Inr r, s') \<and> RFailed r = 0 \<and> RNamed r = 0
    \<and> RSkipped r + RReconciled r = RDue r \<and> Puts s' = Puts s
    \<and> Due (SStore s') (fst (clock E (World s))) = []"
proof -
  obtain x s' where run: "run_state (Sweep E D) s = (x, s')" by fastforce
  let ?date = "fst (clock E (World s))"
  from run show ?thesis
  proof (cases rule: run_Sweep)
    case unread
    with assms(1) show ?thesis by (simp add: faultless_def)
  next
    case (swept w)
    let ?r = "empty_result (length (Due (SStore s) ?date))"
    obtain r where r: "x = Inr r" "\<not> RCancelled r" "RFailed r = 0" "RNamed r = 0" "RProvisional r = 0"
      "Puts s' = Puts s" "SStore s' = fold (\<lambda>p m. Remove m (PAthleteID p) (PActivityID p))
         (Due (SStore s) ?date) (SStore s)"
      using sweep_gone [OF assms(1,2) swept(2)] by (auto simp: empty_result_def)
    have "SStore s' = mq.drained (SStore s) ?date" by (simp add: r(7) mq.drained_def)
    then have "Due (SStore s') ?date = []" using mq.drained_due [OF assms(3)] by simp
    moreover have "RSkipped r + RReconciled r = RDue r"
      using sweep_loop_counts [OF swept(2)] r by (simp add: empty_result_def handled_def)
    ultimately show ?thesis using run r by blast
  qed
qed

lemma gone_leaves_the_queue_witness:
  "\<exists>r s'. run_state (Sweep (sample_env\<lparr>get_activity := \<lambda>i w. (Inl ErrNotFound, w)\<rparr>) sample_deps) sample_start
      = (Inr r, s') \<and> Due (SStore s') 1000 = [] \<and> length (Due (SStore sample_start) 1000) = 1"
proof -
  let ?E = "sample_env\<lparr>get_activity := \<lambda>i w. (Inl ErrNotFound, w)\<rparr>"
  have "faultless ?E" by (simp add: faultless_def)
  moreover have "all_gone ?E" by (auto simp: all_gone_def gone_def)
  moreover have "wf_Memory (SStore sample_start)"
    using reachable_recorded [OF sample_reachable(1)] by (simp add: recorded_titles_def)
  moreover have "length (Due (SStore sample_start) 1000) = 1"
    by (simp add: Due_def SortPending_def sample_start_def NewProcessor_def pending_due_def sample_pending_def
        before_def)
  ultimately show ?thesis
    using gone_leaves_the_queue [of ?E sample_start sample_deps] by auto
qed

definition short_ride :: StravaActivity where
  "short_ride = sample_activity\<lparr>ACommute := False, ADistance := 5000\<rparr>"

lemma short_ride_provisional: "Provisional (Classify (toClassifierActivity short_ride) DefaultConfig)"
proof -
  let ?a = "toClassifierActivity short_ride"
  have "classified ?a"
    by (simp add: classified_def toClassifierActivity_def short_ride_def sample_activity_def
        neverNamedSportTypes_def whoopMarker_def)
  moreover have "renamable (MachineTitlesOf DefaultConfig) (Name ?a)" "provisional ?a"
    using evening_ride_default
    by (simp_all add: toClassifierActivity_def short_ride_def sample_activity_def renamable_def provisional_def
        rideSportTypes_def)
  moreover have "fst (classifyTier ?a (withDefaults DefaultConfig)) = TierNone"
    using evening_ride_default
    by (simp add: toClassifierActivity_def short_ride_def sample_activity_def classifyTier_def rideSportTypes_def
        commuteDirection_def DefaultConfig_def withDefaults_def meetsSportThresholds_def Let_def
        defaultSportMinDistanceMeters_def defaultSportMinMovingTimeSeconds_def defaultToWorkTitle_def
        defaultToHomeTitle_def inFence_def)
  ultimately show ?thesis by (simp add: Classify_renamable)
qed

lemma provisional_window_witness:
  "fst (run_state (name_activity sample_env (sample_deps\<lparr>ProvisionalSkipWindow := 2000\<rparr>) sample_pending short_ride)
     sample_start) = Inr outcomeProvisional"
proof -
  let ?D = "sample_deps\<lparr>ProvisionalSkipWindow := 2000\<rparr>"
  obtain r s' where run: "run_state (name_activity sample_env ?D sample_pending short_ride) sample_start = (r, s')"
    by fastforce
  have "Provisional (Classify (toClassifierActivity short_ride) (ClassifierConfig ?D))"
    using short_ride_provisional by (simp add: sample_deps_def)
  from provisional_window [OF this run] run show ?thesis by (simp add: sample_pending_def)
qed

text \<open>C7: A series is spent only by a title that shows its next entry. If a run of the naming path moves the
  stored position of a series, then it is the athlete's series: the first of those configured, resolved
  before or stored for the athlete (the shipped profile otherwise) that applies to the sport and the gear of
  this ride. The title sent to Strava in that very run contains the first entry of that series at or after
  the old position that is not reserved, the title is in the named log, and the position is just past
  that entry.\<close>

theorem series_spent_on_use:
  assumes "run_state (name_activity E D p a) s = (r, s')"
    and "FranchisePosition (SStore s') b f \<noteq> FranchisePosition (SStore s) b f"
  shows "\<exists>text d row entry i fs series. b = PAthleteID p
    \<and> athletes_series D b s fs
    \<and> FranchiseFor (Unicode E) fs (ASportType a) (fst (run_state (gearName_of E (AGearID a)) s)) = Some series
    \<and> FName series = f
    \<and> Puts s' = Puts s @ [TitlePut b (AID a) text d (Some row)] \<and> NamedTitle.Title row = text
    \<and> UsesEntry (Unicode E) text entry \<and> \<not> IsReserved (Unicode E) series entry
    \<and> nat i < length (FTitles series) \<and> FTitles series ! nat i = entry
    \<and> 0 \<le> FranchisePosition (SStore s) b f \<and> FranchisePosition (SStore s) b f \<le> i
    \<and> (\<forall>k. FranchisePosition (SStore s) b f \<le> k \<and> k < i \<longrightarrow> IsReserved (Unicode E) series (FTitles series ! nat k))
    \<and> FranchisePosition (SStore s') b f = i + 1"
proof -
  let ?d = "Classify (toClassifierActivity a) (ClassifierConfig D)"
  have act: "ActionOf ?d \<noteq> ActionSkip"
  proof
    assume skip: "ActionOf ?d = ActionSkip"
    have "dry.may (name_activity E D p a)"
      unfolding name_activity_def Let_def if_P [OF skip]
      by (intro dry.may_bind dry.may_check dry_recordHumanTitle dry.may_return
          quiet_dry [OF silent_quiet [OF silent_skip]])
    from dry.mayD [OF this assms(1)] assms(2) show False
      using position_same [of "SStore s'" "SStore s" b f] by (auto simp: dry_def)
  qed
  obtain x s1 where x: "run_state (title_of E D (PAthleteID p) a ?d) s = (x, s1)" by fastforce
  have q: "SStore s1 = SStore s" "Puts s1 = Puts s" using quiet.mayD [OF quiet_title_of x] by (auto simp: quiet_def)
  obtain t where t: "x = Inr t"
    using assms act x q by (cases x) (auto simp: name_activity_def)
  obtain y s2 where y: "run_state (write_title E D (PAthleteID p) a t) s1 = (y, s2)" by fastforce
  have "s' = s2" using assms(1) act x t y by (auto simp: name_activity_def split: sum.splits)
  from y show ?thesis
  proof (cases rule: write_title_cases)
    case off
    with q \<open>s' = s2\<close> assms(2) show ?thesis by simp
  next
    case unrecorded
    with q \<open>s' = s2\<close> assms(2) position_same [of "SStore s2" "SStore s1"] show ?thesis by simp
  next
    case (sent d row)
    have sp: "b = PAthleteID p" "f = TFranchise t" "f \<noteq> []"
      "FranchisePosition (SStore s') b f = max (FranchisePosition (SStore s) b f) (TFranchiseIndex t + 1)"
      using sent(9) assms(2) q \<open>s' = s2\<close> by (auto simp: spent_def)
    from title_of_spends [OF x [unfolded t]] sp(2,3)
    obtain fs series where series: "athletes_series D (PAthleteID p) s fs"
      "FranchiseFor (Unicode E) fs (ASportType a) (fst (run_state (gearName_of E (AGearID a)) s)) = Some series"
      "FName series = f" "UsesEntry (Unicode E) (TText t) (TFranchiseEntry t)"
      "next_entry (Unicode E) series (FranchisePosition (SStore s) (PAthleteID p) f) (TFranchiseEntry t) (TFranchiseIndex t)"
      by (auto simp: spends_def)
    then have pos: "FranchisePosition (SStore s') b f = TFranchiseIndex t + 1"
      using sp(1,4) by (simp add: next_entry_def)
    have puts: "Puts s' = Puts s @ [TitlePut b (AID a) (TText t) d (Some row)]"
      using sent(4) q sp(1) \<open>s' = s2\<close> by simp
    show ?thesis
      by (rule exI [of _ "TText t"], rule exI [of _ d], rule exI [of _ row], rule exI [of _ "TFranchiseEntry t"],
          rule exI [of _ "TFranchiseIndex t"], rule exI [of _ fs], rule exI [of _ series])
        (use series pos puts sent(5) sp(1) in \<open>simp add: next_entry_def\<close>)
  qed
qed


subsection \<open>A ride that spends an entry\<close>

definition series_deps :: deps where
  "series_deps = sample_deps\<lparr>DFranchises := Some [sample_series], HasProvider := True\<rparr>"

definition series_ride :: StravaActivity where
  "series_ride = sample_activity\<lparr>ACommute := False\<rparr>"

definition series_start :: "nat sys" where
  "series_start = sample_start\<lparr>
     SStore := NewMemory\<lparr>mNamed := [((7, 2), \<lparr>ActivityID = 2, Title = ''A'', Language = ''de'', Source = ''human'', NamedAt = 0\<rparr>)]\<rparr>,
     ExampleCache := [(2, mk_example [] ''A'' ''de'')]\<rparr>"

definition series_gathered :: gathered where
  "series_gathered = \<lparr>GContext = \<lparr>CRecentTitles = [''A''], FranchiseNext = ''B'', Examples = [mk_example [] ''A'' ''de'']\<rparr>,
     GSeries = sample_series, GFranchiseIndex = 1\<rparr>"

lemma series_llm: "ActionOf (Classify (toClassifierActivity series_ride) DefaultConfig) = ActionLLM"
proof -
  let ?a = "toClassifierActivity series_ride"
  have "classified ?a"
    by (simp add: classified_def toClassifierActivity_def series_ride_def sample_activity_def
        neverNamedSportTypes_def whoopMarker_def)
  moreover have "renamable (MachineTitlesOf DefaultConfig) (Name ?a)"
    using evening_ride_default
    by (simp add: toClassifierActivity_def series_ride_def sample_activity_def renamable_def)
  moreover have "fst (classifyTier ?a (withDefaults DefaultConfig)) = TierSportRide"
    using evening_ride_default
    by (simp add: toClassifierActivity_def series_ride_def sample_activity_def classifyTier_def rideSportTypes_def
        commuteDirection_def DefaultConfig_def withDefaults_def meetsSportThresholds_def Let_def
        defaultSportMinDistanceMeters_def defaultToWorkTitle_def defaultToHomeTitle_def)
  ultimately show ?thesis by (simp add: Classify_renamable)
qed

lemma series_promptContext:
  "run_state (promptContext talking_env series_deps 7 (ride\<lparr>RGearName := []\<rparr>)) series_start = (Inr series_gathered, series_start)"
proof -
  have "RecentTitles (SStore series_start) 7 25 =
      [\<lparr>ActivityID = 2, Title = ''A'', Language = ''de'', Source = ''human'', NamedAt = 0\<rparr>]"
    by (simp add: RecentTitles_def athlete_rows_def series_start_def NewMemory_def)
  moreover have "World series_start = 0" "series_start\<lparr>World := 0\<rparr> = series_start"
    "FranchisePosition (SStore series_start) 7 ''s'' = 0" "ExampleCache series_start = [(2, mk_example [] ''A'' ''de'')]"
    by (simp_all add: series_start_def sample_start_def NewProcessor_def FranchisePosition_def NewMemory_def)
  ultimately show ?thesis
    using offerable_B
    by (simp add: promptContext_def history_def run_store_read RecentTitleLimit_def examplesFrom_def teachesStyle_def
        SourceHuman_def example_def exampleCount_def maxExampleFailures_def franchiseNext_def franchises_def
        series_deps_def FranchiseFor_def Applies_def sample_series_def offer_def Next_def
        titlesOf_def worthNotRepeating_def SourceTemplate_def series_gathered_def talking_env_def)
qed


lemma letters:
  "str_fields ''A'' = [''A'']" "match_words latin1 ''A'' = [''a'']" "match_words latin1 ''B'' = [''b'']"
  "match_words latin1 [] = []" "normalizeForRepeat latin1 ''A'' = ''a''" "normalizeForRepeat latin1 ''B'' = ''b''"
  "OneLine ''A'' = ''A''"
  by (simp_all add: match_words_def str_fields_def fields_func_def fields_by_def map_runes_def match_rune_def
      latin1_def latin_lower_def is_space_def bytes_of_def map_filter_simps word_rune_def encode_def
      encode_scalar_def scalar_def ascii_letter_def ascii_upper_def ascii_digit_def char_of_def bit_Suc_0_iff
      normalizeForRepeat_def squeeze_def repeat_rune_def isEmojiPart_def OneLine_def oneLineWithin_def
      line_rune_def is_control_def MaxPromptFieldRunes_def)

lemma series_vet:
  "vet latin1 (\<lambda>_. Some ((''B'', ''de''), 1)) [] (Guard latin1 sample_series ''B'') []
     (ForbiddenTitles (GContext series_gathered)) stated ''x'' = Inr \<lparr>TitleText = ''B'', TitleLanguage = ''de''\<rparr>"
proof -
  have uses: "UsesEntry latin1 ''B'' ''B''" "\<not> UsesEntry latin1 ''B'' ''A''"
    by (simp_all add: UsesEntry_words letters core_words_def sublist_Cons_right)
  have "\<not> isMotif latin1 g e" if "gearName g = []" for g e
    using that by (simp add: isMotif_def core_words_def letters)
  then have "Claimed latin1 (Guard latin1 sample_series ''B'') ''B'' = None"
    using uses by (auto simp: Claimed_def find_None_iff Guard_def claims_def sample_series_def)
  moreover have "ForbiddenTitles (GContext series_gathered) = [''A'']"
    by (simp add: ForbiddenTitles_def series_gathered_def capTitles_def RecentTitleLimit_def mk_example_def
        add_form_def letters)
  moreover have "RepeatsTitle latin1 ''B'' [''A''] = None"
    by (simp add: RepeatsTitle_None letters)
  moreover have "fst (ParseAndValidate latin1 (\<lambda>_. Some ((''B'', ''de''), 1)) [] ''x'') =
      Inr \<lparr>TitleText = ''B'', TitleLanguage = ''de''\<rparr>"
    "CopiesAchievement latin1 ''B'' [] = None" "UnstatedFigure latin1 ''B'' stated = None"
    using vet_B [of stated] by (auto simp: vet_def split: sum.splits if_splits)
  ultimately show ?thesis by (simp add: vet_def)
qed

lemma series_complete:
  assumes "RAchievements ride = []"
  shows "run_state (complete talking_env series_deps ride series_gathered) series_start =
    (Inr (\<lparr>TitleText = ''B'', TitleLanguage = ''de''\<rparr>, True),
     series_start\<lparr>Prompts := [BuildPrompt ride (GContext series_gathered)]\<rparr>)"
proof -
  have uses: "UsesEntry latin1 ''B'' ''B''" by (simp add: UsesEntry_words letters core_words_def)
  have "GSeries series_gathered = sample_series" "FranchiseNext (GContext series_gathered) = ''B''"
    "DValidator series_deps = []" "Unicode talking_env = latin1" "JSON talking_env = (\<lambda>_. Some ((''B'', ''de''), 1))"
    "complete_prompt talking_env p w = (Inr ''x'', w)"
    "Prompts series_start = []" "World series_start = 0" "series_start\<lparr>World := 0\<rparr> = series_start" for p w
    by (simp_all add: series_gathered_def series_deps_def sample_deps_def talking_env_def sample_env_def
        series_start_def sample_start_def NewProcessor_def)
  moreover have "series_start\<lparr>Prompts := x, World := 0\<rparr> = series_start\<lparr>Prompts := x\<rparr>" for x
    by (simp add: series_start_def sample_start_def NewProcessor_def)
  ultimately show ?thesis
    using uses series_vet assms
    by (simp add: complete_def offered_ask_def ask_def complete_call_def maxFranchiseOffers_def Let_def
        numeral_2_eq_2)
qed

lemma series_title:
  "run_state (title_of talking_env series_deps 7 series_ride (Classify (toClassifierActivity series_ride) DefaultConfig))
     series_start =
   (Inr (service_title series_gathered \<lparr>TitleText = ''B'', TitleLanguage = ''de''\<rparr> True),
    series_start\<lparr>Prompts := [BuildPrompt (base_ride latin1 series_ride []) (GContext series_gathered)]\<rparr>)"
proof -
  have "Unicode talking_env = latin1" by (simp add: talking_env_def)
  moreover have "HasProvider series_deps" "\<not> HasGeo series_deps" by (simp_all add: series_deps_def sample_deps_def)
  moreover have "AGearID series_ride = []" by (simp add: series_ride_def sample_activity_def)
  moreover have "base_ride latin1 series_ride [] = (base_ride latin1 series_ride [])\<lparr>RGearName := []\<rparr>"
    "(base_ride latin1 series_ride [])\<lparr>RPlaces := Names no_summary, RRegion := SummaryRegion no_summary,
       RCountry := SummaryCountry no_summary\<rparr> = base_ride latin1 series_ride []"
    by (simp_all add: base_ride_def no_summary_def Names_def)
  moreover have "RAchievements (base_ride latin1 series_ride []) = []"
    by (simp add: base_ride_def achievementsOf_def series_ride_def sample_activity_def)
  ultimately show ?thesis
    using series_llm series_promptContext [of "base_ride latin1 series_ride []"]
      series_complete [of "base_ride latin1 series_ride []"]
    by (simp add: title_of_def llmTitle_def gearName_of_def locate_def geography_def)
qed


lemma series_run:
  "\<exists>r s'. run_state (name_activity talking_env series_deps sample_pending series_ride) series_start = (r, s')
     \<and> FranchisePosition (SStore s') 7 ''s'' = 2"
proof -
  let ?t = "service_title series_gathered \<lparr>TitleText = ''B'', TitleLanguage = ''de''\<rparr> True"
  let ?s = "series_start\<lparr>Prompts := [BuildPrompt (base_ride latin1 series_ride []) (GContext series_gathered)]\<rparr>"
  obtain y s' where y: "run_state (write_title talking_env series_deps 7 series_ride ?t) ?s = (y, s')" by fastforce
  have "DisableAttribution series_deps" "WritesEnabled series_deps" "ClassifierConfig series_deps = DefaultConfig"
    by (simp_all add: series_deps_def sample_deps_def)
  moreover have "write_fault talking_env w = (NoFault, w)" "clock talking_env w = (1000, w)"
    "put_activity talking_env i x d w = (Inr None, w)" for w i x d
    by (simp_all add: talking_env_def sample_env_def)
  moreover have "mFranchises (SStore series_start) = []"
    by (simp add: series_start_def NewMemory_def)
  moreover have "TFranchise ?t = ''s''" "TFranchiseIndex ?t = 1"
    by (simp_all add: service_title_def series_gathered_def sample_series_def)
  ultimately have "FranchisePosition (SStore s') 7 ''s'' = 2"
    using y
    by (auto simp: write_title_def new_description_def now_of_def mark_named_def run_store_write recordFranchise_def
        put_title_def reconcileTitle_def position_advance)
      (simp add: FranchisePosition_def)
  moreover have "PAthleteID sample_pending = 7" by (simp add: sample_pending_def)
  moreover have "ActionOf (Classify (toClassifierActivity series_ride) DefaultConfig) \<noteq> ActionSkip"
    using series_llm by simp
  ultimately show ?thesis
    using y \<open>ClassifierConfig series_deps = DefaultConfig\<close>
    by (cases y) (simp_all add: name_activity_def series_title)
qed

lemma series_spent_on_use_witness:
  "\<exists>(s' :: nat sys) text d row. Puts s' = Puts series_start @ [TitlePut 7 1 text d (Some row)] \<and> UsesEntry latin1 text ''B''
     \<and> FranchisePosition (SStore s') 7 ''s'' = 2"
proof -
  obtain r s' where run: "run_state (name_activity talking_env series_deps sample_pending series_ride) series_start = (r, s')"
    and pos: "FranchisePosition (SStore s') 7 ''s'' = 2"
    using series_run by blast
  have "FranchisePosition (SStore series_start) 7 ''s'' = 0" "AID series_ride = 1" "Unicode talking_env = latin1"
    by (simp_all add: FranchisePosition_def series_start_def NewMemory_def series_ride_def sample_activity_def
        talking_env_def)
  with series_spent_on_use [OF run, of 7 "''s''"] pos obtain x d row entry i fs series where
    spent: "athletes_series series_deps 7 series_start fs" "Puts s' = Puts series_start @ [TitlePut 7 1 x d (Some row)]"
      "UsesEntry latin1 x entry" "FTitles series ! nat i = entry" "i = 1"
      "FranchiseFor latin1 fs (ASportType series_ride) (fst (run_state (gearName_of talking_env (AGearID series_ride)) series_start)) = Some series"
    by auto
  then have "series = sample_series"
    by (auto simp: athletes_series_def series_deps_def FranchiseFor_def split: if_splits)
  with spent(4,5) have "entry = ''B''" by (simp add: sample_series_def)
  with spent(2,3) pos show ?thesis by blast
qed

end
