(* ===== verification/Webhook.thy ===== *)
theory Webhook
  imports Http Processor
begin

text \<open>
  \<^verbatim>\<open>internal/webhook\<close>: the subscription handshake and the event intake. The handler runs on the
  processor's store, in the state of theory Pipeline. The digest of \<^verbatim>\<open>crypto/sha256\<close> and the JSON
  decoder are fields of the handler's record; flushing and the processing time limit have no part
  in the model beyond the faults a store call may meet. What the handler logs is the \<open>verdict\<close>.
\<close>

section \<open>Events and handler\<close>

record Event =
  ObjectType :: string
  ObjectID :: int
  AspectType :: string
  OwnerID :: int
  SubscriptionID :: int
  EventTime :: int
  Updates :: "(string \<times> string) list"

definition maxBodyBytes :: nat where "maxBodyBytes = 64 * 2 ^ 10"

definition maxEventAge :: duration where "maxEventAge = 24 * hour"

definition objectTypeActivity :: string where "objectTypeActivity = ''activity''"

definition objectTypeAthlete :: string where "objectTypeAthlete = ''athlete''"

definition updateAuthorized :: string where "updateAuthorized = ''authorized''"

definition deauthorizedValue :: string where "deauthorizedValue = ''false''"

definition aspectCreate :: string where "aspectCreate = ''create''"

definition aspectUpdate :: string where "aspectUpdate = ''update''"

definition Deauthorized :: "Event \<Rightarrow> bool" where
  "Deauthorized e \<longleftrightarrow> ObjectType e = objectTypeAthlete \<and> get_value (Updates e) updateAuthorized = deauthorizedValue"

record webhook =
  verifyToken :: string
  hookAthlete :: int
  hookDelay :: duration
  sha256 :: "string \<Rightarrow> string"
  decode_event :: "string \<Rightarrow> Event option"

definition NewWebhook :: "webhook \<Rightarrow> bool \<Rightarrow> bool \<Rightarrow> webhook option" where
  "NewWebhook cfg has_queue has_named =
     (if verifyToken cfg = [] then None
      else if \<not> has_queue \<or> \<not> has_named then None
      else Some cfg)"

section \<open>The handshake\<close>

definition equalSecret :: "(string \<Rightarrow> string) \<Rightarrow> string \<Rightarrow> string \<Rightarrow> bool" where
  "equalSecret digest got want \<longleftrightarrow> digest got = digest want"

definition validate :: "webhook \<Rightarrow> http_request \<Rightarrow> http_response" where
  "validate h r =
     (if get_value (ReqQuery r) ''hub.mode'' \<noteq> ''subscribe'' then http_error ''forbidden'' 403
      else if \<not> equalSecret (sha256 h) (get_value (ReqQuery r) ''hub.verify_token'') (verifyToken h)
      then http_error ''forbidden'' 403
      else
        let challenge = get_value (ReqQuery r) ''hub.challenge'' in
        if challenge = [] then http_error ''missing hub.challenge'' 400
        else \<lparr>RespStatus = 200, RespHeaders = [(''Content-Type'', ''application/json'')],
          RespText = ''{'' @ json_string ''hub.challenge'' @ '':'' @ json_string challenge @ ''}'' @ newline\<rparr>)"

section \<open>The intake\<close>

definition processAfter :: "duration \<Rightarrow> instant \<Rightarrow> Event \<Rightarrow> instant" where
  "processAfter d now e =
     (let base =
        if EventTime e > 0 then
          let eventTime = time_unix (EventTime e) in
          if before eventTime now \<and> time_sub now eventTime \<le> maxEventAge then eventTime else now
        else now
      in time_add base d)"

text \<open>A queue write: whether an entry was added, or \<^const>\<open>None\<close> where the code sees an error.\<close>

definition enqueue_call :: "'w env \<Rightarrow> Pending \<Rightarrow> ('w sys, bool option) state" where
  "enqueue_call E p = do {
     added \<leftarrow> reads (\<lambda>s. snd (Enqueue (SStore s) p));
     ok \<leftarrow> store_write E (\<lambda>m. fst (Enqueue m p));
     return (if ok then Some added else None) }"

datatype verdict =
  DeauthorizedAthlete | NotAnActivity | AspectNotHandled | ForeignOwner | MissingActivityID
| NamedLogUnreadable | AlreadyNamed | NotQueued | CollapsedIntoEntry | QueuedToReconcile | QueuedToName

definition process :: "'w env \<Rightarrow> webhook \<Rightarrow> Event \<Rightarrow> ('w sys, verdict) state" where
  "process E h e =
     (if Deauthorized e then return DeauthorizedAthlete
      else if ObjectType e \<noteq> objectTypeActivity then return NotAnActivity
      else if AspectType e \<noteq> aspectCreate \<and> AspectType e \<noteq> aspectUpdate then return AspectNotHandled
      else if hookAthlete h \<noteq> 0 \<and> OwnerID e \<noteq> hookAthlete h then return ForeignOwner
      else if ObjectID e = 0 then return MissingActivityID
      else do {
        recorded \<leftarrow> store_read E (\<lambda>m. Named m (OwnerID e) (ObjectID e));
        case recorded of
          None \<Rightarrow> return NamedLogUnreadable
        | Some row \<Rightarrow>
            if row \<noteq> None \<and> AspectType e \<noteq> aspectUpdate then return AlreadyNamed
            else do {
              enqueued \<leftarrow> now_of E;
              date \<leftarrow> now_of E;
              added \<leftarrow> enqueue_call E \<lparr>PAthleteID = OwnerID e, PActivityID = ObjectID e,
                Aspect = AspectType e, EnqueuedAt = enqueued, ProcessAfter = processAfter (hookDelay h) date e\<rparr>;
              return (case added of
                None \<Rightarrow> NotQueued
              | Some added \<Rightarrow>
                  if \<not> added then CollapsedIntoEntry
                  else if row \<noteq> None then QueuedToReconcile else QueuedToName) } })"

definition intake :: "'w env \<Rightarrow> webhook \<Rightarrow> http_request \<Rightarrow> ('w sys, http_response \<times> verdict option) state" where
  "intake E h r =
     (case decode_event h (take maxBodyBytes (ReqBody r)) of
        None \<Rightarrow> return (http_error ''bad request'' 400, None)
      | Some e \<Rightarrow> do {
          v \<leftarrow> process E h e;
          return (\<lparr>RespStatus = 200, RespHeaders = [], RespText = []\<rparr>, Some v) })"

definition WebhookServeHTTP :: "'w env \<Rightarrow> webhook \<Rightarrow> http_request \<Rightarrow> ('w sys, http_response \<times> verdict option) state" where
  "WebhookServeHTTP E h r =
     (if ReqMethod r = ''GET'' then return (validate h r, None)
      else if ReqMethod r = ''POST'' then intake E h r
      else let refused = http_error ''method not allowed'' 405 in
        return (refused\<lparr>RespHeaders := (''Allow'', ''GET, POST'') # RespHeaders refused\<rparr>, None))"

section \<open>What an event may do\<close>

text \<open>The one entry an event may cost, written at the instants the clock gave.\<close>

definition event_entry :: "webhook \<Rightarrow> Event \<Rightarrow> instant \<Rightarrow> instant \<Rightarrow> Pending" where
  "event_entry h e enqueued date = \<lparr>PAthleteID = OwnerID e, PActivityID = ObjectID e, Aspect = AspectType e,
     EnqueuedAt = enqueued, ProcessAfter = processAfter (hookDelay h) date e\<rparr>"

definition admitted :: "webhook \<Rightarrow> Event \<Rightarrow> bool" where
  "admitted h e \<longleftrightarrow> \<not> Deauthorized e \<and> ObjectType e = objectTypeActivity \<and>
     AspectType e \<in> {aspectCreate, aspectUpdate} \<and>
     (hookAthlete h = 0 \<or> OwnerID e = hookAthlete h) \<and> ObjectID e \<noteq> 0"

lemma run_enqueue_call:
  "run_state (enqueue_call E p) s =
     (case write_fault E (World s) of (d, w) \<Rightarrow>
        (if d = NoFault then Some (snd (Enqueue (SStore s) p)) else None,
         s\<lparr>World := w, SStore := (if d = FaultLost then SStore s else fst (Enqueue (SStore s) p))\<rparr>))"
  by (simp add: enqueue_call_def run_store_write split: prod.splits)

text \<open>Every run of \<open>process\<close>: only the world moves, or an admitted event's entry is enqueued.\<close>

lemma run_process:
  assumes "run_state (process E h e) s = (v, s')"
  obtains (idle) "s' = s\<lparr>World := World s'\<rparr>" "v \<notin> {QueuedToName, QueuedToReconcile, CollapsedIntoEntry}"
  | (asked) enqueued date w d where "admitted h e"
      "Named (SStore s) (OwnerID e) (ObjectID e) = None \<or> AspectType e = aspectUpdate"
      "s' = s\<lparr>World := w, SStore := (if d = FaultLost then SStore s
         else fst (Enqueue (SStore s) (event_entry h e enqueued date)))\<rparr>"
      "v = (if d \<noteq> NoFault then NotQueued
            else if \<not> snd (Enqueue (SStore s) (event_entry h e enqueued date)) then CollapsedIntoEntry
            else if Named (SStore s) (OwnerID e) (ObjectID e) = None then QueuedToName else QueuedToReconcile)"
proof (cases "admitted h e")
  case False
  then have "s' = s \<and> v \<notin> {QueuedToName, QueuedToReconcile, CollapsedIntoEntry}"
    using assms by (auto simp: process_def admitted_def split: if_splits)
  with idle show ?thesis by simp
next
  case True
  obtain f w where f: "read_fails E (World s) = (f, w)" by fastforce
  let ?row = "Named (SStore s) (OwnerID e) (ObjectID e)"
  have run: "run_state (process E h e) s =
      (if f then (NamedLogUnreadable, s\<lparr>World := w\<rparr>)
       else if ?row \<noteq> None \<and> AspectType e \<noteq> aspectUpdate then (AlreadyNamed, s\<lparr>World := w\<rparr>)
       else case clock E w of (enqueued, w1) \<Rightarrow> case clock E w1 of (date, w2) \<Rightarrow>
         case run_state (enqueue_call E (event_entry h e enqueued date)) (s\<lparr>World := w2\<rparr>) of (added, t) \<Rightarrow>
           (case added of None \<Rightarrow> NotQueued
            | Some added \<Rightarrow> if \<not> added then CollapsedIntoEntry
                else if ?row \<noteq> None then QueuedToReconcile else QueuedToName, t))"
    using True by (auto simp: process_def admitted_def run_store_read now_of_def event_entry_def f split: prod.splits)
  show ?thesis
  proof (cases "f \<or> ?row \<noteq> None \<and> AspectType e \<noteq> aspectUpdate")
    case True
    with run assms show ?thesis by (intro idle) (auto split: if_splits)
  next
    case False
    obtain enqueued w1 where c1: "clock E w = (enqueued, w1)" by fastforce
    obtain date w2 where c2: "clock E w1 = (date, w2)" by fastforce
    obtain d w3 where d: "write_fault E w2 = (d, w3)" by fastforce
    have res: "run_state (process E h e) s =
      (if d \<noteq> NoFault then NotQueued
       else if \<not> snd (Enqueue (SStore s) (event_entry h e enqueued date)) then CollapsedIntoEntry
       else if ?row = None then QueuedToName else QueuedToReconcile,
       s\<lparr>World := w3, SStore := (if d = FaultLost then SStore s
         else fst (Enqueue (SStore s) (event_entry h e enqueued date)))\<rparr>)"
      using False by (auto simp: run c1 c2 run_enqueue_call d split: option.splits)
    from False have may: "?row = None \<or> AspectType e = aspectUpdate" by blast
    have s': "s' = s\<lparr>World := w3, SStore := (if d = FaultLost then SStore s
         else fst (Enqueue (SStore s) (event_entry h e enqueued date)))\<rparr>"
      and v: "v = (if d \<noteq> NoFault then NotQueued
       else if \<not> snd (Enqueue (SStore s) (event_entry h e enqueued date)) then CollapsedIntoEntry
       else if ?row = None then QueuedToName else QueuedToReconcile)"
      using res assms by simp_all
    show ?thesis by (rule asked [OF True may s' v])
  qed
qed

lemma Enqueue_store:
  "fst (Enqueue m p) = (if map_of (mPending m) (pending_key p) = None
     then m\<lparr>mPending := AList.update (pending_key p) p (mPending m)\<rparr> else m)"
  by (simp add: Enqueue_def split: option.splits)

lemma run_WebhookServeHTTP:
  assumes "run_state (WebhookServeHTTP E h r) s = (x, s')"
  obtains (silent) "s' = s" "snd x = None"
  | (event) e v where "ReqMethod r = ''POST''" "decode_event h (take maxBodyBytes (ReqBody r)) = Some e"
      "run_state (process E h e) s = (v, s')" "snd x = Some v" "RespStatus (fst x) = 200"
  using assms
  by (auto simp: WebhookServeHTTP_def intake_def Let_def split: if_splits option.splits prod.splits)

section \<open>Properties\<close>

text \<open>C18: Whatever anyone posts to the webhook, signed by nobody, costs at most one queue entry. A request
  leaves the traces of requests and prompts, the caches and every part of the store but the queue as they
  are; the queue is unchanged, or holds one entry more, for an activity that had none: that of an admitted
  event, with nothing of the body in it but the two identifiers, the aspect and the time the deadline is
  reckoned from. An activity already in the named log is queued only by an update.\<close>

theorem event_costs_one_entry:
  assumes "run_state (WebhookServeHTTP E h r) s = (x, s')"
  shows "s' = s\<lparr>World := World s', SStore := SStore s'\<rparr> \<and>
    (SStore s' = SStore s \<or>
     (\<exists>e enqueued date. ReqMethod r = ''POST'' \<and>
        decode_event h (take maxBodyBytes (ReqBody r)) = Some e \<and> admitted h e \<and>
        map_of (mPending (SStore s)) (OwnerID e, ObjectID e) = None \<and>
        (Named (SStore s) (OwnerID e) (ObjectID e) = None \<or> AspectType e = aspectUpdate) \<and>
        SStore s' = (SStore s)\<lparr>mPending := AList.update (OwnerID e, ObjectID e)
          (event_entry h e enqueued date) (mPending (SStore s))\<rparr>))"
  using assms
proof (cases rule: run_WebhookServeHTTP)
  case (event e v)
  have key: "pending_key (event_entry h e t u) = (OwnerID e, ObjectID e)" for t u
    by (simp add: pending_key_def event_entry_def)
  from event(3) show ?thesis
  proof (cases rule: run_process)
    case (asked enqueued date w d)
    with event show ?thesis by (auto simp: Enqueue_store key)
  qed (metis sys.select_convs(2) sys.surjective sys.update_convs(1,2))
qed simp

definition ride_posted :: Event where
  "ride_posted = \<lparr>ObjectType = ''activity'', ObjectID = 5, AspectType = ''create'', OwnerID = 7,
     SubscriptionID = 1, EventTime = 0, Updates = []\<rparr>"

definition sample_hook :: webhook where
  "sample_hook = \<lparr>verifyToken = ''secret'', hookAthlete = 7, hookDelay = 600 * second, sha256 = (\<lambda>x. x),
     decode_event = (\<lambda>_. Some ride_posted)\<rparr>"

definition sample_post :: http_request where
  "sample_post = \<lparr>ReqMethod = ''POST'', ReqQuery = [], Authorization = [], ReqBody = []\<rparr>"

lemma sample_delivery:
  "run_state (WebhookServeHTTP sample_env sample_hook sample_post) sample_start =
     ((\<lparr>RespStatus = 200, RespHeaders = [], RespText = []\<rparr>, Some QueuedToName),
      sample_start\<lparr>SStore := fst (Enqueue (SStore sample_start) (event_entry sample_hook ride_posted 1000 1000))\<rparr>)"
  by (simp add: WebhookServeHTTP_def intake_def process_def sample_post_def sample_hook_def ride_posted_def
      Deauthorized_def objectTypeActivity_def objectTypeAthlete_def aspectCreate_def aspectUpdate_def
      run_store_read now_of_def run_enqueue_call event_entry_def sample_start_def NewProcessor_def
      Named_def NewMemory_def Enqueue_def pending_key_def)

lemma event_costs_one_entry_witness:
  "let s' = snd (run_state (WebhookServeHTTP sample_env sample_hook sample_post) sample_start) in
    s' = sample_start\<lparr>World := World s', SStore := SStore s'\<rparr>"
  using event_costs_one_entry [OF sample_delivery] by (simp add: sample_delivery Let_def)

text \<open>The deadline of an entry lies between 24 hours before the arrival and the arrival, plus the delay;
  an event time that is believed at both of two deliveries gives both the same deadline, the delay
  after the event; and one that is in the future, too old or missing counts from the arrival.\<close>

theorem deadline_anchored:
  shows "date - maxEventAge + d \<le> processAfter d date e \<and> processAfter d date e \<le> date + d
    \<and> (processAfter d date e \<noteq> date + d \<longrightarrow> processAfter d date e = time_unix (EventTime e) + d)
    \<and> (0 < EventTime e \<and> time_unix (EventTime e) < date \<and> date \<le> date2 \<and>
        date2 - time_unix (EventTime e) \<le> maxEventAge \<longrightarrow> processAfter d date2 e = processAfter d date e)"
proof -
  have age: "0 \<le> maxEventAge" "maxEventAge \<le> 2 ^ 62"
    by (simp_all add: maxEventAge_def hour_def minute_def second_def)
  have sub: "time_sub t u \<le> maxEventAge \<longleftrightarrow> t - u \<le> maxEventAge" for t u
    using age by (auto simp: time_sub_def)
  show ?thesis using age(1) by (auto simp: processAfter_def Let_def time_add_def before_def sub)
qed

lemma deadline_anchored_witness:
  "processAfter (600 * second) (time_unix 1001) (ride_posted\<lparr>EventTime := 1000\<rparr>) =
   processAfter (600 * second) (time_unix 1060) (ride_posted\<lparr>EventTime := 1000\<rparr>)"
proof -
  have unix: "time_unix n = (n + unix_to_internal) * second" if "0 \<le> n" "n \<le> 10000" for n
    using that by (simp add: time_unix_def int64_def unix_to_internal_def)
  show ?thesis
    using deadline_anchored [of "time_unix 1001" "600 * second" "ride_posted\<lparr>EventTime := 1000\<rparr>" "time_unix 1060"]
    by (simp add: unix maxEventAge_def hour_def minute_def second_def unix_to_internal_def)
qed

text \<open>The intake is a part of the service as theory Processor has it: a request is a change outside, and at
  most one delivery, so that what holds of every reachable state of the service holds with the real
  handler in it.\<close>

theorem intake_is_service_step:
  assumes "run_state (WebhookServeHTTP E h r) s = (x, s')"
  shows "(step E)\<^sup>*\<^sup>* s s'"
  using assms
proof (cases rule: run_WebhookServeHTTP)
  case (event e v)
  from event(3) show ?thesis
  proof (cases rule: run_process)
    case idle
    then show ?thesis by (metis r_into_rtranclp step.outside)
  next
    case (asked enqueued date w d)
    let ?p = "event_entry h e enqueued date"
    have out: "step E s (s\<lparr>World := w\<rparr>)" by (rule step.outside)
    show ?thesis
    proof (cases "d = FaultLost")
      case True
      with asked(3) out show ?thesis by (simp add: r_into_rtranclp)
    next
      case False
      with asked(3) have "s' = (s\<lparr>World := w\<rparr>)\<lparr>SStore := fst (Enqueue (SStore (s\<lparr>World := w\<rparr>)) ?p)\<rparr>" by simp
      then have "step E (s\<lparr>World := w\<rparr>) s'" using step.delivery by metis
      with out show ?thesis by (meson converse_rtranclp_into_rtranclp r_into_rtranclp)
    qed
  qed
qed simp

lemma intake_is_service_step_witness:
  "(step sample_env)\<^sup>*\<^sup>* sample_start
     (snd (run_state (WebhookServeHTTP sample_env sample_hook sample_post) sample_start))"
  using intake_is_service_step [OF sample_delivery] by (simp add: sample_delivery)

text \<open>The handshake succeeds exactly for a request that says it subscribes, carries the token and a
  challenge, and answers the challenge; it says 403 to everyone else, 400 where only the challenge is
  missing, and it has no part in the state.\<close>

theorem handshake_exact:
  shows "(RespStatus (validate h r) = 200 \<longleftrightarrow>
      get_value (ReqQuery r) ''hub.mode'' = ''subscribe'' \<and>
      sha256 h (get_value (ReqQuery r) ''hub.verify_token'') = sha256 h (verifyToken h) \<and>
      get_value (ReqQuery r) ''hub.challenge'' \<noteq> [])
    \<and> (get_value (ReqQuery r) ''hub.mode'' = ''subscribe'' \<and>
        get_value (ReqQuery r) ''hub.verify_token'' = verifyToken h \<longrightarrow> RespStatus (validate h r) \<noteq> 403)
    \<and> RespStatus (validate h r) \<in> {200, 400, 403}
    \<and> (ReqMethod r = ''GET'' \<longrightarrow> run_state (WebhookServeHTTP E h r) s = ((validate h r, None), s))"
  by (simp add: validate_def equalSecret_def Let_def WebhookServeHTTP_def)

lemma handshake_exact_witness:
  "RespStatus (validate sample_hook (sample_post\<lparr>ReqQuery := [(''hub.mode'', ''subscribe''),
     (''hub.verify_token'', ''secret''), (''hub.challenge'', ''c'')]\<rparr>)) = 200"
  using handshake_exact [of sample_hook "sample_post\<lparr>ReqQuery := [(''hub.mode'', ''subscribe''),
     (''hub.verify_token'', ''secret''), (''hub.challenge'', ''c'')]\<rparr>" sample_env sample_start]
  by (simp add: get_value_def sample_hook_def sample_post_def)

end
