(* ===== verification/SweepHandler.thy ===== *)
theory SweepHandler
  imports Http Processor
begin

text \<open>
  \<^verbatim>\<open>internal/sweep\<close>: the endpoint that makes the service act. Who may call it is decided by an
  identity token, which a validator outside the repository checks (\<open>id_validate\<close>, a call on the
  world); that one sweep runs at a time, by a lock that is tried and not waited for. A handler that
  panics writes no response.
\<close>

section \<open>Handler (New)\<close>

definition googleIssuer :: string where "googleIssuer = ''https://accounts.google.com''"

datatype claim = ClaimString string | ClaimBool bool | ClaimOther

record Payload =
  Issuer :: string
  Claims :: "(string \<times> claim) list"

record 'w sweep_deps =
  SweepAudience :: string
  SweepAccount :: string
  id_validate :: "string \<Rightarrow> string \<Rightarrow> 'w \<Rightarrow> (string + Payload) \<times> 'w"

definition NewSweepHandler :: "bool \<Rightarrow> 'w sweep_deps \<Rightarrow> 'w sweep_deps option" where
  "NewSweepHandler has_processor H =
     (if \<not> has_processor then None
      else if SweepAudience H = [] then None
      else if SweepAccount H = [] then None
      else Some H)"

section \<open>Authentication\<close>

datatype auth_error =
  NoAuthorization | NotABearerToken | EmptyToken | DidNotValidate string
| WrongIssuer string | WrongEmail string | EmailNotVerified

definition cutPrefixFold :: "tables \<Rightarrow> string \<Rightarrow> string \<Rightarrow> string option" where
  "cutPrefixFold U s pre =
     (if length s < length pre \<or> \<not> equal_fold U (take (length pre) s) pre then None
      else Some (drop (length pre) s))"

definition bearerToken :: "tables \<Rightarrow> http_request \<Rightarrow> auth_error + string" where
  "bearerToken U r =
     (if Authorization r = [] then Inl NoAuthorization
      else case cutPrefixFold U (Authorization r) ''Bearer '' of
        None \<Rightarrow> Inl NotABearerToken
      | Some token \<Rightarrow> if trim_space token = [] then Inl EmptyToken else Inr (trim_space token))"

definition claimed_email :: "Payload \<Rightarrow> string" where
  "claimed_email p = (case map_of (Claims p) ''email'' of Some (ClaimString s) \<Rightarrow> s | _ \<Rightarrow> [])"

definition email_verified :: "Payload \<Rightarrow> bool" where
  "email_verified p = (case map_of (Claims p) ''email_verified'' of Some (ClaimBool b) \<Rightarrow> b | _ \<Rightarrow> False)"

definition authenticate :: "'w env \<Rightarrow> 'w sweep_deps \<Rightarrow> http_request \<Rightarrow> ('w sys, auth_error + unit) state" where
  "authenticate E H r =
     (case bearerToken (Unicode E) r of
        Inl e \<Rightarrow> return (Inl e)
      | Inr raw \<Rightarrow>
          check (call (id_validate H raw (SweepAudience H))) DidNotValidate (\<lambda>payload.
            return (
              if Issuer payload \<noteq> googleIssuer then Inl (WrongIssuer (Issuer payload))
              else if claimed_email payload \<noteq> SweepAccount H then Inl (WrongEmail (claimed_email payload))
              else if \<not> email_verified payload then Inl EmailNotVerified
              else Inr ())))"

section \<open>The request (ServeHTTP)\<close>

definition writeJSON :: "int \<Rightarrow> string \<Rightarrow> http_response" where
  "writeJSON status body = \<lparr>RespStatus = status, RespHeaders = [(''Content-Type'', ''application/json'')],
     RespText = body @ newline\<rparr>"

definition quoted :: "string \<Rightarrow> string" where
  "quoted s = [CHR 0x22] @ s @ [CHR 0x22]"

definition result_json :: "Result \<Rightarrow> string" where
  "result_json r = ''{'' @ quoted ''due'' @ '':'' @ show_nat (RDue r)
     @ '','' @ quoted ''named'' @ '':'' @ show_nat (RNamed r)
     @ '','' @ quoted ''reconciled'' @ '':'' @ show_nat (RReconciled r)
     @ '','' @ quoted ''skipped'' @ '':'' @ show_nat (RSkipped r)
     @ '','' @ quoted ''provisional'' @ '':'' @ show_nat (RProvisional r)
     @ '','' @ quoted ''failed'' @ '':'' @ show_nat (RFailed r)
     @ '','' @ quoted ''cancelled'' @ '':'' @ (if RCancelled r then ''true'' else ''false'') @ ''}''"

definition unauthorized :: http_response where
  "unauthorized = http_error ''unauthorized'' 401"

definition already_running :: http_response where
  "already_running = writeJSON 200 (''{'' @ quoted ''status'' @ '':'' @ quoted ''already running'' @ ''}'')"

definition sweep_response :: "proc_error + Result \<Rightarrow> http_response option" where
  "sweep_response x = (case x of
     Inr r \<Rightarrow> Some (writeJSON 200 (result_json r))
   | Inl IndexPanic \<Rightarrow> None
   | Inl _ \<Rightarrow> Some (http_error ''sweep failed'' 500))"

text \<open>
  \<open>held\<close> says whether the lock is held when the request tries it. A request is answered at once, or it has
  the lock and runs the sweep; unlocking is deferred, so a panic unlocks too. Theory Gate lets requests overlap.
\<close>

definition admit :: "'w env \<Rightarrow> 'w sweep_deps \<Rightarrow> bool \<Rightarrow> http_request \<Rightarrow> ('w sys, http_response + unit) state" where
  "admit E H held r = do {
     caller \<leftarrow> authenticate E H r;
     return (case caller of
         Inl e \<Rightarrow> Inl unauthorized
       | Inr _ \<Rightarrow> if held then Inl already_running else Inr ()) }"

definition SweepServeHTTP :: "'w env \<Rightarrow> deps \<Rightarrow> 'w sweep_deps \<Rightarrow> bool \<Rightarrow> http_request \<Rightarrow>
    ('w sys, http_response option) state" where
  "SweepServeHTTP E D H held r = do {
     entry \<leftarrow> admit E H held r;
     case entry of
       Inl response \<Rightarrow> return (Some response)
     | Inr _ \<Rightarrow> do {
         x \<leftarrow> Sweep E D;
         return (sweep_response x) } }"

section \<open>Who may sweep\<close>

text \<open>What the route promises: the caller is who a validated token says, and the token says the scheduler.\<close>

definition scheduler_token :: "'w sweep_deps \<Rightarrow> Payload \<Rightarrow> bool" where
  "scheduler_token H p \<longleftrightarrow> Issuer p = googleIssuer \<and>
     map_of (Claims p) ''email'' = Some (ClaimString (SweepAccount H)) \<and>
     map_of (Claims p) ''email_verified'' = Some (ClaimBool True)"

definition from_scheduler :: "'w env \<Rightarrow> 'w sweep_deps \<Rightarrow> http_request \<Rightarrow> 'w \<Rightarrow> bool" where
  "from_scheduler E H r w \<longleftrightarrow>
     (case bearerToken (Unicode E) r of
        Inl _ \<Rightarrow> False
      | Inr raw \<Rightarrow> (case fst (id_validate H raw (SweepAudience H) w) of
          Inl _ \<Rightarrow> False | Inr p \<Rightarrow> scheduler_token H p))"

lemma claimed_email_iff: "a \<noteq> [] \<Longrightarrow> claimed_email p = a \<longleftrightarrow> map_of (Claims p) ''email'' = Some (ClaimString a)"
  by (auto simp: claimed_email_def split: option.splits claim.splits)

lemma email_verified_iff: "email_verified p \<longleftrightarrow> map_of (Claims p) ''email_verified'' = Some (ClaimBool True)"
  by (auto simp: email_verified_def split: option.splits claim.splits)

lemma silent_authenticate [simp, intro]: "silent.may (authenticate E H r)"
  unfolding authenticate_def by (intro silent.may_rules silent_call)

lemma authenticate_iff:
  assumes "SweepAccount H \<noteq> []"
  shows "fst (run_state (authenticate E H r) s) = Inr () \<longleftrightarrow> from_scheduler E H r (World s)"
  using assms
  by (auto simp: authenticate_def from_scheduler_def scheduler_token_def claimed_email_iff email_verified_iff
      split: sum.splits prod.splits)

lemma authenticate_world: "run_state (authenticate E H r) s = (x, t) \<Longrightarrow> t = s\<lparr>World := World t\<rparr>"
  by (auto simp: authenticate_def split: sum.splits prod.splits)

text \<open>The ways through a request.\<close>

lemma run_SweepServeHTTP:
  assumes "run_state (SweepServeHTTP E D H held r) s = (x, s')" "SweepAccount H \<noteq> []"
  obtains (stranger) "\<not> from_scheduler E H r (World s)" "x = Some unauthorized" "s' = s\<lparr>World := World s'\<rparr>"
  | (overlap) "from_scheduler E H r (World s)" "held" "x = Some already_running" "s' = s\<lparr>World := World s'\<rparr>"
  | (swept) w y where "from_scheduler E H r (World s)" "\<not> held"
      "run_state (Sweep E D) (s\<lparr>World := w\<rparr>) = (y, s')" "x = sweep_response y"
proof -
  obtain a t where a: "run_state (authenticate E H r) s = (a, t)" by fastforce
  have t: "t = s\<lparr>World := World t\<rparr>" by (rule authenticate_world [OF a])
  have iff: "a = Inr () \<longleftrightarrow> from_scheduler E H r (World s)" using authenticate_iff [OF assms(2), of E r s] a by simp
  show ?thesis
  proof (cases a)
    case (Inl e)
    with assms(1) have "x = Some unauthorized" "s' = t" by (simp_all add: SweepServeHTTP_def admit_def a)
    with Inl iff t stranger show ?thesis by simp
  next
    case (Inr u)
    show ?thesis
    proof (cases held)
      case True
      with assms(1) Inr have "x = Some already_running" "s' = t" by (simp_all add: SweepServeHTTP_def admit_def a)
      with True Inr iff t overlap show ?thesis by simp
    next
      case False
      obtain y t' where y: "run_state (Sweep E D) t = (y, t')" by fastforce
      with assms(1) Inr False have "x = sweep_response y" "s' = t'" by (simp_all add: SweepServeHTTP_def admit_def a)
      moreover have "from_scheduler E H r (World s)" using Inr iff by simp
      ultimately show ?thesis using False y t swept [of "World t" y] by simp
    qed
  qed
qed

section \<open>Properties\<close>

text \<open>C19: Only the scheduler makes the service act. A request is answered with anything but a 401 exactly when
  its bearer token validates for the configured audience and names Google's issuer, the configured service
  account and a verified email; every other request, and one that arrives while a sweep is running, leaves
  the store, the traces and the caches as they are. The handler cannot be built without an account, so a
  token without an email is nobody's.\<close>

theorem only_scheduler_sweeps:
  assumes "NewSweepHandler has_processor H0 = Some H" and "run_state (SweepServeHTTP E D H held r) s = (x, s')"
  shows "(x \<noteq> Some unauthorized \<longleftrightarrow> from_scheduler E H r (World s))
    \<and> (s' \<noteq> s\<lparr>World := World s'\<rparr> \<longrightarrow> from_scheduler E H r (World s) \<and> \<not> held)
    \<and> (held \<and> from_scheduler E H r (World s) \<longrightarrow> x = Some already_running)"
proof -
  have account: "SweepAccount H \<noteq> []" using assms(1) by (auto simp: NewSweepHandler_def split: if_splits)
  have differ: "sweep_response y \<noteq> Some unauthorized" "already_running \<noteq> unauthorized" for y
    by (auto simp: sweep_response_def unauthorized_def already_running_def writeJSON_def http_error_def
        split: sum.splits proc_error.splits)
  from assms(2) account show ?thesis
    by (cases rule: run_SweepServeHTTP) (simp_all add: differ)
qed

definition sample_payload :: Payload where
  "sample_payload = \<lparr>Issuer = googleIssuer,
     Claims = [(''email'', ClaimString ''s@x''), (''email_verified'', ClaimBool True)]\<rparr>"

definition sample_trigger :: "nat sweep_deps" where
  "sample_trigger = \<lparr>SweepAudience = ''https://x'', SweepAccount = ''s@x'',
     id_validate = (\<lambda>token audience w. (if token = ''t'' then Inr sample_payload else Inl [], w))\<rparr>"

definition sample_fire :: http_request where
  "sample_fire = \<lparr>ReqMethod = ''POST'', ReqQuery = [], Authorization = ''bearer t'', ReqBody = []\<rparr>"

lemma sample_bearer: "bearerToken latin1 sample_fire = Inr ''t''"
proof -
  have "trim_space ''t'' = ''t''" by (simp add: trim_space_def is_space_def)
  moreover have "cutPrefixFold latin1 ''bearer t'' ''Bearer '' = Some ''t''"
    by (simp add: cutPrefixFold_def equal_fold_def latin1_def latin_lower_def ascii_upper_def)
  ultimately show ?thesis by (simp add: bearerToken_def sample_fire_def)
qed

lemma sample_authenticate: "run_state (authenticate sample_env sample_trigger sample_fire) s = (Inr (), s)"
  by (simp add: authenticate_def sample_bearer sample_trigger_def sample_payload_def claimed_email_def
      email_verified_def)

lemma only_scheduler_sweeps_witness:
  "from_scheduler sample_env sample_trigger sample_fire (0 :: nat)"
proof -
  have new: "NewSweepHandler True sample_trigger = Some sample_trigger"
    by (simp add: NewSweepHandler_def sample_trigger_def)
  have run: "run_state (SweepServeHTTP sample_env sample_deps sample_trigger True sample_fire) sample_start =
      (Some already_running, sample_start)"
    by (simp add: SweepServeHTTP_def admit_def sample_authenticate)
  have "Some already_running \<noteq> Some unauthorized"
    by (simp add: already_running_def unauthorized_def writeJSON_def http_error_def)
  with only_scheduler_sweeps [OF new run] show ?thesis by simp
qed

end
