(* ===== verification/Server.thy ===== *)
theory Server
  imports Settings Webhook SweepHandler
begin

text \<open>
  \<^verbatim>\<open>internal/server\<close>: the HTTP surface. The router, the two OAuth handlers with their single-use
  states, and the decision which athlete may be bound; the webhook and the sweep are the handlers of
  theories Webhook and SweepHandler. The state map is an association list; its mutex makes an access one
  step, and the bind lock makes check and save one.
\<close>

section \<open>Server (New)\<close>

definition stateTTL :: duration where "stateTTL = 10 * minute"

record 'w srv =
  SrvSys :: "'w sys"
  States :: "(string \<times> instant) list"

record 'w srv_deps =
  SrvConfig :: settings
  SrvOAuth :: OAuth
  HasSweep :: bool
  HasBound :: bool
  rand_read :: "'w \<Rightarrow> string option \<times> 'w"
  token_post :: "'w poster"
  decode_token :: "string \<Rightarrow> tokenResponse option"

definition NewServer :: "bool \<Rightarrow> bool \<Rightarrow> bool \<Rightarrow> 'w srv_deps \<Rightarrow> 'w sys \<Rightarrow> 'w srv option" where
  "NewServer has_oauth has_tokens has_webhook S s =
     (if \<not> has_oauth \<or> \<not> has_tokens \<or> \<not> has_webhook then None
      else if WebhookPath (SrvConfig S) = [] \<or> AuthPath (SrvConfig S) = [] then None
      else Some \<lparr>SrvSys = s, States = []\<rparr>)"

definition on_sys :: "('w sys, 'a) state \<Rightarrow> ('w srv, 'a) state" where
  "on_sys m = State (\<lambda>v. case run_state m (SrvSys v) of (a, s) \<Rightarrow> (a, v\<lparr>SrvSys := s\<rparr>))"

lemma run_on_sys [simp]:
  "run_state (on_sys m) v = (case run_state m (SrvSys v) of (a, s) \<Rightarrow> (a, v\<lparr>SrvSys := s\<rparr>))"
  by (simp add: on_sys_def)

section \<open>States (newState, consumeState)\<close>

text \<open>\<^verbatim>\<open>base64.RawURLEncoding\<close>.\<close>

definition base64_char :: "nat \<Rightarrow> char" where
  "base64_char i =
     (if i < 26 then char_of (65 + i) else if i < 52 then char_of (71 + i)
      else if i < 62 then char_of (i - 4) else if i = 62 then CHR ''-'' else CHR ''_'')"

fun RawURLEncoding :: "string \<Rightarrow> string" where
  "RawURLEncoding [] = []"
| "RawURLEncoding [a] = [base64_char (byte a div 4), base64_char (byte a mod 4 * 16)]"
| "RawURLEncoding [a, b] = [base64_char (byte a div 4), base64_char (byte a mod 4 * 16 + byte b div 16),
     base64_char (byte b mod 16 * 4)]"
| "RawURLEncoding (a # b # c # s) = [base64_char (byte a div 4), base64_char (byte a mod 4 * 16 + byte b div 16),
     base64_char (byte b mod 16 * 4 + byte c div 64), base64_char (byte c mod 64)] @ RawURLEncoding s"

definition newState :: "'w env \<Rightarrow> 'w srv_deps \<Rightarrow> ('w srv, string option) state" where
  "newState E S = do {
     raw \<leftarrow> on_sys (call (rand_read S));
     case raw of
       None \<Rightarrow> return None
     | Some bytes \<Rightarrow> do {
         date \<leftarrow> on_sys (now_of E);
         changes (\<lambda>v. v\<lparr>States := AList.update (RawURLEncoding bytes) date
           (filter (\<lambda>(_, issued). \<not> time_sub date issued > stateTTL) (States v))\<rparr>);
         return (Some (RawURLEncoding bytes)) } }"

definition consumeState :: "'w env \<Rightarrow> string \<Rightarrow> ('w srv, bool) state" where
  "consumeState E st =
     (if st = [] then return False
      else do {
        known \<leftarrow> reads (\<lambda>v. map_of (States v) st);
        case known of
          None \<Rightarrow> return False
        | Some issued \<Rightarrow> do {
            changes (\<lambda>v. v\<lparr>States := AList.delete st (States v)\<rparr>);
            date \<leftarrow> on_sys (now_of E);
            return (time_sub date issued \<le> stateTTL) } })"

section \<open>Binding (checkAthlete)\<close>

text \<open>\<^verbatim>\<open>Bound\<close> as app.go passes it: an error of the lookup is reported as nothing bound.\<close>

definition Bound :: "'w env \<Rightarrow> ('w sys, int option) state" where
  "Bound E = do {
     token \<leftarrow> store_read E AnyToken;
     return (case token of Some (Some t) \<Rightarrow> Some (AthleteID t) | _ \<Rightarrow> None) }"

definition checkAthlete :: "'w env \<Rightarrow> 'w srv_deps \<Rightarrow> int \<Rightarrow> ('w sys, bool) state" where
  "checkAthlete E S authorized =
     (if OnlyAthlete (SrvConfig S) \<noteq> 0 then return (authorized = OnlyAthlete (SrvConfig S))
      else if \<not> HasBound S then return True
      else do {
        bound \<leftarrow> Bound E;
        return (case bound of None \<Rightarrow> True | Some a \<Rightarrow> a = authorized) })"

section \<open>Handlers (health, authStart, authCallback)\<close>

definition plain_text :: "string \<Rightarrow> http_response" where
  "plain_text body = \<lparr>RespStatus = 200, RespHeaders = [(''Content-Type'', ''text/plain; charset=utf-8'')],
     RespText = body\<rparr>"

definition health :: http_response where
  "health = plain_text (''ok'' @ newline)"

text \<open>\<^verbatim>\<open>http.Redirect\<close> for a GET to an absolute URL.\<close>

definition html_escape :: "string \<Rightarrow> string" where
  "html_escape s = concat (map (\<lambda>c.
     if c = CHR ''&'' then ''&amp;'' else if c = CHR ''<'' then ''&lt;'' else if c = CHR ''>'' then ''&gt;''
     else if c = CHR 0x22 then ''&#34;'' else if c = CHR 0x27 then ''&#39;'' else [c]) s)"

definition escape_non_ascii :: "string \<Rightarrow> string" where
  "escape_non_ascii s = concat (map (\<lambda>c.
     if byte c < 128 then [c] else [CHR ''%'', lower_hex (byte c div 16), lower_hex (byte c mod 16)]) s)"

definition redirect :: "string \<Rightarrow> http_response" where
  "redirect url = \<lparr>RespStatus = 302,
     RespHeaders = [(''Location'', escape_non_ascii url), (''Content-Type'', ''text/html; charset=utf-8'')],
     RespText = ''<a href='' @ quoted (html_escape url) @ ''>Found</a>.'' @ newline @ newline\<rparr>"

definition authStart :: "'w env \<Rightarrow> 'w srv_deps \<Rightarrow> ('w srv, http_response) state" where
  "authStart E S = do {
     st \<leftarrow> newState E S;
     return (case st of
       None \<Rightarrow> http_error ''internal error'' 500
     | Some st \<Rightarrow> redirect (AuthorizeURL (SrvOAuth S) st)) }"

definition missingScopes :: "string list \<Rightarrow> string list" where
  "missingScopes scopes =
     MissingScopes \<lparr>AthleteID = 0, AccessToken = [], RefreshToken = [], ExpiresAt = 0, Scopes = scopes\<rparr>"

definition exchange_call :: "'w env \<Rightarrow> 'w srv_deps \<Rightarrow> string \<Rightarrow> ('w sys, strava_error + Token) state" where
  "exchange_call E S code = do {
     date \<leftarrow> now_of E;
     call (Exchange (SrvOAuth S) (token_post S) (decode_token S) date code) }"

text \<open>The last part of the callback, under the bind lock.\<close>

definition bind_token :: "'w env \<Rightarrow> 'w srv_deps \<Rightarrow> Token \<Rightarrow> ('w sys, http_response) state" where
  "bind_token E S token = do {
     allowed \<leftarrow> checkAthlete E S (AthleteID token);
     if \<not> allowed then return (http_error ''unexpected athlete'' 403)
     else do {
       ok \<leftarrow> store_write E (\<lambda>m. Save m token);
       return (if \<not> ok then http_error ''could not store the token'' 500
         else plain_text (''Authorized athlete '' @ show_int (AthleteID token) @ ''. You can close this tab.'' @ newline)) } }"

definition exchange_and_bind :: "'w env \<Rightarrow> 'w srv_deps \<Rightarrow> string \<Rightarrow> string list \<Rightarrow> ('w sys, http_response) state" where
  "exchange_and_bind E S code scopes = do {
     r \<leftarrow> exchange_call E S code;
     case r of
       Inl e \<Rightarrow> return (http_error ''token exchange failed'' 502)
     | Inr t \<Rightarrow>
         let token = (if Scopes t = [] then t\<lparr>Scopes := scopes\<rparr> else t) in
         if MissingScopes token \<noteq> [] then return (http_error ''token is missing required scopes'' 400)
         else bind_token E S token }"

definition authCallback :: "'w env \<Rightarrow> 'w srv_deps \<Rightarrow> http_request \<Rightarrow> ('w srv, http_response) state" where
  "authCallback E S r =
     (if get_value (ReqQuery r) ''error'' \<noteq> [] then return (http_error ''authorization declined'' 400)
      else do {
        live \<leftarrow> consumeState E (get_value (ReqQuery r) ''state'');
        if \<not> live then return (http_error ''invalid state'' 400)
        else
          let code = get_value (ReqQuery r) ''code'';
              scopes = ParseScopes (get_value (ReqQuery r) ''scope'') in
          if code = [] then return (http_error ''missing code'' 400)
          else if missingScopes scopes \<noteq> []
          then return (http_error (''authorization is missing required scopes: '' @
            join_with '', '' (missingScopes scopes)) 400)
          else on_sys (exchange_and_bind E S code scopes) })"

section \<open>The router (Handler)\<close>

datatype route = HealthRoute | AuthStartRoute | CallbackRoute | WebhookRoute | SweepRoute

definition patterns :: "'w srv_deps \<Rightarrow> (string option \<times> string \<times> route) list" where
  "patterns S =
     [(Some ''GET'', HealthPath, HealthRoute), (Some ''GET'', AuthPath (SrvConfig S), AuthStartRoute),
      (Some ''GET'', AuthCallbackPath, CallbackRoute), (None, WebhookPath (SrvConfig S), WebhookRoute)] @
     (if HasSweep S \<and> Enabled (SweepSettings (SrvConfig S))
      then [(Some ''POST'', SweepPath (SweepSettings (SrvConfig S)), SweepRoute)] else [])"

text \<open>
  \<^verbatim>\<open>ServeMux\<close> on patterns without wildcards: the pattern of the path that names the method, then one
  that names none; a path that only other methods have is answered with 405. A GET pattern serves HEAD.
\<close>

definition method_matches :: "string \<Rightarrow> string \<Rightarrow> bool" where
  "method_matches pat m \<longleftrightarrow> m = pat \<or> pat = ''GET'' \<and> m = ''HEAD''"

datatype no_route = NotFound | MethodNotAllowed string

definition allowed_methods :: "(string option \<times> string \<times> route) list \<Rightarrow> string" where
  "allowed_methods here = join_with '', ''
     (concat (map (\<lambda>(k, _, _). case k of None \<Rightarrow> [] | Some m \<Rightarrow> if m = ''GET'' then [''GET'', ''HEAD''] else [m]) here))"

definition match :: "'w srv_deps \<Rightarrow> string \<Rightarrow> string \<Rightarrow> no_route + route" where
  "match S m path =
     (let here = filter (\<lambda>(_, p, _). p = path) (patterns S) in
      case filter (\<lambda>(k, _, _). case k of Some k \<Rightarrow> method_matches k m | None \<Rightarrow> False) here of
        (_, _, t) # _ \<Rightarrow> Inr t
      | [] \<Rightarrow> (case filter (\<lambda>(k, _, _). k = None) here of
          (_, _, t) # _ \<Rightarrow> Inr t
        | [] \<Rightarrow> Inl (if here = [] then NotFound else MethodNotAllowed (allowed_methods here))))"

definition serve :: "'w env \<Rightarrow> deps \<Rightarrow> 'w srv_deps \<Rightarrow> webhook \<Rightarrow> 'w sweep_deps \<Rightarrow> bool \<Rightarrow> string \<Rightarrow>
    http_request \<Rightarrow> ('w srv, http_response option) state" where
  "serve E D S h H held path r =
     (case match S (ReqMethod r) path of
        Inl NotFound \<Rightarrow> return (Some (http_error ''404 page not found'' 404))
      | Inl (MethodNotAllowed allow) \<Rightarrow>
          let refused = http_error ''Method Not Allowed'' 405 in
          return (Some (refused\<lparr>RespHeaders := (''Allow'', allow) # RespHeaders refused\<rparr>))
      | Inr HealthRoute \<Rightarrow> return (Some health)
      | Inr AuthStartRoute \<Rightarrow> do { x \<leftarrow> authStart E S; return (Some x) }
      | Inr CallbackRoute \<Rightarrow> do { x \<leftarrow> authCallback E S r; return (Some x) }
      | Inr WebhookRoute \<Rightarrow> do { x \<leftarrow> on_sys (WebhookServeHTTP E h r); return (Some (fst x)) }
      | Inr SweepRoute \<Rightarrow> on_sys (SweepServeHTTP E D H held r))"

section \<open>What the handlers change\<close>

lemma run_consumeState:
  assumes "run_state (consumeState E st) v = (live, v')"
  obtains (unknown) "\<not> live" "v' = v" "map_of (States v) st = None \<or> st = []"
  | (consumed) issued where "map_of (States v) st = Some issued" "st \<noteq> []"
      "States v' = AList.delete st (States v)" "SrvSys v' = (SrvSys v)\<lparr>World := snd (clock E (World (SrvSys v)))\<rparr>"
      "live \<longleftrightarrow> time_sub (fst (clock E (World (SrvSys v)))) issued \<le> stateTTL"
  using assms
  by (auto simp: consumeState_def now_of_def split: if_splits option.splits prod.splits)

lemma consumed_gone:
  "run_state (consumeState E st) v = (live, v') \<Longrightarrow> st = [] \<or> map_of (States v') st = None"
  by (erule run_consumeState) (auto simp: delete_conv')

lemma consumeState_same:
  assumes "run_state (consumeState E st) v = (live, v')"
  shows "SStore (SrvSys v') = SStore (SrvSys v)" "Puts (SrvSys v') = Puts (SrvSys v)"
    "(SrvSys v')\<lparr>World := w\<rparr> = (SrvSys v)\<lparr>World := w\<rparr>"
proof -
  from assms have s: "SrvSys v' = (SrvSys v)\<lparr>World := World (SrvSys v')\<rparr>"
    by (cases rule: run_consumeState) simp_all
  show "SStore (SrvSys v') = SStore (SrvSys v)" "Puts (SrvSys v') = Puts (SrvSys v)"
    "(SrvSys v')\<lparr>World := w\<rparr> = (SrvSys v)\<lparr>World := w\<rparr>"
    using arg_cong [OF s, of SStore] arg_cong [OF s, of Puts] arg_cong [OF s, of "\<lambda>s. s\<lparr>World := w\<rparr>"] by simp_all
qed

text \<open>Nothing but the world and the tokens' store moved.\<close>

definition only_store :: "'w sys \<Rightarrow> Memory \<Rightarrow> 'w sys \<Rightarrow> bool" where
  "only_store s m s' \<longleftrightarrow> (\<exists>w. s' = s\<lparr>World := w, SStore := m\<rparr>)"

lemma only_store_of_world [simp]: "only_store (s\<lparr>World := w\<rparr>) m s' \<longleftrightarrow> only_store s m s'"
  by (simp add: only_store_def)

lemma only_storeD: "only_store s m s' \<Longrightarrow> SStore s' = m \<and> Puts s' = Puts s"
  by (auto simp: only_store_def)

lemma only_store_refl [simp]: "only_store s (SStore s) (s\<lparr>World := w\<rparr>)"
  by (simp add: only_store_def exI [of _ w])

lemma only_store_write [simp]: "only_store s m (s\<lparr>World := w, SStore := m\<rparr>)"
  by (auto simp: only_store_def)

text \<open>Which athlete the check lets through, and that it changes the world alone.\<close>

definition may_bind :: "'w env \<Rightarrow> 'w srv_deps \<Rightarrow> 'w sys \<Rightarrow> int \<Rightarrow> bool" where
  "may_bind E S s a \<longleftrightarrow>
     (if OnlyAthlete (SrvConfig S) \<noteq> 0 then a = OnlyAthlete (SrvConfig S)
      else \<not> HasBound S \<or> fst (read_fails E (World s)) \<or>
        (case AnyToken (SStore s) of None \<Rightarrow> True | Some t \<Rightarrow> AthleteID t = a))"

lemma run_checkAthlete:
  "run_state (checkAthlete E S a) s = (ok, s') \<Longrightarrow> (ok \<longleftrightarrow> may_bind E S s a) \<and> (\<exists>w. s' = s\<lparr>World := w\<rparr>)"
  by (auto simp: checkAthlete_def may_bind_def Bound_def run_store_read intro: exI [of _ "World s"]
      split: if_splits prod.splits option.splits)

lemma run_bind_token:
  assumes "run_state (bind_token E S token) s = (x, s')"
  obtains (refused) "\<not> may_bind E S s (AthleteID token)" "RespStatus x = 403" "only_store s (SStore s) s'"
  | (bound) d u where "may_bind E S s (AthleteID token)" "RespStatus x = (if d = NoFault then 200 else 500)"
      "only_store s (if d = FaultLost then SStore s else Save (SStore s) token) s'" "d = fst (write_fault E u)"
proof -
  obtain ok t where c: "run_state (checkAthlete E S (AthleteID token)) s = (ok, t)" by fastforce
  with run_checkAthlete [OF c] obtain w where t: "t = s\<lparr>World := w\<rparr>" "ok \<longleftrightarrow> may_bind E S s (AthleteID token)" by auto
  show ?thesis
  proof (cases ok)
    case False
    with assms c have "x = http_error ''unexpected athlete'' 403" "s' = t" by (simp_all add: bind_token_def)
    with t False show ?thesis by (intro refused) simp_all
  next
    case True
    obtain d w' where d: "write_fault E w = (d, w')" by fastforce
    have "x = (if d \<noteq> NoFault then http_error ''could not store the token'' 500
         else plain_text (''Authorized athlete '' @ show_int (AthleteID token) @ ''. You can close this tab.'' @ newline))"
      and "s' = s\<lparr>World := w', SStore := (if d = FaultLost then SStore s else Save (SStore s) token)\<rparr>"
      using assms c True d by (auto simp: bind_token_def run_store_write t(1))
    with True t(2) d show ?thesis by (intro bound [of d w]) (simp_all only: only_store_write, simp_all add: plain_text_def)
  qed
qed

text \<open>What the exchange answers in a world, and the token with the scopes of the redirect where it names none.\<close>

definition exchange_answer :: "'w env \<Rightarrow> 'w srv_deps \<Rightarrow> string \<Rightarrow> 'w \<Rightarrow> (strava_error + Token) \<times> 'w" where
  "exchange_answer E S code w =
     (case clock E w of (date, w') \<Rightarrow> Exchange (SrvOAuth S) (token_post S) (decode_token S) date code w')"

definition with_scopes :: "string list \<Rightarrow> Token \<Rightarrow> Token" where
  "with_scopes scopes t = (if Scopes t = [] then t\<lparr>Scopes := scopes\<rparr> else t)"

lemma with_scopes_athlete [simp]: "AthleteID (with_scopes scopes t) = AthleteID t"
  by (simp add: with_scopes_def)

lemma run_exchange_call:
  "run_state (exchange_call E S code) s =
     (fst (exchange_answer E S code (World s)), s\<lparr>World := snd (exchange_answer E S code (World s))\<rparr>)"
  by (auto simp: exchange_call_def exchange_answer_def now_of_def split: prod.splits)

lemma run_exchange_and_bind:
  assumes "run_state (exchange_and_bind E S code scopes) s = (x, s')"
  obtains (failed) e w where "exchange_answer E S code (World s) = (Inl e, w)" "RespStatus x = 502"
      "only_store s (SStore s) s'"
  | (scopeless) t w where "exchange_answer E S code (World s) = (Inr t, w)" "MissingScopes (with_scopes scopes t) \<noteq> []"
      "RespStatus x = 400" "only_store s (SStore s) s'"
  | (refused) t w where "exchange_answer E S code (World s) = (Inr t, w)" "MissingScopes (with_scopes scopes t) = []"
      "\<not> may_bind E S (s\<lparr>World := w\<rparr>) (AthleteID t)" "RespStatus x = 403" "only_store s (SStore s) s'"
  | (bound) t w d u where "exchange_answer E S code (World s) = (Inr t, w)" "MissingScopes (with_scopes scopes t) = []"
      "may_bind E S (s\<lparr>World := w\<rparr>) (AthleteID t)" "RespStatus x = (if d = NoFault then 200 else 500)"
      "only_store s (if d = FaultLost then SStore s else Save (SStore s) (with_scopes scopes t)) s'"
      "d = fst (write_fault E u)"
proof -
  obtain r w where r: "exchange_answer E S code (World s) = (r, w)" by fastforce
  show ?thesis
  proof (cases r)
    case (Inl e)
    with assms r have "x = http_error ''token exchange failed'' 502" "s' = s\<lparr>World := w\<rparr>"
      by (simp_all add: exchange_and_bind_def run_exchange_call)
    with r Inl failed show ?thesis by simp
  next
    case (Inr u)
    show ?thesis
    proof (cases "MissingScopes (with_scopes scopes u) = []")
      case False
      with assms r Inr have "x = http_error ''token is missing required scopes'' 400" "s' = s\<lparr>World := w\<rparr>"
        by (simp_all add: exchange_and_bind_def run_exchange_call Let_def with_scopes_def split: if_splits)
      with r Inr False scopeless show ?thesis by simp
    next
      case True
      with assms r Inr have "run_state (bind_token E S (with_scopes scopes u)) (s\<lparr>World := w\<rparr>) = (x, s')"
        by (simp add: exchange_and_bind_def run_exchange_call Let_def with_scopes_def split: if_splits)
      then show ?thesis
      proof (cases rule: run_bind_token)
        case refused': refused
        with r Inr True refused show ?thesis by simp
      next
        case bound': (bound d v)
        with r Inr True bound [of u w d v] show ?thesis by (simp cong: if_cong)
      qed
    qed
  qed
qed

lemma run_authCallback:
  assumes "run_state (authCallback E S r) v = (x, v')"
  obtains (declined) "get_value (ReqQuery r) ''error'' \<noteq> []" "RespStatus x = 400" "v' = v"
  | (dead) "get_value (ReqQuery r) ''error'' = []" "RespStatus x = 400"
      "run_state (consumeState E (get_value (ReqQuery r) ''state'')) v = (False, v')"
  | (incomplete) "get_value (ReqQuery r) ''error'' = []" "RespStatus x = 400"
      "run_state (consumeState E (get_value (ReqQuery r) ''state'')) v = (True, v')"
      "get_value (ReqQuery r) ''code'' = [] \<or> missingScopes (ParseScopes (get_value (ReqQuery r) ''scope'')) \<noteq> []"
  | (exchanged) v1 where "get_value (ReqQuery r) ''error'' = []"
      "run_state (consumeState E (get_value (ReqQuery r) ''state'')) v = (True, v1)"
      "missingScopes (ParseScopes (get_value (ReqQuery r) ''scope'')) = []"
      "run_state (exchange_and_bind E S (get_value (ReqQuery r) ''code'')
         (ParseScopes (get_value (ReqQuery r) ''scope''))) (SrvSys v1) = (x, SrvSys v')" "States v' = States v1"
      "get_value (ReqQuery r) ''code'' \<noteq> []"
proof (cases "get_value (ReqQuery r) ''error'' = []")
  case False
  with assms declined show ?thesis by (auto simp: authCallback_def)
next
  case True
  obtain live v1 where c: "run_state (consumeState E (get_value (ReqQuery r) ''state'')) v = (live, v1)" by fastforce
  let ?code = "get_value (ReqQuery r) ''code''" and ?scopes = "ParseScopes (get_value (ReqQuery r) ''scope'')"
  consider (d) "\<not> live" | (i) "live" "?code = [] \<or> missingScopes ?scopes \<noteq> []"
    | (e) "live" "?code \<noteq> []" "missingScopes ?scopes = []" by blast
  then show ?thesis
  proof cases
    case d
    with assms True c have x: "x = http_error ''invalid state'' 400" "v' = v1" by (simp_all add: authCallback_def)
    with c d show ?thesis by (intro dead [OF True]) simp_all
  next
    case i
    then have "run_state (authCallback E S r) v = (if ?code = [] then http_error ''missing code'' 400
        else http_error (''authorization is missing required scopes: '' @ join_with '', '' (missingScopes ?scopes)) 400, v1)"
      using True c i by (cases "?code = []") (auto simp: authCallback_def Let_def)
    with assms have "RespStatus x = 400" "v' = v1" by (auto split: if_splits)
    with i c show ?thesis by (intro incomplete [OF True]) simp_all
  next
    case e
    obtain y s where y: "run_state (exchange_and_bind E S ?code ?scopes) (SrvSys v1) = (y, s)" by fastforce
    with e assms True c have "x = y" "v' = v1\<lparr>SrvSys := s\<rparr>" by (simp_all add: authCallback_def Let_def)
    with y c e show ?thesis by (intro exchanged [OF True, of v1]) simp_all
  qed
qed

text \<open>What the routes lead to.\<close>

lemma match_Inr:
  assumes "match S m path = Inr t"
  shows "\<exists>k. (k, path, t) \<in> set (patterns S) \<and> (case k of None \<Rightarrow> True | Some k \<Rightarrow> method_matches k m)"
proof -
  let ?here = "filter (\<lambda>(_, p, _). p = path) (patterns S)"
  let ?named = "filter (\<lambda>(k, _, _). case k of Some k \<Rightarrow> method_matches k m | None \<Rightarrow> False) ?here"
  let ?any = "filter (\<lambda>(k, _, _). k = None) ?here"
  consider k p rest where "?named = (k, p, t) # rest" | k p rest where "?any = (k, p, t) # rest"
    using assms by (auto simp: match_def Let_def split: list.splits)
  then show ?thesis
  proof cases
    case 1
    then have "(k, p, t) \<in> set ?named" by simp
    then show ?thesis by (auto split: option.splits intro!: exI [of _ k])
  next
    case 2
    then have "(k, p, t) \<in> set ?any" by simp
    then show ?thesis by (auto intro!: exI [of _ None])
  qed
qed

lemma match_routes:
  "match S m path = Inr SweepRoute \<Longrightarrow> path = SweepPath (SweepSettings (SrvConfig S)) \<and> m = ''POST''"
  "match S m path = Inr WebhookRoute \<Longrightarrow> path = WebhookPath (SrvConfig S)"
  "match S m path = Inr CallbackRoute \<Longrightarrow> path = AuthCallbackPath"
  by (auto dest!: match_Inr simp: patterns_def method_matches_def split: if_splits)

text \<open>What a request may change of the system, whoever it comes from.\<close>

definition guarded_change :: "'w sys \<Rightarrow> 'w sys \<Rightarrow> bool \<Rightarrow> bool \<Rightarrow> bool" where
  "guarded_change s s' q u \<longleftrightarrow> Puts s' = Puts s \<and> mNamed (SStore s') = mNamed (SStore s) \<and>
     mFranchises (SStore s') = mFranchises (SStore s) \<and>
     (mPending (SStore s') = mPending (SStore s) \<or> q) \<and> (mTokens (SStore s') = mTokens (SStore s) \<or> u)"

lemma guarded_world: "s' = s\<lparr>World := World s'\<rparr> \<Longrightarrow> guarded_change s s' q t"
  by (metis guarded_change_def sys.select_convs(2,6) sys.surjective sys.update_convs(1))

lemma guarded_webhook:
  assumes "run_state (WebhookServeHTTP E h r) s = (x, s')"
  shows "guarded_change s s' (ReqMethod r = ''POST'') False"
  using assms
proof (cases rule: run_WebhookServeHTTP)
  case (event e v)
  from event(3) show ?thesis
  proof (cases rule: run_process)
    case (asked enqueued date w d)
    then show ?thesis using event(1) by (auto simp: guarded_change_def Enqueue_store)
  qed (rule guarded_world)
qed (simp add: guarded_change_def)

lemma guarded_callback:
  assumes "run_state (authCallback E S r) v = (x, v')"
  shows "guarded_change (SrvSys v) (SrvSys v') False True"
  using assms
proof (cases rule: run_authCallback)
  case (exchanged v1)
  note same = consumeState_same(1,2) [OF exchanged(2)]
  from exchanged(4) have "guarded_change (SrvSys v1) (SrvSys v') False True"
    by (cases rule: run_exchange_and_bind)
      (auto dest!: only_storeD simp: guarded_change_def Save_def)
  with same show ?thesis by (simp add: guarded_change_def)
qed (simp_all add: guarded_change_def consumeState_same)

lemma guarded_authStart:
  "run_state (authStart E S) v = (x, v') \<Longrightarrow> guarded_change (SrvSys v) (SrvSys v') False False"
  by (auto simp: authStart_def newState_def now_of_def guarded_change_def split: option.splits prod.splits)

section \<open>Properties\<close>

text \<open>The parameters of the redirect, and whether its state is one this server issued at most ten minutes ago.\<close>

abbreviation error_of :: "http_request \<Rightarrow> string" where "error_of r \<equiv> get_value (ReqQuery r) ''error''"
abbreviation state_of :: "http_request \<Rightarrow> string" where "state_of r \<equiv> get_value (ReqQuery r) ''state''"
abbreviation code_of :: "http_request \<Rightarrow> string" where "code_of r \<equiv> get_value (ReqQuery r) ''code''"
abbreviation scopes_of :: "http_request \<Rightarrow> string list" where "scopes_of r \<equiv> ParseScopes (get_value (ReqQuery r) ''scope'')"

definition redeems :: "'w env \<Rightarrow> 'w srv \<Rightarrow> string \<Rightarrow> bool" where
  "redeems E v st \<longleftrightarrow> st \<noteq> [] \<and>
     (case map_of (States v) st of None \<Rightarrow> False
      | Some issued \<Rightarrow> time_sub (fst (clock E (World (SrvSys v)))) issued \<le> stateTTL)"

lemma consumeState_exact:
  assumes "run_state (consumeState E st) v = (live, v')"
  shows "(live \<longleftrightarrow> redeems E v st) \<and> States v' = (if st = [] then States v else AList.delete st (States v)) \<and>
    only_store (SrvSys v) (SStore (SrvSys v)) (SrvSys v') \<and>
    (live \<longrightarrow> SrvSys v' = (SrvSys v)\<lparr>World := snd (clock E (World (SrvSys v)))\<rparr>)"
  using assms
proof (cases rule: run_consumeState)
  case unknown
  then have "AList.delete st (States v) = States v" if "st \<noteq> []"
    using that by (simp add: delete_id map_of_eq_None_iff)
  moreover have "only_store (SrvSys v) (SStore (SrvSys v)) (SrvSys v)"
    using only_store_refl [of "SrvSys v" "World (SrvSys v)"] by simp
  ultimately show ?thesis using unknown by (auto simp: redeems_def)
next
  case (consumed issued)
  then show ?thesis by (simp add: redeems_def)
qed

text \<open>C16: What a callback does, exactly. The state it carries is struck off, whatever becomes of the request
  (unless the redirect reports an error, which is answered first), and every other pending state stays; so a
  replay finds nothing. It is answered with 400 and changes nothing else when the redirect carries an error, the
  state is not one this server issued at most ten minutes ago, the code is missing or the redirect lacks a
  required scope. Otherwise the code is exchanged: a failed exchange is answered with 502, a token without
  every required scope with 400, an athlete who may not be bound with 403, each without a change to the
  store; and in every other case the token is saved, with 200, or with 500 when the store reported a fault,
  whether or not the write had arrived.\<close>

theorem callback_guarded:
  assumes "run_state (authCallback E S r) v = (x, v')"
  shows "States v' = (if error_of r \<noteq> [] \<or> state_of r = [] then States v else AList.delete (state_of r) (States v))
    \<and> (if error_of r \<noteq> [] \<or> \<not> redeems E v (state_of r) \<or> code_of r = [] \<or> missingScopes (scopes_of r) \<noteq> []
       then RespStatus x = 400 \<and> only_store (SrvSys v) (SStore (SrvSys v)) (SrvSys v')
       else case exchange_answer E S (code_of r) (snd (clock E (World (SrvSys v)))) of
         (Inl e, w) \<Rightarrow> RespStatus x = 502 \<and> only_store (SrvSys v) (SStore (SrvSys v)) (SrvSys v')
       | (Inr t, w) \<Rightarrow>
           if MissingScopes (with_scopes (scopes_of r) t) \<noteq> []
           then RespStatus x = 400 \<and> only_store (SrvSys v) (SStore (SrvSys v)) (SrvSys v')
           else if \<not> may_bind E S ((SrvSys v)\<lparr>World := w\<rparr>) (AthleteID t)
           then RespStatus x = 403 \<and> only_store (SrvSys v) (SStore (SrvSys v)) (SrvSys v')
           else \<exists>d u. d = fst (write_fault E u) \<and> RespStatus x = (if d = NoFault then 200 else 500) \<and>
             only_store (SrvSys v) (if d = FaultLost then SStore (SrvSys v)
               else Save (SStore (SrvSys v)) (with_scopes (scopes_of r) t)) (SrvSys v'))"
  using assms
proof (cases rule: run_authCallback)
  case declined
  then show ?thesis using only_store_refl [of "SrvSys v" "World (SrvSys v)"] by simp
next
  case dead
  with consumeState_exact [OF dead(3)] show ?thesis by simp
next
  case incomplete
  with consumeState_exact [OF incomplete(3)] show ?thesis by auto
next
  case (exchanged v1)
  note c = consumeState_exact [OF exchanged(2)]
  then have v1: "SrvSys v1 = (SrvSys v)\<lparr>World := snd (clock E (World (SrvSys v)))\<rparr>" by blast
  note here = c exchanged(1,3,5,6)
  from exchanged(4) show ?thesis
  proof (cases rule: run_exchange_and_bind)
    case failed
    with here v1 show ?thesis by simp
  next
    case scopeless
    with here v1 show ?thesis by simp
  next
    case refused
    with here v1 show ?thesis by simp
  next
    case (bound t w d u)
    then have "\<exists>d u. d = fst (write_fault E u) \<and> RespStatus x = (if d = NoFault then 200 else 500) \<and>
        only_store (SrvSys v) (if d = FaultLost then SStore (SrvSys v)
          else Save (SStore (SrvSys v)) (with_scopes (scopes_of r) t)) (SrvSys v')"
      by (intro exI [of _ d] exI [of _ u]) (simp add: v1 cong: if_cong)
    with here bound(1-3) v1 show ?thesis by simp
  qed
qed

definition sample_settings :: settings where
  "sample_settings = no_settings\<lparr>WebhookPath := ''/webhook/abcdefgh'', AuthPath := ''/auth/abcdefgh'', MayWrite := True,
     SweepSettings := \<lparr>SweepPath = ''/sweep/abcdefgh'', SweepTokenAudience = ''https://x'', SweepServiceAccount = ''s@x''\<rparr>\<rparr>"

definition sample_server :: "nat srv_deps" where
  "sample_server = \<lparr>SrvConfig = sample_settings, SrvOAuth = \<lparr>ClientID = ''1'', ClientSecret = ''s'', RedirectURL = [],
       OAuthURL = []\<rparr>, HasSweep = True, HasBound = True, rand_read = (\<lambda>w. (Some ''abc'', w)),
     token_post = (\<lambda>url form w. (Inl ErrNotFound, w)), decode_token = (\<lambda>_. None)\<rparr>"

definition sample_srv :: "nat srv" where
  "sample_srv = \<lparr>SrvSys = sample_start, States = []\<rparr>"

definition sample_answer :: tokenResponse where
  "sample_answer = \<lparr>PTokenType = ''Bearer'', PExpiresAt = 9, PExpiresIn = 0, PRefreshToken = ''r'', PAccessToken = ''a'',
     PScope = [], PAthlete = 7\<rparr>"

definition answering_server :: "nat srv_deps" where
  "answering_server = sample_server\<lparr>token_post := (\<lambda>url form w. (Inr \<lparr>StatusCode = 200, Header = (\<lambda>_. []), RespBody = []\<rparr>, w)),
     decode_token := (\<lambda>_. Some sample_answer)\<rparr>"

definition sample_redirect :: http_request where
  "sample_redirect = \<lparr>ReqMethod = ''GET'', ReqQuery = [(''state'', ''s1''), (''code'', ''c''),
     (''scope'', ScopeActivityReadAll @ '','' @ ScopeActivityWrite)], Authorization = [], ReqBody = []\<rparr>"

definition waiting_srv :: "nat srv" where
  "waiting_srv = \<lparr>SrvSys = sample_start, States = [(''s1'', 900), (''s2'', 950)]\<rparr>"

definition sample_token :: Token where
  "sample_token = \<lparr>AthleteID = 7, AccessToken = ''a'', RefreshToken = ''r'', ExpiresAt = time_unix 9,
     Scopes = [ScopeActivityReadAll, ScopeActivityWrite]\<rparr>"

lemma sample_redirect_params [simp]:
  "error_of sample_redirect = []" "state_of sample_redirect = ''s1''" "code_of sample_redirect = ''c''"
  by (simp_all add: sample_redirect_def get_value_def)

lemma fields_word:
  assumes "w \<noteq> []" "\<forall>c \<in> set w. byte c < 128 \<and> \<not> p (byte c)"
  shows "fields_func p w = [w]"
proof -
  have "segs w = map (\<lambda>c. (byte c, [c])) w" using assms(2) by (induction w) simp_all
  with assms have "fields_by (p \<circ> fst) (segs w) = [segs w]" by (intro fields_by_word) auto
  then show ?thesis by (simp add: fields_func_def)
qed

lemma sample_redirect_scopes [simp]: "scopes_of sample_redirect = [ScopeActivityReadAll, ScopeActivityWrite]"
proof -
  have "trim_space ScopeActivityReadAll = ScopeActivityReadAll" "trim_space ScopeActivityWrite = ScopeActivityWrite"
    by (simp_all add: trim_space_def ScopeActivityReadAll_def ScopeActivityWrite_def is_space_def bytes_of_def)
  moreover have "ScopeActivityReadAll \<noteq> []" "ScopeActivityWrite \<noteq> []"
    by (simp_all add: ScopeActivityReadAll_def ScopeActivityWrite_def)
  moreover have "fields_func (\<lambda>r. r = byte CHR '','' \<or> r = byte CHR '' '') ScopeActivityReadAll = [ScopeActivityReadAll]"
    "fields_func (\<lambda>r. r = byte CHR '','' \<or> r = byte CHR '' '') ScopeActivityWrite = [ScopeActivityWrite]"
    by (rule fields_word; simp add: ScopeActivityReadAll_def ScopeActivityWrite_def)+
  ultimately show ?thesis
    by (simp add: sample_redirect_def get_value_def ParseScopes_def fields_append_ascii)
qed

lemma sample_redirect_redeems:
  "redeems sample_env waiting_srv ''s1''" "States v = [(''s2'', i)] \<Longrightarrow> \<not> redeems sample_env v ''s1''"
  by (simp_all add: redeems_def waiting_srv_def time_sub_def stateTTL_def minute_def second_def)

lemma sample_exchange:
  "exchange_answer sample_env answering_server code w = (Inr (sample_token\<lparr>Scopes := []\<rparr>), w)"
  by (simp add: exchange_answer_def Exchange_def token_request_def answering_server_def sample_server_def token_of_def
      sample_answer_def sample_token_def expiry_def ParseScopes_def fields_func_def fields_by_def)

lemma sample_exchange_scoped:
  "with_scopes [ScopeActivityReadAll, ScopeActivityWrite] (sample_token\<lparr>Scopes := []\<rparr>) = sample_token"
  by (simp add: with_scopes_def sample_token_def)

text \<open>A redirect with a pending state binds its athlete and spends that state alone; the same redirect again is refused.\<close>

lemma callback_guarded_witness:
  "\<exists>x v' y v''. run_state (authCallback sample_env answering_server sample_redirect) waiting_srv = (x, v') \<and>
     run_state (authCallback sample_env answering_server sample_redirect) v' = (y, v'') \<and>
     States v' = [(''s2'', 950)] \<and> mTokens (SStore (SrvSys v')) = [(7, sample_token)] \<and> RespStatus y = 400 \<and>
     SStore (SrvSys v'') = SStore (SrvSys v')"
proof -
  obtain x v' where run: "run_state (authCallback sample_env answering_server sample_redirect) waiting_srv = (x, v')" by fastforce
  obtain y v'' where again: "run_state (authCallback sample_env answering_server sample_redirect) v' = (y, v'')" by fastforce
  have scoped: "MissingScopes sample_token = []" "missingScopes [ScopeActivityReadAll, ScopeActivityWrite] = []"
    by (simp_all add: sample_token_def missingScopes_def MissingScopes_def HasScope_def)
  have free: "may_bind sample_env answering_server ((SrvSys waiting_srv)\<lparr>World := w\<rparr>) 7" for w
    by (simp add: may_bind_def waiting_srv_def sample_start_def NewProcessor_def NewMemory_def AnyToken_def
        answering_server_def sample_server_def sample_settings_def no_settings_def)
  have answer: "exchange_answer sample_env answering_server ''c'' w = (Inr (sample_token\<lparr>Scopes := []\<rparr>), w)" for w
    by (rule sample_exchange)
  have states: "States v' = [(''s2'', 950)]" using callback_guarded [OF run] by (simp add: waiting_srv_def)
  have "AthleteID (sample_token\<lparr>Scopes := []\<rparr>) = 7" by (simp add: sample_token_def)
  then have saved: "only_store (SrvSys waiting_srv) (Save (SStore (SrvSys waiting_srv)) sample_token) (SrvSys v')"
    using callback_guarded [OF run] scoped free by (simp add: sample_redirect_redeems answer sample_exchange_scoped)
  have "RespStatus y = 400" "only_store (SrvSys v') (SStore (SrvSys v')) (SrvSys v'')"
    using callback_guarded [OF again] sample_redirect_redeems(2) [OF states] by simp_all
  with run again states only_storeD [OF saved] show ?thesis
    by (auto simp: Save_def waiting_srv_def sample_start_def NewProcessor_def NewMemory_def sample_token_def
        dest: only_storeD)
qed

text \<open>Who may be bound, exactly: with an athlete configured, that one; with none, anyone where no lookup is
  wired, where the lookup finds no single token, and also where the lookup could not read the store; and
  otherwise the athlete already bound. The check itself changes nothing.\<close>

theorem check_athlete_exact:
  shows "fst (run_state (checkAthlete E S a) s) \<longleftrightarrow>
      (if OnlyAthlete (SrvConfig S) \<noteq> 0 then a = OnlyAthlete (SrvConfig S)
       else \<not> HasBound S \<or> fst (read_fails E (World s)) \<or>
         (case AnyToken (SStore s) of None \<Rightarrow> True | Some t \<Rightarrow> AthleteID t = a))"
    (is "?ok \<longleftrightarrow> ?may")
proof -
  obtain ok s' where "run_state (checkAthlete E S a) s = (ok, s')" by fastforce
  from run_checkAthlete [OF this] this show ?thesis by (simp add: may_bind_def)
qed

definition bound_ok :: "'w srv_deps \<Rightarrow> Memory \<Rightarrow> bool" where
  "bound_ok S m \<longleftrightarrow> length (mTokens m) \<le> 1 \<and>
     (OnlyAthlete (SrvConfig S) \<noteq> 0 \<longrightarrow> list_all (\<lambda>(_, t). AthleteID t = OnlyAthlete (SrvConfig S)) (mTokens m))"

lemma bound_ok_Save:
  assumes "bound_ok S m" "wf_Memory m" "HasBound S" "\<not> fst (read_fails E (World s))" "may_bind E S s (AthleteID t)" "SStore s = m"
  shows "bound_ok S (Save m t)" "\<And>u. AnyToken m = Some u \<Longrightarrow> AnyToken (Save m t) = Some t \<and> AthleteID t = AthleteID u"
proof -
  have "mTokens m = [] \<or> (\<exists>u. mTokens m = [(AthleteID u, u)])"
    using assms(1,2) by (cases "mTokens m") (auto simp: bound_ok_def wf_Memory_def)
  then consider (none) "mTokens m = []" | (one) u where "mTokens m = [(AthleteID u, u)]" by blast
  then have "bound_ok S (Save m t) \<and> (\<forall>u. AnyToken m = Some u \<longrightarrow> AnyToken (Save m t) = Some t \<and> AthleteID t = AthleteID u)"
    using assms by cases (auto simp: bound_ok_def Save_def may_bind_def AnyToken_def split: if_splits)
  then show "bound_ok S (Save m t)" "\<And>u. AnyToken m = Some u \<Longrightarrow> AnyToken (Save m t) = Some t \<and> AthleteID t = AthleteID u"
    by blast+
qed

text \<open>C17: The first athlete to authorize is the only one: where the store can be read, no callback, whoever sends
  it and whatever it carries, leaves two athletes bound or replaces the one who is; with an athlete
  configured nobody else is ever bound.\<close>

theorem first_authorization_binds:
  assumes "run_state (authCallback E S r) v = (x, v')" and "\<And>w. \<not> fst (read_fails E w)" and "HasBound S"
    and "wf_Memory (SStore (SrvSys v))" and "bound_ok S (SStore (SrvSys v))"
  shows "bound_ok S (SStore (SrvSys v')) \<and> wf_Memory (SStore (SrvSys v')) \<and>
    (case AnyToken (SStore (SrvSys v)) of None \<Rightarrow> True
     | Some t \<Rightarrow> map_option AthleteID (AnyToken (SStore (SrvSys v'))) = Some (AthleteID t))"
  using assms(1)
proof (cases rule: run_authCallback)
  case (exchanged v1)
  note same = consumeState_same(1) [OF exchanged(2)]
  from exchanged(4) show ?thesis
  proof (cases rule: run_exchange_and_bind)
    case (bound t w d u)
    let ?t = "with_scopes (ParseScopes (get_value (ReqQuery r) ''scope'')) t"
    have st: "SStore (SrvSys v') = (if d = FaultLost then SStore (SrvSys v) else Save (SStore (SrvSys v)) ?t)"
      using only_storeD [OF bound(5)] same by simp
    have m: "SStore ((SrvSys v1)\<lparr>World := w\<rparr>) = SStore (SrvSys v)" using same by simp
    from bound(3) have "may_bind E S ((SrvSys v1)\<lparr>World := w\<rparr>) (AthleteID ?t)" by simp
    note saved = bound_ok_Save [OF assms(5,4,3,2) this m]
    show ?thesis
    proof (cases "d = FaultLost")
      case True
      with st assms(4,5) show ?thesis by (simp split: option.splits)
    next
      case False
      with st saved assms(4) show ?thesis by (auto simp: wf_Memory_ops split: option.splits)
    qed
  qed (use same assms(4,5) in \<open>auto dest!: only_storeD split: option.splits\<close>)
next
  case dead
  with assms(4,5) show ?thesis by (simp add: consumeState_same split: option.splits)
next
  case incomplete
  with assms(4,5) show ?thesis by (simp add: consumeState_same split: option.splits)
qed (use assms(4,5) in \<open>simp split: option.splits\<close>)

lemma sample_store_wf: "wf_Memory (SStore sample_start)"
  by (simp add: sample_start_def NewProcessor_def wf_Memory_def NewMemory_def rows_keyed_def pending_key_def sample_pending_def)

text \<open>Athlete 9 is bound, and a redirect that is good in every respect names athlete 7.\<close>

definition taken_srv :: "nat srv" where
  "taken_srv = waiting_srv\<lparr>SrvSys := sample_start\<lparr>SStore := Save (SStore sample_start) (sample_token\<lparr>AthleteID := 9\<rparr>)\<rparr>\<rparr>"

lemma first_authorization_binds_witness:
  "\<exists>x v'. run_state (authCallback sample_env answering_server sample_redirect) taken_srv = (x, v') \<and>
     redeems sample_env taken_srv (state_of sample_redirect) \<and> bound_ok answering_server (SStore (SrvSys v')) \<and>
     map_option AthleteID (AnyToken (SStore (SrvSys v'))) = Some 9"
proof -
  obtain x v' where run: "run_state (authCallback sample_env answering_server sample_redirect) taken_srv = (x, v')" by fastforce
  have tokens: "mTokens (SStore (SrvSys taken_srv)) = [(9, sample_token\<lparr>AthleteID := 9\<rparr>)]"
    by (simp add: taken_srv_def waiting_srv_def Save_def sample_start_def NewProcessor_def NewMemory_def)
  have "wf_Memory (SStore (SrvSys taken_srv))"
    using sample_store_wf by (simp add: taken_srv_def waiting_srv_def wf_Memory_ops)
  moreover have "bound_ok answering_server (SStore (SrvSys taken_srv))"
    by (simp add: bound_ok_def tokens answering_server_def sample_server_def sample_settings_def no_settings_def)
  moreover have "HasBound answering_server" by (simp add: answering_server_def sample_server_def)
  moreover have "redeems sample_env taken_srv (state_of sample_redirect)"
    using sample_redirect_redeems(1) by (simp add: redeems_def taken_srv_def waiting_srv_def)
  ultimately show ?thesis using first_authorization_binds [OF run] run by (simp add: tokens AnyToken_def)
qed

text \<open>The lookup's error is read as nothing bound: with the store unreadable at that moment a second athlete is
  stored beside the first, and from then on no lookup finds a single one, so anyone may follow.\<close>

lemma unreadable_store_binds_anyone:
  assumes "OnlyAthlete (SrvConfig S) = 0" "fst (read_fails E (World s))"
  shows "fst (run_state (checkAthlete E S a) s)"
proof -
  obtain ok s' where run: "run_state (checkAthlete E S a) s = (ok, s')" by fastforce
  with assms run_checkAthlete [OF run] show ?thesis by (simp add: may_bind_def)
qed

text \<open>The whole surface: whatever is asked of the router, nothing is sent to Strava and nothing enters the named
  log but by the sweep route, on a POST the scheduler authenticated while no sweep was running; elsewhere
  the queue changes only by a POST to the webhook path, and the tokens only by the callback.\<close>

theorem surface_guarded:
  assumes "run_state (serve E D S h H held path r) v = (x, v')" and "SweepAccount H \<noteq> []"
  shows "guarded_change (SrvSys v) (SrvSys v') (path = WebhookPath (SrvConfig S) \<and> ReqMethod r = ''POST'')
      (path = AuthCallbackPath)
    \<or> path = SweepPath (SweepSettings (SrvConfig S)) \<and> ReqMethod r = ''POST'' \<and> \<not> held \<and>
      from_scheduler E H r (World (SrvSys v))"
proof (cases "match S (ReqMethod r) path")
  case (Inl e)
  with assms(1) have "v' = v" by (cases e) (simp_all add: serve_def Let_def)
  then show ?thesis by (simp add: guarded_change_def)
next
  case (Inr t)
  have weaken: "guarded_change s s' q u" if "guarded_change s s' q' u'" "q' \<longrightarrow> q" "u' \<longrightarrow> u"
    for s s' :: "'a sys" and q u q' u' using that by (auto simp: guarded_change_def)
  show ?thesis
  proof (cases t)
    case HealthRoute
    with assms(1) Inr have "v' = v" by (simp add: serve_def)
    then show ?thesis by (simp add: guarded_change_def)
  next
    case AuthStartRoute
    with assms(1) Inr obtain y where "run_state (authStart E S) v = (y, v')"
      by (auto simp: serve_def split: prod.splits)
    from guarded_authStart [OF this] show ?thesis by (auto intro: weaken)
  next
    case CallbackRoute
    with assms(1) Inr obtain y where "run_state (authCallback E S r) v = (y, v')"
      by (auto simp: serve_def split: prod.splits)
    from guarded_callback [OF this] match_routes(3) Inr CallbackRoute show ?thesis by (auto intro: weaken)
  next
    case WebhookRoute
    with assms(1) Inr obtain y s where "run_state (WebhookServeHTTP E h r) (SrvSys v) = (y, s)" "v' = v\<lparr>SrvSys := s\<rparr>"
      by (auto simp: serve_def split: prod.splits)
    with guarded_webhook [OF this(1)] match_routes(2) Inr WebhookRoute show ?thesis by (auto intro: weaken)
  next
    case SweepRoute
    with assms(1) Inr obtain s where s: "run_state (SweepServeHTTP E D H held r) (SrvSys v) = (x, s)" "v' = v\<lparr>SrvSys := s\<rparr>"
      by (auto simp: serve_def split: prod.splits)
    from s(1) assms(2) show ?thesis
    proof (cases rule: run_SweepServeHTTP)
      case swept
      with match_routes(1) Inr SweepRoute show ?thesis by blast
    qed (use s(2) in \<open>simp_all add: guarded_world\<close>)
  qed
qed

lemma surface_guarded_witness:
  "guarded_change sample_start (SrvSys (snd (run_state (serve sample_env sample_deps sample_server sample_hook
     sample_trigger False ''/health'' sample_fire) sample_srv))) False False"
proof -
  obtain x v' where run: "run_state (serve sample_env sample_deps sample_server sample_hook
     sample_trigger False ''/health'' sample_fire) sample_srv = (x, v')" by fastforce
  have "SweepAccount sample_trigger \<noteq> []" by (simp add: sample_trigger_def)
  from surface_guarded [OF run this] run show ?thesis
    by (simp add: sample_server_def sample_settings_def AuthCallbackPath_def sample_srv_def)
qed

end
