(* ===== verification/Importer.thy ===== *)
theory Importer
  imports Processor
begin

text \<open>
  \<^verbatim>\<open>internal/importer\<close>: the one-shot run that seeds the named log from the athlete's past. It works on
  the processor's store; the listing, the pause between pages and the context are calls on the world.
  The loop over pages ends when the listing does, so it is a partial function.
\<close>

section \<open>What is worth remembering (style.go)\<close>

record 'w import_deps =
  ImportAthlete :: int
  ImportMachineTitles :: MachineTitles
  ImportTemplates :: "string list"
  PerPage :: int
  list_page :: "int \<Rightarrow> int \<Rightarrow> 'w \<Rightarrow> (strava_error + StravaActivity list) \<times> 'w"
  pause_for :: "duration \<Rightarrow> 'w \<Rightarrow> bool \<times> 'w"

definition importableSportTypes :: "string list" where
  "importableSportTypes = [''Ride'', ''GravelRide'']"

definition importableSport :: "string \<Rightarrow> bool" where
  "importableSport sport \<longleftrightarrow> trim_space sport \<in> set importableSportTypes"

definition notTheAthletesStyle :: "'w import_deps \<Rightarrow> string \<Rightarrow> bool" where
  "notTheAthletesStyle I title0 =
     (let title = trim_space title0 in
      IsDefaultTitle title \<or> Matches (ImportMachineTitles I) title \<or> IsToolTitle title
      \<or> list_ex (\<lambda>candidate. trim_space candidate = title) (ImportTemplates I))"

section \<open>One activity (importOne)\<close>

record ImportResult =
  Seen :: nat
  Imported :: nat
  ISkipped :: nat
  NotARide :: nat
  AlreadyKnown :: nat
  Pages :: nat

definition no_import :: ImportResult where
  "no_import = \<lparr>Seen = 0, Imported = 0, ISkipped = 0, NotARide = 0, AlreadyKnown = 0, Pages = 0\<rparr>"

datatype import_error =
  NoClient | NoStore | NoAthlete | ContextDone | PauseFailed
| ListPage int strava_error | ReadNamed int | RecordFailed int

definition import_naming :: "'w env \<Rightarrow> 'w import_deps \<Rightarrow> StravaActivity \<Rightarrow> Naming" where
  "import_naming E I a = \<lparr>NAthleteID = ImportAthlete I, NActivityID = AID a, NTitle = AName a,
     NLanguage = GuessLanguage (Unicode E) (AName a), NAt = AStartDate a, NSource = SourceImported\<rparr>"

definition importOne :: "'w env \<Rightarrow> 'w import_deps \<Rightarrow> StravaActivity \<Rightarrow> ImportResult \<Rightarrow>
    ('w sys, import_error option \<times> ImportResult) state" where
  "importOne E I a r0 =
     (let r = r0\<lparr>Seen := Seen r0 + 1\<rparr> in
      if \<not> importableSport (ASportType a) then return (None, r\<lparr>NotARide := NotARide r + 1\<rparr>)
      else if notTheAthletesStyle I (AName a) then return (None, r\<lparr>ISkipped := ISkipped r + 1\<rparr>)
      else do {
        recorded \<leftarrow> store_read E (\<lambda>m. Named m (ImportAthlete I) (AID a));
        case recorded of
          None \<Rightarrow> return (Some (ReadNamed (AID a)), r)
        | Some (Some _) \<Rightarrow> return (None, r\<lparr>AlreadyKnown := AlreadyKnown r + 1\<rparr>)
        | Some None \<Rightarrow> do {
            ok \<leftarrow> store_write E (\<lambda>m. MarkNamed m (import_naming E I a));
            return (if ok then (None, r\<lparr>Imported := Imported r + 1\<rparr>)
                    else (Some (RecordFailed (AID a)), r)) } })"

fun import_all :: "'w env \<Rightarrow> 'w import_deps \<Rightarrow> StravaActivity list \<Rightarrow> ImportResult \<Rightarrow>
    ('w sys, import_error option \<times> ImportResult) state" where
  "import_all E I [] r = return (None, r)"
| "import_all E I (a # as) r = do {
     x \<leftarrow> importOne E I a r;
     case x of
       (Some e, r') \<Rightarrow> return (Some e, r')
     | (None, r') \<Rightarrow> import_all E I as r' }"

section \<open>The run (Run)\<close>

definition pageInterval :: duration where "pageInterval = 2 * second"

text \<open>One turn of the loop: the outcome of the run where the turn ends it, or the next turn's state.\<close>

type_synonym import_outcome = "import_error option \<times> ImportResult"

definition import_page :: "'w env \<Rightarrow> 'w import_deps \<Rightarrow> int \<Rightarrow> ImportResult \<Rightarrow>
    ('w sys, import_outcome + ImportResult) state" where
  "import_page E I page r = do {
     cancelled \<leftarrow> reads (\<lambda>s. ctx_done E (World s));
     if cancelled then return (Inl (Some ContextDone, r)) else do {
     paused \<leftarrow> (if page > 1 then call (pause_for I pageInterval) else return True);
     if \<not> paused then return (Inl (Some PauseFailed, r)) else do {
     listed \<leftarrow> call (list_page I page (PerPage I));
     case listed of
       Inl e \<Rightarrow> return (Inl (Some (ListPage page e), r))
     | Inr activities \<Rightarrow>
         let r1 = r\<lparr>Pages := Pages r + 1\<rparr> in
         if activities = [] then return (Inl (None, r1))
         else do {
           x \<leftarrow> import_all E I activities r1;
           return (case x of
             (Some e, r2) \<Rightarrow> Inl (Some e, r2)
           | (None, r2) \<Rightarrow>
               if int (length activities) < PerPage I then Inl (None, r2) else Inr r2) } } } }"

partial_function (option) import_loop :: "'w env \<Rightarrow> 'w import_deps \<Rightarrow> int \<Rightarrow> ImportResult \<Rightarrow> 'w sys \<Rightarrow>
    (import_outcome \<times> 'w sys) option" where
  "import_loop E I page r s =
     (case run_state (import_page E I page r) s of
        (Inl out, s') \<Rightarrow> Some (out, s')
      | (Inr r', s') \<Rightarrow> import_loop E I (page + 1) r' s')"

definition import_defaults :: "'w import_deps \<Rightarrow> 'w import_deps" where
  "import_defaults I = I\<lparr>
     PerPage := (if PerPage I = 0 then MaxActivitiesPerPage else PerPage I),
     ImportMachineTitles := (if ImportMachineTitles I = [] then DefaultMachineTitles else ImportMachineTitles I),
     ImportTemplates := (if ImportTemplates I = [] then TemplateTitles DefaultConfig else ImportTemplates I)\<rparr>"

definition Run :: "'w env \<Rightarrow> bool \<Rightarrow> bool \<Rightarrow> 'w import_deps \<Rightarrow> 'w sys \<Rightarrow> (import_outcome \<times> 'w sys) option" where
  "Run E has_client has_store I s =
     (if \<not> has_client then Some ((Some NoClient, no_import), s)
      else if \<not> has_store then Some ((Some NoStore, no_import), s)
      else if ImportAthlete I = 0 then Some ((Some NoAthlete, no_import), s)
      else import_loop E (import_defaults I) 1 no_import s)"

section \<open>What an import may do\<close>

definition wanted :: "'w import_deps \<Rightarrow> StravaActivity \<Rightarrow> bool" where
  "wanted I a \<longleftrightarrow> importableSport (ASportType a) \<and> \<not> notTheAthletesStyle I (AName a)"

text \<open>A row an import may write, and the change of state it may make.\<close>

definition seeded :: "'w import_deps \<Rightarrow> tables \<Rightarrow> int \<Rightarrow> int \<Rightarrow> NamedTitle \<Rightarrow> bool" where
  "seeded I U b j row \<longleftrightarrow> b = ImportAthlete I \<and> ActivityID row = j \<and> Source row = SourceImported \<and>
     \<not> notTheAthletesStyle I (Title row) \<and> Language row = GuessLanguage U (Title row)"

definition same_but_log :: "'w sys \<Rightarrow> 'w sys \<Rightarrow> bool" where
  "same_but_log s t \<longleftrightarrow>
     Puts t = Puts s \<and> Prompts t = Prompts s \<and> GearCache t = GearCache s \<and> ExampleCache t = ExampleCache s \<and>
     FranchiseCache t = FranchiseCache s \<and> mTokens (SStore t) = mTokens (SStore s) \<and>
     mPending (SStore t) = mPending (SStore s) \<and> mPlaces (SStore t) = mPlaces (SStore s) \<and>
     mFranchises (SStore t) = mFranchises (SStore s) \<and> mConfigs (SStore t) = mConfigs (SStore s)"

definition seeds :: "'w import_deps \<Rightarrow> tables \<Rightarrow> 'w sys \<Rightarrow> 'w sys \<Rightarrow> bool" where
  "seeds I U s t \<longleftrightarrow> same_but_log s t
     \<and> (wf_Memory (SStore s) \<longrightarrow> wf_Memory (SStore t))
     \<and> (\<forall>b j. Named (SStore t) b j = Named (SStore s) b j \<or>
          Named (SStore s) b j = None \<and> (\<exists>row. Named (SStore t) b j = Some row \<and> seeded I U b j row))"

lemma seeds_world: "seeds I U s (s\<lparr>World := w\<rparr>)"
  by (simp add: seeds_def same_but_log_def)

lemma seeds_refl: "seeds I U s s"
  by (simp add: seeds_def same_but_log_def)

lemma seeds_trans:
  assumes "seeds I U s t" "seeds I U t u"
  shows "seeds I U s u"
proof -
  have "same_but_log s u" using assms by (simp add: seeds_def same_but_log_def)
  moreover have "Named (SStore u) b j = Named (SStore s) b j \<or>
      Named (SStore s) b j = None \<and> (\<exists>row. Named (SStore u) b j = Some row \<and> seeded I U b j row)" for b j
    using assms unfolding seeds_def by metis
  ultimately show ?thesis using assms unfolding seeds_def by blast
qed

interpretation seeds: effect "seeds I U" for I U
  by unfold_locales (auto intro: seeds_refl seeds_trans)

text \<open>The service's steps as such a relation.\<close>

interpretation steps: effect "(step E)\<^sup>*\<^sup>*" for E
  by unfold_locales (auto intro: rtranclp_trans)

lemma step_call [intro]: "steps.may E (call f)"
  by (rule steps.mayI) (auto intro: step.outside split: prod.splits)

lemma step_read [intro]: "steps.may E (store_read E g)"
  unfolding store_read_def by (intro steps.may_rules step_call)

section \<open>Proofs about one activity\<close>

lemma run_importOne:
  assumes "run_state (importOne E I a r0) s = ((e, r), s')"
  obtains (left) w where "s' = s\<lparr>World := w\<rparr>" "Imported r = Imported r0"
      "e = None \<longrightarrow> wanted I a \<longrightarrow> Named (SStore s) (ImportAthlete I) (AID a) \<noteq> None"
  | (wrote) w d where "wanted I a" "Named (SStore s) (ImportAthlete I) (AID a) = None"
      "s' = s\<lparr>World := w, SStore := (if d = FaultLost then SStore s
         else MarkNamed (SStore s) (import_naming E I a))\<rparr>" "e = None \<longleftrightarrow> d = NoFault"
proof (cases "wanted I a")
  case False
  with assms have "s' = s\<lparr>World := World s\<rparr>" "Imported r = Imported r0"
    by (auto simp: importOne_def wanted_def Let_def split: if_splits)
  then show ?thesis using False left by blast
next
  case True
  obtain f w where f: "read_fails E (World s) = (f, w)" by fastforce
  obtain d w' where d: "write_fault E w = (d, w')" by fastforce
  let ?row = "Named (SStore s) (ImportAthlete I) (AID a)" and ?r = "r0\<lparr>Seen := Seen r0 + 1\<rparr>"
  have run: "run_state (importOne E I a r0) s =
     (if f then ((Some (ReadNamed (AID a)), ?r), s\<lparr>World := w\<rparr>)
      else if ?row \<noteq> None then ((None, ?r\<lparr>AlreadyKnown := AlreadyKnown r0 + 1\<rparr>), s\<lparr>World := w\<rparr>)
      else (if d = NoFault then (None, ?r\<lparr>Imported := Imported r0 + 1\<rparr>) else (Some (RecordFailed (AID a)), ?r),
        s\<lparr>World := w', SStore := (if d = FaultLost then SStore s
          else MarkNamed (SStore s) (import_naming E I a))\<rparr>))"
    using True
    by (auto simp: importOne_def wanted_def Let_def run_store_read run_store_write f d split: option.splits)
  show ?thesis
  proof (cases "f \<or> ?row \<noteq> None")
    case True
    with assms run show ?thesis by (intro left) (auto split: if_splits)
  next
    case False
    then have row: "?row = None" by simp
    have s': "s' = s\<lparr>World := w', SStore := (if d = FaultLost then SStore s
        else MarkNamed (SStore s) (import_naming E I a))\<rparr>" and e: "e = None \<longleftrightarrow> d = NoFault"
      using assms run False by (auto split: if_splits)
    show ?thesis by (rule wrote [OF True row s' e])
  qed
qed

lemma seeds_importOne:
  assumes "run_state (importOne E I a r0) s = ((e, r), s')"
  shows "seeds I (Unicode E) s s'" "(step E)\<^sup>*\<^sup>* s s'"
    "e = None \<Longrightarrow> wanted I a \<Longrightarrow> Named (SStore s') (ImportAthlete I) (AID a) \<noteq> None"
proof -
  let ?n = "import_naming E I a"
  have row: "seeded I (Unicode E) (ImportAthlete I) (AID a) (naming_row ?n)" if "wanted I a"
    using that by (simp add: seeded_def naming_row_def import_naming_def wanted_def)
  from assms have "seeds I (Unicode E) s s' \<and> (step E)\<^sup>*\<^sup>* s s' \<and>
    (e = None \<longrightarrow> wanted I a \<longrightarrow> Named (SStore s') (ImportAthlete I) (AID a) \<noteq> None)"
  proof (cases rule: run_importOne)
    case (left w)
    then show ?thesis by (auto simp: seeds_world intro: step.outside)
  next
    case (wrote w d)
    have out: "step E s (s\<lparr>World := w\<rparr>)" by (rule step.outside)
    have marks: "step E (s\<lparr>World := w\<rparr>) (s\<lparr>World := w, SStore := MarkNamed (SStore s) ?n\<rparr>)"
      using step.imported [of E "s\<lparr>World := w\<rparr>" ?n] by simp
    have "same_but_log s (s\<lparr>World := w, SStore := MarkNamed (SStore s) ?n\<rparr>)"
      by (simp add: same_but_log_def MarkNamed_def)
    then have "seeds I (Unicode E) s (s\<lparr>World := w, SStore := MarkNamed (SStore s) ?n\<rparr>)"
      using wrote(2) row [OF wrote(1)] wf_Memory_ops(4) [of "SStore s" ?n]
      by (auto simp: seeds_def Named_MarkNamed import_naming_def)
    moreover have "(step E)\<^sup>*\<^sup>* s (s\<lparr>World := w, SStore := MarkNamed (SStore s) ?n\<rparr>)"
      using out marks by (meson converse_rtranclp_into_rtranclp r_into_rtranclp)
    ultimately show ?thesis
      using wrote seeds_world [of I "Unicode E" s w] out
      by (cases "d = FaultLost") (auto simp: Named_MarkNamed import_naming_def)
  qed
  then show "seeds I (Unicode E) s s'" "(step E)\<^sup>*\<^sup>* s s'"
    "e = None \<Longrightarrow> wanted I a \<Longrightarrow> Named (SStore s') (ImportAthlete I) (AID a) \<noteq> None" by auto
qed

section \<open>Proofs about a page and the loop\<close>

text \<open>What composes over activities composes over a page and over the run.\<close>

definition good_change :: "'w env \<Rightarrow> 'w import_deps \<Rightarrow> 'w sys \<Rightarrow> 'w sys \<Rightarrow> bool" where
  "good_change E I s t \<longleftrightarrow> seeds I (Unicode E) s t \<and> (step E)\<^sup>*\<^sup>* s t"

interpretation good: effect "good_change E I" for E I
  by unfold_locales (auto simp: good_change_def intro: seeds_refl seeds_trans rtranclp_trans)

lemma good_world: "good_change E I s (s\<lparr>World := w\<rparr>)"
  by (auto simp: good_change_def seeds_world intro: step.outside)

lemma good_call [simp, intro]: "good.may E I (call f)"
  by (rule good.mayI) (auto simp: good_world split: prod.splits)

lemma good_importOne [simp, intro]: "good.may E I (importOne E I a r)"
  by (rule good.mayI) (auto simp: good_change_def dest: seeds_importOne)

lemma good_import_all [simp, intro]: "good.may E I (import_all E I as r)"
  by (induction E I as r rule: import_all.induct)
    (auto intro!: good.may_rules split: option.splits prod.splits)

lemma good_import_page: "good.may E I (import_page E I page r)"
  unfolding import_page_def Let_def by (intro good.may_rules good_call good_import_all)

lemmas import_loop_induct = import_loop.raw_induct [rotated 1, consumes 1, case_names turn]

lemma good_import_loop:
  assumes "import_loop E I page r s = Some y"
  shows "good_change E I s (snd y)"
  using assms
proof (induction E I page r s y rule: import_loop_induct)
  case (turn loop E I page r s y)
  obtain x t where x: "run_state (import_page E I page r) s = (x, t)" by fastforce
  have st: "good_change E I s t" by (rule good.mayD [OF good_import_page x])
  show ?case
  proof (cases x)
    case Inl
    with turn(2) x st show ?thesis by auto
  next
    case (Inr r')
    with turn(2) x have "loop E I (page + 1) r' t = Some y" by simp
    then have "good_change E I t (snd y)" by (rule turn(1))
    with st show ?thesis by (rule good.compose)
  qed
qed

lemma seeds_named: "seeds I U s t \<Longrightarrow> Named (SStore s) b j \<noteq> None \<Longrightarrow> Named (SStore t) b j = Named (SStore s) b j"
  unfolding seeds_def by metis

lemma good_named: "good_change E I s t \<Longrightarrow> Named (SStore s) b j \<noteq> None \<Longrightarrow> Named (SStore t) b j \<noteq> None"
  by (auto simp: good_change_def dest: seeds_named)

text \<open>The counters: every activity seen is accounted for once.\<close>

definition tally :: "ImportResult \<Rightarrow> nat" where
  "tally r = Imported r + ISkipped r + NotARide r + AlreadyKnown r"

lemma tally_importOne:
  "run_state (importOne E I a r) s = ((e, r'), s') \<Longrightarrow>
   Seen r' = Seen r + 1 \<and> tally r' = tally r + (if e = None then 1 else 0) \<and> Pages r' = Pages r"
  by (auto simp: importOne_def Let_def run_store_read run_store_write tally_def
      split: if_splits option.splits prod.splits)

lemma tally_import_all:
  "run_state (import_all E I as r) s = ((e, r'), s') \<Longrightarrow>
   Seen r' + tally r = Seen r + tally r' + (if e = None then 0 else 1) \<and>
   (e = None \<longrightarrow> Seen r' = Seen r + length as) \<and> Pages r' = Pages r"
proof (induction as arbitrary: r s)
  case (Cons a as)
  obtain e1 r1 s1 where one: "run_state (importOne E I a r) s = ((e1, r1), s1)" by (metis surj_pair)
  show ?case
  proof (cases e1)
    case None
    with Cons.prems one have "run_state (import_all E I as r1) s1 = ((e, r'), s')" by simp
    from Cons.IH [OF this] tally_importOne [OF one] None show ?thesis by simp
  next
    case Some
    with Cons.prems one tally_importOne [OF one] show ?thesis by auto
  qed
qed simp

lemma known_import_all:
  "run_state (import_all E I as r) s = ((None, r'), s') \<Longrightarrow> a \<in> set as \<Longrightarrow> wanted I a \<Longrightarrow>
   Named (SStore s') (ImportAthlete I) (AID a) \<noteq> None"
proof (induction as arbitrary: r s)
  case (Cons b as)
  obtain e1 r1 s1 where one: "run_state (importOne E I b r) s = ((e1, r1), s1)" by (metis surj_pair)
  then have e1: "e1 = None" and rest: "run_state (import_all E I as r1) s1 = ((None, r'), s')"
    using Cons.prems(1) by (auto split: option.splits)
  show ?case
  proof (cases "a = b")
    case True
    with one e1 Cons.prems(3) have "Named (SStore s1) (ImportAthlete I) (AID a) \<noteq> None"
      using seeds_importOne(3) by metis
    then show ?thesis using good_named [OF good.mayD [OF good_import_all rest]] by blast
  next
    case False
    with Cons rest show ?thesis by simp
  qed
qed simp

text \<open>The loop: counters, and what a finished run has recorded.\<close>

lemma run_import_page:
  assumes "run_state (import_page E I page r) s = (x, s')"
  obtains (early) e where "x = Inl (Some e, r)"
  | (last) "x = Inl (None, r\<lparr>Pages := Pages r + 1\<rparr>)" "SStore s' = SStore s"
      "fst (list_page I page (PerPage I) (snd (if page > 1 then pause_for I pageInterval (World s) else (True, World s)))) = Inr []"
  | (listed) as e r' s1 w where "as \<noteq> []" "run_state (import_all E I as (r\<lparr>Pages := Pages r + 1\<rparr>)) s1 = ((e, r'), s')"
      "fst (list_page I page (PerPage I) w) = Inr as" "SStore s1 = SStore s"
      "x = (if e \<noteq> None then Inl (e, r') else if int (length as) < PerPage I then Inl (None, r') else Inr r')"
proof (cases "ctx_done E (World s)")
  case True
  with assms early show ?thesis by (auto simp: import_page_def)
next
  case run: False
  define pw where "pw = (if page > 1 then pause_for I pageInterval (World s) else (True, World s))"
  obtain p w where pw: "pw = (p, w)" by fastforce
  obtain l w' where l: "list_page I page (PerPage I) w = (l, w')" by fastforce
  let ?r = "r\<lparr>Pages := Pages r + 1\<rparr>" and ?t = "s\<lparr>World := w'\<rparr>"
  have page: "run_state (import_page E I page r) s =
     (if \<not> p then (Inl (Some PauseFailed, r), s\<lparr>World := w\<rparr>)
      else case l of
        Inl e \<Rightarrow> (Inl (Some (ListPage page e), r), ?t)
      | Inr as \<Rightarrow> if as = [] then (Inl (None, ?r), ?t)
          else case run_state (import_all E I as ?r) ?t of ((e, r'), s') \<Rightarrow>
            (if e \<noteq> None then Inl (e, r') else if int (length as) < PerPage I then Inl (None, r') else Inr r', s'))"
  proof -
    have "run_state (if page > 1 then call (pause_for I pageInterval) else return True) s = (p, s\<lparr>World := w\<rparr>)"
      using pw by (simp add: pw_def split: if_splits)
    then show ?thesis using run l by (cases l) (simp_all add: import_page_def Let_def split: prod.splits option.splits)
  qed
  show ?thesis
  proof (cases "p \<and> (\<exists>as. l = Inr as)")
    case False
    with assms page early show ?thesis by (auto split: if_splits sum.splits)
  next
    case True
    then obtain as where as: "l = Inr as" "p" by blast
    show ?thesis
    proof (cases "as = []")
      case True
      with assms page as l pw show ?thesis by (intro last) (auto simp: pw_def)
    next
      case False
      obtain e r' t where "run_state (import_all E I as ?r) ?t = ((e, r'), t)" by (metis surj_pair)
      with assms page as l False show ?thesis by (intro listed [of as ?t e r' w]) auto
    qed
  qed
qed

lemma tally_import_loop:
  assumes "import_loop E I page r s = Some y"
  shows "Seen (snd (fst y)) + tally r \<le> Seen r + tally (snd (fst y)) + 1 \<and>
    (fst (fst y) = None \<longrightarrow> Seen (snd (fst y)) + tally r = Seen r + tally (snd (fst y)))"
  using assms
proof (induction E I page r s y rule: import_loop_induct)
  case (turn loop E I page r s y)
  obtain x t where x: "run_state (import_page E I page r) s = (x, t)" by fastforce
  have pages: "tally (r\<lparr>Pages := n\<rparr>) = tally r" for n by (simp add: tally_def)
  have page: "case x of
      Inl out \<Rightarrow> Seen (snd out) + tally r = Seen r + tally (snd out) + (if fst out = None then 0 else 1) \<or>
        (Seen (snd out) = Seen r \<and> tally (snd out) = tally r)
    | Inr r' \<Rightarrow> Seen r' + tally r = Seen r + tally r'"
    using x
  proof (cases rule: run_import_page)
    case (listed as e r' s1 w)
    from tally_import_all [OF listed(2)] listed(5) show ?thesis by (auto simp: pages split: if_splits)
  qed (auto simp: pages)
  show ?case
  proof (cases x)
    case (Inl out)
    with turn(2) x page show ?thesis by (auto split: if_splits)
  next
    case (Inr r')
    with turn(2) x have "loop E I (page + 1) r' t = Some y" by simp
    from turn(1) [OF this] page Inr show ?thesis by auto
  qed
qed

section \<open>The end of the run, and a second one\<close>

text \<open>Whenever page \<open>n\<close> is asked for, it is short or cannot be had.\<close>

definition listing_ends :: "'w import_deps \<Rightarrow> int \<Rightarrow> bool" where
  "listing_ends I n \<longleftrightarrow> 1 \<le> n \<and>
     (\<forall>w. case fst (list_page I n (PerPage I) w) of Inl _ \<Rightarrow> True | Inr as \<Rightarrow> int (length as) < PerPage I)"

lemma pages_import_page:
  assumes "run_state (import_page E I page r) s = (x, s')"
  shows "case x of Inl out \<Rightarrow> Pages (snd out) \<le> Pages r + 1 | Inr r' \<Rightarrow> Pages r' = Pages r + 1"
  using assms
proof (cases rule: run_import_page)
  case (listed as e r' s1 w)
  from tally_import_all [OF listed(2)] listed(5) show ?thesis by simp
qed simp_all

lemma import_loop_ends:
  assumes "listing_ends I n"
  shows "page \<le> n \<Longrightarrow> \<exists>e r' s'. import_loop E I page r s = Some ((e, r'), s') \<and> Pages r' \<le> Pages r + nat (n - page + 1)"
proof (induction "nat (n - page)" arbitrary: page r s)
  case 0
  obtain x t where x: "run_state (import_page E I page r) s = (x, t)" by fastforce
  have "\<exists>out. x = Inl out"
    using x
  proof (cases rule: run_import_page)
    case (listed as e r' s1 w)
    have "page = n" using 0 by simp
    with assms listed(3) have "int (length as) < PerPage I" by (auto simp: listing_ends_def dest: spec [of _ w])
    with listed(5) show ?thesis by auto
  qed auto
  then obtain e r' where out: "x = Inl (e, r')" by auto
  moreover have "Pages r' \<le> Pages r + 1" using pages_import_page [OF x] out by simp
  moreover have "1 \<le> nat (n - page + 1)" using 0 by simp
  ultimately show ?case using x by (subst import_loop.simps) simp
next
  case (Suc k)
  obtain x t where x: "run_state (import_page E I page r) s = (x, t)" by fastforce
  show ?case
  proof (cases x)
    case (Inl out)
    moreover have "Pages (snd out) \<le> Pages r + 1" using pages_import_page [OF x] Inl by simp
    moreover have "1 \<le> nat (n - page + 1)" using Suc(3) by simp
    ultimately show ?thesis using x by (cases out) (subst import_loop.simps, simp)
  next
    case (Inr r1)
    have "k = nat (n - (page + 1))" "page + 1 \<le> n" using Suc(2,3) by simp_all
    from Suc(1) [OF this, of r1 t] obtain e r' s' where
      rest: "import_loop E I (page + 1) r1 t = Some ((e, r'), s')" "Pages r' \<le> Pages r1 + nat (n - (page + 1) + 1)"
      by blast
    moreover have "Pages r1 = Pages r + 1" using pages_import_page [OF x] Inr by simp
    ultimately have "Pages r' \<le> Pages r + nat (n - page + 1)" using \<open>page + 1 \<le> n\<close> by simp
    with rest(1) x Inr show ?thesis by (subst import_loop.simps) simp
  qed
qed

text \<open>A calm environment: nothing fails, and Strava lists the same pages every time.\<close>

definition calm_listing :: "'w env \<Rightarrow> 'w import_deps \<Rightarrow> (int \<Rightarrow> StravaActivity list) \<Rightarrow> bool" where
  "calm_listing E I pages \<longleftrightarrow> faultless E \<and> (\<forall>d w. fst (pause_for I d w)) \<and>
     (\<forall>p w. fst (list_page I p (PerPage I) w) = Inr (pages p))"

lemma importOne_again:
  assumes "faultless E" "wanted I a \<longrightarrow> Named (SStore t) (ImportAthlete I) (AID a) \<noteq> None"
  shows "\<exists>r3 w. run_state (importOne E I a r2) t = ((None, r3), t\<lparr>World := w\<rparr>) \<and>
    Imported r3 = Imported r2 \<and> Seen r3 = Seen r2 + 1"
proof (cases "wanted I a")
  case True
  obtain w where "read_fails E (World t) = (False, w)" using assms(1) by (metis faultless_def prod.collapse)
  with True assms(2) show ?thesis
    by (auto simp: importOne_def wanted_def Let_def run_store_read intro!: exI [of _ w])
next
  case False
  then show ?thesis by (auto simp: importOne_def wanted_def Let_def intro!: exI [of _ "World t"])
qed

lemma import_all_again:
  assumes "faultless E" "\<And>a. a \<in> set as \<Longrightarrow> wanted I a \<Longrightarrow> Named (SStore t) (ImportAthlete I) (AID a) \<noteq> None"
  shows "\<exists>r3 w. run_state (import_all E I as r2) t = ((None, r3), t\<lparr>World := w\<rparr>) \<and>
    Imported r3 = Imported r2 \<and> Seen r3 = Seen r2 + length as"
  using assms(2)
proof (induction as arbitrary: r2 t)
  case (Cons a as)
  obtain r3 w where one: "run_state (importOne E I a r2) t = ((None, r3), t\<lparr>World := w\<rparr>)"
      "Imported r3 = Imported r2" "Seen r3 = Seen r2 + 1"
    using importOne_again [OF assms(1)] Cons.prems by (metis list.set_intros(1))
  from Cons.IH [of "t\<lparr>World := w\<rparr>" r3] Cons.prems one show ?case by auto
next
  case Nil
  show ?case by (intro exI [of _ r2] exI [of _ "World t"]) simp
qed

lemma import_page_again:
  assumes "calm_listing E I pages"
    and "\<And>a. a \<in> set (pages page) \<Longrightarrow> wanted I a \<Longrightarrow> Named (SStore t) (ImportAthlete I) (AID a) \<noteq> None"
  shows "\<exists>r3 w. run_state (import_page E I page r2) t =
      (if int (length (pages page)) < PerPage I \<or> pages page = [] then Inl (None, r3) else Inr r3, t\<lparr>World := w\<rparr>) \<and>
    Imported r3 = Imported r2 \<and> Seen r3 = Seen r2 + length (pages page)"
proof -
  have calm: "faultless E" "\<And>d w. fst (pause_for I d w)" "\<And>p w. fst (list_page I p (PerPage I) w) = Inr (pages p)"
    using assms(1) by (simp_all add: calm_listing_def)
  have run: "\<not> ctx_done E w" for w using calm(1) by (simp add: faultless_def)
  obtain w where p: "run_state (if page > 1 then call (pause_for I pageInterval) else return True) t = (True, t\<lparr>World := w\<rparr>)"
  proof (cases "page > 1")
    case True
    then show ?thesis using that calm(2) [of pageInterval "World t"] by (cases "pause_for I pageInterval (World t)") auto
  next
    case False
    then show ?thesis using that [of "World t"] by simp
  qed
  obtain w' where l: "list_page I page (PerPage I) w = (Inr (pages page), w')" using calm(3) by (metis prod.collapse)
  show ?thesis
  proof (cases "pages page = []")
    case True
    then show ?thesis using run p l by (auto simp: import_page_def Let_def intro!: exI [of _ w'])
  next
    case False
    from import_all_again [OF calm(1), of "pages page" I "t\<lparr>World := w'\<rparr>" "r2\<lparr>Pages := Pages r2 + 1\<rparr>"] assms(2)
    obtain r3 w3 where "run_state (import_all E I (pages page) (r2\<lparr>Pages := Pages r2 + 1\<rparr>)) (t\<lparr>World := w'\<rparr>) =
        ((None, r3), t\<lparr>World := w3\<rparr>)" "Imported r3 = Imported r2" "Seen r3 = Seen r2 + length (pages page)"
      by auto
    with run p l False show ?thesis by (auto simp: import_page_def Let_def intro!: exI [of _ r3] exI [of _ w3])
  qed
qed

text \<open>The first run, page by page, and the second beside it.\<close>

lemma calm_import_page:
  assumes "calm_listing E I pages" "run_state (import_page E I page r) s = (x, s')"
    and "x = Inr r' \<or> x = Inl (None, r')"
  shows "(\<forall>a \<in> set (pages page). wanted I a \<longrightarrow> Named (SStore s') (ImportAthlete I) (AID a) \<noteq> None) \<and>
    Seen r' = Seen r + length (pages page) \<and>
    ((\<exists>r'. x = Inr r') \<longleftrightarrow> \<not> (int (length (pages page)) < PerPage I \<or> pages page = []))"
  using assms(2)
proof (cases rule: run_import_page)
  case last
  then have "pages page = []" using assms(1) by (simp add: calm_listing_def)
  with last assms(3) show ?thesis by auto
next
  case (listed as e r1 s1 w)
  have "as = pages page" using assms(1) listed(3) by (simp add: calm_listing_def)
  moreover have "e = None" "r1 = r'" using assms(3) listed(5) by (auto split: if_splits)
  ultimately show ?thesis
    using known_import_all [of E I as _ s1 r1 s'] tally_import_all [OF listed(2)] listed by auto
qed (use assms(3) in auto)

lemma import_loop_again:
  assumes "import_loop E I page r s = Some y"
  shows "good_change E I s (snd y) \<and> (calm_listing E I pages \<longrightarrow> fst (fst y) = None \<longrightarrow>
    (\<forall>b j. Named (SStore (snd y)) b j \<noteq> None \<longrightarrow> Named (SStore t) b j \<noteq> None) \<longrightarrow>
    (\<exists>r3 w. import_loop E I page r2 t = Some ((None, r3), t\<lparr>World := w\<rparr>) \<and>
      Imported r3 = Imported r2 \<and> Seen r3 + Seen r = Seen r2 + Seen (snd (fst y))))"
  using assms
proof (induction E I page r s y arbitrary: r2 t rule: import_loop_induct)
  case (turn loop E I page r s y)
  obtain x s1 where x: "run_state (import_page E I page r) s = (x, s1)" by fastforce
  have s1: "good_change E I s s1" by (rule good.mayD [OF good_import_page x])
  show ?case
  proof (cases x)
    case (Inl out)
    with turn(2) x have y: "y = (out, s1)" by simp
    have "\<exists>r3 w. import_loop E I page r2 t = Some ((None, r3), t\<lparr>World := w\<rparr>) \<and>
        Imported r3 = Imported r2 \<and> Seen r3 + Seen r = Seen r2 + Seen (snd out)"
      if calm: "calm_listing E I pages" and none: "fst out = None"
        and known: "\<forall>b j. Named (SStore s1) b j \<noteq> None \<longrightarrow> Named (SStore t) b j \<noteq> None"
    proof -
      have "x = Inl (None, snd out)" using Inl none by (cases out) simp
      from calm_import_page [OF calm x, of "snd out"] this
      have first: "\<And>a. a \<in> set (pages page) \<Longrightarrow> wanted I a \<Longrightarrow> Named (SStore s1) (ImportAthlete I) (AID a) \<noteq> None"
        "Seen (snd out) = Seen r + length (pages page)" "int (length (pages page)) < PerPage I \<or> pages page = []" by auto
      from import_page_again [OF calm, of page t r2] first known
      obtain r3 w where "run_state (import_page E I page r2) t = (Inl (None, r3), t\<lparr>World := w\<rparr>)"
        "Imported r3 = Imported r2" "Seen r3 = Seen r2 + length (pages page)" by auto
      with first show ?thesis by (subst import_loop.simps) auto
    qed
    with y s1 show ?thesis by simp
  next
    case (Inr r1)
    with turn(2) x have rest: "loop E I (page + 1) r1 s1 = Some y" by simp
    note IH = turn(1) [OF rest]
    have sy: "good_change E I s1 (snd y)" using IH by blast
    have "\<exists>r3 w. import_loop E I page r2 t = Some ((None, r3), t\<lparr>World := w\<rparr>) \<and>
        Imported r3 = Imported r2 \<and> Seen r3 + Seen r = Seen r2 + Seen (snd (fst y))"
      if calm: "calm_listing E I pages" and none: "fst (fst y) = None"
        and known: "\<forall>b j. Named (SStore (snd y)) b j \<noteq> None \<longrightarrow> Named (SStore t) b j \<noteq> None"
    proof -
      from calm_import_page [OF calm x, of r1] Inr
      have first: "\<And>a. a \<in> set (pages page) \<Longrightarrow> wanted I a \<Longrightarrow> Named (SStore s1) (ImportAthlete I) (AID a) \<noteq> None"
        "Seen r1 = Seen r + length (pages page)" "\<not> (int (length (pages page)) < PerPage I \<or> pages page = [])" by auto
      then have "\<And>a. a \<in> set (pages page) \<Longrightarrow> wanted I a \<Longrightarrow> Named (SStore t) (ImportAthlete I) (AID a) \<noteq> None"
        using good_named [OF sy] known by blast
      from import_page_again [of E I pages page t r2, OF calm this] first(3)
      obtain r3 w where page: "run_state (import_page E I page r2) t = (Inr r3, t\<lparr>World := w\<rparr>)"
        "Imported r3 = Imported r2" "Seen r3 = Seen r2 + length (pages page)" by auto
      have "\<forall>b j. Named (SStore (snd y)) b j \<noteq> None \<longrightarrow> Named (SStore (t\<lparr>World := w\<rparr>)) b j \<noteq> None"
        using known by simp
      with IH [of "t\<lparr>World := w\<rparr>" r3] calm none
      obtain r4 w' where "import_loop E I (page + 1) r3 (t\<lparr>World := w\<rparr>) = Some ((None, r4), t\<lparr>World := w'\<rparr>)"
        "Imported r4 = Imported r3" "Seen r4 + Seen r1 = Seen r3 + Seen (snd (fst y))" by auto
      with page first(2) show ?thesis by (subst import_loop.simps) auto
    qed
    with good.compose [OF s1 sy] show ?thesis by blast
  qed
qed

section \<open>Properties\<close>

text \<open>An import adds and never rewrites. Whatever it is given and wherever it stops, it changes nothing
  but the named log; a row that was there is there unchanged; and a new row belongs to the athlete, is
  marked imported and carries a title that is neither a default nor a tool's nor a template. It is a
  sequence of steps of the service, so nothing that holds of every reachable state is lost by running
  it beside the service; and its counters account for every activity seen, but the one it failed on.\<close>

theorem import_adds_only:
  assumes "Run E has_client has_store I s = Some ((e, r), s')"
  shows "same_but_log s s'
    \<and> (\<forall>b j. Named (SStore s') b j = Named (SStore s) b j \<or>
         Named (SStore s) b j = None \<and>
         (\<exists>row. Named (SStore s') b j = Some row \<and> seeded (import_defaults I) (Unicode E) b j row))
    \<and> (step E)\<^sup>*\<^sup>* s s'
    \<and> Seen r \<le> tally r + 1 \<and> (e = None \<longrightarrow> Seen r = tally r)"
proof (cases "import_loop E (import_defaults I) 1 no_import s = Some ((e, r), s')")
  case True
  have "tally no_import = 0" "Seen no_import = 0" by (simp_all add: tally_def no_import_def)
  with good_import_loop [OF True] tally_import_loop [OF True] show ?thesis
    by (simp add: good_change_def seeds_def)
next
  case False
  with assms have "s' = s" "r = no_import" "e \<noteq> None" by (auto simp: Run_def split: if_splits)
  then show ?thesis by (simp add: same_but_log_def tally_def no_import_def)
qed

definition sample_listing :: "nat import_deps" where
  "sample_listing = \<lparr>ImportAthlete = 7, ImportMachineTitles = [\<lambda>_. False], ImportTemplates = [''Heim''], PerPage = 0,
     list_page = (\<lambda>p n w. (Inr (if p = 1 then [sample_activity\<lparr>AName := ''Isar''\<rparr>] else []), w)),
     pause_for = (\<lambda>d w. (True, w))\<rparr>"

lemma sample_wanted: "wanted (import_defaults sample_listing) (sample_activity\<lparr>AName := ''Isar''\<rparr>)"
proof -
  have trim: "trim_space ''Isar'' = ''Isar''" "trim_space ''Heim'' = ''Heim''" "trim_space ''Ride'' = ''Ride''"
    by (simp_all add: trim_space_def is_space_def)
  moreover have "\<not> IsDefaultTitle ''Isar''"
    by (simp add: IsDefaultTitle_def trim buildDefaultTitles_def englishDayparts_def englishActivities_def
        germanDayparts_def germanActivities_def)
  moreover have "\<not> IsToolTitle ''Isar''"
    by (simp add: IsToolTitle_def trim hasXertShape_def suffix_to_prefix)
  ultimately show ?thesis
    by (simp add: wanted_def importableSport_def importableSportTypes_def notTheAthletesStyle_def sample_activity_def
        import_defaults_def sample_listing_def Matches_def)
qed

definition sample_imported :: "nat sys" where
  "sample_imported = sample_start\<lparr>SStore := MarkNamed (SStore sample_start)
     (import_naming sample_env (import_defaults sample_listing) (sample_activity\<lparr>AName := ''Isar''\<rparr>))\<rparr>"

lemma sample_import:
  "Run sample_env True True sample_listing sample_start =
     Some ((None, no_import\<lparr>Seen := 1, Imported := 1, Pages := 1\<rparr>), sample_imported)"
proof -
  let ?I = "import_defaults sample_listing" and ?a = "sample_activity\<lparr>AName := ''Isar''\<rparr>"
  have "Named (SStore sample_start) 7 1 = None"
    by (simp add: Named_def sample_start_def NewProcessor_def NewMemory_def)
  moreover have "ImportAthlete ?I = 7" "AID ?a = 1"
    by (simp_all add: import_defaults_def sample_listing_def sample_activity_def)
  ultimately have one: "run_state (importOne sample_env ?I ?a r) sample_start =
      ((None, r\<lparr>Seen := Seen r + 1, Imported := Imported r + 1\<rparr>), sample_imported)" for r
    using sample_wanted
    by (simp add: importOne_def wanted_def run_store_read run_store_write sample_imported_def Let_def)
  have "list_page ?I 1 (PerPage ?I) w = (Inr [?a], w)" "PerPage ?I = 200" for w
    by (simp_all add: import_defaults_def sample_listing_def MaxActivitiesPerPage_def)
  then have "run_state (import_page sample_env ?I 1 no_import) sample_start =
      (Inl (None, no_import\<lparr>Seen := 1, Imported := 1, Pages := 1\<rparr>), sample_imported)"
    by (simp add: import_page_def Let_def one no_import_def del: One_nat_def)
  moreover have "ImportAthlete sample_listing = 7" by (simp add: sample_listing_def)
  ultimately show ?thesis by (simp add: Run_def) (subst import_loop.simps, simp)
qed

lemma import_adds_only_witness: "Seen (no_import\<lparr>Seen := 1, Imported := 1, Pages := 1\<rparr>) = 1 \<and>
    same_but_log sample_start sample_imported"
  using import_adds_only [OF sample_import] by simp

text \<open>A run that finished leaves nothing for the next one: where nothing fails and Strava lists the
  same pages, a second import of the same listing ends too, sees as many activities, imports none and
  leaves the store as it is.\<close>

theorem import_idempotent:
  assumes "calm_listing E (import_defaults I) pages"
    and "Run E has_client has_store I s = Some ((None, r), s')"
  shows "\<exists>r2 w. Run E has_client has_store I s' = Some ((None, r2), s'\<lparr>World := w\<rparr>) \<and> Imported r2 = 0 \<and> Seen r2 = Seen r"
proof -
  have deps: "has_client" "has_store" "ImportAthlete I \<noteq> 0"
    and loop: "import_loop E (import_defaults I) 1 no_import s = Some ((None, r), s')"
    using assms(2) by (auto simp: Run_def split: if_splits)
  from import_loop_again [OF loop, of pages s' no_import] assms(1)
  obtain r3 w where "import_loop E (import_defaults I) 1 no_import s' = Some ((None, r3), s'\<lparr>World := w\<rparr>)"
    "Imported r3 = Imported no_import" "Seen r3 + Seen no_import = Seen no_import + Seen r" by auto
  then show ?thesis using deps
    by (intro exI [of _ r3] exI [of _ w]) (simp add: Run_def no_import_def)
qed

lemma import_idempotent_witness:
  "\<exists>r2 w. Run sample_env True True sample_listing sample_imported = Some ((None, r2), sample_imported\<lparr>World := w\<rparr>) \<and>
    Imported r2 = 0"
proof -
  have "calm_listing sample_env (import_defaults sample_listing)
      (\<lambda>p. if p = 1 then [sample_activity\<lparr>AName := ''Isar''\<rparr>] else [])"
    by (simp add: calm_listing_def faultless_def import_defaults_def sample_listing_def)
  from import_idempotent [OF this sample_import] show ?thesis by blast
qed

text \<open>C40: The paging ends: if some page, whenever it is asked for, comes back short or not at all, the run
  returns, whatever else goes wrong, after at most that many pages.\<close>

theorem import_ends:
  assumes "listing_ends (import_defaults I) n"
  shows "\<exists>e r s'. Run E has_client has_store I s = Some ((e, r), s') \<and> int (Pages r) \<le> n"
proof -
  have n: "1 \<le> n" using assms by (simp add: listing_ends_def)
  with import_loop_ends [OF assms, of 1 E no_import s]
  obtain e r s' where "import_loop E (import_defaults I) 1 no_import s = Some ((e, r), s')"
    "Pages r \<le> Pages no_import + nat (n - 1 + 1)" by blast
  with n show ?thesis by (auto simp: Run_def no_import_def)
qed

lemma import_ends_witness:
  "\<exists>e r s'. Run sample_env True True sample_listing sample_imported = Some ((e, r), s') \<and> int (Pages r) \<le> 1"
proof -
  have "listing_ends (import_defaults sample_listing) 1"
    by (simp add: listing_ends_def import_defaults_def sample_listing_def MaxActivitiesPerPage_def)
  from import_ends [OF this] show ?thesis by blast
qed

end
