(* ===== verification/Providers.thy ===== *)
theory Providers
  imports Prompt Settings Effects
begin

text \<open>
  The model providers of \<^verbatim>\<open>internal/naming\<close> that are one request: anthropic.go, openrouter.go and
  vertex.go, with the constants and helpers they share. The transport is a call on the world, and every
  request handed to it is kept in a trace. A request's body is its JSON value, not the encoder's text, which
  replaces what is not UTF-8; a response is decoded by a parameter, from at most as many bytes as the code
  reads. Loggers, timeouts and the usage figures they report are left out.
\<close>

section \<open>Requests\<close>

datatype json = JString string | JInt int | JNumber real | JArray "json list" | JObject "(string \<times> json) list"

record http_call =
  CallMethod :: string
  CallURL :: string
  CallHeaders :: "(string \<times> string) list"
  CallBody :: "json option"

text \<open>The body is the bytes that arrive; it ends in a read error when \<open>ReplyCut\<close> is set.\<close>

record http_reply =
  ReplyStatus :: int
  ReplyBody :: string
  ReplyCut :: bool

record 'w llm_net =
  url_parses :: "string \<Rightarrow> bool"
  transport :: "http_call \<Rightarrow> 'w \<Rightarrow> (string + http_reply) \<times> 'w"

record 'w llm =
  LWorld :: 'w
  Calls :: "http_call list"

datatype identity_error =
  IdentityBuild | IdentityRequest string | IdentityStatus int | IdentityRead | IdentityEmpty

datatype llm_error =
  NoAPIKey | NoHTTPClient | ProjectAndLocationRequired | BuildRequest | RequestFailed string | UnexpectedStatus int
| UndecodableResponse | TruncatedResponse string | EmptyResponse | UpstreamError int | UpstreamErrorMidGeneration int
| Withheld | PromptBlocked string | Refused string | TokenRejectedTwice | NoIdentitySource | FederationIncomplete
| IdentityFailed identity_error | EmptyIdentity | MalformedExchange

definition roleSystem :: string where "roleSystem = ''system''"

definition roleUser :: string where "roleUser = ''user''"

definition DefaultTemperature :: real where "DefaultTemperature = 9 / 10"

definition maxOutputTokens :: int where "maxOutputTokens = 1024"

definition truncatedError :: "string \<Rightarrow> llm_error" where
  "truncatedError provider = TruncatedResponse provider"

definition statusError :: "http_reply \<Rightarrow> llm_error" where
  "statusError r = UnexpectedStatus (ReplyStatus r)"

text \<open>One POST of a JSON body: \<^verbatim>\<open>NewRequestWithContext\<close>, the headers, \<^verbatim>\<open>Do\<close>.\<close>

definition post_json :: "'w llm_net \<Rightarrow> string \<Rightarrow> (string \<times> string) list \<Rightarrow> json \<Rightarrow>
    (('w, 'z) llm_scheme, llm_error + http_reply) state" where
  "post_json N url headers body =
     (if \<not> url_parses N url then return (Inl BuildRequest)
      else let c = \<lparr>CallMethod = ''POST'', CallURL = url,
             CallHeaders = (''Content-Type'', ''application/json'') # headers, CallBody = Some body\<rparr> in
        State (\<lambda>s. case transport N c (LWorld s) of (r, w) \<Rightarrow>
          (map_sum RequestFailed id r, s\<lparr>LWorld := w, Calls := Calls s @ [c]\<rparr>)))"

text \<open>A response that is a success and decodes, from its first bytes.\<close>

definition decoded_reply :: "nat \<Rightarrow> (string \<Rightarrow> 'a option) \<Rightarrow> http_reply \<Rightarrow> llm_error + 'a" where
  "decoded_reply limit decode r =
     (if ReplyStatus r \<noteq> 200 then Inl (statusError r)
      else case decode (take limit (ReplyBody r)) of None \<Rightarrow> Inl UndecodableResponse | Some x \<Rightarrow> Inr x)"

definition text_or_none :: "string \<Rightarrow> llm_error + string" where
  "text_or_none t = (if t = [] then Inl EmptyResponse else Inr t)"

section \<open>anthropic.go\<close>

definition DefaultAnthropicModel :: string where "DefaultAnthropicModel = ''claude-haiku-4-5-20251001''"

definition anthropicVersion :: string where "anthropicVersion = ''2023-06-01''"

definition stopReasonMaxTokens :: string where "stopReasonMaxTokens = ''max_tokens''"

definition maxAnthropicResponseBytes :: nat where "maxAnthropicResponseBytes = 2 ^ 20"

record Anthropic =
  AnthropicKey :: string
  AnthropicModelID :: string
  AnthropicTemperature :: real
  AnthropicBaseURL :: string

definition anthropic_model :: "Anthropic \<Rightarrow> string" where
  "anthropic_model a = (if AnthropicModelID a = [] then DefaultAnthropicModel else AnthropicModelID a)"

definition AnthropicName :: "Anthropic \<Rightarrow> string" where
  "AnthropicName a = ''anthropic/'' @ anthropic_model a"

definition anthropic_temperature :: "Anthropic \<Rightarrow> real" where
  "anthropic_temperature a = (if AnthropicTemperature a = 0 then DefaultTemperature else AnthropicTemperature a)"

definition anthropic_endpoint :: "Anthropic \<Rightarrow> string" where
  "anthropic_endpoint a =
     trim_right_slashes (if AnthropicBaseURL a = [] then ''https://api.anthropic.com'' else AnthropicBaseURL a) @
     ''/v1/messages''"

definition message :: "string \<Rightarrow> string \<Rightarrow> json" where
  "message role content = JObject [(''role'', JString role), (''content'', JString content)]"

definition anthropicRequest :: "Anthropic \<Rightarrow> Prompt \<Rightarrow> json" where
  "anthropicRequest a p = JObject
     ([(''model'', JString (anthropic_model a)), (''max_tokens'', JInt maxOutputTokens),
       (''temperature'', JNumber (anthropic_temperature a))] @
      (if System p = [] then [] else [(''system'', JString (System p))]) @
      [(''messages'', JArray [message roleUser (User p)])])"

record anthropicResponse =
  Blocks :: "(string \<times> string) list"
  StopReason :: string

text \<open>The blocks of type text, joined.\<close>

definition block_text :: "(string \<times> string) list \<Rightarrow> string" where
  "block_text bs = concat (map snd (filter (\<lambda>(kind, _). kind = ''text'') bs))"

definition anthropic_verdict :: "anthropicResponse \<Rightarrow> llm_error + string" where
  "anthropic_verdict r =
     (if StopReason r = stopReasonMaxTokens then Inl (truncatedError ''anthropic'')
      else text_or_none (block_text (Blocks r)))"

definition AnthropicComplete :: "'w llm_net \<Rightarrow> (string \<Rightarrow> anthropicResponse option) \<Rightarrow> Anthropic \<Rightarrow> Prompt \<Rightarrow>
    (('w, 'z) llm_scheme, llm_error + string) state" where
  "AnthropicComplete N decode a p =
     (if AnthropicKey a = [] then return (Inl NoAPIKey)
      else check (post_json N (anthropic_endpoint a)
            [(''X-Api-Key'', AnthropicKey a), (''Anthropic-Version'', anthropicVersion)] (anthropicRequest a p)) id
        (\<lambda>reply. return (case decoded_reply maxAnthropicResponseBytes decode reply of
            Inl e \<Rightarrow> Inl e | Inr r \<Rightarrow> anthropic_verdict r)))"

section \<open>openrouter.go\<close>

definition DefaultOpenRouterModel :: string where "DefaultOpenRouterModel = ''anthropic/claude-haiku-4.5''"

definition DefaultOpenRouterBaseURL :: string where "DefaultOpenRouterBaseURL = ''https://openrouter.ai/api/v1''"

definition finishReasonLength :: string where "finishReasonLength = ''length''"

definition finishReasonError :: string where "finishReasonError = ''error''"

definition finishReasonContentFilter :: string where "finishReasonContentFilter = ''content_filter''"

definition maxOpenRouterResponseBytes :: nat where "maxOpenRouterResponseBytes = 2 ^ 20"

definition reasoningEffortNone :: string where "reasoningEffortNone = ''none''"

record OpenRouter =
  RouterKey :: string
  RouterModelID :: string
  RouterTemperature :: real
  RouterBaseURL :: string

definition router_model :: "OpenRouter \<Rightarrow> string" where
  "router_model o' = (if RouterModelID o' = [] then DefaultOpenRouterModel else RouterModelID o')"

definition OpenRouterName :: "OpenRouter \<Rightarrow> string" where
  "OpenRouterName o' = ''openrouter/'' @ router_model o'"

definition router_temperature :: "OpenRouter \<Rightarrow> real" where
  "router_temperature o' = (if RouterTemperature o' = 0 then DefaultTemperature else RouterTemperature o')"

definition router_endpoint :: "OpenRouter \<Rightarrow> string" where
  "router_endpoint o' =
     trim_right_slashes (if RouterBaseURL o' = [] then DefaultOpenRouterBaseURL else RouterBaseURL o') @
     ''/chat/completions''"

definition chatRequest :: "OpenRouter \<Rightarrow> Prompt \<Rightarrow> json" where
  "chatRequest o' p = JObject
     [(''model'', JString (router_model o')), (''max_tokens'', JInt maxOutputTokens),
      (''temperature'', JNumber (router_temperature o')),
      (''messages'', JArray [message roleSystem (System p), message roleUser (User p)]),
      (''reasoning'', JObject [(''effort'', JString reasoningEffortNone)])]"

record chatChoice =
  ChoiceContent :: string
  FinishReason :: string
  ChoiceError :: "int option"

record chatResponse =
  Choices :: "chatChoice list"
  ChatError :: "int option"

text \<open>The code of an upstream error; what it says is not reported.\<close>

definition choice_verdict :: "chatChoice \<Rightarrow> llm_error + string" where
  "choice_verdict c =
     (if FinishReason c = finishReasonLength then Inl (truncatedError ''openrouter'')
      else if FinishReason c = finishReasonError
      then Inl (UpstreamErrorMidGeneration (case ChoiceError c of None \<Rightarrow> 0 | Some code \<Rightarrow> code))
      else if FinishReason c = finishReasonContentFilter then Inl Withheld
      else text_or_none (ChoiceContent c))"

definition chat_verdict :: "chatResponse \<Rightarrow> llm_error + string" where
  "chat_verdict r =
     (case ChatError r of
        Some code \<Rightarrow> Inl (UpstreamError code)
      | None \<Rightarrow> (case Choices r of [] \<Rightarrow> Inl EmptyResponse | c # _ \<Rightarrow> choice_verdict c))"

definition OpenRouterComplete :: "'w llm_net \<Rightarrow> (string \<Rightarrow> chatResponse option) \<Rightarrow> OpenRouter \<Rightarrow> Prompt \<Rightarrow>
    (('w, 'z) llm_scheme, llm_error + string) state" where
  "OpenRouterComplete N decode o' p =
     (if RouterKey o' = [] then return (Inl NoAPIKey)
      else check (post_json N (router_endpoint o')
            [(''Authorization'', ''Bearer '' @ RouterKey o'),
             (''HTTP-Referer'', ''https://github.com/jkreileder/titelheld''),
             (''X-OpenRouter-Title'', ''titelheld'')] (chatRequest o' p)) id
        (\<lambda>reply. return (case decoded_reply maxOpenRouterResponseBytes decode reply of
            Inl e \<Rightarrow> Inl e | Inr r \<Rightarrow> chat_verdict r)))"

section \<open>vertex.go\<close>

definition DefaultVertexModel :: string where "DefaultVertexModel = ''gemini-3.5-flash''"

definition maxVertexResponseBytes :: nat where "maxVertexResponseBytes = 2 ^ 20"

definition GlobalLocation :: string where "GlobalLocation = ''global''"

definition EULocation :: string where "EULocation = ''eu''"

definition euBaseURL :: string where "euBaseURL = ''https://aiplatform.eu.rep.googleapis.com''"

definition vertexFinishMaxTokens :: string where "vertexFinishMaxTokens = ''MAX_TOKENS''"

record Vertex =
  HasVertexClient :: bool
  VertexProjectID :: string
  VertexRegion :: string
  VertexModelID :: string
  VertexTemperature :: real
  VertexBaseURL :: string

definition vertex_model :: "Vertex \<Rightarrow> string" where
  "vertex_model v = (if VertexModelID v = [] then DefaultVertexModel else VertexModelID v)"

definition VertexName :: "Vertex \<Rightarrow> string" where
  "VertexName v = ''vertex/'' @ vertex_model v"

definition vertex_temperature :: "Vertex \<Rightarrow> real" where
  "vertex_temperature v = (if VertexTemperature v = 0 then DefaultTemperature else VertexTemperature v)"

definition vertex_base :: "Vertex \<Rightarrow> string" where
  "vertex_base v =
     (if VertexBaseURL v \<noteq> [] then VertexBaseURL v
      else if VertexRegion v = GlobalLocation then ''https://aiplatform.googleapis.com''
      else if VertexRegion v = EULocation then euBaseURL
      else ''https://'' @ VertexRegion v @ ''-aiplatform.googleapis.com'')"

definition vertex_endpoint :: "Vertex \<Rightarrow> string" where
  "vertex_endpoint v = trim_right_slashes (vertex_base v) @ ''/v1/projects/'' @ VertexProjectID v @
     ''/locations/'' @ VertexRegion v @ ''/publishers/google/models/'' @ vertex_model v @ '':generateContent''"

definition vertex_part :: "string \<Rightarrow> string \<times> json" where
  "vertex_part t = (''parts'', JArray [JObject [(''text'', JString t)]])"

definition vertexRequest :: "Vertex \<Rightarrow> Prompt \<Rightarrow> json" where
  "vertexRequest v p = JObject
     [(''systemInstruction'', JObject [vertex_part (System p)]),
      (''contents'', JArray [JObject [(''role'', JString roleUser), vertex_part (User p)]]),
      (''generationConfig'', JObject
         [(''temperature'', JNumber (vertex_temperature v)), (''maxOutputTokens'', JInt maxOutputTokens),
          (''responseMimeType'', JString ''application/json''),
          (''thinkingConfig'', JObject [(''thinkingBudget'', JInt 0)])])]"

record vertexCandidate =
  CandidateParts :: "string list"
  CandidateFinish :: string

record vertexResponse =
  Candidates :: "vertexCandidate list"
  BlockReason :: string

definition vertex_verdict :: "vertexResponse \<Rightarrow> llm_error + string" where
  "vertex_verdict r =
     (if BlockReason r \<noteq> [] then Inl (PromptBlocked (BlockReason r))
      else case Candidates r of
        [] \<Rightarrow> Inl EmptyResponse
      | c # _ \<Rightarrow>
          if CandidateFinish c = vertexFinishMaxTokens then Inl (truncatedError ''vertex'')
          else text_or_none (concat (CandidateParts c)))"

definition VertexComplete :: "'w llm_net \<Rightarrow> (string \<Rightarrow> vertexResponse option) \<Rightarrow> Vertex \<Rightarrow> Prompt \<Rightarrow>
    (('w, 'z) llm_scheme, llm_error + string) state" where
  "VertexComplete N decode v p =
     (if \<not> HasVertexClient v then return (Inl NoHTTPClient)
      else if VertexProjectID v = [] \<or> VertexRegion v = [] then return (Inl ProjectAndLocationRequired)
      else check (post_json N (vertex_endpoint v) [] (vertexRequest v p)) id
        (\<lambda>reply. return (case decoded_reply maxVertexResponseBytes decode reply of
            Inl e \<Rightarrow> Inl e | Inr r \<Rightarrow> vertex_verdict r)))"

section \<open>What a completion asks and answers\<close>

definition anthropic_call :: "Anthropic \<Rightarrow> Prompt \<Rightarrow> http_call" where
  "anthropic_call a p = \<lparr>CallMethod = ''POST'', CallURL = anthropic_endpoint a,
     CallHeaders = [(''Content-Type'', ''application/json''), (''X-Api-Key'', AnthropicKey a),
       (''Anthropic-Version'', anthropicVersion)],
     CallBody = Some (anthropicRequest a p)\<rparr>"

definition router_call :: "OpenRouter \<Rightarrow> Prompt \<Rightarrow> http_call" where
  "router_call o' p = \<lparr>CallMethod = ''POST'', CallURL = router_endpoint o',
     CallHeaders = [(''Content-Type'', ''application/json''), (''Authorization'', ''Bearer '' @ RouterKey o'),
       (''HTTP-Referer'', ''https://github.com/jkreileder/titelheld''), (''X-OpenRouter-Title'', ''titelheld'')],
     CallBody = Some (chatRequest o' p)\<rparr>"

definition vertex_call :: "Vertex \<Rightarrow> Prompt \<Rightarrow> http_call" where
  "vertex_call v p = \<lparr>CallMethod = ''POST'', CallURL = vertex_endpoint v,
     CallHeaders = [(''Content-Type'', ''application/json'')], CallBody = Some (vertexRequest v p)\<rparr>"

text \<open>The request is sent and answered with a success whose first bytes decode to \<open>r\<close>.\<close>

definition answered :: "'w llm_net \<Rightarrow> http_call \<Rightarrow> 'w \<Rightarrow> nat \<Rightarrow> (string \<Rightarrow> 'a option) \<Rightarrow> 'a \<Rightarrow> bool" where
  "answered N c w limit decode r \<longleftrightarrow> url_parses N (CallURL c) \<and>
     (case fst (transport N c w) of
        Inl _ \<Rightarrow> False
      | Inr reply \<Rightarrow> ReplyStatus reply = 200 \<and> decode (take limit (ReplyBody reply)) = Some r)"

text \<open>The shape the three completions share: one request, and a verdict on its decoded answer.\<close>

definition one_request :: "'w llm_net \<Rightarrow> string \<Rightarrow> (string \<times> string) list \<Rightarrow> json \<Rightarrow> nat \<Rightarrow> (string \<Rightarrow> 'a option) \<Rightarrow>
    ('a \<Rightarrow> llm_error + string) \<Rightarrow> (('w, 'z) llm_scheme, llm_error + string) state" where
  "one_request N url headers body limit decode verdict =
     check (post_json N url headers body) id
       (\<lambda>reply. return (case decoded_reply limit decode reply of Inl e \<Rightarrow> Inl e | Inr r \<Rightarrow> verdict r))"

lemma one_request_text:
  assumes "c = \<lparr>CallMethod = ''POST'', CallURL = url,
      CallHeaders = (''Content-Type'', ''application/json'') # headers, CallBody = Some body\<rparr>"
  shows "fst (run_state (one_request N url headers body limit decode verdict) s) = Inr t \<longleftrightarrow>
      (\<exists>r. answered N c (LWorld s) limit decode r \<and> verdict r = Inr t)"
proof (cases "transport N c (LWorld s)")
  case (Pair x w)
  then show ?thesis
    using assms by (cases x) (auto simp: one_request_def post_json_def answered_def decoded_reply_def Let_def
        split: option.splits if_splits)
qed

lemma one_request_calls:
  assumes "c = \<lparr>CallMethod = ''POST'', CallURL = url,
      CallHeaders = (''Content-Type'', ''application/json'') # headers, CallBody = Some body\<rparr>"
  shows "Calls (snd (run_state (one_request N url headers body limit decode verdict) s)) =
      Calls s @ (if url_parses N url then [c] else [])"
  using assms by (auto simp: one_request_def post_json_def Let_def split: prod.splits sum.splits)

lemma AnthropicComplete_one_request:
  "AnthropicComplete N decode a p = (if AnthropicKey a = [] then return (Inl NoAPIKey)
     else one_request N (anthropic_endpoint a) [(''X-Api-Key'', AnthropicKey a), (''Anthropic-Version'', anthropicVersion)]
       (anthropicRequest a p) maxAnthropicResponseBytes decode anthropic_verdict)"
  by (simp add: AnthropicComplete_def one_request_def)

lemma OpenRouterComplete_one_request:
  "OpenRouterComplete N decode o' p = (if RouterKey o' = [] then return (Inl NoAPIKey)
     else one_request N (router_endpoint o') [(''Authorization'', ''Bearer '' @ RouterKey o'),
         (''HTTP-Referer'', ''https://github.com/jkreileder/titelheld''), (''X-OpenRouter-Title'', ''titelheld'')]
       (chatRequest o' p) maxOpenRouterResponseBytes decode chat_verdict)"
  by (simp add: OpenRouterComplete_def one_request_def)

lemma VertexComplete_one_request:
  "VertexComplete N decode v p =
     (if \<not> HasVertexClient v then return (Inl NoHTTPClient)
      else if VertexProjectID v = [] \<or> VertexRegion v = [] then return (Inl ProjectAndLocationRequired)
      else one_request N (vertex_endpoint v) [] (vertexRequest v p) maxVertexResponseBytes decode vertex_verdict)"
  by (simp add: VertexComplete_def one_request_def)

lemma text_or_none_text: "text_or_none x = Inr t \<longleftrightarrow> x = t \<and> t \<noteq> []"
  by (auto simp: text_or_none_def)

text \<open>The first choice or candidate and its text, when nothing speaks against it.\<close>

lemma anthropic_verdict_text:
  "anthropic_verdict r = Inr t \<longleftrightarrow> StopReason r \<noteq> stopReasonMaxTokens \<and> block_text (Blocks r) = t \<and> t \<noteq> []"
  by (auto simp: anthropic_verdict_def text_or_none_text)

lemma chat_verdict_text:
  "chat_verdict r = Inr t \<longleftrightarrow> ChatError r = None \<and> (\<exists>c cs. Choices r = c # cs \<and>
     FinishReason c \<notin> {finishReasonLength, finishReasonError, finishReasonContentFilter} \<and>
     ChoiceContent c = t \<and> t \<noteq> [])"
  by (auto simp: chat_verdict_def choice_verdict_def text_or_none_text split: option.splits list.splits)

lemma vertex_verdict_text:
  "vertex_verdict r = Inr t \<longleftrightarrow> BlockReason r = [] \<and> (\<exists>c cs. Candidates r = c # cs \<and>
     CandidateFinish c \<noteq> vertexFinishMaxTokens \<and> concat (CandidateParts c) = t \<and> t \<noteq> [])"
  by (auto simp: vertex_verdict_def text_or_none_text split: list.splits)

text \<open>What the three keyed or client-authenticated providers return as a text is exactly what the
  model answered: the credential is there, the one request was answered with status 200, the answer
  decodes within the first megabyte, it was neither truncated, withheld, blocked nor an upstream error,
  and the text of its first choice is not empty. Everything else is an error.\<close>

theorem completion_exact:
  "(fst (run_state (AnthropicComplete N decode_a a p) s) = Inr t \<longleftrightarrow>
     AnthropicKey a \<noteq> [] \<and> t \<noteq> [] \<and> (\<exists>r. answered N (anthropic_call a p) (LWorld s) (2 ^ 20) decode_a r \<and>
       StopReason r \<noteq> ''max_tokens'' \<and> t = concat (map snd (filter (\<lambda>(kind, _). kind = ''text'') (Blocks r))))) \<and>
   (fst (run_state (OpenRouterComplete N decode_o o' p) s) = Inr t \<longleftrightarrow>
     RouterKey o' \<noteq> [] \<and> t \<noteq> [] \<and> (\<exists>r. answered N (router_call o' p) (LWorld s) (2 ^ 20) decode_o r \<and>
       ChatError r = None \<and> (\<exists>c cs. Choices r = c # cs \<and>
         FinishReason c \<notin> {''length'', ''error'', ''content_filter''} \<and> t = ChoiceContent c))) \<and>
   (fst (run_state (VertexComplete N decode_v v p) s) = Inr t \<longleftrightarrow>
     HasVertexClient v \<and> VertexProjectID v \<noteq> [] \<and> VertexRegion v \<noteq> [] \<and> t \<noteq> [] \<and>
     (\<exists>r. answered N (vertex_call v p) (LWorld s) (2 ^ 20) decode_v r \<and> BlockReason r = [] \<and>
       (\<exists>c cs. Candidates r = c # cs \<and> CandidateFinish c \<noteq> ''MAX_TOKENS'' \<and> t = concat (CandidateParts c))))"
    apply (intro conjI)
    apply (simp add: AnthropicComplete_one_request one_request_text [OF anthropic_call_def]
      anthropic_verdict_text stopReasonMaxTokens_def block_text_def maxAnthropicResponseBytes_def)
    apply blast
   apply (simp add: OpenRouterComplete_one_request one_request_text [OF router_call_def] chat_verdict_text
      finishReasonLength_def finishReasonError_def finishReasonContentFilter_def maxOpenRouterResponseBytes_def
      del: append_Cons)
   apply blast
  apply (simp add: VertexComplete_one_request one_request_text [OF vertex_call_def] vertex_verdict_text
      vertexFinishMaxTokens_def maxVertexResponseBytes_def)
  apply blast
  done

text \<open>A completion sends one request at most, the provider's own: without its credential, or with an
  address that does not parse, it sends none.\<close>

theorem providers_ask_once:
  "Calls (snd (run_state (AnthropicComplete N decode_a a p) s)) = Calls s @
     (if AnthropicKey a \<noteq> [] \<and> url_parses N (anthropic_endpoint a) then [anthropic_call a p] else []) \<and>
   Calls (snd (run_state (OpenRouterComplete N decode_o o' p) s)) = Calls s @
     (if RouterKey o' \<noteq> [] \<and> url_parses N (router_endpoint o') then [router_call o' p] else []) \<and>
   Calls (snd (run_state (VertexComplete N decode_v v p) s)) = Calls s @
     (if HasVertexClient v \<and> VertexProjectID v \<noteq> [] \<and> VertexRegion v \<noteq> [] \<and> url_parses N (vertex_endpoint v)
      then [vertex_call v p] else [])"
  by (auto simp: AnthropicComplete_one_request OpenRouterComplete_one_request VertexComplete_one_request
      one_request_calls [OF anthropic_call_def] one_request_calls [OF router_call_def]
      one_request_calls [OF vertex_call_def] simp del: append_Cons)

end
