(* ===== verification/Federation.thy ===== *)
theory Federation
  imports Providers Strava
begin

text \<open>
  The keyless provider of \<^verbatim>\<open>internal/naming/anthropic_wif.go\<close> and the identity token it trades, from
  \<^verbatim>\<open>internal/app/identity.go\<close>. The cached access token is part of the state; the lock makes each of
  \<open>accessToken\<close> and \<open>invalidate\<close> one step of a completion, and \<open>send\<close> is a step of its own. Completions
  that overlap are a step relation in which any of them takes its next step.
\<close>

section \<open>The identity token\<close>

definition metadataBaseURL :: string where "metadataBaseURL = ''http://metadata.google.internal''"

definition maxIdentityTokenBytes :: nat where "maxIdentityTokenBytes = 2 ^ 16"

definition identity_call :: "string \<Rightarrow> string \<Rightarrow> http_call" where
  "identity_call base audience =
     \<lparr>CallMethod = ''GET'',
      CallURL = trim_right_slashes (if base = [] then metadataBaseURL else base) @
        ''/computeMetadata/v1/instance/service-accounts/default/identity?'' @
        form_encode [(''audience'', audience), (''format'', ''full'')],
      CallHeaders = [(''Metadata-Flavor'', ''Google'')], CallBody = None\<rparr>"

definition identity_of :: "http_reply \<Rightarrow> identity_error + string" where
  "identity_of r =
     (if ReplyStatus r \<noteq> 200 then Inl (IdentityStatus (ReplyStatus r))
      else if ReplyCut r \<and> length (ReplyBody r) < maxIdentityTokenBytes then Inl IdentityRead
      else let token = trim_space (take maxIdentityTokenBytes (ReplyBody r)) in
        if token = [] then Inl IdentityEmpty else Inr token)"

definition MetadataToken :: "'w llm_net \<Rightarrow> string \<Rightarrow> string \<Rightarrow> (('w, 'z) llm_scheme, identity_error + string) state" where
  "MetadataToken M base audience =
     (let c = identity_call base audience in
      if \<not> url_parses M (CallURL c) then return (Inl IdentityBuild)
      else State (\<lambda>s. case transport M c (LWorld s) of (r, w) \<Rightarrow>
        (case r of Inl e \<Rightarrow> Inl (IdentityRequest e) | Inr reply \<Rightarrow> identity_of reply,
         s\<lparr>LWorld := w, Calls := Calls s @ [c]\<rparr>)))"

text \<open>The service gives the provider this source; its requests go through a client of their own.\<close>

definition metadata_source :: "'w llm_net \<Rightarrow> string \<Rightarrow> string \<Rightarrow> 'w \<Rightarrow> (identity_error + string) \<times> 'w" where
  "metadata_source M base aud w =
     (case run_state (MetadataToken M base aud) \<lparr>LWorld = w, Calls = []\<rparr> of (r, s) \<Rightarrow> (r, LWorld s))"

section \<open>The provider\<close>

definition DefaultAnthropicWIFModel :: string where "DefaultAnthropicWIFModel = ''claude-fable-5-1''"

definition DefaultAnthropicWIFAudience :: string where
  "DefaultAnthropicWIFAudience = ''https://api.anthropic.com''"

definition anthropicWIFProvider :: string where "anthropicWIFProvider = ''anthropic-wif''"

definition anthropicWIFEffort :: string where "anthropicWIFEffort = ''low''"

definition jwtBearerGrant :: string where
  "jwtBearerGrant = ''urn:ietf:params:oauth:grant-type:jwt-bearer''"

definition tokenRefreshMargin :: duration where "tokenRefreshMargin = 120 * second"

definition contentTypeText :: string where "contentTypeText = ''text''"

definition stopReasonRefusal :: string where "stopReasonRefusal = ''refusal''"

record AnthropicWIF =
  TokenAudience :: string
  WIFRule :: string
  WIFOrganization :: string
  WIFServiceAccount :: string
  WIFWorkspace :: string
  WIFModel :: string
  WIFBaseURL :: string

record 'w wif = "'w llm" +
  CachedToken :: string
  Expiry :: instant

definition wif_model :: "AnthropicWIF \<Rightarrow> string" where
  "wif_model a = (if WIFModel a = [] then DefaultAnthropicWIFModel else WIFModel a)"

definition WIFName :: "AnthropicWIF \<Rightarrow> string" where
  "WIFName a = anthropicWIFProvider @ ''/'' @ wif_model a @ '' effort='' @ anthropicWIFEffort"

definition wif_audience :: "AnthropicWIF \<Rightarrow> string" where
  "wif_audience a = (if TokenAudience a = [] then DefaultAnthropicWIFAudience else TokenAudience a)"

definition wif_url :: "AnthropicWIF \<Rightarrow> string \<Rightarrow> string" where
  "wif_url a path =
     trim_right_slashes (if WIFBaseURL a = [] then ''https://api.anthropic.com'' else WIFBaseURL a) @ path"

definition exchangeRequest :: "AnthropicWIF \<Rightarrow> string \<Rightarrow> json" where
  "exchangeRequest a assertion = JObject
     ([(''grant_type'', JString jwtBearerGrant), (''assertion'', JString assertion),
       (''federation_rule_id'', JString (WIFRule a)),
       (''organization_id'', JString (WIFOrganization a)),
       (''service_account_id'', JString (WIFServiceAccount a))] @
      (if WIFWorkspace a = [] then [] else [(''workspace_id'', JString (WIFWorkspace a))]))"

record exchangeResponse =
  ExchangedToken :: string
  ExchangedType :: string
  ExpiresIn :: int

definition wifRequest :: "AnthropicWIF \<Rightarrow> Prompt \<Rightarrow> json" where
  "wifRequest a p = JObject
     [(''model'', JString (wif_model a)), (''max_tokens'', JInt maxOutputTokens),
      (''system'', JString (System p)), (''messages'', JArray [message roleUser (User p)]),
      (''output_config'', JObject [(''effort'', JString anthropicWIFEffort)])]"

record wifResponse =
  Content :: "(string \<times> string) list"
  WIFStopReason :: string
  StopCategory :: "string option"

text \<open>
  What the provider is given: the transport, the clock, the tables of case folding, the decoders of the
  two responses and the source of identity tokens, which may be missing.
\<close>

record 'w wif_env =
  NetOf :: "'w llm_net"
  Clock :: "'w \<Rightarrow> instant \<times> 'w"
  TablesOf :: tables
  decode_exchange :: "string \<Rightarrow> exchangeResponse option"
  decode_message :: "string \<Rightarrow> wifResponse option"
  IdentityToken :: "(string \<Rightarrow> 'w \<Rightarrow> (identity_error + string) \<times> 'w) option"

section \<open>The access token\<close>

definition wif_now :: "'w wif_env \<Rightarrow> ('w wif, instant) state" where
  "wif_now E = State (\<lambda>s. case Clock E (LWorld s) of (t, w) \<Rightarrow> (t, s\<lparr>LWorld := w\<rparr>))"

definition mint :: "(string \<Rightarrow> 'w \<Rightarrow> (identity_error + string) \<times> 'w) \<Rightarrow> string \<Rightarrow>
    ('w wif, identity_error + string) state" where
  "mint identity aud = State (\<lambda>s. case identity aud (LWorld s) of (r, w) \<Rightarrow> (r, s\<lparr>LWorld := w\<rparr>))"

definition malformed :: "tables \<Rightarrow> exchangeResponse \<Rightarrow> bool" where
  "malformed U r \<longleftrightarrow> ExchangedToken r = [] \<or> ExpiresIn r \<le> 0 \<or> \<not> equal_fold U (ExchangedType r) ''Bearer''"

definition granted_token :: "tables \<Rightarrow> instant \<Rightarrow> exchangeResponse \<Rightarrow> llm_error + string \<times> instant" where
  "granted_token U issued r =
     (if malformed U r then Inl MalformedExchange
      else Inr (ExchangedToken r, time_add issued (wrap64 (ExpiresIn r * second))))"

definition wif_exchange :: "'w wif_env \<Rightarrow> AnthropicWIF \<Rightarrow> ('w wif, llm_error + string \<times> instant) state" where
  "wif_exchange E a =
     (case IdentityToken E of
        None \<Rightarrow> return (Inl NoIdentitySource)
      | Some identity \<Rightarrow>
          if WIFRule a = [] \<or> WIFOrganization a = [] \<or> WIFServiceAccount a = []
          then return (Inl FederationIncomplete)
          else check (mint identity (wif_audience a)) IdentityFailed (\<lambda>assertion.
            if assertion = [] then return (Inl EmptyIdentity)
            else if \<not> url_parses (NetOf E) (wif_url a ''/v1/oauth/token'') then return (Inl BuildRequest)
            else do {
              issued \<leftarrow> wif_now E;
              check (post_json (NetOf E) (wif_url a ''/v1/oauth/token'') [] (exchangeRequest a assertion)) id
                (\<lambda>reply. return (case decoded_reply maxAnthropicResponseBytes (decode_exchange E) reply of
                   Inl e \<Rightarrow> Inl e | Inr r \<Rightarrow> granted_token (TablesOf E) issued r)) }))"

text \<open>The token and whether it was served from the cache.\<close>

definition fresh_token :: "'w wif_env \<Rightarrow> AnthropicWIF \<Rightarrow> ('w wif, llm_error + string \<times> bool) state" where
  "fresh_token E a =
     check (wif_exchange E a) id (\<lambda>(token, expiry). do {
       _ \<leftarrow> changes (\<lambda>s. s\<lparr>CachedToken := token, Expiry := expiry\<rparr>);
       return (Inr (token, False)) })"

definition accessToken :: "'w wif_env \<Rightarrow> AnthropicWIF \<Rightarrow> ('w wif, llm_error + string \<times> bool) state" where
  "accessToken E a = do {
     token \<leftarrow> reads CachedToken;
     if token = [] then fresh_token E a
     else do {
       expiry \<leftarrow> reads Expiry;
       t \<leftarrow> wif_now E;
       if tokenRefreshMargin \<le> time_sub expiry t then return (Inr (token, True)) else fresh_token E a } }"

definition invalidate :: "string \<Rightarrow> ('w wif, unit) state" where
  "invalidate rejected = changes (\<lambda>s.
     if CachedToken s = rejected then s\<lparr>CachedToken := [], Expiry := time_zero\<rparr> else s)"

definition wif_send :: "'w wif_env \<Rightarrow> AnthropicWIF \<Rightarrow> string \<Rightarrow> json \<Rightarrow> ('w wif, llm_error + http_reply) state" where
  "wif_send E a token body = post_json (NetOf E) (wif_url a ''/v1/messages'')
     [(''Authorization'', ''Bearer '' @ token), (''Anthropic-Version'', anthropicVersion)] body"

section \<open>A completion\<close>

definition wif_text :: "(string \<times> string) list \<Rightarrow> string" where
  "wif_text bs = concat (map snd (filter (\<lambda>(kind, _). kind = contentTypeText) bs))"

definition wif_verdict :: "wifResponse \<Rightarrow> llm_error + string" where
  "wif_verdict r =
     (if WIFStopReason r = stopReasonMaxTokens then Inl (truncatedError anthropicWIFProvider)
      else if WIFStopReason r = stopReasonRefusal
      then Inl (Refused (case StopCategory r of None \<Rightarrow> [] | Some c \<Rightarrow> c))
      else text_or_none (wif_text (Content r)))"

definition wif_reply :: "'w wif_env \<Rightarrow> http_reply \<Rightarrow> llm_error + string" where
  "wif_reply E reply =
     (case decoded_reply maxAnthropicResponseBytes (decode_message E) reply of
        Inl e \<Rightarrow> Inl e | Inr r \<Rightarrow> wif_verdict r)"

text \<open>
  One turn of the loop: the response in hand, and whether the loop goes on. It is left with a response
  that is not a 401, and with an error where the code returns one.
\<close>

definition rejected_reply :: "nat \<Rightarrow> bool \<Rightarrow> http_reply \<Rightarrow> llm_error + bool \<times> http_reply" where
  "rejected_reply k cached reply =
     (if 0 < k then Inl TokenRejectedTwice
      else if \<not> cached then Inl (statusError reply)
      else Inr (True, reply))"

definition attempt_with :: "'w wif_env \<Rightarrow> AnthropicWIF \<Rightarrow> json \<Rightarrow> nat \<Rightarrow>
    ('w wif, llm_error + bool \<times> http_reply) state" where
  "attempt_with E a body k =
     check (accessToken E a) id (\<lambda>(token, cached).
       check (wif_send E a token body) id (\<lambda>reply.
         if ReplyStatus reply \<noteq> 401 then return (Inr (False, reply))
         else do {
           _ \<leftarrow> invalidate token;
           return (rejected_reply k cached reply) }))"

definition WIFComplete :: "'w wif_env \<Rightarrow> AnthropicWIF \<Rightarrow> Prompt \<Rightarrow> ('w wif, llm_error + string) state" where
  "WIFComplete E a p = (let body = wifRequest a p in
     check (attempt_with E a body 0) id (\<lambda>(again, reply).
       if \<not> again then return (wif_reply E reply)
       else check (attempt_with E a body 1) id (\<lambda>(_, reply). return (wif_reply E reply))))"

section \<open>The provider in use (naming.go)\<close>

text \<open>\<^verbatim>\<open>Provider\<close> has four implementations. All share the transport here, and the decoder of each comes with it.\<close>

datatype narrator =
  AnthropicNarrator Anthropic
| OpenRouterNarrator OpenRouter
| WIFNarrator AnthropicWIF
| VertexNarrator Vertex

record 'w narrator_env = "'w wif_env" +
  decode_anthropic :: "string \<Rightarrow> anthropicResponse option"
  decode_chat :: "string \<Rightarrow> chatResponse option"
  decode_vertex :: "string \<Rightarrow> vertexResponse option"

fun NarratorName :: "narrator \<Rightarrow> string" where
  "NarratorName (AnthropicNarrator a) = AnthropicName a"
| "NarratorName (OpenRouterNarrator o') = OpenRouterName o'"
| "NarratorName (WIFNarrator a) = WIFName a"
| "NarratorName (VertexNarrator v) = VertexName v"

fun NarratorComplete :: "'w narrator_env \<Rightarrow> narrator \<Rightarrow> Prompt \<Rightarrow> ('w wif, llm_error + string) state" where
  "NarratorComplete E (AnthropicNarrator a) p = AnthropicComplete (NetOf E) (decode_anthropic E) a p"
| "NarratorComplete E (OpenRouterNarrator o') p = OpenRouterComplete (NetOf E) (decode_chat E) o' p"
| "NarratorComplete E (WIFNarrator a) p = WIFComplete (wif_env.truncate E) a p"
| "NarratorComplete E (VertexNarrator v) p = VertexComplete (NetOf E) (decode_vertex E) v p"

text \<open>What a log line keeps of the scope the server returned.\<close>

definition capScope :: "string \<Rightarrow> string" where
  "capScope s = (if 128 < length (runes s) then string_of_runes (take 128 (runes s)) else s)"

section \<open>Completions that overlap\<close>

text \<open>
  Where a completion is: about to ask for a token, holding one, holding one the Messages API has just
  rejected, or finished. A turn is one locked section or one request. The log says which token was
  exchanged for, which token which attempt took, and which a completion dropped as rejected.
\<close>

datatype phase =
  Wants nat
| Holds nat string bool
| Spent nat string bool http_reply
| Over "llm_error + string"

datatype event = Issued string | Took nat string | Dropped string

fun turn :: "'w wif_env \<Rightarrow> AnthropicWIF \<Rightarrow> json \<Rightarrow> phase \<Rightarrow> ('w wif, phase \<times> event list) state" where
  "turn E a body (Wants k) = do {
     r \<leftarrow> accessToken E a;
     return (case r of
         Inl e \<Rightarrow> (Over (Inl e), [])
       | Inr (token, cached) \<Rightarrow>
           (Holds k token cached, (if cached then [] else [Issued token]) @ [Took k token])) }"
| "turn E a body (Holds k token cached) = do {
     r \<leftarrow> wif_send E a token body;
     return (case r of
         Inl e \<Rightarrow> (Over (Inl e), [])
       | Inr reply \<Rightarrow>
           (if ReplyStatus reply \<noteq> 401 then Over (wif_reply E reply) else Spent k token cached reply, [])) }"
| "turn E a body (Spent k token cached reply) = do {
     _ \<leftarrow> invalidate token;
     return (case rejected_reply k cached reply of
         Inl e \<Rightarrow> (Over (Inl e), [Dropped token])
       | Inr _ \<Rightarrow> (Wants (Suc k), [Dropped token])) }"
| "turn E a body (Over r) = return (Over r, [])"

record 'w completions =
  Shared :: "'w wif"
  PhaseOf :: "nat \<Rightarrow> phase"
  Log :: "(nat \<times> event) list"

inductive completion_step :: "'w wif_env \<Rightarrow> AnthropicWIF \<Rightarrow> (nat \<Rightarrow> Prompt) \<Rightarrow>
    'w completions \<Rightarrow> 'w completions \<Rightarrow> bool" for E a P where
  moves: "run_state (turn E a (wifRequest a (P i)) (PhaseOf S i)) (Shared S) = ((ph, evs), s') \<Longrightarrow>
     completion_step E a P S \<lparr>Shared = s', PhaseOf = (PhaseOf S)(i := ph), Log = Log S @ map (Pair i) evs\<rparr>"
| elapses: "completion_step E a P S (S\<lparr>Shared := (Shared S)\<lparr>LWorld := w\<rparr>\<rparr>)"

inductive_cases completion_stepE: "completion_step E a P S T"

definition idle :: "'w wif \<Rightarrow> 'w completions" where
  "idle s = \<lparr>Shared = s, PhaseOf = (\<lambda>_. Wants 0), Log = []\<rparr>"

definition overlapping :: "'w wif_env \<Rightarrow> AnthropicWIF \<Rightarrow> (nat \<Rightarrow> Prompt) \<Rightarrow> 'w wif \<Rightarrow> 'w completions \<Rightarrow> bool" where
  "overlapping E a P s S \<longleftrightarrow> (completion_step E a P)\<^sup>*\<^sup>* (idle s) S"

section \<open>What the steps do to the cache\<close>

lemma post_json_run:
  "run_state (post_json N url headers body) s =
     (if \<not> url_parses N url then (Inl BuildRequest, s)
      else let c = \<lparr>CallMethod = ''POST'', CallURL = url,
             CallHeaders = (''Content-Type'', ''application/json'') # headers, CallBody = Some body\<rparr> in
        case transport N c (LWorld s) of (r, w) \<Rightarrow> (map_sum RequestFailed id r, s\<lparr>LWorld := w, Calls := Calls s @ [c]\<rparr>))"
  by (simp add: post_json_def Let_def)

lemma post_json_cache [simp]:
  "CachedToken (snd (run_state (post_json N url headers body) s)) = CachedToken s"
  by (simp add: post_json_run Let_def split: prod.splits)

lemma wif_now_cache [simp]: "CachedToken (snd (run_state (wif_now E) s)) = CachedToken s"
  by (simp add: wif_now_def split: prod.splits)

lemma mint_cache [simp]: "CachedToken (snd (run_state (mint f x) s)) = CachedToken s"
  by (simp add: mint_def split: prod.splits)

lemma post_json_cache_run: "run_state (post_json N url headers body) s = (r, t) \<Longrightarrow> CachedToken t = CachedToken s"
  using post_json_cache [of N url headers body s] by simp

lemma wif_now_cache_run: "run_state (wif_now E) s = (r, t) \<Longrightarrow> CachedToken t = CachedToken s"
  using wif_now_cache [of E s] by simp

lemma mint_cache_run: "run_state (mint f x) s = (r, t) \<Longrightarrow> CachedToken t = CachedToken s"
  using mint_cache [of f x s] by simp

lemma granted_token_some: "granted_token U issued r = Inr (t, x) \<Longrightarrow> t \<noteq> []"
  by (auto simp: granted_token_def malformed_def split: if_splits)

interpretation keeps_cache: effect "\<lambda>s t. CachedToken t = CachedToken s"
  by unfold_locales auto

lemma exchange_cache: "CachedToken (snd (run_state (wif_exchange E a) s)) = CachedToken s"
proof -
  have "keeps_cache.may (wif_exchange E a)"
    unfolding wif_exchange_def
    by (intro keeps_cache.may_rules)
      (simp_all add: keeps_cache.mayI [OF wif_now_cache_run] keeps_cache.mayI [OF mint_cache_run]
        keeps_cache.mayI [OF post_json_cache_run])
  then show ?thesis by (metis keeps_cache.mayD prod.collapse)
qed

lemma exchange_some: "fst (run_state (wif_exchange E a) s) = Inr (t, x) \<Longrightarrow> t \<noteq> []"
  by (auto simp: wif_exchange_def dest!: granted_token_some split: option.splits prod.splits sum.splits if_splits)

lemma fresh_token_cases:
  assumes "run_state (fresh_token E a) s = (r, s')"
  obtains (failed) e where "r = Inl e" "CachedToken s' = CachedToken s"
  | (issued) t where "r = Inr (t, False)" "t \<noteq> []" "CachedToken s' = t"
proof (cases "run_state (wif_exchange E a) s")
  case (Pair x u)
  then show thesis
    using assms exchange_cache [of E a s] exchange_some [of E a s] failed issued
    by (cases x) (auto simp: fresh_token_def)
qed

lemma accessToken_cases:
  assumes "run_state (accessToken E a) s = (r, s')"
  obtains (failed) e where "r = Inl e" "CachedToken s' = CachedToken s"
  | (served) "r = Inr (CachedToken s, True)" "CachedToken s \<noteq> []" "CachedToken s' = CachedToken s"
  | (issued) t where "r = Inr (t, False)" "t \<noteq> []" "CachedToken s' = t"
proof (cases "CachedToken s = []")
  case True
  with assms have "run_state (fresh_token E a) s = (r, s')" by (simp add: accessToken_def)
  then show thesis by (rule fresh_token_cases) (use failed issued in blast)+
next
  case False
  obtain t u where clock: "run_state (wif_now E) s = (t, u)" by fastforce
  with wif_now_cache [of E s] have same: "CachedToken u = CachedToken s" by simp
  show thesis
  proof (cases "tokenRefreshMargin \<le> time_sub (Expiry s) t")
    case True
    with assms False clock same show thesis by (intro served) (auto simp: accessToken_def)
  next
    case stale: False
    with assms False clock have "run_state (fresh_token E a) u = (r, s')" by (simp add: accessToken_def)
    then show thesis by (rule fresh_token_cases) (use failed issued same in auto)
  qed
qed

lemma send_cache [simp]: "CachedToken (snd (run_state (wif_send E a token body) s)) = CachedToken s"
  by (simp add: wif_send_def)

lemma invalidate_cache [simp]:
  "CachedToken (snd (run_state (invalidate t) s)) = (if CachedToken s = t then [] else CachedToken s)"
  by (simp add: invalidate_def)

section \<open>The log\<close>

primrec cached_by :: "event \<Rightarrow> string \<Rightarrow> string" where
  "cached_by (Issued t) c = t"
| "cached_by (Took k t) c = c"
| "cached_by (Dropped t) c = (if c = t then [] else c)"

definition cache_after :: "(nat \<times> event) list \<Rightarrow> string \<Rightarrow> string" where
  "cache_after L c = fold (cached_by \<circ> snd) L c"

lemma cache_after_simps [simp]:
  "cache_after [] c = c"
  "cache_after (x # L) c = cache_after L (cached_by (snd x) c)"
  "cache_after (L @ L') c = cache_after L' (cache_after L c)"
  by (simp_all add: cache_after_def)

text \<open>A token that was not in the cache and is now has been exchanged for in between.\<close>

lemma cache_after_issued:
  "cache_after L c = t \<Longrightarrow> c \<noteq> t \<Longrightarrow> t \<noteq> [] \<Longrightarrow> \<exists>j. (j, Issued t) \<in> set L"
proof (induction L arbitrary: c)
  case (Cons x L)
  show ?case
  proof (cases "cached_by (snd x) c = t")
    case True
    with Cons.prems have "snd x = Issued t" by (cases "snd x") (auto split: if_splits)
    then show ?thesis by (cases x) auto
  next
    case False
    with Cons show ?thesis by fastforce
  qed
qed simp

text \<open>Every token taken is the one in the cache at that moment, and none is empty.\<close>

primrec takes_cached :: "string \<Rightarrow> (nat \<times> event) list \<Rightarrow> bool" where
  "takes_cached c [] \<longleftrightarrow> True"
| "takes_cached c (x # L) \<longleftrightarrow>
     (case snd x of Took k t \<Rightarrow> t = c \<and> t \<noteq> [] | _ \<Rightarrow> True) \<and> takes_cached (cached_by (snd x) c) L"

lemma takes_cached_append [simp]:
  "takes_cached c (L @ L') \<longleftrightarrow> takes_cached c L \<and> takes_cached (cache_after L c) L'"
  by (induction L arbitrary: c) auto

text \<open>What one completion did, exchanges apart, and what a phase tells of it.\<close>

definition own :: "nat \<Rightarrow> (nat \<times> event) list \<Rightarrow> event list" where
  "own i L = map snd (filter (\<lambda>(j, e). j = i \<and> (case e of Issued _ \<Rightarrow> False | _ \<Rightarrow> True)) L)"

lemma own_simps [simp]:
  "own i [] = []"
  "own i ((j, Issued t) # L) = own i L"
  "own i ((j, Took k t) # L) = (if j = i then [Took k t] else []) @ own i L"
  "own i ((j, Dropped t) # L) = (if j = i then [Dropped t] else []) @ own i L"
  "own i (L @ L') = own i L @ own i L'"
  by (simp_all add: own_def)

lemma own_other [simp]: "i \<noteq> j \<Longrightarrow> own i (map (Pair j) evs) = []"
  by (auto simp: own_def filter_empty_conv)

lemma own_members: "(i, Took k t) \<in> set L \<Longrightarrow> Took k t \<in> set (own i L)"
  "(i, Dropped t) \<in> set L \<longleftrightarrow> Dropped t \<in> set (own i L)"
  by (force simp: own_def)+

inductive history :: "phase \<Rightarrow> event list \<Rightarrow> bool" where
  wants_0: "history (Wants 0) []"
| holds_0: "history (Holds 0 t c) [Took 0 t]"
| spent_0: "history (Spent 0 t c r) [Took 0 t]"
| wants_1: "history (Wants 1) [Took 0 t, Dropped t]"
| holds_1: "history (Holds 1 u c) [Took 0 t, Dropped t, Took 1 u]"
| spent_1: "history (Spent 1 u c r) [Took 0 t, Dropped t, Took 1 u]"
| over: "prefix es [Took 0 t, Dropped t, Took 1 u, Dropped u] \<Longrightarrow> history (Over r) es"

inductive_cases history_cases:
  "history (Wants k) es" "history (Holds k t c) es" "history (Spent k t c r) es" "history (Over x) es"

lemma history_over [simp]:
  "history (Over r) []" "history (Over r) [Took 0 t]" "history (Over r) [Took 0 t, Dropped t]"
  "history (Over r) [Took 0 t, Dropped t, Took (Suc 0) u]"
  "history (Over r) [Took 0 t, Dropped t, Took (Suc 0) u, Dropped u]"
  by (auto intro!: history.over [of _ t u])

lemmas history_later [simp] = wants_1 [simplified] holds_1 [simplified] spent_1 [simplified] holds_0 spent_0 wants_0

lemma turn_effect:
  assumes "run_state (turn E a body ph) s = ((ph', evs), s')" and "history ph es"
  shows "CachedToken s' = cache_after (map (Pair i) evs) (CachedToken s)"
    and "takes_cached (CachedToken s) (map (Pair i) evs)"
    and "history ph' (es @ own i (map (Pair i) evs))"
proof -
  have "CachedToken s' = cache_after (map (Pair i) evs) (CachedToken s) \<and>
    takes_cached (CachedToken s) (map (Pair i) evs) \<and> history ph' (es @ own i (map (Pair i) evs))"
  proof (cases ph)
    case (Wants k)
    obtain r u where run: "run_state (accessToken E a) s = (r, u)" by fastforce
    from run show ?thesis
      by (rule accessToken_cases)
        (use run assms Wants in \<open>auto elim!: history_cases\<close>)
  next
    case (Holds k t c)
    obtain r u where run: "run_state (wif_send E a t body) s = (r, u)" by fastforce
    with send_cache [of E a t body s] have "CachedToken u = CachedToken s" by simp
    with run assms Holds show ?thesis
      by (cases r) (auto elim!: history_cases split: if_splits)
  next
    case (Spent k t c reply)
    obtain x u where run: "run_state (invalidate t) s = (x, u)" by (cases "run_state (invalidate t) s")
    with invalidate_cache [of t s] have "CachedToken u = (if CachedToken s = t then [] else CachedToken s)" by simp
    with run assms Spent show ?thesis
      by (auto simp: rejected_reply_def elim!: history_cases split: if_splits)
  next
    case (Over r)
    with assms show ?thesis by auto
  qed
  then show "CachedToken s' = cache_after (map (Pair i) evs) (CachedToken s)"
    "takes_cached (CachedToken s) (map (Pair i) evs)" "history ph' (es @ own i (map (Pair i) evs))" by auto
qed

definition accounted :: "string \<Rightarrow> 'w completions \<Rightarrow> bool" where
  "accounted c S \<longleftrightarrow> CachedToken (Shared S) = cache_after (Log S) c \<and> takes_cached c (Log S) \<and>
     (\<forall>i. history (PhaseOf S i) (own i (Log S)))"

lemma accounted_step: "completion_step E a P S T \<Longrightarrow> accounted c S \<Longrightarrow> accounted c T"
proof (induction rule: completion_step.induct)
  case (moves i S ph evs s')
  from moves(2) have "history (PhaseOf S i) (own i (Log S))" by (simp add: accounted_def)
  note effect = turn_effect [OF moves(1) this, of i]
  from moves(2) effect show ?case by (auto simp: accounted_def)
qed (simp add: accounted_def)

lemma overlapping_accounted: "overlapping E a P s S \<Longrightarrow> accounted (CachedToken s) S"
  unfolding overlapping_def
proof (induction rule: rtranclp_induct)
  case base
  show ?case by (simp add: accounted_def idle_def)
qed (rule accounted_step)

lemma issued_after_drop:
  assumes "takes_cached c (L @ (i, Dropped t) # L' @ (j, Took k t) # L'')"
  shows "\<exists>j'. (j', Issued t) \<in> set L'"
proof -
  let ?c = "cached_by (Dropped t) (cache_after L c)"
  have "cache_after L' ?c = t" "t \<noteq> []" using assms by auto
  moreover have "?c \<noteq> t" using \<open>t \<noteq> []\<close> by auto
  ultimately show ?thesis using cache_after_issued by blast
qed

text \<open>A completion's second attempt follows its own drop of the first token.\<close>

lemma second_attempt_after_drop:
  assumes "history ph (own i (L @ (i, Took 0 t) # L' @ (i, Took 1 u) # L''))"
  shows "(i, Dropped t) \<in> set L'"
proof -
  let ?es = "own i (L @ (i, Took 0 t) # L' @ (i, Took 1 u) # L'')"
  obtain v w where "prefix ?es [Took 0 v, Dropped v, Took 1 w, Dropped w]"
    using assms by (cases rule: history.cases) auto
  then have "prefix (own i L @ Took 0 t # own i L' @ Took 1 u # own i L'') [Took 0 v, Dropped v, Took 1 w, Dropped w]"
    by simp
  then have "own i L = [] \<and> own i L' = [Dropped t]"
    by (auto simp: prefix_def append_eq_Cons_conv Cons_eq_append_conv)
  then show ?thesis by (simp add: own_members)
qed

lemma issued_for_retry:
  assumes "takes_cached c (L @ (i, Took 0 t) # L' @ (i, Took 1 u) # L'')" and "(i, Dropped t) \<in> set L'"
  shows "\<exists>j. (j, Issued u) \<in> set L'"
proof (cases "u = t")
  case True
  from assms(2) obtain m m' where mid: "L' = m @ (i, Dropped t) # m'" by (meson split_list)
  have "L @ (i, Took 0 t) # L' @ (i, Took 1 u) # L'' =
      (L @ (i, Took 0 t) # m) @ (i, Dropped t) # m' @ (i, Took 1 t) # L''"
    by (simp add: mid True)
  from issued_after_drop [OF assms(1) [unfolded this]] True mid show ?thesis by auto
next
  case False
  have "cache_after L' t = u" "u \<noteq> []" using assms(1) by auto
  with False show ?thesis using cache_after_issued by metis
qed

section \<open>Schedules\<close>

text \<open>A schedule names who moves next, or the world a pause leaves.\<close>

fun advance :: "'w wif_env \<Rightarrow> AnthropicWIF \<Rightarrow> (nat \<Rightarrow> Prompt) \<Rightarrow> nat + 'w \<Rightarrow> 'w completions \<Rightarrow> 'w completions" where
  "advance E a P (Inl i) S =
     (case run_state (turn E a (wifRequest a (P i)) (PhaseOf S i)) (Shared S) of ((ph, evs), s') \<Rightarrow>
        \<lparr>Shared = s', PhaseOf = (PhaseOf S)(i := ph), Log = Log S @ map (Pair i) evs\<rparr>)"
| "advance E a P (Inr w) S = S\<lparr>Shared := (Shared S)\<lparr>LWorld := w\<rparr>\<rparr>"

lemma advance_step: "completion_step E a P S (advance E a P x S)"
  by (cases x) (auto intro: completion_step.intros split: prod.splits)

lemma schedule_runs: "(completion_step E a P)\<^sup>*\<^sup>* S (fold (advance E a P) xs S)"
  by (induction xs arbitrary: S) (auto intro: converse_rtranclp_into_rtranclp advance_step)

lemma schedule_overlapping: "overlapping E a P s (fold (advance E a P) xs (idle s))"
  unfolding overlapping_def by (rule schedule_runs)

text \<open>One completion on its own.\<close>

definition solo :: "'w wif_env \<Rightarrow> AnthropicWIF \<Rightarrow> json \<Rightarrow> phase \<times> 'w wif \<Rightarrow> phase \<times> 'w wif" where
  "solo E a body = (\<lambda>(ph, s). case run_state (turn E a body ph) s of ((ph', evs), s') \<Rightarrow> (ph', s'))"

definition seen :: "nat \<Rightarrow> 'w completions \<Rightarrow> phase \<times> 'w wif" where
  "seen i S = (PhaseOf S i, Shared S)"

lemma seen_advance: "seen i (advance E a P (Inl i) S) = solo E a (wifRequest a (P i)) (seen i S)"
  by (simp add: seen_def solo_def split: prod.splits)

lemma seen_schedule:
  "seen i (fold (advance E a P) (replicate n (Inl i)) S) = (solo E a (wifRequest a (P i)) ^^ n) (seen i S)"
  by (induction n arbitrary: S) (simp_all add: seen_advance funpow_swap1 del: advance.simps)

fun attempted :: "'w wif_env \<Rightarrow> nat \<Rightarrow> llm_error + bool \<times> http_reply \<Rightarrow> phase" where
  "attempted E k (Inl e) = Over (Inl e)"
| "attempted E k (Inr (again, reply)) = (if again then Wants (Suc k) else Over (wif_reply E reply))"

lemma solo_over [simp]: "solo E a body (Over r, s) = (Over r, s)"
  by (simp add: solo_def)

lemma solo_attempt:
  "(solo E a body ^^ 3) (Wants k, s) =
     (case run_state (attempt_with E a body k) s of (r, s') \<Rightarrow> (attempted E k r, s'))"
proof -
  obtain r u where take: "run_state (accessToken E a) s = (r, u)" by fastforce
  show ?thesis
  proof (cases r)
    case (Inl e)
    with take show ?thesis by (simp add: numeral_3_eq_3 solo_def attempt_with_def)
  next
    case (Inr x)
    obtain token cached where x: "x = (token, cached)" by fastforce
    obtain r' v where post: "run_state (wif_send E a token body) u = (r', v)" by fastforce
    show ?thesis
      by (cases r'; cases "run_state (invalidate token) v")
        (use take Inr x post in \<open>auto simp: numeral_3_eq_3 solo_def attempt_with_def rejected_reply_def\<close>)
  qed
qed

lemma rejected_twice_ends: "fst (run_state (attempt_with E a body 1) s) \<noteq> Inr (True, reply)"
  by (auto simp: attempt_with_def rejected_reply_def split: prod.splits sum.splits)

lemma solo_completion:
  "(solo E a (wifRequest a p) ^^ 6) (Wants 0, s) =
     (case run_state (WIFComplete E a p) s of (r, s') \<Rightarrow> (Over r, s'))"
proof -
  let ?f = "solo E a (wifRequest a p)"
  have six: "(?f ^^ 6) x = (?f ^^ 3) ((?f ^^ 3) x)" for x
    by (simp add: numeral_3_eq_3 eval_nat_numeral)
  have over: "(?f ^^ 3) (Over r, u) = (Over r, u)" for r u
    by (simp add: numeral_3_eq_3)
  obtain r u where first: "run_state (attempt_with E a (wifRequest a p) 0) s = (r, u)" by fastforce
  show ?thesis
  proof (cases r)
    case (Inl e)
    with first show ?thesis by (simp add: six solo_attempt over WIFComplete_def Let_def)
  next
    case (Inr x)
    obtain again reply where x: "x = (again, reply)" by fastforce
    show ?thesis
    proof (cases again)
      case False
      with first Inr x show ?thesis by (simp add: six solo_attempt over WIFComplete_def Let_def)
    next
      case True
      obtain r' v where next_one: "run_state (attempt_with E a (wifRequest a p) (Suc 0)) u = (r', v)" by fastforce
      then have "\<forall>b. r' \<noteq> Inr (True, b)"
        using rejected_twice_ends [of E a "wifRequest a p" u] by auto
      with next_one first Inr x True show ?thesis
        by (cases r') (auto simp: six solo_attempt WIFComplete_def Let_def)
    qed
  qed
qed

section \<open>The requests of a completion\<close>

definition exchange_call :: "AnthropicWIF \<Rightarrow> string \<Rightarrow> http_call" where
  "exchange_call a assertion =
     \<lparr>CallMethod = ''POST'', CallURL = wif_url a ''/v1/oauth/token'',
      CallHeaders = [(''Content-Type'', ''application/json'')], CallBody = Some (exchangeRequest a assertion)\<rparr>"

definition message_call :: "AnthropicWIF \<Rightarrow> json \<Rightarrow> string \<Rightarrow> http_call" where
  "message_call a body token =
     \<lparr>CallMethod = ''POST'', CallURL = wif_url a ''/v1/messages'',
      CallHeaders = [(''Content-Type'', ''application/json''), (''Authorization'', ''Bearer '' @ token),
        (''Anthropic-Version'', anthropicVersion)],
      CallBody = Some body\<rparr>"

definition one_token :: "string list \<Rightarrow> bool" where
  "one_token ts \<longleftrightarrow> length ts \<le> 1 \<and> [] \<notin> set ts"

lemma one_token_simps [simp]: "one_token []" "one_token [t] \<longleftrightarrow> t \<noteq> []"
  by (auto simp: one_token_def)

lemma wif_now_calls: "run_state (wif_now E) s = (t, u) \<Longrightarrow> Calls u = Calls s"
  by (auto simp: wif_now_def split: prod.splits)

lemma mint_calls: "run_state (mint f x) s = (t, u) \<Longrightarrow> Calls u = Calls s"
  by (auto simp: mint_def split: prod.splits)

lemma exchange_calls:
  assumes "run_state (wif_exchange E a) s = (r, s')"
  obtains x where "one_token x" "Calls s' = Calls s @ map (exchange_call a) x"
proof (cases "\<exists>x. x \<noteq> [] \<and> Calls s' = Calls s @ [exchange_call a x]")
  case True
  then show thesis using that by (metis list.simps(8,9) one_token_simps(2))
next
  case False
  with assms have "Calls s' = Calls s"
    by (auto simp: wif_exchange_def post_json_run exchange_call_def Let_def
        dest!: wif_now_calls mint_calls split: option.splits prod.splits sum.splits if_splits)
  then show thesis using that [of "[]"] by simp
qed

lemma fresh_token_calls:
  assumes "run_state (fresh_token E a) s = (r, s')"
  obtains x where "one_token x" "Calls s' = Calls s @ map (exchange_call a) x"
proof (cases "run_state (wif_exchange E a) s")
  case (Pair r' u)
  from exchange_calls [OF this] obtain x where "one_token x" "Calls u = Calls s @ map (exchange_call a) x" .
  moreover have "Calls s' = Calls u" using assms Pair by (cases r') (auto simp: fresh_token_def)
  ultimately show thesis using that by simp
qed

lemma accessToken_calls:
  assumes "run_state (accessToken E a) s = (r, s')"
  obtains x where "one_token x" "Calls s' = Calls s @ map (exchange_call a) x"
    "\<forall>t. r = Inr (t, True) \<longrightarrow> x = []"
proof (cases "\<exists>t. r = Inr (t, True)")
  case True
  have never: "fst (run_state (fresh_token E a) u) \<noteq> Inr (t, True)" for u t
    by (auto simp: fresh_token_def split: prod.splits sum.splits)
  then have "Calls s' = Calls s"
    using assms True by (auto simp: accessToken_def dest!: wif_now_calls split: prod.splits if_splits) (metis fst_conv)+
  then show thesis using that [of "[]"] by simp
next
  case False
  obtain t u where clock: "run_state (wif_now E) s = (t, u)" by fastforce
  then have "Calls u = Calls s" by (rule wif_now_calls)
  with assms False clock show thesis
    by (auto simp: accessToken_def split: if_splits elim!: fresh_token_calls intro: that)
qed

lemma send_calls:
  "run_state (wif_send E a token body) s = (r, s') \<Longrightarrow>
     Calls s' = Calls s @ [message_call a body token] \<or> Calls s' = Calls s \<and> (\<exists>e. r = Inl e)"
  by (auto simp: wif_send_def post_json_run message_call_def Let_def split: prod.splits if_splits)

lemma invalidate_calls: "run_state (invalidate t) s = (x, s') \<Longrightarrow> Calls s' = Calls s"
  by (auto simp: invalidate_def)

lemma attempt_with_calls:
  assumes "run_state (attempt_with E a body k) s = (r, s')"
  obtains x m where "one_token x" "one_token m"
    "Calls s' = Calls s @ map (exchange_call a) x @ map (message_call a body) m"
    "\<forall>reply. r = Inr (True, reply) \<longrightarrow> x = []"
proof -
  obtain r1 u where take: "run_state (accessToken E a) s = (r1, u)" by fastforce
  obtain x where x: "one_token x" "Calls u = Calls s @ map (exchange_call a) x"
    "\<forall>t. r1 = Inr (t, True) \<longrightarrow> x = []"
    by (rule accessToken_calls [OF take])
  show thesis
  proof (cases r1)
    case (Inl e)
    then have "s' = u" "r = Inl e" using take assms by (auto simp: attempt_with_def)
    then show thesis by (intro that [of x "[]"]) (simp_all add: x(1,2))
  next
    case (Inr y)
    obtain token cached where y: "y = (token, cached)" by fastforce
    obtain r2 v where post: "run_state (wif_send E a token body) u = (r2, v)" by fastforce
    have "token \<noteq> []" by (rule accessToken_cases [OF take]) (use Inr y in auto)
    have after: "Calls s' = Calls v" "\<forall>reply. r = Inr (True, reply) \<longrightarrow> cached"
      using assms take Inr y post
      by (auto simp: attempt_with_def rejected_reply_def dest!: invalidate_calls
          split: prod.splits sum.splits if_splits)
    from send_calls [OF post] show thesis
    proof
      assume "Calls v = Calls u @ [message_call a body token]"
      then show thesis
        by (intro that [of x "[token]"]) (use x after Inr y \<open>token \<noteq> []\<close> in simp_all)
    next
      assume "Calls v = Calls u \<and> (\<exists>e. r2 = Inl e)"
      then show thesis by (intro that [of x "[]"]) (use x after Inr y in simp_all)
    qed
  qed
qed

section \<open>A run\<close>

text \<open>
  A world that is a time and a count of exchanges. Every message is refused, whatever its bearer; the
  exchange numbered \<open>n\<close> issues \<open>names n\<close> for an hour.
\<close>

definition refusing_transport :: "(nat \<Rightarrow> string) \<Rightarrow> http_call \<Rightarrow> instant \<times> nat \<Rightarrow>
    (string + http_reply) \<times> instant \<times> nat" where
  "refusing_transport names c w =
     (if length (CallHeaders c) = 3 then (Inr \<lparr>ReplyStatus = 401, ReplyBody = [], ReplyCut = False\<rparr>, w)
      else (Inr \<lparr>ReplyStatus = 200, ReplyBody = names (snd w), ReplyCut = False\<rparr>, (fst w, Suc (snd w))))"

definition refusing :: "(nat \<Rightarrow> string) \<Rightarrow> (instant \<times> nat) wif_env" where
  "refusing names =
     \<lparr>NetOf = \<lparr>url_parses = (\<lambda>_. True), transport = refusing_transport names\<rparr>,
      Clock = (\<lambda>w. (fst w, w)), TablesOf = latin1,
      decode_exchange = (\<lambda>body. Some \<lparr>ExchangedToken = body, ExchangedType = ''Bearer'', ExpiresIn = 3600\<rparr>),
      decode_message = (\<lambda>_. None),
      IdentityToken = Some (\<lambda>_ w. (Inr ''id'', w))\<rparr>"

definition sample_federation :: AnthropicWIF where
  "sample_federation = \<lparr>TokenAudience = [], WIFRule = ''r'', WIFOrganization = ''o'', WIFServiceAccount = ''s'',
     WIFWorkspace = [], WIFModel = [], WIFBaseURL = []\<rparr>"

definition about_to_expire :: "(instant \<times> nat) wif" where
  "about_to_expire =
     \<lparr>LWorld = (0, 0), Calls = [], CachedToken = ''a'', Expiry = 200 * second\<rparr>"

lemma refusing_granted:
  "t \<noteq> [] \<Longrightarrow> granted_token latin1 issued \<lparr>ExchangedToken = t, ExchangedType = ''Bearer'', ExpiresIn = 3600\<rparr> =
     Inr (t, issued + 3600 * second)"
  by (simp add: granted_token_def malformed_def equal_fold_def time_add_def second_def int64_def)

lemmas run_simps = refusing_def refusing_transport_def sample_federation_def about_to_expire_def idle_def
  accessToken_def fresh_token_def wif_exchange_def mint_def wif_now_def wif_send_def post_json_def invalidate_def
  rejected_reply_def decoded_reply_def refusing_granted tokenRefreshMargin_def time_sub_def second_def
  maxAnthropicResponseBytes_def Let_def

text \<open>
  The second completion refreshes the token while the first waits for the answer to the old one: the
  token of the first one's retry was exchanged before its rejection, and nothing is exchanged after it.
\<close>

definition late_refresh :: "(nat + instant \<times> nat) list" where
  "late_refresh = [Inl 0, Inr (150 * second, 0), Inl 1, Inl 0, Inl 0, Inl 0]"

lemma retry_token_may_predate_rejection:
  "Log (fold (advance (refusing (\<lambda>_. ''b'')) sample_federation P) late_refresh (idle about_to_expire)) =
     [(0, Took 0 ''a''), (1, Issued ''b''), (1, Took 0 ''b''), (0, Dropped ''a''), (0, Took 1 ''b'')]"
  by (simp add: late_refresh_def run_simps)

definition alone :: "(nat + instant \<times> nat) list" where
  "alone = [Inl 0, Inl 0, Inl 0, Inl 0]"

lemma reissued_log:
  "Log (fold (advance (refusing (\<lambda>_. ''a'')) sample_federation P) alone (idle about_to_expire)) =
     [(0, Took 0 ''a''), (0, Dropped ''a''), (0, Issued ''a''), (0, Took 1 ''a'')]"
  by (simp add: alone_def run_simps)

definition sample_question :: Prompt where
  "sample_question = \<lparr>System = ''s'', User = ''u''\<rparr>"

section \<open>The properties\<close>

text \<open>C23: While completions overlap in any order, an access token that one of them dropped after a 401 is
  never handed to another attempt, of its own or of a later completion, unless the exchange has issued
  that very token again in between.\<close>

theorem dropped_token_never_served:
  assumes "overlapping E a P s S"
    and "Log S = before_drop @ (i, Dropped t) # between @ (j, Took k t) # rest"
  shows "\<exists>j'. (j', Issued t) \<in> set between"
  using overlapping_accounted [OF assms(1)] issued_after_drop assms(2) unfolding accounted_def by metis

lemma dropped_token_never_served_witness:
  "\<exists>S. overlapping (refusing (\<lambda>_. ''a'')) sample_federation (\<lambda>_. sample_question) about_to_expire S \<and>
     Log S = [(0, Took 0 ''a''), (0, Dropped ''a''), (0, Issued ''a''), (0, Took 1 ''a'')] \<and>
     (\<exists>j. (j, Issued ''a'') \<in> set [(0 :: nat, Issued ''a'')])"
proof -
  let ?S = "fold (advance (refusing (\<lambda>_. ''a'')) sample_federation (\<lambda>_. sample_question)) alone (idle about_to_expire)"
  have "Log ?S = [(0, Took 0 ''a'')] @ (0, Dropped ''a'') # [(0, Issued ''a'')] @ (0, Took 1 ''a'') # []"
    by (simp add: reissued_log)
  from dropped_token_never_served [OF schedule_overlapping this] show ?thesis
    using schedule_overlapping reissued_log by blast
qed

text \<open>C24: A completion that makes a second attempt has dropped the token of the first, and the token it
  retries with was issued after it took the first one, whichever completion exchanged for it; so a retry
  never presents the token that has just been rejected, unless the exchange issued it again.\<close>

theorem retry_token_is_newer:
  assumes "overlapping E a P s S"
    and "Log S = start @ (i, Took 0 t) # between @ (i, Took 1 u) # rest"
  shows "(i, Dropped t) \<in> set between \<and> (\<exists>j. (j, Issued u) \<in> set between)"
proof -
  have ok: "takes_cached (CachedToken s) (Log S)" and "history (PhaseOf S i) (own i (Log S))"
    using overlapping_accounted [OF assms(1)] by (auto simp: accounted_def)
  then have "(i, Dropped t) \<in> set between"
    using second_attempt_after_drop assms(2) by metis
  with issued_for_retry [OF ok [unfolded assms(2)]] show ?thesis by blast
qed

lemma retry_token_is_newer_witness:
  "\<exists>S. overlapping (refusing (\<lambda>_. ''b'')) sample_federation (\<lambda>_. sample_question) about_to_expire S \<and>
     (let between = [(1, Issued ''b''), (1, Took 0 ''b''), (0, Dropped ''a'')] in
      Log S = (0, Took 0 ''a'') # between @ [(0, Took 1 ''b'')] \<and>
      (0, Dropped ''a'') \<in> set between \<and> (\<exists>j. (j, Issued ''b'') \<in> set between))"
proof -
  let ?S = "fold (advance (refusing (\<lambda>_. ''b'')) sample_federation (\<lambda>_. sample_question)) late_refresh
    (idle about_to_expire)"
  let ?between = "[(1, Issued ''b''), (1, Took 0 ''b''), (0, Dropped ''a'')]"
  have log: "Log ?S = [] @ (0, Took 0 ''a'') # ?between @ (0, Took 1 ''b'') # []"
    by (simp add: retry_token_may_predate_rejection)
  from retry_token_is_newer [OF schedule_overlapping log] log show ?thesis
    unfolding Let_def by (intro exI [of _ ?S]) (simp add: schedule_overlapping)
qed

text \<open>A completion that nobody interrupts is six turns of the step relation: with every other
  completion idle, the turns end with the result and the state \<open>WIFComplete\<close> has, so what holds of
  overlapping completions holds of it, and it always finishes.\<close>

theorem completion_is_six_turns:
  "overlapping E a (\<lambda>_. p) s (fold (advance E a (\<lambda>_. p)) (replicate 6 (Inl i)) (idle s)) \<and>
   (PhaseOf (fold (advance E a (\<lambda>_. p)) (replicate 6 (Inl i)) (idle s)) i,
    Shared (fold (advance E a (\<lambda>_. p)) (replicate 6 (Inl i)) (idle s))) =
     (Over (fst (run_state (WIFComplete E a p) s)), snd (run_state (WIFComplete E a p) s))"
proof -
  have "seen i (idle s) = (Wants 0, s)" by (simp add: seen_def idle_def)
  then show ?thesis
    using seen_schedule [of i E a "\<lambda>_. p" 6 "idle s"] solo_completion [of E a p s]
    by (auto simp: seen_def split: prod.splits intro: schedule_overlapping simp del: fold_replicate)
qed

text \<open>A completion sends at most two messages, each the encoded prompt with a token that is not
  empty as its bearer, and exchanges at most once, for an identity token that is not empty; the exchange
  comes after a first message that was rejected or before the only one.\<close>

theorem federated_requests_bounded:
  "\<exists>m x m'. length m \<le> 1 \<and> length x \<le> 1 \<and> length m' \<le> 1 \<and> [] \<notin> set (m @ x @ m') \<and>
     Calls (snd (run_state (WIFComplete E a p) s)) = Calls s @
       map (message_call a (wifRequest a p)) m @ map (exchange_call a) x @ map (message_call a (wifRequest a p)) m'"
proof -
  let ?m = "map (message_call a (wifRequest a p))" and ?x = "map (exchange_call a)"
  obtain r u where first: "run_state (attempt_with E a (wifRequest a p) 0) s = (r, u)" by fastforce
  obtain x m where c: "one_token x" "one_token m" "Calls u = Calls s @ ?x x @ ?m m"
    "\<forall>reply. r = Inr (True, reply) \<longrightarrow> x = []"
    by (rule attempt_with_calls [OF first])
  show ?thesis
  proof (cases "\<exists>reply. r = Inr (True, reply)")
    case True
    then obtain reply where r: "r = Inr (True, reply)" ..
    obtain r' v where retry: "run_state (attempt_with E a (wifRequest a p) (Suc 0)) u = (r', v)" by fastforce
    obtain x' m' where c': "one_token x'" "one_token m'" "Calls v = Calls u @ ?x x' @ ?m m'"
      by (rule attempt_with_calls [OF retry])
    have "snd (run_state (WIFComplete E a p) s) = v"
      using first retry r by (cases r') (auto simp: WIFComplete_def Let_def)
    with c c' r show ?thesis
      by (intro exI [of _ m] exI [of _ x'] exI [of _ m']) (auto simp: one_token_def)
  next
    case False
    then have "snd (run_state (WIFComplete E a p) s) = u"
      using first by (cases r) (auto simp: WIFComplete_def Let_def)
    with c show ?thesis
      by (intro exI [of _ "[]"] exI [of _ x] exI [of _ m]) (auto simp: one_token_def)
  qed
qed

end
