(* ===== verification/Wiring.thy ===== *)
theory Wiring
  imports Server Importer Federation
begin

text \<open>
  \<^verbatim>\<open>internal/app\<close>: how a configuration becomes the service. What the packages are given is
  derived here from the settings of theory Settings; the regular-expression compiler, the hash of
  the cache scope and the cloud credentials are parameters. The two commands that run by hand are the
  import and the seeding of the athlete's configuration document.
\<close>

section \<open>Which athlete (tokens.go, import.go)\<close>

definition LoadBound :: "Memory \<Rightarrow> int \<Rightarrow> Token option" where
  "LoadBound m athlete = (if athlete \<noteq> 0 then Load m athlete else AnyToken m)"

datatype app_error =
  LoadConfiguration "config_error list" | NoFirestore | NoBoundAthlete | ResolveAthlete
| CompileMachineTitles string | BuildClient | BuildHandler | BuildGeocoder nominatim_error | BuildDescriber | VertexCredentials
| OpenStoreFailed | BuildWebhook | BuildServer | ServeFailed string | ShutdownFailed string
| SeedRead | AlreadySeeded | EmptyReservation | NotOneEntry string nat | SeedWrite | NotReadBack | SeedPosition string

definition openBoundStore :: "'w env \<Rightarrow> settings \<Rightarrow> ('w sys, app_error + int) state" where
  "openBoundStore E c =
     (if \<not> PersistentStore c then return (Inl NoFirestore)
      else do {
        token \<leftarrow> store_read E AnyToken;
        return (case token of
          None \<Rightarrow> Inl ResolveAthlete
        | Some None \<Rightarrow> Inl NoBoundAthlete
        | Some (Some t) \<Rightarrow> Inr (AthleteID t)) })"

section \<open>The sweep's dependencies (sweep.go)\<close>

definition bannedWords :: "settings \<Rightarrow> string list" where
  "bannedWords c = (if BannedWords (LLMOf c) \<noteq> [] then BannedWords (LLMOf c) else DefaultBannedWords)"

definition classifierConfig :: "(string \<Rightarrow> pattern option) \<Rightarrow> settings \<Rightarrow> app_error + Config" where
  "classifierConfig compile c =
     (if MachineTitlePatterns (LLMOf c) = [] then Inr DefaultConfig
      else case NewMachineTitles compile (MachineTitlePatterns (LLMOf c)) of
        Inl e \<Rightarrow> Inl (CompileMachineTitles e)
      | Inr titles \<Rightarrow> Inr (DefaultConfig\<lparr>MachineTitlesOf := titles\<rparr>))"

definition write_mode :: "settings \<Rightarrow> WriteMode" where
  "write_mode c = (if MayWrite c then WriteModeEnabled else WriteModeDryRun)"

definition buildGeographer :: "(string \<Rightarrow> string) \<Rightarrow> settings \<Rightarrow> app_error + (Nominatim \<times> Describer)" where
  "buildGeographer digest c =
     (case NewNominatim digest (NominatimUserAgent c) [] 0 (GeoZoom (GeoOf c)) (GeoPlaceFields (GeoOf c)) of
        Inl e \<Rightarrow> Inl (BuildGeocoder e)
      | Inr n \<Rightarrow>
          (case NewDescriber True True (GeoSampleCount (GeoOf c)) (CacheScope n) of
             None \<Rightarrow> Inl BuildDescriber
           | Some d \<Rightarrow> Inr (n, d)))"

text \<open>
  The backend: three are built from the settings alone, Vertex needs the ambient credentials. The
  identity source of the keyless one is \<open>metadata_source\<close>.
\<close>

definition buildProvider :: "bool \<Rightarrow> settings \<Rightarrow> app_error + narrator" where
  "buildProvider has_credentials c = (let llm = LLMOf c in
     case LLMProviderOf llm of
        ProviderAnthropic \<Rightarrow> Inr (AnthropicNarrator
          \<lparr>AnthropicKey = APIKey llm, AnthropicModelID = LLMModel llm, AnthropicTemperature = 0, AnthropicBaseURL = []\<rparr>)
      | ProviderOpenRouter \<Rightarrow> Inr (OpenRouterNarrator
          \<lparr>RouterKey = APIKey llm, RouterModelID = LLMModel llm, RouterTemperature = 0, RouterBaseURL = LLMBaseURL llm\<rparr>)
      | ProviderAnthropicWIF \<Rightarrow> Inr (WIFNarrator
          \<lparr>TokenAudience = WIFAudience (Federation llm), WIFRule = RuleID (Federation llm),
           WIFOrganization = OrganizationID (Federation llm), WIFServiceAccount = ServiceAccountID (Federation llm),
           WIFWorkspace = WorkspaceID (Federation llm), WIFModel = LLMModel llm, WIFBaseURL = []\<rparr>)
      | ProviderVertex \<Rightarrow>
          if \<not> has_credentials then Inl VertexCredentials
          else Inr (VertexNarrator \<lparr>HasVertexClient = True, VertexProjectID = VertexProject llm,
             VertexRegion = VertexLocation llm, VertexModelID = LLMModel llm, VertexTemperature = 0, VertexBaseURL = []\<rparr>))"

definition sweepDeps :: "tables \<Rightarrow> (string \<Rightarrow> pattern option) \<Rightarrow> (string \<Rightarrow> string) \<Rightarrow> bool \<Rightarrow> settings \<Rightarrow>
    app_error + deps" where
  "sweepDeps U compile digest has_credentials c =
     (case buildGeographer digest c of
        Inl e \<Rightarrow> Inl e
      | Inr _ \<Rightarrow>
          (case buildProvider has_credentials c of
             Inl e \<Rightarrow> Inl e
           | Inr _ \<Rightarrow>
               (case classifierConfig compile c of
                  Inl e \<Rightarrow> Inl e
                | Inr rules \<Rightarrow> Inr \<lparr>ClassifierConfig = rules, DValidator = NewValidator U (bannedWords c),
                    DFranchises = None, DisableAttribution = False, ProvisionalSkipWindow = SkipWindow c,
                    WritesEnabled = MayWrite c, HasGeo = True, HasProvider = True\<rparr>)))"

definition sweep_client :: "settings \<Rightarrow> Client option" where
  "sweep_client c = NewClient True (write_mode c) [] 0"

definition buildSweep :: "tables \<Rightarrow> (string \<Rightarrow> pattern option) \<Rightarrow> (string \<Rightarrow> string) \<Rightarrow> bool \<Rightarrow>
    (string \<Rightarrow> string \<Rightarrow> 'w \<Rightarrow> (string + Payload) \<times> 'w) \<Rightarrow> settings \<Rightarrow>
    app_error + (Client \<times> deps \<times> 'w sweep_deps) option" where
  "buildSweep U compile digest has_credentials validator c =
     (if \<not> Enabled (SweepSettings c) then Inr None
      else case sweep_client c of
        None \<Rightarrow> Inl BuildClient
      | Some client \<Rightarrow>
          (case sweepDeps U compile digest has_credentials c of
             Inl e \<Rightarrow> Inl e
           | Inr D \<Rightarrow>
               (case NewSweepHandler True \<lparr>SweepAudience = SweepTokenAudience (SweepSettings c),
                       SweepAccount = SweepServiceAccount (SweepSettings c), id_validate = validator\<rparr> of
                  None \<Rightarrow> Inl BuildHandler
                | Some H \<Rightarrow> Inr (Some (client, D, H)))))"

section \<open>The service (app.go)\<close>

definition storeKind :: "settings \<Rightarrow> string" where
  "storeKind c = (if PersistentStore c then ''firestore'' else ''memory'')"

definition service_oauth :: "settings \<Rightarrow> OAuth" where
  "service_oauth c = \<lparr>ClientID = StravaClientID c, ClientSecret = StravaClientSecret c,
     RedirectURL = CallbackURL c, OAuthURL = []\<rparr>"

definition service_webhook :: "(string \<Rightarrow> string) \<Rightarrow> (string \<Rightarrow> Event option) \<Rightarrow> settings \<Rightarrow> webhook option" where
  "service_webhook digest decode c =
     NewWebhook \<lparr>verifyToken = StravaVerifyToken c, hookAthlete = OnlyAthlete c, hookDelay = ProcessDelay c,
       sha256 = digest, decode_event = decode\<rparr> True True"

definition service_server :: "settings \<Rightarrow> bool \<Rightarrow> ('w \<Rightarrow> string option \<times> 'w) \<Rightarrow> 'w poster \<Rightarrow>
    (string \<Rightarrow> tokenResponse option) \<Rightarrow> 'w srv_deps" where
  "service_server c has_sweep rand post decode = \<lparr>SrvConfig = c, SrvOAuth = service_oauth c, HasSweep = has_sweep,
     HasBound = True, rand_read = rand, token_post = post, decode_token = decode\<rparr>"

section \<open>The import (import.go)\<close>

text \<open>The importer's client is left in its zero write mode.\<close>

definition importClient :: "Client option" where
  "importClient = NewClient True WriteModeDryRun [] 0"

definition importWith :: "'w env \<Rightarrow> (string \<Rightarrow> pattern option) \<Rightarrow> settings \<Rightarrow>
    (int \<Rightarrow> int \<Rightarrow> 'w \<Rightarrow> (strava_error + StravaActivity list) \<times> 'w) \<Rightarrow> (duration \<Rightarrow> 'w \<Rightarrow> bool \<times> 'w) \<Rightarrow> int \<Rightarrow>
    'w sys \<Rightarrow> app_error + (import_outcome \<times> 'w sys) option" where
  "importWith E compile c listing pause athlete s =
     (case classifierConfig compile c of
        Inl e \<Rightarrow> Inl e
      | Inr rules \<Rightarrow> Inr (Run E True True \<lparr>ImportAthlete = athlete, ImportMachineTitles = MachineTitlesOf rules,
          ImportTemplates = TemplateTitles rules, PerPage = 0, list_page = listing, pause_for = pause\<rparr> s))"

section \<open>Seeding the configuration document (seed.go)\<close>

definition reserve_in :: "tables \<Rightarrow> string \<Rightarrow> Franchise \<Rightarrow> Franchise \<times> nat" where
  "reserve_in U name f =
     (if \<not> list_ex (\<lambda>title. SameEntry U title name) (FTitles f) then (f, 0)
      else (if IsReserved U f name then f else f\<lparr>FReserved := FReserved f @ [trim_space name]\<rparr>, 1))"

fun reserveEntries :: "tables \<Rightarrow> Franchise list \<Rightarrow> string list \<Rightarrow> app_error + Franchise list" where
  "reserveEntries U profile [] = Inr profile"
| "reserveEntries U profile (name # reserve) =
     (if trim_space name = [] then Inl EmptyReservation
      else
        let marked = map (reserve_in U name) profile; matches = sum_list (map snd marked) in
        if matches \<noteq> 1 then Inl (NotOneEntry (trim_space name) matches)
        else reserveEntries U (map fst marked) reserve)"

text \<open>What the command reports of each series as stored: its position and what it would offer next.\<close>

fun report_positions :: "'w env \<Rightarrow> int \<Rightarrow> Franchise list \<Rightarrow>
    ('w sys, app_error + (string \<times> int \<times> (string \<times> int) option) list) state" where
  "report_positions E athlete [] = return (Inr [])"
| "report_positions E athlete (f # fs) = do {
     position \<leftarrow> store_read E (\<lambda>m. FranchisePosition m athlete (FName f));
     case position of
       None \<Rightarrow> return (Inl (SeedPosition (FName f)))
     | Some n \<Rightarrow> check (report_positions E athlete fs) id (\<lambda>rest.
         return (Inr ((FName f, n, Next (Unicode E) f n) # rest))) }"

definition seedConfigWith :: "'w env \<Rightarrow> int \<Rightarrow> string list \<Rightarrow>
    ('w sys, app_error + (string \<times> int \<times> (string \<times> int) option) list) state" where
  "seedConfigWith E athlete reserve = do {
     existing \<leftarrow> store_read E (\<lambda>m. GetAthleteConfig m athlete);
     case existing of
       None \<Rightarrow> return (Inl SeedRead)
     | Some (Some _) \<Rightarrow> return (Inl AlreadySeeded)
     | Some None \<Rightarrow>
         (case reserveEntries (Unicode E) DefaultProfile reserve of
            Inl e \<Rightarrow> return (Inl e)
          | Inr profile \<Rightarrow> do {
              ok \<leftarrow> store_write E (\<lambda>m. SaveAthleteConfig m athlete \<lparr>Franchises = FranchisesToStored profile\<rparr>);
              if \<not> ok then return (Inl SeedWrite)
              else do {
                written \<leftarrow> store_read E (\<lambda>m. GetAthleteConfig m athlete);
                case written of
                  Some (Some c) \<Rightarrow> report_positions E athlete (FranchisesFromStored (Franchises c))
                | _ \<Rightarrow> return (Inl NotReadBack) } }) }"

definition SeedConfig :: "'w env \<Rightarrow> getenv \<Rightarrow> string list \<Rightarrow>
    ('w sys, app_error + (string \<times> int \<times> (string \<times> int) option) list) state" where
  "SeedConfig E env reserve =
     (case LoadStore env of
        Inl errs \<Rightarrow> return (Inl (LoadConfiguration errs))
      | Inr c \<Rightarrow> check (openBoundStore E c) id (\<lambda>athlete. seedConfigWith E athlete reserve))"

section \<open>An accepted configuration builds\<close>

lemma trim_space_Nil_iff: "trim_space s = [] \<longleftrightarrow> (\<forall>r \<in> set (runes s). is_space r)"
proof -
  have "trim_space s = [] \<longleftrightarrow> runes (trim_space s) = []" by simp
  also have "\<dots> \<longleftrightarrow> (\<forall>r \<in> set (runes s). is_space r)"
    by (auto simp: runes_trim_space dropWhile_eq_Nil_conv dest: set_dropWhileD)
      (metis dropWhile_eq_Nil_conv dropWhile_idem set_rev)
  finally show ?thesis .
qed

lemma split_trimmed_word: "w \<in> set (split_trimmed sep raw) \<Longrightarrow> trim_space w = w \<and> w \<noteq> []"
  by (auto simp: split_trimmed_def)

lemma NewValidator_not_Nil: "w \<in> set ws \<Longrightarrow> trim_space w \<noteq> [] \<Longrightarrow> NewValidator U ws \<noteq> []"
  by (auto simp: NewValidator_def filter_empty_conv)

lemma validator_never_empty:
  assumes "load L env serving = Inr c"
  shows "NewValidator U (bannedWords c) \<noteq> []"
proof (cases "BannedWords (LLMOf c)")
  case Nil
  have "trim_space ''Epic'' = ''Epic''" by (simp add: trim_space_def is_space_def)
  then show ?thesis using Nil
    by (intro NewValidator_not_Nil [of "''Epic''"]) (simp_all add: bannedWords_def DefaultBannedWords_def)
next
  case (Cons w ws)
  have "BannedWords (LLMOf c) = splitList (env EnvBannedWords)"
    using assms by (auto simp: load_Inr load_values_def loadLLM_def Let_def case_prod_beta)
  with Cons have "trim_space w = w \<and> w \<noteq> []" using split_trimmed_word [of w "CHR '',''" "env EnvBannedWords"] by (simp add: splitList_def)
  then show ?thesis using Cons by (intro NewValidator_not_Nil [of w]) (simp_all add: bannedWords_def)
qed

lemma orderFields_ok: "order = [] \<or> ValidatePlaceFields order = None \<Longrightarrow> \<exists>fs token. orderFields order = Inr (fs, token)"
proof -
  have "ValidatePlaceFields defaultPlaceFields = None"
    by (simp add: ValidatePlaceFields_def known_key_def addressFields_def defaultPlaceFields_def)
  then show "order = [] \<or> ValidatePlaceFields order = None \<Longrightarrow> ?thesis" by (auto simp: orderFields_def Let_def)
qed

lemma load_geo_ok:
  assumes "load L env serving = Inr c"
  shows "GeoZoom (GeoOf c) = 0 \<or> MinZoom \<le> GeoZoom (GeoOf c) \<and> GeoZoom (GeoOf c) \<le> MaxZoom"
    and "0 \<le> GeoSampleCount (GeoOf c) \<and> GeoSampleCount (GeoOf c) \<le> MaxSampleCount"
    and "GeoPlaceFields (GeoOf c) = [] \<or> ValidatePlaceFields (GeoPlaceFields (GeoOf c)) = None"
proof -
  let ?count = "setting env EnvGeoSampleCount 0 (\<lambda>raw. Option.bind (Strava.atoi raw) (Settings.in_range 1 MaxSampleCount)) BadSampleCount"
  let ?zoom = "setting env EnvNominatimZoom 0 (\<lambda>raw. Option.bind (Strava.atoi raw) (Settings.in_range MinZoom MaxZoom)) BadZoom"
  have geo: "fst (loadGeo env) = []" and c: "GeoOf c = snd (loadGeo env)"
    using assms by (simp_all add: load_Inr load_errors_def load_values_def)
  have errs: "fst ?count = []" "fst ?zoom = []" "fst (loadPlaceFields env) = []"
    using geo by (simp_all add: loadGeo_def case_prod_beta Let_def)
  have vals: "GeoSampleCount (GeoOf c) = snd ?count" "GeoZoom (GeoOf c) = snd ?zoom"
      "GeoPlaceFields (GeoOf c) = snd (loadPlaceFields env)"
    by (simp_all add: c loadGeo_def case_prod_beta Let_def)
  have bind: "Option.bind (x :: int option) f = Some (y :: int) \<longleftrightarrow> (\<exists>v. x = Some v \<and> f v = Some y)" for x f y
    by (cases x) auto
  show "GeoZoom (GeoOf c) = 0 \<or> MinZoom \<le> GeoZoom (GeoOf c) \<and> GeoZoom (GeoOf c) \<le> MaxZoom"
    unfolding vals using errs(2) by (rule setting_ok) (auto simp: bind in_range_Some)
  show "0 \<le> GeoSampleCount (GeoOf c) \<and> GeoSampleCount (GeoOf c) \<le> MaxSampleCount"
    unfolding vals using errs(1) by (rule setting_ok) (auto simp: bind in_range_Some MaxSampleCount_def)
  show "GeoPlaceFields (GeoOf c) = [] \<or> ValidatePlaceFields (GeoPlaceFields (GeoOf c)) = None"
    unfolding vals using errs(3) by (auto simp: loadPlaceFields_def Let_def split: if_splits option.splits)
qed

lemma agent_not_blank:
  assumes "load L env True = Inr c"
  shows "trim_space (NominatimUserAgent c) \<noteq> []"
proof -
  have "missing_vars (required env True) = []" and c: "c = load_values L env True"
    using assms by (simp_all add: load_Inr load_errors_def)
  then have base: "base_url env \<noteq> []" by (simp add: missing_vars_none required_def)
  show ?thesis
  proof (cases "trim_space (env EnvNominatimUserAgent) = []")
    case True
    then have "NominatimUserAgent c = CHR ''t'' # (''itelheld/1.0 (+'' @ base_url env @ '')'')"
      using base by (simp add: c load_values_def default_agent_def)
    moreover have "runes (CHR ''t'' # x) = 116 # runes x" for x by simp
    ultimately show ?thesis by (simp add: trim_space_Nil_iff is_space_def del: runes_ascii)
  qed (simp add: c load_values_def default_agent_def)
qed

lemma geographer_builds:
  assumes "load L env True = Inr c"
  shows "\<exists>n d. buildGeographer digest c = Inr (n, d) \<and> interval (nominatim_limiter n) = MinRequestInterval"
proof -
  obtain fs token where "orderFields (GeoPlaceFields (GeoOf c)) = Inr (fs, token)"
    using orderFields_ok load_geo_ok(3) [OF assms] by blast
  moreover have "0 \<le> MinRequestInterval" by (simp add: MinRequestInterval_def second_def)
  ultimately show ?thesis
    using agent_not_blank [OF assms] load_geo_ok(1,2) [OF assms]
    by (auto simp: buildGeographer_def NewNominatim_def NewDescriber_def Let_def MinZoom_def MaxZoom_def)
qed

section \<open>Reserved entries stay reserved\<close>

lemma SameEntry_simps:
  "SameEntry U a a" "SameEntry U (trim_space a) b = SameEntry U a b" "SameEntry U a (trim_space b) = SameEntry U a b"
  by (simp_all add: SameEntry_def equal_fold_def)

lemma SameEntry_sym: "SameEntry U a b = SameEntry U b a"
  by (auto simp: SameEntry_def equal_fold_def)

lemma SameEntry_trans: "SameEntry U a b \<Longrightarrow> SameEntry U b d \<Longrightarrow> SameEntry U a d"
  by (simp add: SameEntry_def equal_fold_def)

lemma IsReserved_same: "SameEntry U a b \<Longrightarrow> IsReserved U f a \<longleftrightarrow> IsReserved U f b"
  by (auto simp: IsReserved_def list_ex_iff) (meson SameEntry_sym SameEntry_trans)+

definition reserves :: "tables \<Rightarrow> string \<Rightarrow> Franchise \<Rightarrow> bool" where
  "reserves U name f \<longleftrightarrow> (list_ex (\<lambda>t. SameEntry U t name) (FTitles f) \<longrightarrow> IsReserved U f name)"

text \<open>What reserving keeps of a series: everything but the list of the reserved, which grows.\<close>

definition reserved_more :: "Franchise \<Rightarrow> Franchise \<Rightarrow> bool" where
  "reserved_more f g \<longleftrightarrow> g = f\<lparr>FReserved := FReserved g\<rparr> \<and> set (FReserved f) \<subseteq> set (FReserved g)"

lemma reserved_more_refl: "reserved_more f f"
  by (simp add: reserved_more_def)

lemma reserved_more_trans: "reserved_more f g \<Longrightarrow> reserved_more g h \<Longrightarrow> reserved_more f h"
  by (cases f; cases g; cases h) (auto simp: reserved_more_def)

lemma reserves_more: "reserved_more f g \<Longrightarrow> reserves U name f \<Longrightarrow> reserves U name g"
  by (cases f; cases g) (auto simp: reserved_more_def reserves_def IsReserved_def list_ex_iff)

lemma reserve_in_props: "reserved_more f (fst (reserve_in U name f))" "reserves U name (fst (reserve_in U name f))"
  by (auto simp: reserve_in_def reserved_more_def reserves_def IsReserved_def SameEntry_simps list_ex_iff)

lemma reserveEntries_props:
  "reserveEntries U profile reserve = Inr result \<Longrightarrow>
   list_all2 reserved_more profile result \<and> (\<forall>f \<in> set result. \<forall>name \<in> set reserve. reserves U name f)"
proof (induction reserve arbitrary: profile)
  case Nil
  then show ?case by (simp add: list_all2_conv_all_nth reserved_more_refl)
next
  case (Cons name reserve)
  let ?marked = "map (\<lambda>f. fst (reserve_in U name f)) profile"
  have rest: "reserveEntries U ?marked reserve = Inr result"
    using Cons.prems by (auto simp: Let_def comp_def split: if_splits)
  have IH: "list_all2 reserved_more ?marked result" "\<forall>f \<in> set result. \<forall>name \<in> set reserve. reserves U name f"
    using Cons.IH [OF rest] by auto
  have "list_all2 reserved_more profile ?marked"
    by (simp add: list_all2_conv_all_nth reserve_in_props)
  then have "list_all2 reserved_more profile result"
    using IH(1) by (rule list_all2_trans [rotated 1]) (rule reserved_more_trans)
  moreover have "reserves U name f" if "f \<in> set result" for f
  proof -
    from that obtain i where "i < length result" "f = result ! i" by (metis in_set_conv_nth)
    with IH(1) have "reserved_more (?marked ! i) f" "i < length profile"
      by (simp_all add: list_all2_conv_all_nth)
    then show ?thesis using reserves_more reserve_in_props(2) by (metis (no_types, lifting) nth_map)
  qed
  ultimately show ?case using IH(2) by simp
qed

lemma next_from_not_reserved:
  "next_from U f ts i = Some (t, j) \<Longrightarrow> t \<in> set ts \<and> \<not> IsReserved U f t"
  by (induction U f ts i rule: next_from.induct) (auto split: if_splits)

lemma reserves_not_offered:
  assumes "reserves U name f" "Next U f pos = Some (t, j)"
  shows "\<not> SameEntry U t name"
proof
  assume same: "SameEntry U t name"
  from assms(2) have t: "t \<in> set (FTitles f)" "\<not> IsReserved U f t"
    by (auto simp: Next_def split: if_splits dest!: next_from_not_reserved dest: in_set_dropD)
  with same assms(1) have "IsReserved U f name" by (auto simp: reserves_def list_ex_iff)
  with t(2) IsReserved_same [OF same] show False by simp
qed

section \<open>The seeding, run\<close>

definition worldly :: "'w sys \<Rightarrow> 'w sys \<Rightarrow> bool" where
  "worldly s t \<longleftrightarrow> t = s\<lparr>World := World t\<rparr>"

interpretation worldly: effect worldly
proof
  show "worldly s s" for s :: "'a sys" by (simp add: worldly_def)
  show "worldly s t \<Longrightarrow> worldly t u \<Longrightarrow> worldly s u" for s t u :: "'a sys"
    by (cases s; cases t; cases u) (simp add: worldly_def)
qed

lemma worldly_call [intro]: "worldly.may (call f)"
  by (rule worldly.mayI) (auto simp: worldly_def split: prod.splits)

lemma worldly_read [intro]: "worldly.may (store_read E g)"
  unfolding store_read_def by (intro worldly.may_rules worldly_call)

lemma worldly_report: "worldly.may (report_positions E athlete fs)"
proof (induction fs)
  case (Cons f fs)
  show ?case unfolding report_positions.simps by (intro worldly.may_rules worldly_read Cons)
qed (simp add: worldly.may_return)

lemma worldly_store: "worldly s t \<Longrightarrow> SStore t = SStore s"
  by (metis sys.select_convs(2) sys.surjective sys.update_convs(1) worldly_def)

lemma worldly_order: "s\<lparr>SStore := m, World := w\<rparr> = s\<lparr>World := w, SStore := m\<rparr>"
  by simp

text \<open>What the seed reads back is what it wrote.\<close>

lemma profile_named: "reserved_more f g \<Longrightarrow> FName g = FName f \<and> FGearName g = FGearName f"
  by (cases f; cases g) (simp add: reserved_more_def)

lemma stored_profile:
  assumes "list_all2 reserved_more DefaultProfile profile"
  shows "FranchisesFromStored (FranchisesToStored profile) = profile"
proof -
  obtain g where g: "profile = [g]" "reserved_more (hd DefaultProfile) g"
    using assms by (auto simp: DefaultProfile_def list_all2_Cons1)
  then have "FName g = ''pink-panther''" "FGearName g = ''Pink Panther''"
    using profile_named [OF g(2)] by (simp_all add: DefaultProfile_def)
  moreover have "trim_space ''pink-panther'' = ''pink-panther''" "trim_space ''Pink Panther'' = ''Pink Panther''"
    by (simp_all add: trim_space_def is_space_def bytes_of_def)
  ultimately show ?thesis by (cases g) (simp add: g(1) FranchisesToStored_def)
qed

lemma run_seed:
  assumes "run_state (seedConfigWith E athlete reserve) s = (r, s')"
  obtains (refused) e where "r = Inl e" "worldly s s'"
      "GetAthleteConfig (SStore s) athlete \<noteq> None \<longrightarrow> e \<in> {SeedRead, AlreadySeeded}"
  | (written) profile where "GetAthleteConfig (SStore s) athlete = None"
      "reserveEntries (Unicode E) DefaultProfile reserve = Inr profile"
      "worldly (s\<lparr>SStore := SaveAthleteConfig (SStore s) athlete \<lparr>Franchises = FranchisesToStored profile\<rparr>\<rparr>) s'"
proof -
  obtain f w where f: "read_fails E (World s) = (f, w)" by fastforce
  have moved: "worldly s (s\<lparr>World := v\<rparr>)" for v by (simp add: worldly_def)
  show ?thesis
  proof (cases "f \<or> GetAthleteConfig (SStore s) athlete \<noteq> None")
    case True
    with assms f have "r = Inl (if f then SeedRead else AlreadySeeded)" "s' = s\<lparr>World := w\<rparr>"
      by (cases f; auto simp: seedConfigWith_def run_store_read split: if_splits)+
    with refused moved True show ?thesis by (cases f) auto
  next
    case False
    show ?thesis
    proof (cases "reserveEntries (Unicode E) DefaultProfile reserve")
      case (Inl e)
      with assms f False have "r = Inl e" "s' = s\<lparr>World := w\<rparr>"
        by (auto simp: seedConfigWith_def run_store_read)
      with refused moved False show ?thesis by blast
    next
      case (Inr profile)
      let ?save = "\<lambda>m. SaveAthleteConfig m athlete \<lparr>Franchises = FranchisesToStored profile\<rparr>"
      obtain d w' where d: "write_fault E w = (d, w')" by fastforce
      let ?t = "s\<lparr>World := w', SStore := ?save (SStore s)\<rparr>"
      have t: "worldly (s\<lparr>SStore := ?save (SStore s)\<rparr>) ?t" by (simp add: worldly_def)
      have run: "run_state (seedConfigWith E athlete reserve) s =
         (if d \<noteq> NoFault then (Inl SeedWrite, if d = FaultLost then s\<lparr>World := w'\<rparr> else ?t)
          else run_state (do {
                written \<leftarrow> store_read E (\<lambda>m. GetAthleteConfig m athlete);
                case written of
                  Some (Some c) \<Rightarrow> report_positions E athlete (FranchisesFromStored (Franchises c))
                | _ \<Rightarrow> return (Inl NotReadBack) }) ?t)"
        using f False Inr d by (auto simp: seedConfigWith_def run_store_read run_store_write split: prod.splits)
      have readback: "worldly.may (do {
                written \<leftarrow> store_read E (\<lambda>m. GetAthleteConfig m athlete);
                case written of
                  Some (Some c) \<Rightarrow> report_positions E athlete (FranchisesFromStored (Franchises c))
                | _ \<Rightarrow> return (Inl NotReadBack) })"
        by (intro worldly.may_rules worldly_read worldly_report)
      show ?thesis
      proof (cases "d = FaultLost")
        case True
        with assms run have "r = Inl SeedWrite" "s' = s\<lparr>World := w'\<rparr>" by simp_all
        with refused moved False show ?thesis by blast
      next
        case lost: False
        have "worldly ?t s'"
        proof (cases "d = NoFault")
          case True
          with assms run worldly.mayD [OF readback] show ?thesis by simp
        next
          case False
          with assms run lost show ?thesis by (simp add: worldly.same)
        qed
        with worldly.compose [OF t] have "worldly (s\<lparr>SStore := ?save (SStore s)\<rparr>) s'" by blast
        with written False Inr show ?thesis by blast
      qed
    qed
  qed
qed

section \<open>Properties\<close>

lemma accepted_webhook:
  assumes "LoadConfig L env = Inr c"
  shows "\<exists>hook. service_webhook digest decode c = Some hook"
proof -
  have "missing_vars (required env True) = []" and c: "c = load_values L env True"
    using assms by (simp_all add: LoadConfig_def load_Inr load_errors_def)
  then show ?thesis
    by (simp add: service_webhook_def NewWebhook_def missing_vars_none required_def load_values_def)
qed

lemma accepted_server:
  assumes "LoadConfig L env = Inr c"
  shows "\<exists>srv. NewServer True True True (service_server c has_sweep rand post parse) s = Some srv"
proof -
  have "fst (load_path env True) = []" and c: "c = load_values L env True"
    using assms by (simp_all add: LoadConfig_def load_Inr load_errors_def)
  then have "WebhookPath c \<noteq> [] \<and> AuthPath c \<noteq> []"
    using load_path_ok [of env True] by (auto simp: load_values_def)
  then show ?thesis by (simp add: NewServer_def service_server_def)
qed

lemma accepted_sweep:
  assumes "LoadConfig L env = Inr c"
  shows "case buildSweep U compile digest has_credentials validator c of
      Inl e \<Rightarrow> Enabled (SweepSettings c) \<and> (e = VertexCredentials \<and> \<not> has_credentials \<or> (\<exists>p. e = CompileMachineTitles p))
    | Inr None \<Rightarrow> \<not> Enabled (SweepSettings c)
    | Inr (Some (client, D, H)) \<Rightarrow> Enabled (SweepSettings c) \<and>
        (writeMode client = WriteModeEnabled \<longleftrightarrow> WritesEnabled D) \<and> (WritesEnabled D \<longleftrightarrow> MayWrite c) \<and>
        DValidator D \<noteq> [] \<and> ProvisionalSkipWindow D = SkipWindow c \<and> SweepAccount H \<noteq> []"
proof -
  have load: "load L env True = Inr c" using assms by (simp add: LoadConfig_def)
  obtain n d where geo: "buildGeographer digest c = Inr (n, d)" using geographer_builds [OF load] by blast
  have client: "\<exists>client. sweep_client c = Some client \<and> (writeMode client = WriteModeEnabled \<longleftrightarrow> MayWrite c)"
    by (simp add: sweep_client_def NewClient_def write_mode_def)
  show ?thesis
  proof (cases "Enabled (SweepSettings c)")
    case True
    then have handler: "NewSweepHandler True \<lparr>SweepAudience = SweepTokenAudience (SweepSettings c),
         SweepAccount = SweepServiceAccount (SweepSettings c), id_validate = validator\<rparr> =
         Some \<lparr>SweepAudience = SweepTokenAudience (SweepSettings c),
           SweepAccount = SweepServiceAccount (SweepSettings c), id_validate = validator\<rparr>"
      by (simp add: NewSweepHandler_def Enabled_def)
    from client obtain cl where cl: "sweep_client c = Some cl" "writeMode cl = WriteModeEnabled \<longleftrightarrow> MayWrite c" by blast
    have deps: "case sweepDeps U compile digest has_credentials c of
        Inl e \<Rightarrow> e = VertexCredentials \<and> \<not> has_credentials \<or> (\<exists>p. e = CompileMachineTitles p)
      | Inr D \<Rightarrow> WritesEnabled D = MayWrite c \<and> DValidator D = NewValidator U (bannedWords c) \<and>
          ProvisionalSkipWindow D = SkipWindow c"
      by (auto simp: sweepDeps_def geo buildProvider_def Let_def classifierConfig_def split: LLMProvider.splits sum.splits)
    show ?thesis
      using True deps cl validator_never_empty [OF load, of U]
      by (auto simp: buildSweep_def handler Enabled_def split: sum.splits)
  qed (simp add: buildSweep_def)
qed

text \<open>What can still stop an accepted configuration, exactly: the enabled sweep lacks credentials, or names a
  pattern that does not compile.\<close>

lemma accepted_sweep_exact:
  assumes "LoadConfig L env = Inr c"
  shows "case buildSweep U compile digest has_credentials validator c of
      Inl e \<Rightarrow> Enabled (SweepSettings c) \<and>
        (if LLMProviderOf (LLMOf c) = ProviderVertex \<and> \<not> has_credentials then e = VertexCredentials
         else classifierConfig compile c = Inl e)
    | Inr handler \<Rightarrow> Enabled (SweepSettings c) \<longrightarrow>
        \<not> (LLMProviderOf (LLMOf c) = ProviderVertex \<and> \<not> has_credentials) \<and> (\<exists>rules. classifierConfig compile c = Inr rules)"
proof (cases "Enabled (SweepSettings c)")
  case True
  have load: "load L env True = Inr c" using assms by (simp add: LoadConfig_def)
  obtain n d where geo: "buildGeographer digest c = Inr (n, d)" using geographer_builds [OF load] by blast
  from True have handler: "NewSweepHandler True \<lparr>SweepAudience = SweepTokenAudience (SweepSettings c),
       SweepAccount = SweepServiceAccount (SweepSettings c), id_validate = validator\<rparr> \<noteq> None"
    by (simp add: NewSweepHandler_def Enabled_def)
  have client: "sweep_client c \<noteq> None" by (simp add: sweep_client_def NewClient_def)
  show ?thesis
    using True handler client
    by (auto simp: buildSweep_def sweepDeps_def geo buildProvider_def Let_def split: LLMProvider.splits sum.splits option.splits)
qed (simp add: buildSweep_def)

text \<open>A configuration that loads can be served. The webhook, the server, the Strava client and the sweep
  handler are built from it, and so is the geographer, polite to Nominatim; the sweep is left out exactly
  where it is not configured; and then the client may write exactly when the processor does, which is
  when the configuration says so, titles are checked against a word list that is not empty, and the
  scheduler's account is not blank. Only a machine-title pattern that does not compile, or missing cloud
  credentials, can still stop the start.\<close>

theorem accepted_configuration_starts:
  assumes "LoadConfig L env = Inr c"
  shows "service_webhook digest decode c \<noteq> None
    \<and> NewServer True True True (service_server c has_sweep rand post parse) s \<noteq> None
    \<and> (case buildSweep U compile digest has_credentials validator c of
         Inl e \<Rightarrow> Enabled (SweepSettings c) \<and> (e = VertexCredentials \<and> \<not> has_credentials \<or> (\<exists>p. e = CompileMachineTitles p))
       | Inr None \<Rightarrow> \<not> Enabled (SweepSettings c)
       | Inr (Some (client, D, H)) \<Rightarrow> Enabled (SweepSettings c) \<and>
           (writeMode client = WriteModeEnabled \<longleftrightarrow> WritesEnabled D) \<and> (WritesEnabled D \<longleftrightarrow> MayWrite c) \<and>
           DValidator D \<noteq> [] \<and> ProvisionalSkipWindow D = SkipWindow c \<and> SweepAccount H \<noteq> [])"
  using accepted_webhook [OF assms, of digest decode] accepted_server [OF assms, of has_sweep rand post parse s]
    accepted_sweep [OF assms, where U = U and compile = compile and digest = digest and
      has_credentials = has_credentials and validator = validator] by blast

lemma accepted_configuration_starts_witness:
  "service_webhook id (\<lambda>_. None) (load_values sample_loader sample_getenv True) \<noteq> None"
  using accepted_configuration_starts [OF sample_loaded, of id "\<lambda>_. None"] by blast

text \<open>Seeding writes one document, once, and what it reserves is never offered. It changes nothing but the
  configuration of the one athlete, and not that where a document exists; and where it succeeds, the series
  the sweep will read are the shipped ones with more reserved, and no position of any of them offers an
  entry that was named.\<close>

theorem seed_once:
  assumes "run_state (seedConfigWith E athlete reserve) s = (r, s')"
  shows "s' = s\<lparr>World := World s', SStore := (SStore s)\<lparr>mConfigs := mConfigs (SStore s')\<rparr>\<rparr>
    \<and> (GetAthleteConfig (SStore s) athlete \<noteq> None \<longrightarrow> SStore s' = SStore s \<and> r \<in> {Inl SeedRead, Inl AlreadySeeded})
    \<and> (\<forall>b. b \<noteq> athlete \<longrightarrow> GetAthleteConfig (SStore s') b = GetAthleteConfig (SStore s) b)
    \<and> (\<forall>rows. r = Inr rows \<longrightarrow> (\<exists>c. GetAthleteConfig (SStore s') athlete = Some c \<and>
         list_all2 reserved_more DefaultProfile (FranchisesFromStored (Franchises c)) \<and>
         (\<forall>f name pos t j. f \<in> set (FranchisesFromStored (Franchises c)) \<longrightarrow> name \<in> set reserve \<longrightarrow>
            Next (Unicode E) f pos = Some (t, j) \<longrightarrow> \<not> SameEntry (Unicode E) t name)))"
  using assms
proof (cases rule: run_seed)
  case (refused e)
  from refused(2) have "SStore s' = SStore s" "s' = s\<lparr>World := World s'\<rparr>" by (simp_all add: worldly_store worldly_def [symmetric])
  with refused(1,3) show ?thesis by (cases s) auto
next
  case (written profile)
  let ?c = "\<lparr>Franchises = FranchisesToStored profile\<rparr>"
  have store: "SStore s' = SaveAthleteConfig (SStore s) athlete ?c" using worldly_store [OF written(3)] by simp
  have "s' = s\<lparr>World := World s', SStore := SStore s'\<rparr>"
    using written(3) unfolding store worldly_def by (metis worldly_order)
  then have frame: "s' = s\<lparr>World := World s', SStore := (SStore s)\<lparr>mConfigs := mConfigs (SStore s')\<rparr>\<rparr>"
    by (simp add: store SaveAthleteConfig_def)
  have "GetAthleteConfig (SStore s') b = (if b = athlete then Some ?c else GetAthleteConfig (SStore s) b)" for b
    by (simp add: store SaveAthleteConfig_def GetAthleteConfig_def update_conv')
  moreover have props: "list_all2 reserved_more DefaultProfile profile"
      "\<forall>f \<in> set profile. \<forall>name \<in> set reserve. reserves (Unicode E) name f"
    using reserveEntries_props [OF written(2)] by auto
  ultimately show ?thesis
    using frame written(1) stored_profile [OF props(1)] reserves_not_offered by fastforce
qed

text \<open>Seeding the sample's empty store reserves the last free entry of the shipped series.\<close>

lemma sample_reserve:
  "\<exists>profile. reserveEntries latin1 DefaultProfile [''Son of the Pink Panther''] = Inr profile"
  by (simp add: reserve_in_def DefaultProfile_def SameEntry_def equal_fold_def trim_space_def
      latin1_def latin_lower_def is_space_def bytes_of_def)

lemma sample_report: "\<exists>rows. run_state (report_positions sample_env 7 fs) s = (Inr rows, s)"
  by (induction fs) (auto simp: run_store_read)

lemma seed_once_witness:
  "\<exists>rows s'. run_state (seedConfigWith sample_env 7 [''Son of the Pink Panther'']) sample_start = (Inr rows, s') \<and>
     (\<exists>c. GetAthleteConfig (SStore s') 7 = Some c \<and> (\<forall>f \<in> set (FranchisesFromStored (Franchises c)).
        \<forall>pos t j. Next latin1 f pos = Some (t, j) \<longrightarrow> \<not> SameEntry latin1 t ''Son of the Pink Panther''))"
proof -
  obtain profile where profile: "reserveEntries latin1 DefaultProfile [''Son of the Pink Panther''] = Inr profile"
    using sample_reserve by blast
  let ?c = "\<lparr>Franchises = FranchisesToStored profile\<rparr>"
  let ?t = "sample_start\<lparr>SStore := SaveAthleteConfig (SStore sample_start) 7 ?c\<rparr>"
  have before: "GetAthleteConfig (SStore sample_start) 7 = None"
    by (simp add: sample_start_def NewProcessor_def NewMemory_def GetAthleteConfig_def)
  have after: "GetAthleteConfig (SaveAthleteConfig m a c) a = Some c" for m a c
    by (simp add: SaveAthleteConfig_def GetAthleteConfig_def update_conv')
  obtain rows where rows:
      "run_state (report_positions sample_env 7 (FranchisesFromStored (FranchisesToStored profile))) ?t = (Inr rows, ?t)"
    using sample_report by blast
  have world: "sample_start\<lparr>SStore := m, World := 0\<rparr> = sample_start\<lparr>SStore := m\<rparr>" for m
    by (simp add: sample_start_def NewProcessor_def)
  have run: "run_state (seedConfigWith sample_env 7 [''Son of the Pink Panther'']) sample_start = (Inr rows, ?t)"
    using rows by (simp add: seedConfigWith_def run_store_read run_store_write before after profile world
        del: report_positions.simps reserveEntries.simps)
  have env: "Unicode sample_env = latin1" by simp
  have "\<exists>c. GetAthleteConfig (SStore ?t) 7 = Some c \<and> (\<forall>f \<in> set (FranchisesFromStored (Franchises c)).
      \<forall>pos t j. Next latin1 f pos = Some (t, j) \<longrightarrow> \<not> SameEntry latin1 t ''Son of the Pink Panther'')"
    using seed_once [OF run, THEN conjunct2, THEN conjunct2, THEN conjunct2, THEN spec, THEN mp, OF refl, unfolded env]
    by simp blast
  with run show ?thesis by blast
qed

end
