(* ===== verification/Narrator.thy ===== *)
theory Narrator
  imports Wiring
begin

text \<open>
  The configuration and the model provider built from it: what theory Settings accepts gives a provider
  of theory Providers or Federation that has its credential and asks the address it is meant to ask.
\<close>

section \<open>What the loader guarantees of the provider's settings\<close>

lemma loadLLM_federation:
  assumes "fst (loadLLM L env project) = []" and "LLMProviderOf (snd (loadLLM L env project)) = ProviderAnthropicWIF"
  shows "RuleID (Federation (snd (loadLLM L env project))) \<noteq> [] \<and>
    OrganizationID (Federation (snd (loadLLM L env project))) \<noteq> [] \<and>
    ServiceAccountID (Federation (snd (loadLLM L env project))) \<noteq> []"
  using assms by (simp add: loadLLM_def loadFederation_def Let_def case_prod_beta split: if_split_asm)

lemma loadLLM_location: "fst (loadLLM L env project) = [] \<Longrightarrow> VertexLocation (snd (loadLLM L env project)) \<noteq> []"
  by (auto simp: loadLLM_def Let_def case_prod_beta vertexLocationPattern_def split: if_split_asm)

lemma loadLLM_base:
  "trim_right_slashes (LLMBaseURL (snd (loadLLM L env project))) = LLMBaseURL (snd (loadLLM L env project))"
  by (simp add: loadLLM_def Let_def case_prod_beta trim_right_slashes_def)

lemma load_narrator:
  assumes "load L env serving = Inr c"
  shows "LLMProviderOf (LLMOf c) = ProviderAnthropicWIF \<Longrightarrow>
      RuleID (Federation (LLMOf c)) \<noteq> [] \<and> OrganizationID (Federation (LLMOf c)) \<noteq> [] \<and>
      ServiceAccountID (Federation (LLMOf c)) \<noteq> []"
    and "VertexLocation (LLMOf c) \<noteq> []"
    and "trim_right_slashes (LLMBaseURL (LLMOf c)) = LLMBaseURL (LLMOf c)"
proof -
  have llm: "fst (loadLLM L env (fst (snd (loadFirestore env)))) = []" and c: "c = load_values L env serving"
    using assms by (simp_all add: load_Inr load_errors_def)
  show "LLMProviderOf (LLMOf c) = ProviderAnthropicWIF \<Longrightarrow>
      RuleID (Federation (LLMOf c)) \<noteq> [] \<and> OrganizationID (Federation (LLMOf c)) \<noteq> [] \<and>
      ServiceAccountID (Federation (LLMOf c)) \<noteq> []"
    using loadLLM_federation [OF llm] by (simp add: c load_values_def)
  show "VertexLocation (LLMOf c) \<noteq> []"
    using loadLLM_location [OF llm] by (simp add: c load_values_def)
  show "trim_right_slashes (LLMBaseURL (LLMOf c)) = LLMBaseURL (LLMOf c)"
    using loadLLM_base by (simp add: c load_values_def)
qed

section \<open>Errors a configured provider does not have\<close>

definition unconfigured :: "llm_error set" where
  "unconfigured = {NoAPIKey, NoHTTPClient, ProjectAndLocationRequired, NoIdentitySource, FederationIncomplete}"

lemma configured_errors [simp]:
  "BuildRequest \<notin> unconfigured" "RequestFailed e \<notin> unconfigured" "UnexpectedStatus n \<notin> unconfigured"
  "UndecodableResponse \<notin> unconfigured" "TruncatedResponse p \<notin> unconfigured" "EmptyResponse \<notin> unconfigured"
  "UpstreamError n \<notin> unconfigured" "UpstreamErrorMidGeneration n \<notin> unconfigured" "Withheld \<notin> unconfigured"
  "PromptBlocked r \<notin> unconfigured" "Refused r \<notin> unconfigured" "TokenRejectedTwice \<notin> unconfigured"
  "IdentityFailed i \<notin> unconfigured" "EmptyIdentity \<notin> unconfigured" "MalformedExchange \<notin> unconfigured"
  by (simp_all add: unconfigured_def)

lemma map_sum_Inl: "map_sum f g x = Inl e \<longleftrightarrow> (\<exists>y. x = Inl y \<and> e = f y)"
  by (cases x) auto

text \<open>A program that never ends in an error of \<open>B\<close>.\<close>

definition avoids :: "'e set \<Rightarrow> ('s, 'e + 'a) state \<Rightarrow> bool" where
  "avoids B m \<longleftrightarrow> (\<forall>s e. fst (run_state m s) = Inl e \<longrightarrow> e \<notin> B)"

lemma avoidsD: "avoids B m \<Longrightarrow> fst (run_state m s) = Inl e \<Longrightarrow> e \<notin> B"
  by (simp add: avoids_def)

lemma avoids_return [simp]: "avoids B (return r) \<longleftrightarrow> (\<forall>e. r = Inl e \<longrightarrow> e \<notin> B)"
  by (simp add: avoids_def)

lemma avoids_bind: "(\<And>a. avoids B (f a)) \<Longrightarrow> avoids B (State_Monad.bind m f)"
  by (auto simp: avoids_def split: prod.splits)

lemma avoids_check:
  "(\<And>s e. fst (run_state m s) = Inl e \<Longrightarrow> wrap e \<notin> B) \<Longrightarrow> (\<And>a. avoids B (k a)) \<Longrightarrow> avoids B (check m wrap k)"
  by (auto simp: avoids_def split: prod.splits sum.splits) (metis fst_conv)+

lemma avoids_check_id: "avoids B m \<Longrightarrow> (\<And>a. avoids B (k a)) \<Longrightarrow> avoids B (check m id k)"
  by (rule avoids_check) (auto simp: avoids_def)

lemma avoids_if: "avoids B m \<Longrightarrow> avoids B n \<Longrightarrow> avoids B (if b then m else n)"
  by simp

lemma avoids_prod: "(\<And>a b. avoids B (f a b)) \<Longrightarrow> avoids B (case x of (a, b) \<Rightarrow> f a b)"
  by (simp split: prod.splits)

lemmas avoids_rules = avoids_bind avoids_check_id avoids_if avoids_prod

lemma post_json_avoids: "avoids unconfigured (post_json N url headers body)"
  by (auto simp: avoids_def post_json_def Let_def map_sum_Inl split: prod.splits if_splits)

lemma decoded_reply_configured: "decoded_reply limit decode r = Inl e \<Longrightarrow> e \<notin> unconfigured"
  by (auto simp: decoded_reply_def statusError_def split: if_splits option.splits)

lemma verdict_configured:
  "text_or_none x = Inl e \<Longrightarrow> e \<notin> unconfigured"
  "anthropic_verdict r = Inl e \<Longrightarrow> e \<notin> unconfigured"
  "chat_verdict c = Inl e \<Longrightarrow> e \<notin> unconfigured"
  "vertex_verdict v = Inl e \<Longrightarrow> e \<notin> unconfigured"
  "wif_verdict w = Inl e \<Longrightarrow> e \<notin> unconfigured"
  "granted_token U i g = Inl e \<Longrightarrow> e \<notin> unconfigured"
  by (auto simp: text_or_none_def anthropic_verdict_def chat_verdict_def choice_verdict_def vertex_verdict_def
      wif_verdict_def granted_token_def truncatedError_def
      split: if_splits option.splits list.splits)

lemma one_request_avoids:
  "(\<And>r e. verdict r = Inl e \<Longrightarrow> e \<notin> unconfigured) \<Longrightarrow>
     avoids unconfigured (one_request N url headers body limit decode verdict)"
  unfolding one_request_def
  by (intro avoids_check_id post_json_avoids) (auto split: sum.splits dest: decoded_reply_configured)

lemma wif_exchange_avoids:
  assumes "IdentityToken E \<noteq> None" "WIFRule a \<noteq> []" "WIFOrganization a \<noteq> []" "WIFServiceAccount a \<noteq> []"
  shows "avoids unconfigured (wif_exchange E a)"
proof -
  obtain f where "IdentityToken E = Some f" using assms(1) by blast
  then show ?thesis
    using assms(2-) unfolding wif_exchange_def
    by (auto intro!: avoids_check avoids_bind avoids_check_id post_json_avoids split: sum.splits)
      (blast dest: decoded_reply_configured verdict_configured(6))+
qed

lemma fresh_token_avoids: "avoids unconfigured (wif_exchange E a) \<Longrightarrow> avoids unconfigured (fresh_token E a)"
  unfolding fresh_token_def by (intro avoids_rules) simp_all

lemma accessToken_avoids: "avoids unconfigured (wif_exchange E a) \<Longrightarrow> avoids unconfigured (accessToken E a)"
  unfolding accessToken_def by (intro avoids_rules fresh_token_avoids) simp_all

lemma attempt_avoids:
  "avoids unconfigured (wif_exchange E a) \<Longrightarrow> avoids unconfigured (attempt_with E a body k)"
  unfolding attempt_with_def wif_send_def rejected_reply_def
  by (intro avoids_rules accessToken_avoids post_json_avoids) (simp_all add: statusError_def)

lemma wif_reply_configured: "wif_reply E reply = Inl e \<Longrightarrow> e \<notin> unconfigured"
  by (auto simp: wif_reply_def split: sum.splits dest: decoded_reply_configured verdict_configured(5))

lemma WIFComplete_avoids: "avoids unconfigured (wif_exchange E a) \<Longrightarrow> avoids unconfigured (WIFComplete E a p)"
  unfolding WIFComplete_def Let_def
  by (intro avoids_rules attempt_avoids) (auto dest: wif_reply_configured)

lemma https_host:
  assumes "VertexBaseURL v = []"
  shows "\<exists>x. trim_right_slashes (vertex_base v) = ''https://'' @ x"
proof -
  have "trim_right_slashes (xs @ ''googleapis.com'') = xs @ ''googleapis.com''" for xs
    by (simp add: trim_right_slashes_def)
  from this [of "''https://aiplatform.''"] this [of "''https://aiplatform.eu.rep.''"]
    this [of "''https://'' @ VertexRegion v @ ''-aiplatform.''"]
  show ?thesis using assms by (auto simp: vertex_base_def euBaseURL_def)
qed

section \<open>The provider of an accepted configuration\<close>

text \<open>A provider built from an accepted configuration never fails for want of its credential: no
  completion ends for a missing key, client, identity source or federation identifier, and the one thing
  still missing can be Vertex's project, exactly where the configuration names neither it nor a Firestore
  project. A key goes to the configured provider only, and each provider asks the address it is meant to
  ask: the fixed hosts, the region's host, or the base URL the loader has checked.\<close>

theorem narrator_ready:
  assumes "LoadConfig L env = Inr c" and "buildProvider has_credentials c = Inr n" and "IdentityToken E \<noteq> None"
  shows "(\<forall>e. fst (run_state (NarratorComplete E n p) s) = Inl e \<and> e \<in> unconfigured \<longrightarrow>
      e = ProjectAndLocationRequired \<and> LLMProviderOf (LLMOf c) = ProviderVertex \<and> VertexProject (LLMOf c) = []) \<and>
    (case n of
       AnthropicNarrator a \<Rightarrow> AnthropicKey a = APIKey (LLMOf c) \<and> AnthropicKey a \<noteq> [] \<and>
         anthropic_endpoint a = ''https://api.anthropic.com/v1/messages''
     | OpenRouterNarrator r \<Rightarrow> RouterKey r = APIKey (LLMOf c) \<and> RouterKey r \<noteq> [] \<and>
         router_endpoint r = (if LLMBaseURL (LLMOf c) = [] then ''https://openrouter.ai/api/v1'' else LLMBaseURL (LLMOf c)) @
           ''/chat/completions''
     | WIFNarrator a \<Rightarrow> APIKey (LLMOf c) = [] \<and>
         wif_url a ''/v1/messages'' = ''https://api.anthropic.com/v1/messages''
     | VertexNarrator v \<Rightarrow> APIKey (LLMOf c) = [] \<and> prefix ''https://'' (vertex_endpoint v))"
proof -
  have load: "load L env True = Inr c" using assms(1) by (simp add: LoadConfig_def)
  note key = load_keys(1) [OF load] and narrator = load_narrator [OF load]
  have none: "avoids unconfigured m \<Longrightarrow> \<forall>e. fst (run_state m s) = Inl e \<and> e \<in> unconfigured \<longrightarrow> Q e"
    for m :: "('a wif, llm_error + string) state" and Q by (auto dest: avoidsD)
  show ?thesis
  proof (cases "LLMProviderOf (LLMOf c)")
    case ProviderAnthropic
    then obtain a where n: "n = AnthropicNarrator a" and a: "AnthropicKey a = APIKey (LLMOf c)" "AnthropicBaseURL a = []"
      using assms(2) by (auto simp: buildProvider_def Let_def)
    have "AnthropicKey a \<noteq> []" using key ProviderAnthropic a by (simp add: Keyed_def)
    moreover from this have "avoids unconfigured (NarratorComplete E n p)"
      by (auto simp: n AnthropicComplete_one_request intro!: one_request_avoids dest: verdict_configured)
    ultimately show ?thesis
      using none a by (simp add: n anthropic_endpoint_def trim_right_slashes_def)
  next
    case ProviderOpenRouter
    then obtain r where n: "n = OpenRouterNarrator r" and r: "RouterKey r = APIKey (LLMOf c)" "RouterBaseURL r = LLMBaseURL (LLMOf c)"
      using assms(2) by (auto simp: buildProvider_def Let_def)
    have "RouterKey r \<noteq> []" using key ProviderOpenRouter r by (simp add: Keyed_def)
    moreover from this have "avoids unconfigured (NarratorComplete E n p)"
      by (auto simp: n OpenRouterComplete_one_request intro!: one_request_avoids dest: verdict_configured)
    moreover have "trim_right_slashes DefaultOpenRouterBaseURL = ''https://openrouter.ai/api/v1''"
      by (simp add: DefaultOpenRouterBaseURL_def trim_right_slashes_def)
    ultimately show ?thesis
      using none r narrator(3) by (simp add: n router_endpoint_def)
  next
    case ProviderAnthropicWIF
    then obtain a where n: "n = WIFNarrator a" and a: "WIFRule a = RuleID (Federation (LLMOf c))"
        "WIFOrganization a = OrganizationID (Federation (LLMOf c))"
        "WIFServiceAccount a = ServiceAccountID (Federation (LLMOf c))" "WIFBaseURL a = []"
      using assms(2) by (auto simp: buildProvider_def Let_def)
    have "avoids unconfigured (NarratorComplete E n p)"
      using narrator(1) [OF ProviderAnthropicWIF] a assms(3)
      by (auto simp: n wif_env.defs intro!: WIFComplete_avoids wif_exchange_avoids)
    then show ?thesis
      using key ProviderAnthropicWIF a by (auto simp: n wif_url_def trim_right_slashes_def Keyed_def dest: avoidsD)
  next
    case ProviderVertex
    then obtain v where n: "n = VertexNarrator v" and v: "HasVertexClient v" "VertexProjectID v = VertexProject (LLMOf c)"
        "VertexRegion v = VertexLocation (LLMOf c)" "VertexBaseURL v = []"
      using assms(2) by (auto simp: buildProvider_def Let_def split: if_splits)
    have "avoids unconfigured (NarratorComplete E n p)" if "VertexProject (LLMOf c) \<noteq> []"
      using that v narrator(2)
      by (auto simp: n VertexComplete_one_request intro!: one_request_avoids dest: verdict_configured)
    moreover have "fst (run_state (NarratorComplete E n p) s) = Inl ProjectAndLocationRequired" if "VertexProject (LLMOf c) = []"
      using that v by (simp add: n VertexComplete_one_request)
    moreover have "prefix ''https://'' (vertex_endpoint v)"
      using https_host [OF v(4)] by (auto simp: vertex_endpoint_def)
    ultimately show ?thesis
      using none key ProviderVertex by (cases "VertexProject (LLMOf c) = []") (auto simp: n Keyed_def)
  qed
qed

definition sample_narrator_env :: "(instant \<times> nat) narrator_env" where
  "sample_narrator_env = wif_env.extend (refusing (\<lambda>_. ''b''))
     (narrator_env.fields (\<lambda>_. None) (\<lambda>_. None) (\<lambda>_. None))"

lemma narrator_ready_witness:
  "\<exists>n. buildProvider True (load_values sample_loader sample_getenv True) = Inr n \<and>
     (\<forall>e. fst (run_state (NarratorComplete sample_narrator_env n sample_question) about_to_expire) = Inl e \<and>
        e \<in> unconfigured \<longrightarrow> e = ProjectAndLocationRequired)"
proof -
  have "\<exists>n. buildProvider True c = Inr n" for c
    by (cases "LLMProviderOf (LLMOf c)") (simp_all add: buildProvider_def Let_def)
  then obtain n where n: "buildProvider True (load_values sample_loader sample_getenv True) = Inr n" by blast
  have "IdentityToken sample_narrator_env \<noteq> None"
    by (simp add: sample_narrator_env_def wif_env.defs refusing_def)
  from narrator_ready [OF sample_loaded n this] n show ?thesis by blast
qed

end
