(* ===== verification/Firestore.thy ===== *)
theory Firestore
  imports Http Store Effects
begin

text \<open>
  \<^verbatim>\<open>internal/store/firestore\<close>: the store that outlives the process. The client library is a record of
  calls on the database's state, which may fail; a document is a list of fields, and the structs of the
  package are read and written field by field under their tags, as the client documents it: an absent or
  null field leaves the zero value, a field of another type is an error. Theory Durable holds what the
  client is documented to do and shows that this store is the one of theory Store.
\<close>

section \<open>The client\<close>

datatype field_value =
  NullValue | IntegerValue int | StringValue string | TimestampValue instant
| ArrayValue "field_value list" | MapValue "(string \<times> field_value) list"

type_synonym document = "(string \<times> field_value) list"

datatype grpc_code = CodeNotFound | CodeAlreadyExists | CodeOther string

datatype fs_error =
  ProjectRequired | OpenFailed | TokenMissing | NotOneToken | NegativeIndex int | ClientFailed grpc_code | BadDocument

datatype where_clause = FieldAtMost string field_value | FieldEquals string field_value

record fs_query =
  QCollection :: string
  QWhere :: "where_clause option"
  QOrder :: "(string \<times> bool) option"
  QLimit :: "nat option"

text \<open>The order of a query is a field, and whether it descends.\<close>

record 'f fs_client =
  doc_get :: "string \<Rightarrow> string \<Rightarrow> ('f, grpc_code + document) state"
  doc_set :: "string \<Rightarrow> string \<Rightarrow> document \<Rightarrow> ('f, grpc_code + unit) state"
  doc_create :: "string \<Rightarrow> string \<Rightarrow> document \<Rightarrow> ('f, grpc_code + unit) state"
  doc_delete :: "string \<Rightarrow> string \<Rightarrow> ('f, grpc_code + unit) state"
  get_all :: "fs_query \<Rightarrow> ('f, grpc_code + document list) state"
  run_transaction :: "string \<Rightarrow> string \<Rightarrow> (grpc_code + document \<Rightarrow> fs_error + document \<times> int) \<Rightarrow> ('f, fs_error + int) state"

text \<open>A transaction reads one document, decides what to write there, and may be tried again.\<close>

definition documents_of :: "string \<Rightarrow> fs_query" where
  "documents_of c = \<lparr>QCollection = c, QWhere = None, QOrder = None, QLimit = None\<rparr>"

section \<open>Reading fields\<close>

definition field :: "document \<Rightarrow> string \<Rightarrow> field_value" where
  "field d tag = (case map_of d tag of None \<Rightarrow> NullValue | Some v \<Rightarrow> v)"

definition as_int :: "field_value \<Rightarrow> int option" where
  "as_int v = (case v of IntegerValue n \<Rightarrow> Some n | NullValue \<Rightarrow> Some 0 | _ \<Rightarrow> None)"

definition as_string :: "field_value \<Rightarrow> string option" where
  "as_string v = (case v of StringValue s \<Rightarrow> Some s | NullValue \<Rightarrow> Some [] | _ \<Rightarrow> None)"

definition as_time :: "field_value \<Rightarrow> instant option" where
  "as_time v = (case v of TimestampValue t \<Rightarrow> Some t | NullValue \<Rightarrow> Some time_zero | _ \<Rightarrow> None)"

definition as_array :: "(field_value \<Rightarrow> 'a option) \<Rightarrow> field_value \<Rightarrow> 'a list option" where
  "as_array dec v = (case v of ArrayValue vs \<Rightarrow> those (map dec vs) | NullValue \<Rightarrow> Some [] | _ \<Rightarrow> None)"

definition as_map :: "(document \<Rightarrow> 'a option) \<Rightarrow> field_value \<Rightarrow> 'a option" where
  "as_map dec v = (case v of MapValue d \<Rightarrow> dec d | NullValue \<Rightarrow> dec [] | _ \<Rightarrow> None)"

definition decoded :: "(document \<Rightarrow> 'a option) \<Rightarrow> document \<Rightarrow> fs_error + 'a" where
  "decoded dec d = (case dec d of None \<Rightarrow> Inl BadDocument | Some x \<Rightarrow> Inr x)"

text \<open>The loop over a query's documents: the first that does not decode is the error.\<close>

fun decode_all :: "(document \<Rightarrow> 'a option) \<Rightarrow> document list \<Rightarrow> fs_error + 'a list" where
  "decode_all dec [] = Inr []"
| "decode_all dec (d # ds) =
     (case dec d of
        None \<Rightarrow> Inl BadDocument
      | Some x \<Rightarrow> (case decode_all dec ds of Inl e \<Rightarrow> Inl e | Inr xs \<Rightarrow> Inr (x # xs)))"

section \<open>Store (New)\<close>

definition CollectionTokens :: string where "CollectionTokens = ''tokens''"

definition CollectionPending :: string where "CollectionPending = ''pending''"

definition CollectionNamed :: string where "CollectionNamed = ''named''"

definition CollectionGeocache :: string where "CollectionGeocache = ''geocache''"

definition CollectionFranchise :: string where "CollectionFranchise = ''franchise''"

definition CollectionConfig :: string where "CollectionConfig = ''config''"

record 'f fs_store =
  fsClient :: "'f fs_client"
  fsPrefix :: string
  fsDigest :: "string \<Rightarrow> string"

text \<open>\<open>fsDigest\<close> is \<^verbatim>\<open>sha256.Sum256\<close>. The client is opened for a project, and a database if one is named.\<close>

definition NewFirestore :: "(string \<Rightarrow> string option \<Rightarrow> 'f fs_client option) \<Rightarrow> (string \<Rightarrow> string) \<Rightarrow>
    string \<Rightarrow> string \<Rightarrow> string \<Rightarrow> fs_error + 'f fs_store" where
  "NewFirestore dial digest project database pre =
     (if project = [] then Inl ProjectRequired
      else case dial project (if database = [] then None else Some database) of
        None \<Rightarrow> Inl OpenFailed
      | Some client \<Rightarrow> Inr \<lparr>fsClient = client, fsPrefix = pre, fsDigest = digest\<rparr>)"

definition collection :: "'f fs_store \<Rightarrow> string \<Rightarrow> string" where
  "collection S name = fsPrefix S @ name"

definition activityKey :: "int \<times> int \<Rightarrow> string" where
  "activityKey k = show_int (fst k) @ ''-'' @ show_int (snd k)"

definition notFound :: "grpc_code \<Rightarrow> bool" where
  "notFound c \<longleftrightarrow> c = CodeNotFound"

text \<open>A read of one document: absent is a value here, any other failure is the error.\<close>

definition get_doc :: "'f fs_store \<Rightarrow> string \<Rightarrow> string \<Rightarrow> (document \<Rightarrow> 'a option) \<Rightarrow> ('f, fs_error + 'a option) state" where
  "get_doc S c k dec = do {
     snapshot \<leftarrow> doc_get (fsClient S) (collection S c) k;
     return (case snapshot of
       Inl code \<Rightarrow> if notFound code then Inr None else Inl (ClientFailed code)
     | Inr d \<Rightarrow> (case decoded dec d of Inl e \<Rightarrow> Inl e | Inr x \<Rightarrow> Inr (Some x))) }"

definition set_doc :: "'f fs_store \<Rightarrow> string \<Rightarrow> string \<Rightarrow> document \<Rightarrow> ('f, fs_error + unit) state" where
  "set_doc S c k d = check (doc_set (fsClient S) (collection S c) k d) ClientFailed (\<lambda>_. return (Inr ()))"

section \<open>Tokens\<close>

definition tokenDoc :: "Token \<Rightarrow> document" where
  "tokenDoc t = [(''athlete_id'', IntegerValue (AthleteID t)), (''access_token'', StringValue (AccessToken t)),
     (''refresh_token'', StringValue (RefreshToken t)), (''expires_at'', TimestampValue (ExpiresAt t)),
     (''scopes'', ArrayValue (map StringValue (Scopes t)))]"

definition read_token :: "document \<Rightarrow> Token option" where
  "read_token d = do {
     athlete \<leftarrow> as_int (field d ''athlete_id'');
     access \<leftarrow> as_string (field d ''access_token'');
     refresh \<leftarrow> as_string (field d ''refresh_token'');
     expires \<leftarrow> as_time (field d ''expires_at'');
     scopes \<leftarrow> as_array as_string (field d ''scopes'');
     Some \<lparr>AthleteID = athlete, AccessToken = access, RefreshToken = refresh, ExpiresAt = expires,
       Scopes = scopes\<rparr> }"

definition FsLoad :: "'f fs_store \<Rightarrow> int \<Rightarrow> ('f, fs_error + Token) state" where
  "FsLoad S athlete = check (get_doc S CollectionTokens (show_int athlete) read_token) id (\<lambda>token.
     return (case token of None \<Rightarrow> Inl TokenMissing | Some t \<Rightarrow> Inr t))"

definition FsSave :: "'f fs_store \<Rightarrow> Token \<Rightarrow> ('f, fs_error + unit) state" where
  "FsSave S t = set_doc S CollectionTokens (show_int (AthleteID t)) (tokenDoc t)"

definition FsAnyToken :: "'f fs_store \<Rightarrow> ('f, fs_error + Token) state" where
  "FsAnyToken S =
     check (get_all (fsClient S) ((documents_of (collection S CollectionTokens))\<lparr>QLimit := Some 2\<rparr>)) ClientFailed
       (\<lambda>snapshots. return (
          if length snapshots \<noteq> 1 then Inl NotOneToken else decoded read_token (hd snapshots)))"

section \<open>Queue\<close>

definition pendingDoc :: "Pending \<Rightarrow> document" where
  "pendingDoc p = [(''athlete_id'', IntegerValue (PAthleteID p)), (''activity_id'', IntegerValue (PActivityID p)),
     (''aspect'', StringValue (Aspect p)), (''enqueued_at'', TimestampValue (EnqueuedAt p)),
     (''process_after'', TimestampValue (ProcessAfter p))]"

definition read_pending :: "document \<Rightarrow> Pending option" where
  "read_pending d = do {
     athlete \<leftarrow> as_int (field d ''athlete_id'');
     activity \<leftarrow> as_int (field d ''activity_id'');
     aspect \<leftarrow> as_string (field d ''aspect'');
     enqueued \<leftarrow> as_time (field d ''enqueued_at'');
     deadline \<leftarrow> as_time (field d ''process_after'');
     Some \<lparr>PAthleteID = athlete, PActivityID = activity, Aspect = aspect, EnqueuedAt = enqueued,
       ProcessAfter = deadline\<rparr> }"

definition FsEnqueue :: "'f fs_store \<Rightarrow> Pending \<Rightarrow> ('f, fs_error + bool) state" where
  "FsEnqueue S p = do {
     r \<leftarrow> doc_create (fsClient S) (collection S CollectionPending) (activityKey (pending_key p)) (pendingDoc p);
     return (case r of
       Inl code \<Rightarrow> if code = CodeAlreadyExists then Inr False else Inl (ClientFailed code)
     | Inr _ \<Rightarrow> Inr True) }"

definition FsDue :: "'f fs_store \<Rightarrow> instant \<Rightarrow> ('f, fs_error + Pending list) state" where
  "FsDue S now =
     check (get_all (fsClient S) ((documents_of (collection S CollectionPending))
         \<lparr>QWhere := Some (FieldAtMost ''process_after'' (TimestampValue now)),
          QOrder := Some (''process_after'', False)\<rparr>)) ClientFailed
       (\<lambda>snapshots. return (map_sum id SortPending (decode_all read_pending snapshots)))"

definition FsRemove :: "'f fs_store \<Rightarrow> int \<Rightarrow> int \<Rightarrow> ('f, fs_error + unit) state" where
  "FsRemove S athlete activity =
     check (doc_delete (fsClient S) (collection S CollectionPending) (activityKey (athlete, activity))) ClientFailed
       (\<lambda>_. return (Inr ()))"

definition FsLen :: "'f fs_store \<Rightarrow> ('f, fs_error + nat) state" where
  "FsLen S = check (get_all (fsClient S) (documents_of (collection S CollectionPending))) ClientFailed
     (\<lambda>snapshots. return (Inr (length snapshots)))"

section \<open>Named log\<close>

definition namedDoc :: "Naming \<Rightarrow> document" where
  "namedDoc n = [(''athlete_id'', IntegerValue (NAthleteID n)), (''activity_id'', IntegerValue (NActivityID n)),
     (''title'', StringValue (NTitle n)), (''language'', StringValue (NLanguage n)),
     (''source'', StringValue (NSource n)), (''named_at'', TimestampValue (NAt n))]"

definition read_named :: "document \<Rightarrow> NamedTitle option" where
  "read_named d = do {
     _ \<leftarrow> as_int (field d ''athlete_id'');
     activity \<leftarrow> as_int (field d ''activity_id'');
     title \<leftarrow> as_string (field d ''title'');
     language \<leftarrow> as_string (field d ''language'');
     source \<leftarrow> as_string (field d ''source'');
     date \<leftarrow> as_time (field d ''named_at'');
     Some \<lparr>ActivityID = activity, Title = title, Language = language, Source = source, NamedAt = date\<rparr> }"

definition FsMarkNamed :: "'f fs_store \<Rightarrow> Naming \<Rightarrow> ('f, fs_error + unit) state" where
  "FsMarkNamed S n = set_doc S CollectionNamed (activityKey (NAthleteID n, NActivityID n)) (namedDoc n)"

definition FsRecentTitles :: "'f fs_store \<Rightarrow> int \<Rightarrow> int \<Rightarrow> ('f, fs_error + NamedTitle list) state" where
  "FsRecentTitles S athlete limit =
     (if limit \<le> 0 then return (Inr [])
      else check (get_all (fsClient S) \<lparr>QCollection = collection S CollectionNamed,
          QWhere = Some (FieldEquals ''athlete_id'' (IntegerValue athlete)),
          QOrder = Some (''named_at'', True), QLimit = Some (nat limit)\<rparr>) ClientFailed
        (\<lambda>snapshots. return (decode_all read_named snapshots)))"

definition FsNamed :: "'f fs_store \<Rightarrow> int \<Rightarrow> int \<Rightarrow> ('f, fs_error + NamedTitle option) state" where
  "FsNamed S athlete activity = get_doc S CollectionNamed (activityKey (athlete, activity)) read_named"

section \<open>Geocode cache\<close>

definition placeDoc :: "Place \<Rightarrow> instant \<Rightarrow> document" where
  "placeDoc p now = [(''name'', StringValue (PlaceName p)), (''kind'', StringValue (PlaceKind p)),
     (''region'', StringValue (Region p)), (''country'', StringValue (Country p)), (''cached_at'', TimestampValue now)]"

definition read_place :: "document \<Rightarrow> Place option" where
  "read_place d = do {
     name \<leftarrow> as_string (field d ''name'');
     kind \<leftarrow> as_string (field d ''kind'');
     region \<leftarrow> as_string (field d ''region'');
     country \<leftarrow> as_string (field d ''country'');
     _ \<leftarrow> as_time (field d ''cached_at'');
     Some \<lparr>PlaceName = name, PlaceKind = kind, Region = region, Country = country\<rparr> }"

definition docIDEscapePrefix :: string where "docIDEscapePrefix = ''=''"

definition maxDocIDBytes :: nat where "maxDocIDBytes = 1500"

definition safe_id_rune :: "rune \<Rightarrow> bool" where
  "safe_id_rune r \<longleftrightarrow> ascii_digit r \<or> ascii_letter r \<or> r \<in> {46, 44, 45, 95, 126}"

definition isSafeDocID :: "string \<Rightarrow> bool" where
  "isSafeDocID key \<longleftrightarrow>
     \<not> (key = [] \<or> key = ''.'' \<or> key = ''..'' \<or> length key > maxDocIDBytes) \<and>
     \<not> (prefix ''__'' key \<and> suffix ''__'' key \<and> length key \<ge> 4) \<and>
     list_all safe_id_rune (runes key)"

definition hex_encode :: "string \<Rightarrow> string" where
  "hex_encode s = concat (map (\<lambda>c. [lower_hex (byte c div 16), lower_hex (byte c mod 16)]) s)"

definition cacheDocID :: "(string \<Rightarrow> string) \<Rightarrow> string \<Rightarrow> string" where
  "cacheDocID digest key = (if isSafeDocID key then key else docIDEscapePrefix @ hex_encode (digest key))"

definition FsPlace :: "'f fs_store \<Rightarrow> string \<Rightarrow> ('f, fs_error + Place option) state" where
  "FsPlace S key = get_doc S CollectionGeocache (cacheDocID (fsDigest S) key) read_place"

definition FsSavePlace :: "'f fs_store \<Rightarrow> instant \<Rightarrow> string \<Rightarrow> Place \<Rightarrow> ('f, fs_error + unit) state" where
  "FsSavePlace S now key p = set_doc S CollectionGeocache (cacheDocID (fsDigest S) key) (placeDoc p now)"

section \<open>Series positions\<close>

definition franchiseDoc :: "int \<Rightarrow> string \<Rightarrow> int \<Rightarrow> instant \<Rightarrow> document" where
  "franchiseDoc athlete franchise position now =
     [(''athlete_id'', IntegerValue athlete), (''franchise'', StringValue franchise),
      (''position'', IntegerValue position), (''updated_at'', TimestampValue now)]"

definition read_position :: "document \<Rightarrow> int option" where
  "read_position d = do {
     _ \<leftarrow> as_int (field d ''athlete_id'');
     _ \<leftarrow> as_string (field d ''franchise'');
     position \<leftarrow> as_int (field d ''position'');
     _ \<leftarrow> as_time (field d ''updated_at'');
     Some position }"

definition series_key :: "int \<times> string \<Rightarrow> string" where
  "series_key k = show_int (fst k) @ ''-'' @ snd k"

definition franchiseKey :: "(string \<Rightarrow> string) \<Rightarrow> int \<times> string \<Rightarrow> string" where
  "franchiseKey digest k = cacheDocID digest (series_key k)"

definition FsFranchisePosition :: "'f fs_store \<Rightarrow> int \<Rightarrow> string \<Rightarrow> ('f, fs_error + int) state" where
  "FsFranchisePosition S athlete franchise =
     check (get_doc S CollectionFranchise (franchiseKey (fsDigest S) (athlete, franchise)) read_position) id
       (\<lambda>position. return (Inr (case position of None \<Rightarrow> 0 | Some n \<Rightarrow> n)))"

text \<open>As in theory Store, \<^verbatim>\<open>index+1\<close> does not wrap for an index into a list of titles.\<close>

definition advance_tx :: "instant \<Rightarrow> int \<Rightarrow> string \<Rightarrow> int \<Rightarrow> grpc_code + document \<Rightarrow> fs_error + document \<times> int" where
  "advance_tx now athlete franchise index snapshot =
     (case (case snapshot of
              Inl code \<Rightarrow> if notFound code then Inr 0 else Inl (ClientFailed code)
            | Inr d \<Rightarrow> decoded read_position d) of
        Inl e \<Rightarrow> Inl e
      | Inr position \<Rightarrow> let position = max position (index + 1) in
          Inr (franchiseDoc athlete franchise position now, position))"

definition FsAdvanceFranchisePast :: "'f fs_store \<Rightarrow> instant \<Rightarrow> int \<Rightarrow> string \<Rightarrow> int \<Rightarrow> ('f, fs_error + int) state" where
  "FsAdvanceFranchisePast S now athlete franchise index =
     (if index < 0 then return (Inl (NegativeIndex index))
      else run_transaction (fsClient S) (collection S CollectionFranchise)
        (franchiseKey (fsDigest S) (athlete, franchise)) (advance_tx now athlete franchise index))"

section \<open>Configuration documents\<close>

definition franchiseEntry :: "StoredFranchise \<Rightarrow> field_value" where
  "franchiseEntry f = MapValue [(''name'', StringValue (SName f)),
     (''sport_types'', ArrayValue (map StringValue (SSportTypes f))), (''gear_name'', StringValue (SGearName f)),
     (''titles'', ArrayValue (map StringValue (STitles f))), (''reserved'', ArrayValue (map StringValue (SReserved f)))]"

definition read_entry :: "document \<Rightarrow> StoredFranchise option" where
  "read_entry d = do {
     name \<leftarrow> as_string (field d ''name'');
     sports \<leftarrow> as_array as_string (field d ''sport_types'');
     gear \<leftarrow> as_string (field d ''gear_name'');
     titles \<leftarrow> as_array as_string (field d ''titles'');
     reserved \<leftarrow> as_array as_string (field d ''reserved'');
     Some \<lparr>SName = name, SSportTypes = sports, SGearName = gear, STitles = titles, SReserved = reserved\<rparr> }"

definition configDoc :: "int \<Rightarrow> AthleteConfig \<Rightarrow> instant \<Rightarrow> document" where
  "configDoc athlete c now = [(''athlete_id'', IntegerValue athlete),
     (''franchises'', ArrayValue (map franchiseEntry (Franchises c))), (''updated_at'', TimestampValue now)]"

definition read_config :: "document \<Rightarrow> AthleteConfig option" where
  "read_config d = do {
     _ \<leftarrow> as_int (field d ''athlete_id'');
     entries \<leftarrow> as_array (as_map read_entry) (field d ''franchises'');
     _ \<leftarrow> as_time (field d ''updated_at'');
     Some \<lparr>Franchises = entries\<rparr> }"

definition FsAthleteConfig :: "'f fs_store \<Rightarrow> int \<Rightarrow> ('f, fs_error + AthleteConfig option) state" where
  "FsAthleteConfig S athlete = get_doc S CollectionConfig (show_int athlete) read_config"

definition FsSaveAthleteConfig :: "'f fs_store \<Rightarrow> instant \<Rightarrow> int \<Rightarrow> AthleteConfig \<Rightarrow> ('f, fs_error + unit) state" where
  "FsSaveAthleteConfig S now athlete c =
     set_doc S CollectionConfig (show_int athlete) (configDoc athlete c now)"

end
