(* ===== verification/Process.thy ===== *)
theory Process
  imports Narrator Firestore
begin

text \<open>
  The process: \<^verbatim>\<open>Run\<close> and \<^verbatim>\<open>openStore\<close> of \<^verbatim>\<open>internal/app\<close>, \<^verbatim>\<open>Server.Run\<close>, and the exit codes of the three
  commands. What the operating system decides is a parameter: whether the store can be opened, and how
  serving ends. The trace is what the process opens, listens on and closes.
\<close>

section \<open>Serving (server.go)\<close>

text \<open>Serving ends because the listener does, or because the context is cancelled and the server shut down.\<close>

datatype serve_end = ListenerFailed string | ListenerClosed | Cancelled "string option"

definition ServerRun :: "serve_end \<Rightarrow> app_error + unit" where
  "ServerRun ending =
     (case ending of
        ListenerFailed e \<Rightarrow> Inl (ServeFailed e)
      | ListenerClosed \<Rightarrow> Inr ()
      | Cancelled shutdown \<Rightarrow> (case shutdown of None \<Rightarrow> Inr () | Some e \<Rightarrow> Inl (ShutdownFailed e)))"

section \<open>The service (app.go)\<close>

datatype 'f bound_store = InMemory Memory | OnFirestore "'f fs_store"

datatype process_event = StoreOpened | StoreClosed | Listening string

record ('f, 'w) process =
  LoaderOf :: loader
  UnicodeOf :: tables
  Compile :: "string \<Rightarrow> pattern option"
  HasCredentials :: bool
  Validate :: "string \<Rightarrow> string \<Rightarrow> 'w \<Rightarrow> (string + Payload) \<times> 'w"
  Dial :: "string \<Rightarrow> string option \<Rightarrow> 'f fs_client option"
  Digest :: "string \<Rightarrow> string"
  DecodeEvent :: "string \<Rightarrow> Event option"
  Rand :: "'w \<Rightarrow> string option \<times> 'w"
  Post :: "'w poster"
  ParseToken :: "string \<Rightarrow> tokenResponse option"
  Serve :: "string \<Rightarrow> serve_end"

definition openStore :: "(string \<Rightarrow> string option \<Rightarrow> 'f fs_client option) \<Rightarrow> (string \<Rightarrow> string) \<Rightarrow> settings \<Rightarrow>
    app_error + 'f bound_store" where
  "openStore dial digest c =
     (if \<not> PersistentStore c then Inr (InMemory NewMemory)
      else case NewFirestore dial digest (FirestoreProject c) (FirestoreDatabase c) [] of
        Inl _ \<Rightarrow> Inl OpenStoreFailed
      | Inr S \<Rightarrow> Inr (OnFirestore S))"

definition listen_address :: "settings \<Rightarrow> string" where
  "listen_address c = '':'' @ show_int (HTTPPort c)"

definition serve_with :: "('f, 'w) process \<Rightarrow> settings \<Rightarrow> 'w sys \<Rightarrow> (app_error + unit) \<times> process_event list" where
  "serve_with P c s =
     (case service_webhook (Digest P) (DecodeEvent P) c of
        None \<Rightarrow> (Inl BuildWebhook, [])
      | Some _ \<Rightarrow>
          (case buildSweep (UnicodeOf P) (Compile P) (Digest P) (HasCredentials P) (Validate P) c of
             Inl e \<Rightarrow> (Inl e, [])
           | Inr handler \<Rightarrow>
               (case NewServer True True True (service_server c (handler \<noteq> None) (Rand P) (Post P) (ParseToken P)) s of
                  None \<Rightarrow> (Inl BuildServer, [])
                | Some _ \<Rightarrow> (ServerRun (Serve P (listen_address c)), [Listening (listen_address c)]))))"

definition Run :: "('f, 'w) process \<Rightarrow> getenv \<Rightarrow> 'w sys \<Rightarrow> (app_error + unit) \<times> process_event list" where
  "Run P env s =
     (case LoadConfig (LoaderOf P) env of
        Inl errs \<Rightarrow> (Inl (LoadConfiguration errs), [])
      | Inr c \<Rightarrow>
          (case openStore (Dial P) (Digest P) c of
             Inl e \<Rightarrow> (Inl e, [])
           | Inr _ \<Rightarrow> (case serve_with P c s of (r, trace) \<Rightarrow> (r, StoreOpened # trace @ [StoreClosed]))))"

text \<open>The import command, over a store that is open already (import.go).\<close>

definition Import :: "'w env \<Rightarrow> loader \<Rightarrow> getenv \<Rightarrow> (string \<Rightarrow> pattern option) \<Rightarrow>
    (int \<Rightarrow> int \<Rightarrow> 'w \<Rightarrow> (strava_error + StravaActivity list) \<times> 'w) \<Rightarrow> (duration \<Rightarrow> 'w \<Rightarrow> bool \<times> 'w) \<Rightarrow>
    'w sys \<Rightarrow> (app_error + import_outcome option) \<times> 'w sys" where
  "Import E L env compile listing pause s =
     (case LoadImport L env of
        Inl errs \<Rightarrow> (Inl (LoadConfiguration errs), s)
      | Inr c \<Rightarrow>
          (case run_state (openBoundStore E c) s of
             (Inl e, s') \<Rightarrow> (Inl e, s')
           | (Inr athlete, s') \<Rightarrow>
               (case importClient of
                  None \<Rightarrow> (Inl BuildClient, s')
                | Some _ \<Rightarrow>
                    (case importWith E compile c listing pause athlete s' of
                       Inl e \<Rightarrow> (Inl e, s')
                     | Inr None \<Rightarrow> (Inr None, s')
                     | Inr (Some (outcome, s'')) \<Rightarrow> (Inr (Some outcome), s'')))))"

text \<open>\<^verbatim>\<open>main\<close> of the commands: an error is exit code 1.\<close>

definition exit_code :: "app_error + 'a \<Rightarrow> int" where
  "exit_code r = (case r of Inl _ \<Rightarrow> 1 | Inr _ \<Rightarrow> 0)"

section \<open>What the process does\<close>

text \<open>What can still stop an accepted configuration: the credentials, and the first pattern that does not compile.\<close>

definition no_credentials :: "('f, 'w) process \<Rightarrow> settings \<Rightarrow> bool" where
  "no_credentials P c \<longleftrightarrow> LLMProviderOf (LLMOf c) = ProviderVertex \<and> \<not> HasCredentials P"

definition bad_pattern :: "('f, 'w) process \<Rightarrow> settings \<Rightarrow> string option" where
  "bad_pattern P c =
     find (\<lambda>p. trim_space p \<noteq> [] \<and> Compile P (anchored p) = None) (MachineTitlePatterns (LLMOf c))"

lemma NewMachineTitles_find:
  "(case NewMachineTitles compile ps of Inl p \<Rightarrow> Some p | Inr _ \<Rightarrow> None) =
     find (\<lambda>p. trim_space p \<noteq> [] \<and> compile (anchored p) = None) ps"
  by (induction ps) (auto split: option.splits sum.splits)

lemma classifierConfig_find:
  "bad_pattern P c = Some p \<longleftrightarrow> classifierConfig (Compile P) c = Inl (CompileMachineTitles p)"
  "classifierConfig (Compile P) c = Inl e \<Longrightarrow> \<exists>p. e = CompileMachineTitles p"
  "bad_pattern P c = None \<longleftrightarrow> (\<exists>rules. classifierConfig (Compile P) c = Inr rules)"
  by (cases "MachineTitlePatterns (LLMOf c)";
      auto simp: classifierConfig_def bad_pattern_def NewMachineTitles_find [symmetric] split: sum.splits)+

lemma serve_with_exact:
  assumes "LoadConfig L env = Inr c"
  shows "serve_with P c s =
    (if Enabled (SweepSettings c) \<and> no_credentials P c then (Inl VertexCredentials, [])
     else case bad_pattern P c of
       Some p \<Rightarrow> if Enabled (SweepSettings c) then (Inl (CompileMachineTitles p), [])
         else (ServerRun (Serve P (listen_address c)), [Listening (listen_address c)])
     | None \<Rightarrow> (ServerRun (Serve P (listen_address c)), [Listening (listen_address c)]))"
proof -
  obtain hook where hook: "service_webhook (Digest P) (DecodeEvent P) c = Some hook"
    using accepted_webhook [OF assms] by blast
  let ?build = "buildSweep (UnicodeOf P) (Compile P) (Digest P) (HasCredentials P) (Validate P) c"
  note swept = accepted_sweep_exact [OF assms, where U = "UnicodeOf P" and compile = "Compile P" and digest = "Digest P" and
      has_credentials = "HasCredentials P" and validator = "Validate P"]
  show ?thesis
  proof (cases ?build)
    case (Inl e)
    with swept show ?thesis
      by (auto simp: serve_with_def hook no_credentials_def classifierConfig_find(1,3)
          split: if_splits option.splits dest: classifierConfig_find(2))
  next
    case (Inr handler)
    obtain srv where srv: "NewServer True True True (service_server c (handler \<noteq> None) (Rand P) (Post P) (ParseToken P)) s = Some srv"
      using accepted_server [OF assms] by blast
    have "serve_with P c s = (ServerRun (Serve P (listen_address c)), [Listening (listen_address c)])"
      by (simp only: serve_with_def hook option.case Inr sum.case srv)
    with swept Inr show ?thesis
      by (auto simp: no_credentials_def classifierConfig_find(1) split: option.splits)
  qed
qed

lemma openStore_exact:
  "openStore (Dial P) digest c = Inl e \<longleftrightarrow> e = OpenStoreFailed \<and> FirestoreProject c \<noteq> [] \<and>
     Dial P (FirestoreProject c) (if FirestoreDatabase c = [] then None else Some (FirestoreDatabase c)) = None"
  by (auto simp: openStore_def PersistentStore_def NewFirestore_def split: option.splits)

text \<open>C22: What the process does, exactly. A configuration that does not load is reported with nothing opened. With
  one that loads the store is opened, which fails only where a Firestore project is named and its client cannot
  be made. Then an enabled sweep stops the start where it lacks the cloud credentials of its provider, or else
  names a pattern that does not compile, the first of which is reported; the store is closed again. In every
  other case the process listens, once, on the configured port, which is a port, until serving ends, and
  closes the store last. It exits with 0 exactly where it listened and was then closed, or cancelled and
  shut down in time.\<close>

theorem process_lifecycle:
  assumes "Run P env s = (r, trace)"
  shows "(case LoadConfig (LoaderOf P) env of
       Inl errs \<Rightarrow> r = Inl (LoadConfiguration errs) \<and> trace = []
     | Inr c \<Rightarrow>
         if FirestoreProject c \<noteq> [] \<and>
           Dial P (FirestoreProject c) (if FirestoreDatabase c = [] then None else Some (FirestoreDatabase c)) = None
         then r = Inl OpenStoreFailed \<and> trace = []
         else if Enabled (SweepSettings c) \<and> no_credentials P c
         then r = Inl VertexCredentials \<and> trace = [StoreOpened, StoreClosed]
         else if Enabled (SweepSettings c) \<and> bad_pattern P c \<noteq> None
         then r = Inl (CompileMachineTitles (the (bad_pattern P c))) \<and> trace = [StoreOpened, StoreClosed]
         else r = ServerRun (Serve P ('':'' @ show_int (HTTPPort c))) \<and>
           trace = [StoreOpened, Listening ('':'' @ show_int (HTTPPort c)), StoreClosed] \<and>
           1 \<le> HTTPPort c \<and> HTTPPort c \<le> 65535)
    \<and> (exit_code r = 0 \<longleftrightarrow> (\<exists>c. LoadConfig (LoaderOf P) env = Inr c \<and>
         Listening (listen_address c) \<in> set trace \<and> Serve P (listen_address c) \<in> {ListenerClosed, Cancelled None}))"
proof (cases "LoadConfig (LoaderOf P) env")
  case (Inl errs)
  with assms show ?thesis by (auto simp: Run_def exit_code_def)
next
  case (Inr c)
  have port: "1 \<le> HTTPPort c \<and> HTTPPort c \<le> 65535"
    using load_numbers(1) Inr by (auto simp: LoadConfig_def)
  show ?thesis
  proof (cases "openStore (Dial P) (Digest P) c")
    case (Inl e)
    with openStore_exact [of P "Digest P" c e] Inr assms show ?thesis by (auto simp: Run_def exit_code_def)
  next
    case opened: (Inr S)
    then have "\<not> (FirestoreProject c \<noteq> [] \<and>
        Dial P (FirestoreProject c) (if FirestoreDatabase c = [] then None else Some (FirestoreDatabase c)) = None)"
      using openStore_exact [of P "Digest P" c OpenStoreFailed] by auto
    moreover obtain r' t where serve: "serve_with P c s = (r', t)" by fastforce
    moreover from serve Inr opened assms have "r = r'" "trace = StoreOpened # t @ [StoreClosed]" by (auto simp: Run_def)
    ultimately show ?thesis using serve_with_exact [OF Inr, of P s] Inr port
      by (auto simp: listen_address_def ServerRun_def exit_code_def split: serve_end.splits option.splits if_splits)
  qed
qed

definition sample_process :: "(unit, nat) process" where
  "sample_process = \<lparr>LoaderOf = sample_loader, UnicodeOf = latin1, Compile = (\<lambda>_. None), HasCredentials = True,
     Validate = (\<lambda>_ _ w. (Inl [], w)), Dial = (\<lambda>_ _. None), Digest = id, DecodeEvent = (\<lambda>_. None),
     Rand = (\<lambda>w. (None, w)), Post = (\<lambda>_ _ w. (Inl DecodeFailed, w)), ParseToken = (\<lambda>_. None), Serve = (\<lambda>_. Cancelled None)\<rparr>"

lemma sample_settings:
  "PersistentStore (load_values sample_loader sample_getenv True) \<longleftrightarrow> False"
  "Enabled (SweepSettings (load_values sample_loader sample_getenv True)) \<longleftrightarrow> False"
  by (simp_all add: PersistentStore_def load_values_def loadFirestore_def loadSweep_def no_sweep_def Enabled_def
      sample_getenv_def sample_vars_def env_names)

lemma process_lifecycle_witness:
  "\<exists>r address. Run sample_process sample_getenv sample_start = (r, [StoreOpened, Listening address, StoreClosed]) \<and>
     exit_code r = 0"
proof -
  let ?c = "load_values sample_loader sample_getenv True"
  obtain r trace where run: "Run sample_process sample_getenv sample_start = (r, trace)" by fastforce
  have c: "LoadConfig (LoaderOf sample_process) sample_getenv = Inr ?c"
    by (simp add: sample_process_def sample_loaded)
  have "FirestoreProject ?c = []" using sample_settings(1) by (simp add: PersistentStore_def)
  with process_lifecycle [OF run] c sample_settings
  have "trace = [StoreOpened, Listening (listen_address ?c), StoreClosed]" by (simp add: listen_address_def)
  moreover from this process_lifecycle [OF run] c have "exit_code r = 0"
    by (simp add: sample_process_def)
  ultimately show ?thesis using run by blast
qed

end
