(* ===== verification/Commands.thy ===== *)
theory Commands
  imports Process
begin

text \<open>
  The three commands of \<^verbatim>\<open>cmd\<close>: what each \<^verbatim>\<open>main\<close> runs and its exit code, and the flags of titelheld-config
  as the package \<^verbatim>\<open>flag\<close> parses them, exiting on an error. The signal handler is the cancellation the
  operations already take from the world; the logger is left out.
\<close>

section \<open>Flags (titelheld-config)\<close>

definition repeatable_Set :: "string \<Rightarrow> string list \<Rightarrow> string list" where
  "repeatable_Set value r = r @ [value]"

datatype flags = FlagHelp | FlagError | FlagsParsed "string list"

text \<open>The name of a flag, and its value where an equals sign after the first byte gives it one.\<close>

fun flag_split :: "string \<Rightarrow> string \<times> string option" where
  "flag_split [] = ([], None)"
| "flag_split (c # cs) =
     (let name = takeWhile (\<lambda>d. d \<noteq> CHR ''='') cs in
      (c # name, if length name < length cs then Some (drop (length name + 1) cs) else None))"

text \<open>
  \<^verbatim>\<open>flag.Parse\<close> with the one flag \<^verbatim>\<open>-reserve\<close>: it stops at the first argument that is no flag, and at
  two dashes.
\<close>

fun parse_flags :: "string list \<Rightarrow> string list \<Rightarrow> flags" where
  "parse_flags [] reserve = FlagsParsed reserve"
| "parse_flags (s # rest) reserve =
     (if length s < 2 \<or> hd s \<noteq> CHR ''-'' \<or> s = ''--'' then FlagsParsed reserve
      else let flag = (if s ! 1 = CHR ''-'' then drop 2 s else drop 1 s); (name, value) = flag_split flag in
        if hd flag = CHR ''-'' \<or> hd flag = CHR ''='' then FlagError
        else if name \<noteq> ''reserve'' then (if name \<in> {''help'', ''h''} then FlagHelp else FlagError)
        else case value of
          Some v \<Rightarrow> parse_flags rest (repeatable_Set v reserve)
        | None \<Rightarrow> (case rest of [] \<Rightarrow> FlagError | v # rest' \<Rightarrow> parse_flags rest' (repeatable_Set v reserve)))"

section \<open>The commands\<close>

definition config_main :: "'w env \<Rightarrow> getenv \<Rightarrow> string list \<Rightarrow> 'w sys \<Rightarrow> int \<times> 'w sys" where
  "config_main E env args s =
     (case parse_flags args [] of
        FlagHelp \<Rightarrow> (0, s)
      | FlagError \<Rightarrow> (2, s)
      | FlagsParsed reserve \<Rightarrow> (let (r, s') = run_state (SeedConfig E env reserve) s in (exit_code r, s')))"

definition service_main :: "('f, 'w) process \<Rightarrow> getenv \<Rightarrow> 'w sys \<Rightarrow> int \<times> process_event list" where
  "service_main P env s = (let (r, trace) = Run P env s in (exit_code r, trace))"

text \<open>An import over a listing that never ends does not exit.\<close>

definition import_main :: "'w env \<Rightarrow> loader \<Rightarrow> getenv \<Rightarrow> (string \<Rightarrow> pattern option) \<Rightarrow>
    (int \<Rightarrow> int \<Rightarrow> 'w \<Rightarrow> (strava_error + StravaActivity list) \<times> 'w) \<Rightarrow> (duration \<Rightarrow> 'w \<Rightarrow> bool \<times> 'w) \<Rightarrow>
    'w sys \<Rightarrow> int option \<times> 'w sys" where
  "import_main E L env compile listing pause s =
     (case Import E L env compile listing pause s of
        (Inr None, s') \<Rightarrow> (None, s')
      | (r, s') \<Rightarrow> (Some (exit_code r), s'))"

section \<open>What the commands do\<close>

text \<open>Each name given with its flag is reserved, in order, whatever it looks like.\<close>

lemma flags_in_order:
  "parse_flags (concat (map (\<lambda>v. [''-reserve'', v]) vs)) r = FlagsParsed (r @ vs)"
  "parse_flags (map (\<lambda>v. ''-reserve='' @ v) vs) r = FlagsParsed (r @ vs)"
  by (induction vs arbitrary: r) (simp_all add: repeatable_Set_def)

text \<open>So the command seeds with exactly the names on its command line, and one it cannot read writes nothing.\<close>

lemma config_main_reserves:
  "config_main E env (concat (map (\<lambda>v. [''-reserve'', v]) vs)) s =
     (let (r, s') = run_state (SeedConfig E env vs) s in (exit_code r, s'))"
  by (simp add: config_main_def flags_in_order)

lemma config_main_unread:
  "parse_flags args [] \<in> {FlagHelp, FlagError} \<Longrightarrow> snd (config_main E env args s) = s"
  by (auto simp: config_main_def)

text \<open>What follows an argument that is no flag is dropped, flags too.\<close>

lemma flags_after_argument:
  "hd s \<noteq> CHR ''-'' \<Longrightarrow> parse_flags (s # rest) reserve = FlagsParsed reserve"
  by simp

end
