(* ===== verification/Ledger.thy ===== *)
theory Ledger
  imports Processor
begin

text \<open>
  The contract of the named log, as an abstract machine: a set of recorded activities and the list
  of activities Strava was asked to rename. An activity is recorded at will; it is renamed only if
  it is not yet recorded, and is recorded by that. The service refines this machine step by step.
\<close>

section \<open>The machine\<close>

record ledger =
  recorded :: "actkey set"
  renamed :: "actkey list"

inductive ledger_step :: "ledger \<Rightarrow> ledger \<Rightarrow> bool" where
  record_it: "ledger_step l (l\<lparr>recorded := insert k (recorded l)\<rparr>)"
| rename_it: "k \<notin> recorded l \<Longrightarrow>
    ledger_step l \<lparr>recorded = insert k (recorded l), renamed = renamed l @ [k]\<rparr>"

abbreviation ledger_steps :: "ledger \<Rightarrow> ledger \<Rightarrow> bool" where
  "ledger_steps \<equiv> ledger_step\<^sup>*\<^sup>*"

text \<open>What the machine promises.\<close>

definition ledger_ok :: "ledger \<Rightarrow> bool" where
  "ledger_ok l \<longleftrightarrow> distinct (renamed l) \<and> set (renamed l) \<subseteq> recorded l"

lemma ledger_step_ok: "ledger_step l m \<Longrightarrow> ledger_ok l \<Longrightarrow> ledger_ok m"
  by (induction rule: ledger_step.induct) (auto simp: ledger_ok_def)

lemma ledger_steps_ok: "ledger_steps l m \<Longrightarrow> ledger_ok l \<Longrightarrow> ledger_ok m"
  by (induction rule: rtranclp_induct) (auto intro: ledger_step_ok)

lemma ledger_steps_grow: "ledger_steps l m \<Longrightarrow> recorded l \<subseteq> recorded m \<and> prefix (renamed l) (renamed m)"
proof (induction rule: rtranclp_induct)
  case (step m n)
  from step(2,3) show ?case by (cases rule: ledger_step.cases) (auto simp: prefix_def)
qed simp

section \<open>The abstraction\<close>

definition ledger_of :: "'w sys \<Rightarrow> ledger" where
  "ledger_of s = \<lparr>recorded = {(a, i). Named (SStore s) a i \<noteq> None},
     renamed = map put_key (filter title_put (Puts s))\<rparr>"

text \<open>A run about one activity that sent no title.\<close>

lemma ledger_untitled:
  assumes "touches a i s t" "untitled s t"
  shows "ledger_steps (ledger_of s) (ledger_of t)"
proof -
  have r: "renamed (ledger_of t) = renamed (ledger_of s)"
    using assms(2) by (auto simp: ledger_of_def untitled_def list_all_iff filter_empty_conv)
  show ?thesis
  proof (cases "Named (SStore t) a i = None")
    case True
    then have "Named (SStore t) b j = Named (SStore s) b j" for b j
      using assms(1) by (cases "(b, j) = (a, i)") (auto simp: touches_def)
    then have "recorded (ledger_of t) = recorded (ledger_of s)" by (simp add: ledger_of_def)
    with r have "ledger_of t = ledger_of s" by simp
    then show ?thesis by simp
  next
    case False
    have "(b, j) \<in> recorded (ledger_of t) \<longleftrightarrow> (b, j) \<in> insert (a, i) (recorded (ledger_of s))" for b j
      using assms(1) False by (cases "(b, j) = (a, i)") (auto simp: touches_def ledger_of_def)
    then have "recorded (ledger_of t) = insert (a, i) (recorded (ledger_of s))" by auto
    with r have "ledger_of t = (ledger_of s)\<lparr>recorded := insert (a, i) (recorded (ledger_of s))\<rparr>" by simp
    then show ?thesis by (metis ledger_step.record_it r_into_rtranclp)
  qed
qed

lemma ledger_processOne:
  assumes "honest E" "run_state (processOne E D p) s = (r, s')"
  shows "ledger_steps (ledger_of s) (ledger_of s')"
proof -
  let ?a = "PAthleteID p" and ?i = "PActivityID p"
  have touch: "touches ?a ?i s s'" by (rule touches.mayD [OF touches_processOne [OF assms(1)] assms(2)])
  from assms(2) show ?thesis
  proof (cases rule: processOne_sends)
    case none
    show ?thesis by (rule ledger_untitled [OF touch none(1)])
  next
    case (title a w x d row)
    have i: "AID a = ?i" using assms(1) title(1) by (auto simp: honest_def)
    have "(b, j) \<in> recorded (ledger_of s') \<longleftrightarrow> (b, j) \<in> insert (?a, ?i) (recorded (ledger_of s))" for b j
      using touch title(6) i by (cases "(b, j) = (?a, ?i)") (auto simp: touches_def ledger_of_def)
    then have "recorded (ledger_of s') = insert (?a, ?i) (recorded (ledger_of s))" by auto
    moreover have "renamed (ledger_of s') = renamed (ledger_of s) @ [(?a, ?i)]"
      using title(3) i by (simp add: ledger_of_def)
    ultimately have "ledger_of s' = \<lparr>recorded = insert (?a, ?i) (recorded (ledger_of s)),
        renamed = renamed (ledger_of s) @ [(?a, ?i)]\<rparr>" by simp
    moreover have "(?a, ?i) \<notin> recorded (ledger_of s)" using title(2) by (simp add: ledger_of_def)
    ultimately show ?thesis by (metis ledger_step.rename_it r_into_rtranclp)
  qed
qed

lemma ledger_dequeue: "ledger_of (snd (run_state (dequeue E p o') s)) = ledger_of s"
  by (auto simp: dequeue_def run_store_write ledger_of_def split: prod.splits)

lemma ledger_silent: "silent s t \<Longrightarrow> ledger_of t = ledger_of s"
  by (simp add: silent_def ledger_of_def)

lemma ledger_sweep_loop:
  assumes "run_state (sweep_loop E D ps r) s = (x, s')" "honest E"
  shows "ledger_steps (ledger_of s) (ledger_of s')"
  using assms
  by (induction rule: sweep_loop_induct)
    (auto simp: ledger_dequeue dest: ledger_processOne intro: rtranclp_trans)

section \<open>Properties\<close>

text \<open>C3: The service implements the ledger: every step it can take, be it a whole sweep over any number
  of activities with any faults, a delivery, an import, a restart or a change outside, is a sequence
  of steps of the abstract machine, which records at will and renames only what is not recorded.
  Nothing it takes away: what was recorded stays recorded.\<close>

theorem service_refines_ledger:
  assumes "honest E" and "step E s t"
  shows "ledger_steps (ledger_of s) (ledger_of t) \<and> recorded (ledger_of s) \<subseteq> recorded (ledger_of t)"
proof -
  from assms(2) have "ledger_steps (ledger_of s) (ledger_of t)"
  proof cases
    case (sweep D r)
    then show ?thesis
    proof (cases rule: run_Sweep)
      case unread
      then show ?thesis by (simp add: ledger_silent)
    next
      case (swept w)
      from ledger_sweep_loop [OF swept(2) assms(1)] ledger_silent [OF swept(1)] show ?thesis by simp
    qed
  next
    case (delivery p)
    then show ?thesis by (simp add: ledger_of_def)
  next
    case (imported n)
    let ?k = "(NAthleteID n, NActivityID n)"
    have "ledger_of t = (ledger_of s)\<lparr>recorded := insert ?k (recorded (ledger_of s))\<rparr>"
      using imported by (auto simp: ledger_of_def Named_MarkNamed)
    then show ?thesis by (metis ledger_step.record_it r_into_rtranclp)
  qed (simp_all add: ledger_of_def)
  with ledger_steps_grow show ?thesis by blast
qed

lemma service_refines_ledger_witness:
  "ledger_steps (ledger_of sample_start) (ledger_of sample_end) \<and> renamed (ledger_of sample_end) = [(7, 1)]"
  using service_refines_ledger [OF sample_honest step.sweep [OF sample_sweep]]
  by (simp add: ledger_of_def sample_end_def)

text \<open>In every state the service can reach the store is well formed: one row, one entry and one token
  per key, each filed under its own identifiers, and no series position below zero.\<close>

theorem store_well_formed:
  assumes "reachable E s"
  shows "wf_Memory (SStore s) \<and>
    (\<forall>a i. case Named (SStore s) a i of None \<Rightarrow> True | Some row \<Rightarrow> ActivityID row = i) \<and>
    (\<forall>a f. 0 \<le> FranchisePosition (SStore s) a f)"
proof -
  have wf: "wf_Memory (SStore s)" using reachable_recorded [OF assms] by (simp add: recorded_titles_def)
  then have "Named (SStore s) a i = Some row \<Longrightarrow> ActivityID row = i" for a i row
    by (auto simp: wf_Memory_def rows_keyed_def list_all_iff Named_def dest!: map_of_SomeD)
  with wf mf.position_nonneg [OF wf] show ?thesis by (simp split: option.splits)
qed

lemma store_well_formed_witness: "wf_Memory (SStore sample_end)"
  using store_well_formed [OF sample_reachable(2)] by blast

end
