(* ===== verification/Interleave.thy ===== *)
theory Interleave
  imports Ledger
begin

text \<open>
  Events that arrive during a sweep. The webhook and the sweep of \<^verbatim>\<open>processor.go\<close> share the store and run at
  the same time; theory Processor lets them take turns, a sweep being one turn. Here a sweep is a sequence
  of turns, two per entry of the queue (it is processed, then it is dequeued), with deliveries, imports,
  changes outside and the end of the process between any two; and a delivery in the middle of an entry is
  shown to be one before it, because nothing that processes an entry looks at the queue.
\<close>

section \<open>Programs that do not look at the queue\<close>

definition with_queue :: "(actkey \<times> Pending) list \<Rightarrow> 'w sys \<Rightarrow> 'w sys" where
  "with_queue q s = s\<lparr>SStore := (SStore s)\<lparr>mPending := q\<rparr>\<rparr>"

definition blind :: "('w sys, 'a) state \<Rightarrow> bool" where
  "blind m \<longleftrightarrow> (\<forall>q s. run_state m (with_queue q s) = map_prod id (with_queue q) (run_state m s))"

lemma blindI: "(\<And>q s. run_state m (with_queue q s) = map_prod id (with_queue q) (run_state m s)) \<Longrightarrow> blind m"
  by (simp add: blind_def)

lemma blindD: "blind m \<Longrightarrow> run_state m s = (a, t) \<Longrightarrow> run_state m (with_queue q s) = (a, with_queue q t)"
  by (simp add: blind_def)

lemma with_queue_same [simp]: "with_queue (mPending (SStore s)) s = s"
  by (simp add: with_queue_def)

lemma with_queue_select [simp]:
  "World (with_queue q s) = World s" "mPending (SStore (with_queue q s)) = q" "Puts (with_queue q s) = Puts s"
  "GearCache (with_queue q s) = GearCache s" "ExampleCache (with_queue q s) = ExampleCache s"
  "FranchiseCache (with_queue q s) = FranchiseCache s" "with_queue q (with_queue q' s) = with_queue q s"
  "SStore (with_queue q s) = (SStore s)\<lparr>mPending := q\<rparr>"
  by (simp_all add: with_queue_def)

lemma blind_keeps_queue: "blind m \<Longrightarrow> run_state m s = (a, t) \<Longrightarrow> mPending (SStore t) = mPending (SStore s)"
  by (metis blindD prod.inject with_queue_same with_queue_select(2))

lemma blind_return: "blind (return a)"
  by (rule blindI) simp

lemma blind_call: "blind (call f)"
  by (rule blindI) (simp add: with_queue_def split: prod.splits)

lemma blind_reads: "(\<And>q s. f (with_queue q s) = f s) \<Longrightarrow> blind (reads f)"
  by (rule blindI) simp

lemma blind_changes: "(\<And>q s. f (with_queue q s) = with_queue q (f s)) \<Longrightarrow> blind (changes f)"
  by (rule blindI) simp

lemma blind_bind: "blind m \<Longrightarrow> (\<And>a. blind (f a)) \<Longrightarrow> blind (State_Monad.bind m f)"
  by (rule blindI) (simp add: blind_def split: prod.splits)

lemma blind_check: "blind m \<Longrightarrow> (\<And>a. blind (k a)) \<Longrightarrow> blind (check m wrap k)"
  unfolding check_def by (rule blind_bind) (auto split: sum.splits intro: blind_return)

lemma blind_if: "(b \<Longrightarrow> blind m) \<Longrightarrow> (\<not> b \<Longrightarrow> blind n) \<Longrightarrow> blind (if b then m else n)"
  by simp

lemma blind_option: "(x = None \<Longrightarrow> blind m) \<Longrightarrow> (\<And>a. x = Some a \<Longrightarrow> blind (f a)) \<Longrightarrow>
    blind (case x of None \<Rightarrow> m | Some a \<Rightarrow> f a)"
  by (simp split: option.splits)

lemma blind_sum: "(\<And>a. x = Inl a \<Longrightarrow> blind (f a)) \<Longrightarrow> (\<And>b. x = Inr b \<Longrightarrow> blind (g b)) \<Longrightarrow>
    blind (case x of Inl a \<Rightarrow> f a | Inr b \<Rightarrow> g b)"
  by (simp split: sum.splits)

lemma blind_prod: "(\<And>a b. x = (a, b) \<Longrightarrow> blind (f a b)) \<Longrightarrow> blind (case x of (a, b) \<Rightarrow> f a b)"
  by (simp split: prod.splits)

lemma blind_store_read: "(\<And>q m. f (m\<lparr>mPending := q\<rparr>) = f m) \<Longrightarrow> blind (store_read E f)"
  unfolding store_read_def
  by (intro blind_bind blind_call blind_if blind_return blind_reads) simp

lemma blind_store_write:
  assumes "\<And>q m. f (m\<lparr>mPending := q\<rparr>) = (f m)\<lparr>mPending := q\<rparr>"
  shows "blind (store_write E f)"
  by (rule blindI) (simp add: run_store_write with_queue_def assms split: prod.splits)

lemmas blind_rules = blind_return blind_call blind_bind blind_check blind_if blind_option blind_sum blind_prod

text \<open>The store's operations on everything but the queue.\<close>

lemma reads_past_queue [simp]:
  "Named (m\<lparr>mPending := q\<rparr>) a i = Named m a i" "RecentTitles (m\<lparr>mPending := q\<rparr>) a l = RecentTitles m a l"
  "GetAthleteConfig (m\<lparr>mPending := q\<rparr>) a = GetAthleteConfig m a"
  "FranchisePosition (m\<lparr>mPending := q\<rparr>) a f = FranchisePosition m a f"
  by (simp_all add: Named_def RecentTitles_def athlete_rows_def GetAthleteConfig_def FranchisePosition_def)

lemma writes_past_queue [simp]:
  "MarkNamed (m\<lparr>mPending := q\<rparr>) n = (MarkNamed m n)\<lparr>mPending := q\<rparr>"
  "advance_store a f j (m\<lparr>mPending := q\<rparr>) = (advance_store a f j m)\<lparr>mPending := q\<rparr>"
  by (auto simp: MarkNamed_def advance_store_def AdvanceFranchisePast_def FranchisePosition_def Let_def)

section \<open>Nothing that processes an entry looks at the queue\<close>

lemma blind_now [simp, intro]: "blind (now_of E)"
  unfolding now_of_def by (rule blind_call)

lemma blind_mark [simp, intro]: "blind (mark_named E n)"
  unfolding mark_named_def by (rule blind_store_write) simp

lemma blind_fetch [simp, intro]: "blind (GetActivityCall E i)"
  unfolding GetActivityCall_def by (rule blind_call)

lemma blind_puts [simp, intro]: "blind (put_title E a i x d)" "blind (put_description E a i y)" "blind (complete_call E p)"
  unfolding put_title_def put_description_def complete_call_def
  by (intro blind_bind blind_changes blind_call; simp add: with_queue_def)+

lemma blind_franchiseNext [simp, intro]: "blind (franchiseNext E D a r)"
proof -
  have "blind (changes (\<lambda>s. s\<lparr>FranchiseCache := AList.update a f (FranchiseCache s)\<rparr>))" for f
    by (rule blind_changes) (simp add: with_queue_def)
  then have "blind (franchises E D a)"
    unfolding franchises_def Let_def by (intro blind_rules blind_reads blind_store_read) simp_all
  then show ?thesis unfolding franchiseNext_def by (intro blind_rules blind_store_read) simp_all
qed

lemma blind_example: "blind (example E e)"
proof -
  have "blind (changes (\<lambda>s. s\<lparr>ExampleCache := AList.update i x (ExampleCache s)\<rparr>))" for i x
    by (rule blind_changes) (simp add: with_queue_def)
  then show ?thesis unfolding example_def Let_def by (intro blind_rules blind_reads blind_fetch) simp_all
qed

lemma blind_derive: "blind (derive_examples E h xs n)"
  by (induction h arbitrary: xs n) (auto intro!: blind_rules blind_example)

lemma blind_promptContext [simp, intro]: "blind (promptContext E D a r)"
  unfolding promptContext_def history_def examplesFrom_def Let_def
  by (intro blind_rules blind_derive blind_franchiseNext blind_store_read) simp

lemma blind_ask [simp, intro]: "blind (ask E D p g a f s)"
  unfolding ask_def by (intro blind_rules blind_puts)

lemma blind_offers: "blind again \<Longrightarrow> blind plain \<Longrightarrow> blind (offers uses again plain n t)"
  by (induction n arbitrary: t) (auto intro!: blind_rules)

lemma blind_complete [simp, intro]: "blind (complete E D ride g)"
  unfolding complete_def offered_ask_def plain_ask_def Let_def by (intro blind_rules blind_offers blind_ask)

lemma blind_gearName [simp, intro]: "blind (gearName_of E i)"
proof -
  have "blind (changes (\<lambda>s. s\<lparr>GearCache := AList.update i x (GearCache s)\<rparr>))" for x
    by (rule blind_changes) (simp add: with_queue_def)
  then show ?thesis unfolding gearName_of_def Let_def by (intro blind_rules blind_reads) simp_all
qed

lemma blind_title_of [simp, intro]: "blind (title_of E D athlete a d)"
proof -
  have "blind (llmTitle E D athlete a d)"
    unfolding llmTitle_def locate_def geography_def
    by (intro blind_rules blind_gearName blind_promptContext blind_complete)
  then show ?thesis unfolding title_of_def by (cases "ActionOf d") (simp_all add: blind_return)
qed

lemma blind_write_title [simp, intro]: "blind (write_title E D athlete a t)"
proof -
  have "blind (recordFranchise E athlete t)"
    unfolding recordFranchise_def by (intro blind_rules blind_store_write) simp
  then show ?thesis
    unfolding write_title_def new_description_def reconcileTitle_def
    by (intro blind_rules blind_mark blind_now blind_fetch blind_puts)
qed

lemma blind_reconcileOne [simp, intro]: "blind (reconcileOne E D p r)"
  unfolding reconcileOne_def reconcile_activity_def recordRename_def removeAttribution_def ride_date_def
  by (intro blind_rules blind_mark blind_now blind_fetch blind_puts)

lemma blind_name_activity [simp, intro]: "blind (name_activity E D p a)"
proof -
  have "blind (recordHumanTitle E D athlete a d)" "blind (skip E D p d)" for athlete d
    unfolding recordHumanTitle_def ride_date_def skip_def Let_def by (intro blind_rules blind_mark blind_now)+
  then show ?thesis
    unfolding name_activity_def Let_def by (intro blind_rules blind_title_of blind_write_title)
qed

lemma blind_processOne [simp, intro]: "blind (processOne E D p)"
  unfolding processOne_def
  by (intro blind_rules blind_store_read blind_reconcileOne blind_fetch blind_name_activity) simp

text \<open>An event enters the queue, unless one for its activity waits there.\<close>

definition deliver :: "Pending \<Rightarrow> 'w sys \<Rightarrow> 'w sys" where
  "deliver p s = s\<lparr>SStore := fst (Enqueue (SStore s) p)\<rparr>"

definition enqueued :: "Pending \<Rightarrow> (actkey \<times> Pending) list \<Rightarrow> (actkey \<times> Pending) list" where
  "enqueued p q = (if map_of q (pending_key p) = None then AList.update (pending_key p) p q else q)"

lemma deliver_queue: "deliver p s = with_queue (enqueued p (mPending (SStore s))) s"
  by (simp add: deliver_def with_queue_def enqueued_def Enqueue_def Let_def split: option.splits)

lemma blind_deliver: "blind m \<Longrightarrow> run_state m s = (a, t) \<Longrightarrow> run_state m (deliver p s) = (a, deliver p t)"
  by (simp add: deliver_queue blind_keeps_queue blindD)

lemma blind_commutes: "blind m \<Longrightarrow> run_state m (deliver q s) = map_prod id (deliver q) (run_state m s)"
  by (cases "run_state m s") (simp add: blind_deliver)

lemmas deliver_commutes = blind_commutes [OF blind_processOne] blind_commutes [OF blind_reconcileOne]
  blind_commutes [OF blind_name_activity] blind_commutes [OF blind_write_title]

text \<open>Taking out one entry and adding another may change places.\<close>

lemma update_delete_other: "k \<noteq> l \<Longrightarrow> AList.update k v (AList.delete l xs) = AList.delete l (AList.update k v xs)"
  by (induction xs) (auto simp: AList.delete_eq)

lemma enqueued_delete:
  "l \<noteq> pending_key q \<Longrightarrow> enqueued q (AList.delete l xs) = AList.delete l (enqueued q xs)"
  by (simp add: enqueued_def delete_conv' update_delete_other)

lemma dequeue_commutes:
  assumes "pending_key q \<noteq> pending_key p"
  shows "snd (run_state (dequeue E p o') (deliver q s)) = deliver q (snd (run_state (dequeue E p o') s))"
proof -
  have "(PAthleteID p, PActivityID p) \<noteq> pending_key q" using assms by (auto simp: pending_key_def)
  then show ?thesis
    by (auto simp: dequeue_def run_store_write deliver_queue with_queue_def Remove_def enqueued_delete split: prod.splits)
qed

lemma loop_commutes:
  "pending_key q \<notin> pending_key ` set ps \<Longrightarrow>
   run_state (sweep_loop E D ps r) (deliver q s) = map_prod id (deliver q) (run_state (sweep_loop E D ps r) s)"
proof (induction ps arbitrary: r s)
  case (Cons p ps)
  obtain x s1 where x: "run_state (processOne E D p) s = (x, s1)" by fastforce
  have world: "World (deliver q s) = World s" by (simp add: deliver_queue)
  from Cons x show ?case
    by (cases x) (auto simp: run_sweep_step deliver_commutes(1) world dequeue_commutes)
qed simp

section \<open>A sweep in turns\<close>

datatype sweep_phase = NoSweep | Going deps "Pending list" Result | Closing deps Pending outcome "Pending list" Result

text \<open>What may happen between two turns of a sweep, or when there is none: an event, an import, the world.\<close>

inductive meanwhile :: "'w sys \<Rightarrow> 'w sys \<Rightarrow> bool" where
  delivery: "meanwhile s (deliver p s)"
| imported: "meanwhile s (s\<lparr>SStore := MarkNamed (SStore s) n\<rparr>)"
| outside: "meanwhile s (s\<lparr>World := w\<rparr>)"

definition next_phase :: "deps \<Rightarrow> Pending \<Rightarrow> Pending list \<Rightarrow> Result \<Rightarrow> proc_error + outcome \<Rightarrow> sweep_phase" where
  "next_phase D p ps r ending =
     (case ending of
        Inl e \<Rightarrow> if e = IndexPanic then NoSweep else Going D ps (r\<lparr>RFailed := RFailed r + 1\<rparr>)
      | Inr o' \<Rightarrow> Closing D p o' ps r)"

text \<open>The process may end at any turn; the next one starts without caches.\<close>

inductive turn_step :: "'w env \<Rightarrow> 'w sys \<times> sweep_phase \<Rightarrow> 'w sys \<times> sweep_phase \<Rightarrow> bool" for E where
  starts: "run_state (now_of E) s = (date, s1) \<Longrightarrow> run_state (store_read E (\<lambda>m. Due m date)) s1 = (due, s2) \<Longrightarrow>
    turn_step E (s, NoSweep)
      (s2, case due of None \<Rightarrow> NoSweep | Some ps \<Rightarrow> Going D ps (empty_result (length ps)))"
| ends: "ps = [] \<or> ctx_done E (World s) \<Longrightarrow> turn_step E (s, Going D ps r) (s, NoSweep)"
| processed: "\<not> ctx_done E (World s) \<Longrightarrow> run_state (processOne E D p) s = (ending, t) \<Longrightarrow>
    turn_step E (s, Going D (p # ps) r) (t, next_phase D p ps r ending)"
| closed: "run_state (dequeue E p o') s = (ok, t) \<Longrightarrow>
    turn_step E (s, Closing D p o' ps r) (t, Going D ps (count_of o' r))"
| interleaved: "meanwhile s t \<Longrightarrow> turn_step E (s, ph) (t, ph)"
| stopped: "turn_step E (s, ph) (s\<lparr>GearCache := [], ExampleCache := [], FranchiseCache := []\<rparr>, NoSweep)"

inductive turns_reach :: "'w env \<Rightarrow> 'w sys \<times> sweep_phase \<Rightarrow> bool" for E where
  first: "wf_Memory m \<Longrightarrow> turns_reach E (NewProcessor w m, NoSweep)"
| later: "turns_reach E x \<Longrightarrow> turn_step E x y \<Longrightarrow> turns_reach E y"

abbreviation turn_steps :: "'w env \<Rightarrow> 'w sys \<times> sweep_phase \<Rightarrow> 'w sys \<times> sweep_phase \<Rightarrow> bool" where
  "turn_steps E \<equiv> (turn_step E)\<^sup>*\<^sup>*"

section \<open>The service that takes turns is one of these\<close>

lemma loop_turns:
  assumes "run_state (sweep_loop E D ps r) s = (x, t)"
  shows "turn_steps E (s, Going D ps r) (t, NoSweep)"
  using assms
proof (induction ps arbitrary: r s)
  case Nil
  then show ?case by (auto intro!: r_into_rtranclp turn_step.ends)
next
  case (Cons p ps)
  show ?case
  proof (cases "ctx_done E (World s)")
    case True
    with Cons.prems show ?thesis by (auto simp: run_sweep_step intro!: r_into_rtranclp turn_step.ends)
  next
    case False
    obtain y s1 where y: "run_state (processOne E D p) s = (y, s1)" by fastforce
    have "turn_steps E (s1, next_phase D p ps r y) (t, NoSweep)"
    proof (cases y)
      case (Inl e)
      with Cons False y show ?thesis by (auto simp: run_sweep_step next_phase_def split: if_splits)
    next
      case (Inr o')
      obtain ok s2 where d: "run_state (dequeue E p o') s1 = (ok, s2)" by fastforce
      with Cons False y Inr have "turn_steps E (s2, Going D ps (count_of o' r)) (t, NoSweep)"
        by (simp add: run_sweep_step)
      with turn_step.closed [OF d] Inr show ?thesis
        by (simp add: next_phase_def) (meson converse_rtranclp_into_rtranclp)
    qed
    with turn_step.processed [OF False y] show ?thesis by (meson converse_rtranclp_into_rtranclp)
  qed
qed

text \<open>A sweep that is not interrupted is a run of turns, and so is every step of the service.\<close>

lemma sweep_turns:
  assumes "run_state (Sweep E D) s = (x, t)"
  shows "turn_steps E (s, NoSweep) (t, NoSweep)"
proof -
  obtain date s1 where 1: "run_state (now_of E) s = (date, s1)" by fastforce
  obtain due s2 where 2: "run_state (store_read E (\<lambda>m. Due m date)) s1 = (due, s2)" by fastforce
  note start = turn_step.starts [OF 1 2, of D]
  show ?thesis
  proof (cases due)
    case None
    with 1 2 assms have "t = s2" by (simp add: Sweep_def)
    with start None show ?thesis by auto
  next
    case (Some ps)
    with 1 2 assms have "run_state (sweep_loop E D ps (empty_result (length ps))) s2 = (x, t)" by (simp add: Sweep_def)
    from loop_turns [OF this] start Some show ?thesis by (auto intro: converse_rtranclp_into_rtranclp)
  qed
qed

lemma step_turns:
  assumes "step E s t"
  shows "turn_steps E (s, NoSweep) (t, NoSweep)"
  using assms
proof cases
  case (sweep D r)
  then show ?thesis by (rule sweep_turns)
next
  case (delivery p)
  have "turn_step E (s, NoSweep) (deliver p s, NoSweep)" by (intro turn_step.interleaved meanwhile.delivery)
  with delivery show ?thesis by (auto simp: deliver_def)
next
  case restart
  then show ?thesis using turn_step.stopped by auto
qed (auto intro: r_into_rtranclp turn_step.interleaved meanwhile.intros)

lemma turns_reach_steps: "turn_steps E x y \<Longrightarrow> turns_reach E x \<Longrightarrow> turns_reach E y"
  by (induction rule: rtranclp_induct) (auto intro: turns_reach.later)

lemma reachable_turns: "reachable E s \<Longrightarrow> turns_reach E (s, NoSweep)"
  by (induction rule: reachable.induct) (auto intro: turns_reach.first turns_reach_steps step_turns)

section \<open>What holds at every turn\<close>

text \<open>An invariant of one entry, of dequeueing and of what happens meanwhile holds at every turn.\<close>

definition untouched_rows :: "'w sys \<Rightarrow> 'w sys \<Rightarrow> bool" where
  "untouched_rows s t \<longleftrightarrow> Puts t = Puts s \<and> (keeps_rows s t \<or>
     (\<exists>p. SStore t = fst (Enqueue (SStore s) p)) \<or> (\<exists>n. SStore t = MarkNamed (SStore s) n))"

lemma untouched_meanwhile: "meanwhile s t \<Longrightarrow> untouched_rows s t"
  by (induction rule: meanwhile.induct) (auto simp: untouched_rows_def deliver_def keeps_rows_def)

lemma untouched_caches:
  "untouched_rows s (s\<lparr>GearCache := [], ExampleCache := [], FranchiseCache := []\<rparr>)"
  by (simp add: untouched_rows_def keeps_rows_def)

lemma untouched_silent: "silent s t \<Longrightarrow> untouched_rows s t"
  by (simp add: untouched_rows_def keeps_rows_def silent_def)

locale every_turn =
  fixes E :: "'w env" and I :: "'w sys \<Rightarrow> bool"
  assumes at_start: "wf_Memory m \<Longrightarrow> I (NewProcessor w m)"
    and at_entry: "triple I (processOne E D p) (\<lambda>_. I)"
    and at_dequeue: "triple I (dequeue E p o') (\<lambda>_. I)"
    and meantime: "I s \<Longrightarrow> untouched_rows s t \<Longrightarrow> I t"
begin

lemma one_turn:
  assumes "turn_step E (s, ph) (t, ph')" "I s"
  shows "I t"
  using assms(1)
proof cases
  case (starts date s1 due D)
  have "silent s s1" "silent s1 t"
    using silent.mayD [OF silent_primitives(1) starts(3)] silent.mayD [OF silent_primitives(2) starts(4)] by simp_all
  with assms(2) meantime untouched_silent show ?thesis by metis
next
  case (processed D p ending ps r)
  then show ?thesis using tripleD [OF at_entry processed(4)] assms(2) by blast
next
  case (closed p o' ok D ps r)
  then show ?thesis using tripleD [OF at_dequeue closed(3)] assms(2) by blast
next
  case interleaved
  with assms(2) meantime untouched_meanwhile show ?thesis by metis
next
  case stopped
  with assms(2) meantime untouched_caches show ?thesis by metis
qed (use assms(2) in auto)

lemma at_every_turn: "turns_reach E x \<Longrightarrow> I (fst x)"
  by (induction rule: turns_reach.induct) (use one_turn at_start in \<open>auto simp: split_paired_all\<close>)

end

interpretation written: every_turn E recorded_titles for E :: "'w env"
proof
  fix w :: 'w and m D p o' and s t :: "'w sys"
  show "recorded_titles (NewProcessor w m)" if "wf_Memory m"
    using NewProcessor_once [OF that, of w] by (simp add: named_once_def)
  show "recorded_titles t" if "recorded_titles s" "untouched_rows s t"
    using that recorded_titles_kept unfolding untouched_rows_def by blast
qed (rule recorded_titles_processOne dequeue_recorded)+

interpretation once: every_turn E "\<lambda>s. honest E \<longrightarrow> named_once s" for E :: "'w env"
proof
  fix w :: 'w and m D p o' and s t :: "'w sys"
  show "honest E \<longrightarrow> named_once (NewProcessor w m)" if "wf_Memory m"
    using NewProcessor_once [OF that, of w] by simp
  show "honest E \<longrightarrow> named_once t" if "honest E \<longrightarrow> named_once s" "untouched_rows s t"
    using that named_once_kept unfolding untouched_rows_def by blast
  show "triple (\<lambda>s. honest E \<longrightarrow> named_once s) (processOne E D p) (\<lambda>_ s. honest E \<longrightarrow> named_once s)"
    using named_once_processOne by (cases "honest E") (auto simp: triple_def)
  show "triple (\<lambda>s. honest E \<longrightarrow> named_once s) (dequeue E p o') (\<lambda>_ s. honest E \<longrightarrow> named_once s)"
    using dequeue_recorded(2) by (cases "honest E") (auto simp: triple_def)
qed

text \<open>A sweep under way has counted what it processed, and owes the rest.\<close>

fun counts :: "sweep_phase \<Rightarrow> bool" where
  "counts NoSweep = True"
| "counts (Going D ps r) \<longleftrightarrow> handled r + length ps = RDue r"
| "counts (Closing D p o' ps r) \<longleftrightarrow> handled r + Suc (length ps) = RDue r"

lemma turn_counts: "turn_step E x y \<Longrightarrow> counts (snd x) \<Longrightarrow> counts (snd y)"
  by (induction rule: turn_step.induct)
    (auto simp: next_phase_def empty_result_def handled_def [of "empty_result _"] split: option.splits sum.splits,
      auto simp: handled_def)

lemma turns_count: "turns_reach E x \<Longrightarrow> counts (snd x)"
  by (induction rule: turns_reach.induct) (auto dest: turn_counts)

text \<open>Every turn is a sequence of steps of the ledger.\<close>

lemma ledger_untouched: "untouched_rows s t \<Longrightarrow> SStore t = SStore s \<Longrightarrow> ledger_of t = ledger_of s"
  by (simp add: untouched_rows_def ledger_of_def)

lemma ledger_meanwhile: "meanwhile s t \<Longrightarrow> ledger_steps (ledger_of s) (ledger_of t)"
proof (induction rule: meanwhile.induct)
  case (imported s n)
  let ?k = "(NAthleteID n, NActivityID n)"
  have "ledger_of (s\<lparr>SStore := MarkNamed (SStore s) n\<rparr>) = (ledger_of s)\<lparr>recorded := insert ?k (recorded (ledger_of s))\<rparr>"
    by (auto simp: ledger_of_def Named_MarkNamed)
  then show ?case by (metis ledger_step.record_it r_into_rtranclp)
qed (simp_all add: ledger_of_def deliver_def)

lemma turn_ledger:
  assumes "honest E" "turn_step E (s, ph) (t, ph')"
  shows "ledger_steps (ledger_of s) (ledger_of t)"
  using assms(2)
proof cases
  case (starts date s1 due D)
  have "silent s s1" "silent s1 t"
    using silent.mayD [OF silent_primitives(1) starts(3)] silent.mayD [OF silent_primitives(2) starts(4)] by simp_all
  then show ?thesis by (simp add: ledger_silent)
next
  case (processed D p ending ps r)
  from ledger_processOne [OF assms(1) processed(4)] show ?thesis .
next
  case (closed p o' ok D ps r)
  with ledger_dequeue [of E p o' s] show ?thesis by simp
next
  case interleaved
  then show ?thesis by (simp add: ledger_meanwhile)
qed (simp_all add: ledger_of_def)

section \<open>Events\<close>

text \<open>The sweep is about to take the entry of \<open>k\<close> out of the queue.\<close>

definition closing :: "actkey \<Rightarrow> sweep_phase \<Rightarrow> bool" where
  "closing k ph \<longleftrightarrow> (\<exists>D p o' ps r. ph = Closing D p o' ps r \<and> \<not> staysQueued o' \<and> pending_key p = k)"

definition waiting :: "actkey \<Rightarrow> 'w sys \<Rightarrow> bool" where
  "waiting k s \<longleftrightarrow> pending_entry (SStore s) k \<noteq> None"

text \<open>Between \<open>x\<close> and \<open>y\<close> the activity was processed from start to end, to a final outcome.\<close>

definition processed_between :: "'w env \<Rightarrow> actkey \<Rightarrow> 'w sys \<times> sweep_phase \<Rightarrow> 'w sys \<times> sweep_phase \<Rightarrow> bool" where
  "processed_between E k x y \<longleftrightarrow> (\<exists>s D p ps r o' t. turn_steps E x (s, Going D (p # ps) r) \<and> pending_key p = k \<and>
     run_state (processOne E D p) s = (Inr o', t) \<and> \<not> staysQueued o' \<and> turn_steps E (t, Closing D p o' ps r) y)"

lemma processed_later: "processed_between E k x y \<Longrightarrow> turn_step E y z \<Longrightarrow> processed_between E k x z"
  unfolding processed_between_def by (blast intro: rtranclp.rtrancl_into_rtrancl)

lemma waiting_meanwhile: "meanwhile s t \<Longrightarrow> waiting k s \<Longrightarrow> waiting k t"
  by (induction rule: meanwhile.induct)
    (auto simp: waiting_def pending_entry_def deliver_queue enqueued_def MarkNamed_def update_conv' Let_def)

lemma waiting_queue: "mPending (SStore t) = mPending (SStore s) \<Longrightarrow> waiting k t = waiting k s"
  by (simp add: waiting_def pending_entry_def)

lemma waiting_dequeue:
  assumes "run_state (dequeue E p o') s = (ok, t)" "waiting k s" "staysQueued o' \<or> pending_key p \<noteq> k"
  shows "waiting k t"
  using assms
  by (cases rule: dequeue_cases [of E p o' s])
    (auto simp: waiting_def pending_entry_def Remove_def pending_key_def delete_conv')

lemma turn_waits:
  assumes "turn_step E (s, ph) (t, ph')" "waiting k s" "\<not> closing k ph"
    and "\<not> waiting k t \<or> closing k ph'"
  shows "\<exists>D p ps r o'. ph = Going D (p # ps) r \<and> pending_key p = k \<and> run_state (processOne E D p) s = (Inr o', t) \<and>
    \<not> staysQueued o' \<and> ph' = Closing D p o' ps r"
  using assms(1)
proof cases
  case (starts date s1 due D)
  have "silent s s1" "silent s1 t"
    using silent.mayD [OF silent_primitives(1) starts(3)] silent.mayD [OF silent_primitives(2) starts(4)] by simp_all
  then have "waiting k t" using assms(2) by (simp add: waiting_def silent_def)
  with starts assms(4) show ?thesis by (auto simp: closing_def split: option.splits)
next
  case (processed D p ending ps r)
  from blind_keeps_queue [OF blind_processOne processed(4)] have "waiting k t" using assms(2) waiting_queue by blast
  with processed assms(4) show ?thesis
    by (auto simp: closing_def next_phase_def split: sum.splits if_splits)
next
  case (closed p o' ok D ps r)
  with waiting_dequeue [OF closed(3) assms(2)] assms(3,4) show ?thesis by (auto simp: closing_def)
next
  case interleaved
  with waiting_meanwhile [OF interleaved(2) assms(2)] assms(3,4) show ?thesis by simp
next
  case stopped
  with assms(2,4) show ?thesis by (simp add: waiting_def closing_def)
qed (use assms(2,4) in \<open>simp add: closing_def\<close>)

lemma waits_or_processed:
  assumes "turn_steps E x y" "\<not> closing k (snd x)" "waiting k (fst x)"
  shows "waiting k (fst y) \<and> \<not> closing k (snd y) \<or> processed_between E k x y"
  using assms(1)
proof (induction rule: rtranclp_induct)
  case base
  with assms(2,3) show ?case by simp
next
  case (step y z)
  from step.IH show ?case
  proof
    assume now: "waiting k (fst y) \<and> \<not> closing k (snd y)"
    show ?case
    proof (cases "waiting k (fst z) \<and> \<not> closing k (snd z)")
      case False
      with turn_waits [of E "fst y" "snd y" "fst z" "snd z" k] now step(2) obtain D p ps r o' where
        "snd y = Going D (p # ps) r" "pending_key p = k" "run_state (processOne E D p) (fst y) = (Inr o', fst z)"
        "\<not> staysQueued o'" "snd z = Closing D p o' ps r" by auto
      with step(1) show ?thesis unfolding processed_between_def by (metis prod.collapse rtranclp.rtrancl_refl)
    qed simp
  qed (use step(2) processed_later in blast)
qed

text \<open>
  An event that arrives while its own entry is being taken out, be it during the processing or after it, is
  taken out with it: the queue holds one entry for the activity and the event added none.
\<close>

lemma deliver_waiting: "waiting (pending_key q) s \<Longrightarrow> deliver q s = s"
  by (auto simp: waiting_def pending_entry_def deliver_queue enqueued_def)

lemma event_at_the_end_is_lost:
  assumes "pending_key q = pending_key p" "\<not> staysQueued o'" "write_fault E (World s) = (NoFault, w)"
    and "run_state (dequeue E p o') (deliver q s) = (ok, t)"
  shows "\<not> waiting (pending_key q) t"
  using assms
  by (auto simp: dequeue_def run_store_write waiting_def pending_entry_def Remove_def pending_key_def delete_conv' deliver_def)

section \<open>Properties\<close>

text \<open>C14: An event that arrives during a sweep might as well have arrived after it. Whether an entry is about
  to be processed, its activity is about to be reconciled or named, or its title is about to be written, an
  event delivered then leaves the same outcome and, but for the event, the same state; and so it is for
  what is left of a sweep, at any entry, where the event is for none of the activities still to come.\<close>

theorem delivery_in_the_middle:
  "run_state (processOne E D p) (deliver q s) = map_prod id (deliver q) (run_state (processOne E D p) s) \<and>
   run_state (reconcileOne E D p row) (deliver q s) = map_prod id (deliver q) (run_state (reconcileOne E D p row) s) \<and>
   run_state (name_activity E D p a) (deliver q s) = map_prod id (deliver q) (run_state (name_activity E D p a) s) \<and>
   run_state (write_title E D b a t) (deliver q s) = map_prod id (deliver q) (run_state (write_title E D b a t) s) \<and>
   (pending_key q \<notin> pending_key ` set ps \<longrightarrow>
      run_state (sweep_loop E D ps r) (deliver q s) = map_prod id (deliver q) (run_state (sweep_loop E D ps r) s))"
  by (simp add: deliver_commutes loop_commutes)

definition other_event :: Pending where
  "other_event = sample_pending\<lparr>PActivityID := 2\<rparr>"

lemma delivery_in_the_middle_witness:
  "run_state (sweep_loop sample_env sample_deps [sample_pending] (empty_result 1)) (deliver other_event sample_start) =
     (Inr ((empty_result 1)\<lparr>RNamed := 1\<rparr>), deliver other_event sample_end) \<and>
   pending_entry (SStore (deliver other_event sample_end)) (7, 2) = Some other_event"
proof -
  have due: "Due (SStore sample_start) 1000 = [sample_pending]"
    by (simp add: Due_def SortPending_def sample_start_def NewProcessor_def pending_due_def sample_pending_def
        before_def)
  have loop: "run_state (sweep_loop sample_env sample_deps [sample_pending] (empty_result 1)) sample_start =
      (Inr ((empty_result 1)\<lparr>RNamed := 1\<rparr>), sample_end)"
    using sample_sweep by (simp add: Sweep_def now_of_def run_store_read due)
  have "pending_key other_event \<notin> pending_key ` set [sample_pending]"
    by (simp add: pending_key_def other_event_def sample_pending_def)
  with delivery_in_the_middle [of sample_env sample_deps sample_pending other_event sample_start sample_row
      sample_activity 7 "template_title []" "[sample_pending]" "empty_result 1"] loop
  have "run_state (sweep_loop sample_env sample_deps [sample_pending] (empty_result 1)) (deliver other_event sample_start) =
      (Inr ((empty_result 1)\<lparr>RNamed := 1\<rparr>), deliver other_event sample_end)" by simp
  moreover have "pending_entry (SStore (deliver other_event sample_end)) (7, 2) = Some other_event"
    by (simp add: deliver_queue enqueued_def pending_entry_def sample_end_def NewMemory_def pending_key_def
        other_event_def sample_pending_def)
  ultimately show ?thesis ..
qed

text \<open>C12: Renamed at most once and recorded first, whatever arrives during a sweep. Between any two turns of a
  sweep (an entry is processed, an entry is dequeued) there may be events, imports and changes outside, the
  process may end and another start, and every store write may fail; Strava is still asked for at most one
  title on an activity, and for none that was not in the named log then or is not recorded now.\<close>

theorem interleaved_names_once:
  assumes "honest E" "turns_reach E (s, ph)"
  shows "length (filter (\<lambda>p. title_put p \<and> put_key p = (athlete, i)) (Puts s)) \<le> 1 \<and>
    (\<forall>text d row. TitlePut athlete i text d row \<in> set (Puts s) \<longrightarrow>
       (\<exists>r. row = Some r \<and> NamedTitle.Title r = text \<and> ActivityID r = i) \<and> Named (SStore s) athlete i \<noteq> None)"
proof -
  from once.at_every_turn [OF assms(2)] assms(1) have one: "named_once s" by simp
  then have recorded: "list_all recorded_put (Puts s)" "sent_titles s athlete i \<noteq> [] \<Longrightarrow> Named (SStore s) athlete i \<noteq> None"
    by (auto simp: named_once_def recorded_titles_def)
  have "(\<exists>r. row = Some r \<and> NamedTitle.Title r = x \<and> ActivityID r = i) \<and> Named (SStore s) athlete i \<noteq> None"
    if put: "TitlePut athlete i x d row \<in> set (Puts s)" for x d row
  proof -
    have "TitlePut athlete i x d row \<in> set (sent_titles s athlete i)" using put by (simp add: sent_titles_def)
    then have "sent_titles s athlete i \<noteq> []" by auto
    moreover have "recorded_put (TitlePut athlete i x d row)" using recorded(1) put by (auto simp: list_all_iff)
    ultimately show ?thesis using recorded(2) by simp
  qed
  with one show ?thesis by (auto simp: named_once_def sent_titles_def)
qed

definition sample_mid :: "nat sys" where
  "sample_mid = sample_start\<lparr>SStore := (SStore sample_start)\<lparr>mNamed := [((7, 1), sample_row)]\<rparr>,
      Puts := [TitlePut 7 1 ''In die Stadt'' None (Some sample_row)]\<rparr>"

lemma sample_turns:
  "turn_steps sample_env (sample_start, NoSweep)
     (sample_mid, Closing sample_deps sample_pending outcomeNamed [] (empty_result 1))"
proof -
  have due: "Due (SStore sample_start) 1000 = [sample_pending]"
    by (simp add: Due_def SortPending_def sample_start_def NewProcessor_def pending_due_def sample_pending_def
        before_def)
  have "run_state (now_of sample_env) sample_start = (1000, sample_start)" by (simp add: now_of_def)
  moreover have "run_state (store_read sample_env (\<lambda>m. Due m 1000)) sample_start = (Some [sample_pending], sample_start)"
    by (simp add: run_store_read due)
  ultimately have "turn_step sample_env (sample_start, NoSweep) (sample_start, Going sample_deps [sample_pending] (empty_result 1))"
    using turn_step.starts [of sample_env sample_start 1000 sample_start "Some [sample_pending]" sample_start sample_deps] by simp
  moreover have "turn_step sample_env (sample_start, Going sample_deps [sample_pending] (empty_result 1))
      (sample_mid, Closing sample_deps sample_pending outcomeNamed [] (empty_result 1))"
    using turn_step.processed [OF _ sample_one, of "[]" "empty_result 1"] by (simp add: next_phase_def sample_mid_def)
  ultimately show ?thesis by auto
qed

lemma interleaved_names_once_witness:
  "length (filter (\<lambda>p. title_put p \<and> put_key p = (7, 1)) (Puts (deliver other_event sample_mid))) = 1 \<and>
   Named (SStore (deliver other_event sample_mid)) 7 1 \<noteq> None"
proof -
  have "turns_reach sample_env (sample_start, NoSweep)" by (rule reachable_turns [OF sample_reachable(1)])
  from turns_reach_steps [OF sample_turns this] have "turns_reach sample_env
      (deliver other_event sample_mid, Closing sample_deps sample_pending outcomeNamed [] (empty_result 1))"
    by (rule turns_reach.later) (intro turn_step.interleaved meanwhile.delivery)
  from interleaved_names_once [OF sample_honest this, of 7 1] show ?thesis
    by (simp add: deliver_def sample_mid_def)
qed

text \<open>C13: No event is taken out of the queue before its turn. An entry that waits, and that the sweep is not
  about to take out, is gone only after its activity was processed from start to end, to a final outcome,
  since then: whatever else arrives, fails or is restarted in between.\<close>

theorem event_waits_for_its_turn:
  assumes "turn_steps E x y" "\<not> closing k (snd x)" "waiting k (fst x)" "\<not> waiting k (fst y)"
  shows "processed_between E k x y"
  using waits_or_processed [OF assms(1-3)] assms(4) by simp

lemma event_waits_for_its_turn_witness:
  "processed_between sample_env (7, 1) (sample_start, NoSweep) (sample_end, NoSweep)"
proof (rule event_waits_for_its_turn)
  show "turn_steps sample_env (sample_start, NoSweep) (sample_end, NoSweep)" by (rule sweep_turns [OF sample_sweep])
  show "\<not> closing (7, 1) (snd (sample_start, NoSweep))" by (simp add: closing_def)
  show "waiting (7, 1) (fst (sample_start, NoSweep))"
    by (simp add: waiting_def pending_entry_def sample_start_def NewProcessor_def)
  show "\<not> waiting (7, 1) (fst (sample_end, NoSweep))"
    by (simp add: waiting_def pending_entry_def sample_end_def NewMemory_def)
qed

end
