(* ===== verification/Progress.thy ===== *)
theory Progress
  imports Interleave
begin

text \<open>
  What the sweep of \<^verbatim>\<open>processor.go\<close> is for: a due activity that is to be named gets its title, whatever
  becomes of the other entries of the queue. The safety theorems of theory Processor hold of a service that
  never renames anything; the ones here do not.
\<close>

section \<open>An activity that can be named\<close>

abbreviation decision_on :: "deps \<Rightarrow> StravaActivity \<Rightarrow> Decision" where
  "decision_on D a \<equiv> Classify (toClassifierActivity a) (ClassifierConfig D)"

text \<open>Strava keeps answering with the activity and takes a title for it.\<close>

definition at_strava :: "'w env \<Rightarrow> int \<Rightarrow> StravaActivity \<Rightarrow> bool" where
  "at_strava E i a \<longleftrightarrow> (\<forall>w. fst (get_activity E i w) = Inr a)
     \<and> (\<forall>x d w. \<exists>b. fst (put_activity E i (Some x) d w) = Inr b)"

text \<open>The pipeline is to name it, and the model gives a title where it is the model that does.\<close>

definition nameable :: "'w env \<Rightarrow> deps \<Rightarrow> int \<Rightarrow> StravaActivity \<Rightarrow> bool" where
  "nameable E D athlete a \<longleftrightarrow> WritesEnabled D \<and> ActionOf (decision_on D a) \<noteq> ActionSkip
     \<and> (ActionOf (decision_on D a) \<in> {ActionLLM, ActionLLMIndoor} \<longrightarrow>
         (\<forall>s. \<exists>t. fst (run_state (llmTitle E D athlete a (decision_on D a)) s) = Inr t))"

lemma nameable_titled:
  assumes "nameable E D athlete a" "0 \<le> AID a"
  obtains t s1 where "run_state (title_of E D athlete a (decision_on D a)) s = (Inr t, s1)" "quiet s s1"
proof -
  obtain x s1 where x: "run_state (title_of E D athlete a (decision_on D a)) s = (x, s1)" by fastforce
  have "\<exists>t. x = Inr t"
    using assms x by (cases "ActionOf (decision_on D a)")
      (auto simp: nameable_def title_of_def errandTitle_range, (metis fst_conv)+)
  then show thesis using that x quiet.mayD [OF quiet_title_of x] by blast
qed

text \<open>A store without faults records the title, and Strava is asked for it.\<close>

lemma faultless_mark: "faultless E \<Longrightarrow> fst (run_state (mark_named E n) s)"
  by (simp add: faultless_def mark_named_def run_store_write split: prod.splits) (metis fst_conv)

lemma faultless_write:
  assumes "faultless E" "at_strava E (AID a) b" "WritesEnabled D"
    "run_state (write_title E D athlete a t) s = (r, s')"
  shows "r = Inr True"
proof -
  have "\<exists>w. fst (run_state (put_title E athlete (AID a) x d) u) = Inr w" for x d u
    using assms(2) by (simp add: at_strava_def put_title_def split: prod.splits) (metis fst_conv)
  with assms(3,4) faultless_mark [OF assms(1)] show ?thesis
    by (auto simp: write_title_def check_def split: prod.splits sum.splits if_splits) (metis fst_conv sum.distinct(1))+
qed

text \<open>So one run over the activity names it.\<close>

definition titled_now :: "int \<Rightarrow> int \<Rightarrow> 'w sys \<Rightarrow> bool" where
  "titled_now athlete i s \<longleftrightarrow> sent_titles s athlete i \<noteq> [] \<and> Named (SStore s) athlete i \<noteq> None"

lemma nameable_processOne:
  assumes "faultless E" "at_strava E (PActivityID p) a" "nameable E D (PAthleteID p) a" "0 \<le> AID a"
    "AID a = PActivityID p" "Named (SStore s) (PAthleteID p) (PActivityID p) = None"
    "run_state (processOne E D p) s = (r, s')"
  shows "r = Inr outcomeNamed \<and> titled_now (PAthleteID p) (PActivityID p) s'"
proof -
  obtain w where w: "read_fails E (World s) = (False, w)"
    using assms(1) by (metis faultless_def prod.collapse)
  obtain w' where w': "get_activity E (PActivityID p) w = (Inr a, w')"
    using assms(2) by (metis at_strava_def prod.collapse)
  obtain t s1 where t: "run_state (title_of E D (PAthleteID p) a (decision_on D a)) (s\<lparr>World := w'\<rparr>) = (Inr t, s1)"
    using nameable_titled [OF assms(3,4)] by blast
  obtain y s2 where y: "run_state (write_title E D (PAthleteID p) a t) s1 = (y, s2)" by fastforce
  have on: "WritesEnabled D" "ActionOf (decision_on D a) \<noteq> ActionSkip" using assms(3) by (auto simp: nameable_def)
  have "y = Inr True" using faultless_write [OF assms(1) _ on(1) y] assms(2,5) by simp
  then have end': "r = Inr outcomeNamed" "s' = s2"
    using assms(6,7) w w' t y on(2) by (auto simp: processOne_def run_store_read GetActivityCall_def name_activity_def)
  from assms(7) show ?thesis
  proof (cases rule: processOne_sends)
    case (title a' w x d row)
    with w' w end'(1) show ?thesis
      using assms(5) by (auto simp: titled_now_def sent_titles_append)
  qed (use end' in simp)
qed

section \<open>The rest of the sweep\<close>

text \<open>Nothing in a sweep takes a title back, and other entries leave the activity alone.\<close>

lemma titled_kept:
  assumes "run_state (processOne E D q) s = (r, s')" "titled_now athlete i s"
  shows "titled_now athlete i s'"
proof -
  have "keeps_rows s s'" by (rule keeps_rows.mayD [OF keeps_rows_processOne assms(1)])
  then have "Named (SStore s') athlete i \<noteq> None" using assms(2) by (auto simp: titled_now_def keeps_rows_def)
  moreover from assms(1) have "sent_titles s' athlete i \<noteq> []"
    by (cases rule: processOne_sends)
      (use assms(2) in \<open>auto simp: titled_now_def untitled_sent sent_titles_append\<close>)
  ultimately show ?thesis by (simp add: titled_now_def)
qed

text \<open>The activity is titled, and its entry has left the queue.\<close>

definition settled :: "int \<Rightarrow> int \<Rightarrow> 'w sys \<Rightarrow> bool" where
  "settled athlete i s \<longleftrightarrow> wf_Memory (SStore s) \<and> titled_now athlete i s
     \<and> pending_entry (SStore s) (athlete, i) = None"

lemma settled_processOne:
  assumes "run_state (processOne E D q) s = (r, s')" "settled athlete i s"
  shows "settled athlete i s'"
  using keeps_rows.mayD [OF keeps_rows_processOne assms(1)] titled_kept [OF assms(1)] assms(2)
  by (simp add: settled_def keeps_rows_def pending_entry_def)

lemma dequeue_effect:
  "Puts (snd (run_state (dequeue E q o') s)) = Puts s"
  "Named (SStore (snd (run_state (dequeue E q o') s))) athlete i = Named (SStore s) athlete i"
  "wf_Memory (SStore s) \<Longrightarrow> wf_Memory (SStore (snd (run_state (dequeue E q o') s)))"
  by (auto simp: dequeue_def run_store_write wf_Memory_ops split: prod.splits)

lemma settled_dequeue:
  assumes "settled athlete i s"
  shows "settled athlete i (snd (run_state (dequeue E q o') s))"
proof -
  have "titled_now athlete i (snd (run_state (dequeue E q o') s))"
    using assms by (simp add: settled_def titled_now_def sent_titles_def dequeue_effect)
  with assms show ?thesis
    by (cases rule: dequeue_cases [of E q o' s]) (simp_all add: settled_def wf_Memory_ops Remove_entry)
qed

lemma settling_dequeue:
  assumes "faultless E" "wf_Memory (SStore s)" "titled_now athlete i s" "pending_key q = (athlete, i)"
  shows "settled athlete i (snd (run_state (dequeue E q outcomeNamed) s))"
proof -
  let ?t = "snd (run_state (dequeue E q outcomeNamed) s)"
  have fault: "fst (write_fault E (World s)) = NoFault" using assms(1) by (simp add: faultless_def)
  have "SStore ?t = Remove (SStore s) (PAthleteID q) (PActivityID q)"
    using fault by (auto simp: dequeue_def run_store_write split: prod.splits)
  then have "pending_entry (SStore ?t) (athlete, i) = None" "wf_Memory (SStore ?t)"
    using assms(2,4) by (simp_all add: Remove_entry wf_Memory_ops)
  then show ?thesis
    using assms(3) by (simp add: settled_def titled_now_def sent_titles_def dequeue_effect)
qed

lemma unnamed_kept:
  assumes "honest E" "run_state (processOne E D q) s = (r, s')" "pending_key q \<noteq> (athlete, i)"
    "Named (SStore s) athlete i = None"
  shows "Named (SStore s') athlete i = None"
  using touches.mayD [OF touches_processOne [OF assms(1)] assms(2)] assms(3,4)
  by (auto simp: touches_def pending_key_def)

lemma sweep_settles:
  assumes "faultless E" "honest E" "numbered E" "at_strava E i a" "nameable E D athlete a"
    and "run_state (sweep_loop E D ps r) s = (x, s')"
  shows "(settled athlete i s \<longrightarrow> settled athlete i s') \<and>
    ((athlete, i) \<in> pending_key ` set ps \<longrightarrow> wf_Memory (SStore s) \<longrightarrow> Named (SStore s) athlete i = None \<longrightarrow>
       settled athlete i s')"
proof -
  obtain w where "get_activity E i undefined = (Inr a, w)" using assms(4) by (metis at_strava_def prod.collapse)
  then have a: "AID a = i" "0 \<le> AID a" using assms(2,3) by (metis honest_def, metis numbered_def)
  have named: "y = Inr outcomeNamed \<and> titled_now athlete i u"
    if "run_state (processOne E D q) s = (y, u)" "pending_key q = (athlete, i)" "Named (SStore s) athlete i = None"
    for q s y u
  proof -
    from that(2) have q: "PAthleteID q = athlete" "PActivityID q = i" by (simp_all add: pending_key_def)
    show ?thesis
      using nameable_processOne [OF assms(1) _ _ a(2) _ _ that(1), unfolded q, OF assms(4,5) a(1) that(3)] .
  qed
  have wf: "wf_Memory (SStore s) \<Longrightarrow> run_state (processOne E D q) s = (y, u) \<Longrightarrow> wf_Memory (SStore u)"
    for q s y u by (drule keeps_rows.mayD [OF keeps_rows_processOne]) (simp add: keeps_rows_def)
  note other = unnamed_kept [OF assms(2)]
  show ?thesis using assms(6)
  proof (induction rule: sweep_loop_induct)
    case (cancelled s p ps r)
    with assms(1) show ?case by (simp add: faultless_def)
  next
    case (panicked p ps r s s1)
    with processOne_calm [OF assms(3) panicked(2)] show ?case by simp
  next
    case (failed q ps r s e s1 x s')
    have "settled athlete i s'" if *: "(athlete, i) \<in> pending_key ` set (q # ps)" "wf_Memory (SStore s)"
      "Named (SStore s) athlete i = None"
    proof -
      have "pending_key q \<noteq> (athlete, i)" using named [OF failed(2) _ *(3)] by auto
      with other [OF failed(2)] failed(4) wf [OF _ failed(2)] * show ?thesis by auto
    qed
    then show ?case using failed(4) settled_processOne [OF failed(2)] by blast
  next
    case (ended q ps r s o' s1 x s')
    have "settled athlete i s'" if *: "(athlete, i) \<in> pending_key ` set (q # ps)" "wf_Memory (SStore s)"
      "Named (SStore s) athlete i = None"
    proof (cases "pending_key q = (athlete, i)")
      case True
      with named [OF ended(2) True *(3)] wf [OF *(2) ended(2)] ended(3) settling_dequeue [OF assms(1)]
      show ?thesis by blast
    next
      case False
      with other [OF ended(2) False *(3)] ended(3) wf [OF *(2) ended(2)] * show ?thesis
        by (auto simp: dequeue_effect)
    qed
    then show ?case using ended(3) settled_processOne [OF ended(2)] settled_dequeue by blast
  qed simp_all
qed

section \<open>Properties\<close>

text \<open>C11: A due activity is named, exactly once: in any reachable state, where the store and the request
  have no faults, a sweep over a queue with a due entry for an activity the log does not know, which Strava
  has and takes a title for, and which the pipeline is to name, ends with a result; then Strava has
  been asked for exactly one title for it, the log has its row, and its entry has left the queue.
  Whatever Strava answers for the other entries, none of them stands in its way.\<close>

theorem due_activity_is_named:
  assumes "reachable E s" and "faultless E" and "honest E" and "numbered E"
    and "p \<in> set (Due (SStore s) (fst (clock E (World s))))"
    and "Named (SStore s) (PAthleteID p) (PActivityID p) = None"
    and "at_strava E (PActivityID p) a" and "nameable E D (PAthleteID p) a"
  shows "\<exists>r s'. run_state (Sweep E D) s = (Inr r, s') \<and> length (sent_titles s' (PAthleteID p) (PActivityID p)) = 1
    \<and> Named (SStore s') (PAthleteID p) (PActivityID p) \<noteq> None \<and> map_of (mPending (SStore s')) (pending_key p) = None"
proof -
  obtain x s' where run: "run_state (Sweep E D) s = (x, s')" by fastforce
  have "reachable E s'" using assms(1) step.sweep [OF run] by (rule reachable.next')
  then have once: "length (sent_titles s' (PAthleteID p) (PActivityID p)) \<le> 1"
    using reachable_named_once [OF assms(3)] by (simp add: named_once_def)
  from run show ?thesis
  proof (cases rule: run_Sweep)
    case unread
    with assms(2) show ?thesis by (simp add: faultless_def)
  next
    case (swept w)
    have "wf_Memory (SStore s)" using reachable_recorded [OF assms(1)] by (simp add: recorded_titles_def)
    with sweep_settles [OF assms(2,3,4,7,8) swept(2)] assms(5,6)
    have end': "settled (PAthleteID p) (PActivityID p) s'" by (auto simp: pending_key_def)
    obtain r where "x = Inr r" using sweep_loop_calm [OF assms(4) swept(2)] by (auto simp: empty_result_def)
    moreover have "length (sent_titles s' (PAthleteID p) (PActivityID p)) = 1"
      using once end' by (cases "sent_titles s' (PAthleteID p) (PActivityID p)") (auto simp: settled_def titled_now_def)
    ultimately show ?thesis
      using run end' by (auto simp: settled_def titled_now_def pending_entry_def pending_key_def)
  qed
qed

text \<open>Two entries are due, and for the first one Strava has no answer; the second is named all the same.\<close>

definition half_env :: "nat env" where
  "half_env = sample_env\<lparr>get_activity :=
     \<lambda>i w. if i = 1 then (Inr (sample_activity\<lparr>AID := 1\<rparr>), w) else (Inl (StatusError 500), w)\<rparr>"

definition crowded_start :: "nat sys" where
  "crowded_start = NewProcessor 0 (NewMemory\<lparr>mPending :=
     [((7, 2), sample_pending\<lparr>PActivityID := 2, ProcessAfter := 4\<rparr>), ((7, 1), sample_pending)]\<rparr>)"

lemma due_activity_is_named_witness:
  "\<exists>r s'. run_state (Sweep half_env sample_deps) crowded_start = (Inr r, s') \<and> length (sent_titles s' 7 1) = 1
    \<and> map_of (mPending (SStore s')) (7, 1) = None"
proof -
  have "wf_Memory (NewMemory\<lparr>mPending :=
     [((7, 2), sample_pending\<lparr>PActivityID := 2, ProcessAfter := 4\<rparr>), ((7, 1), sample_pending)]\<rparr>)"
    by (simp add: wf_Memory_def NewMemory_def rows_keyed_def pending_key_def sample_pending_def)
  then have "reachable half_env crowded_start" unfolding crowded_start_def by (rule reachable.start)
  moreover have "faultless half_env" by (simp add: faultless_def half_env_def)
  moreover have "honest half_env" "numbered half_env" by (auto simp: honest_def numbered_def half_env_def split: if_splits)
  moreover have "sample_pending \<in> set (Due (SStore crowded_start) (fst (clock half_env (World crowded_start))))"
    by (simp add: Due_def SortPending_def crowded_start_def NewProcessor_def pending_due_def sample_pending_def
        before_def half_env_def)
  moreover have "Named (SStore crowded_start) 7 1 = None"
    by (simp add: Named_def crowded_start_def NewProcessor_def NewMemory_def)
  moreover have "at_strava half_env 1 (sample_activity\<lparr>AID := 1\<rparr>)" by (simp add: at_strava_def half_env_def)
  moreover have "nameable half_env sample_deps 7 (sample_activity\<lparr>AID := 1\<rparr>)"
    using sample_decision [of 1] by (simp add: nameable_def sample_deps_def)
  ultimately show ?thesis
    using due_activity_is_named [of half_env crowded_start sample_pending "sample_activity\<lparr>AID := 1\<rparr>" sample_deps]
    by (auto simp: sample_pending_def pending_key_def)
qed

end
