(* ===== verification/Durable.thy ===== *)
theory Durable
  imports Firestore "HOL-Library.List_Lexorder" "HOL-Library.Char_ord"
begin

text \<open>
  What the Firestore store relies on and what it promises. The laws of the client are those its
  documentation states, over a view \<open>L\<close> of the database: the documents of each collection in the order
  of their identifiers, and \<open>r\<close>, the precision a timestamp is kept with. A failed write may have been
  applied or not. Under them the store is the in-memory store of theory Store, with faults.
\<close>

section \<open>Document identifiers\<close>

lemma show_nat_decimal: "foldl (\<lambda>a c. a * 10 + (byte c - 48)) 0 (show_nat n) = n"
proof (induction n rule: show_nat.induct)
  case (1 n)
  then show ?case by (subst show_nat.simps) (auto simp: byte_char_of)
qed

lemma show_nat_inj: "show_nat m = show_nat n \<Longrightarrow> m = n"
  by (metis show_nat_decimal)

lemma show_nat_not_Nil: "show_nat n \<noteq> []"
  by (subst show_nat.simps) simp

lemma show_nat_no_dash: "CHR ''-'' \<notin> set (show_nat n)"
  using show_nat_digits [of n] by (auto simp: ascii_digit_def)

lemma until_dash:
  "CHR ''-'' \<notin> set u \<Longrightarrow> CHR ''-'' \<notin> set v \<Longrightarrow> u @ CHR ''-'' # x = v @ CHR ''-'' # y \<Longrightarrow> u = v \<and> x = y"
  by (induction u arbitrary: v) (auto simp: Cons_eq_append_conv)

lemma show_nat_starts: "show_nat n \<noteq> CHR ''-'' # u"
  using show_nat_no_dash [of n] by auto

lemma show_int_until_dash:
  assumes "show_int a @ CHR ''-'' # x = show_int b @ CHR ''-'' # y"
  shows "a = b \<and> x = y"
proof -
  have first: "show_nat m @ CHR ''-'' # u \<noteq> CHR ''-'' # show_nat n @ CHR ''-'' # v" for m n u v
    using show_nat_starts [of m] show_nat_not_Nil [of m] by (cases "show_nat m") auto
  have same: "show_nat m @ CHR ''-'' # u = show_nat n @ CHR ''-'' # v \<Longrightarrow> m = n \<and> u = v" for m n u v
    using until_dash [OF show_nat_no_dash show_nat_no_dash] show_nat_inj by blast
  show ?thesis
  proof (cases "a < 0"; cases "b < 0")
    assume "a < 0" "b < 0"
    with assms same [of "nat (- a)" x "nat (- b)" y] show ?thesis by (auto simp: show_int_def)
  next
    assume "a < 0" "\<not> b < 0"
    with assms first [of "nat b" y "nat (- a)" x] show ?thesis by (simp add: show_int_def)
  next
    assume "\<not> a < 0" "b < 0"
    with assms first [of "nat a" x "nat (- b)" y] show ?thesis by (simp add: show_int_def)
  next
    assume "\<not> a < 0" "\<not> b < 0"
    with assms same [of "nat a" x "nat b" y] show ?thesis by (auto simp: show_int_def)
  qed
qed

lemma show_int_inj: "show_int a = show_int b \<Longrightarrow> a = b"
  using show_int_until_dash [of a "[]" b "[]"] by simp

lemma activityKey_inj: "activityKey k = activityKey l \<Longrightarrow> k = l"
  using show_int_until_dash [of "fst k" "show_int (snd k)" "fst l" "show_int (snd l)"] show_int_inj
  by (auto simp: activityKey_def prod_eq_iff)

lemma series_key_inj: "series_key k = series_key l \<Longrightarrow> k = l"
  using show_int_until_dash [of "fst k" "snd k" "fst l" "snd l"] by (auto simp: series_key_def prod_eq_iff)

text \<open>A digest of 32 bytes, in hexadecimal.\<close>

lemma byte_lower_hex: "m < 16 \<Longrightarrow> byte (lower_hex m) = (if m < 10 then 48 + m else 87 + m)"
  by (simp add: lower_hex_def byte_char_of)

lemma lower_hex_inj:
  assumes "m < 16" "n < 16" "lower_hex m = lower_hex n"
  shows "m = n"
  using arg_cong [OF assms(3), of byte] assms(1,2) by (auto simp: byte_lower_hex split: if_splits)

lemma byte_div_16 [simp]: "byte c div 16 < 16"
proof -
  have "byte c < 16 * 16" using nat_of_char_less_256 [of c] by simp
  then show ?thesis by (rule less_mult_imp_div_less)
qed

lemma hex_encode_inj: "hex_encode s = hex_encode t \<Longrightarrow> s = t"
proof (induction s arbitrary: t)
  case Nil
  then show ?case by (cases t) (auto simp: hex_encode_def)
next
  case (Cons c s)
  then obtain d u where t: "t = d # u" by (cases t) (auto simp: hex_encode_def)
  with Cons.prems have eq: "lower_hex (byte c div 16) = lower_hex (byte d div 16)"
      "lower_hex (byte c mod 16) = lower_hex (byte d mod 16)" "hex_encode s = hex_encode u"
    by (auto simp: hex_encode_def)
  have "byte c div 16 = byte d div 16" "byte c mod 16 = byte d mod 16"
    using lower_hex_inj [OF _ _ eq(1)] lower_hex_inj [OF _ _ eq(2)] by simp_all
  then have "byte c = byte d" by (metis div_mult_mod_eq)
  then have "c = d" by simp
  with Cons.IH [OF eq(3)] t show ?case by simp
qed

lemma length_hex_encode: "length (hex_encode s) = 2 * length s"
  by (induction s) (simp_all add: hex_encode_def)

lemma lower_hex_bytes: "m < 16 \<Longrightarrow> ascii_digit (byte (lower_hex m)) \<or> 97 \<le> byte (lower_hex m) \<and> byte (lower_hex m) \<le> 102"
  by (auto simp: byte_lower_hex ascii_digit_def)

lemma hex_encode_bytes: "c \<in> set (hex_encode s) \<Longrightarrow> ascii_digit (byte c) \<or> 97 \<le> byte c \<and> byte c \<le> 102"
  unfolding hex_encode_def
  using lower_hex_bytes [OF byte_div_16] lower_hex_bytes [OF mod_less_divisor [of 16]] by fastforce

text \<open>What Firestore accepts as the identifier of a document.\<close>

definition valid_doc_id :: "string \<Rightarrow> bool" where
  "valid_doc_id k \<longleftrightarrow> k \<noteq> [] \<and> k \<noteq> ''.'' \<and> k \<noteq> ''..'' \<and> length k \<le> 1500 \<and> CHR ''/'' \<notin> set k \<and>
     \<not> (prefix ''__'' k \<and> suffix ''__'' k \<and> length k \<ge> 4)"

lemma safe_id_no_slash:
  assumes "list_all safe_id_rune (runes k)"
  shows "CHR ''/'' \<notin> set k"
proof
  assume "CHR ''/'' \<in> set k"
  then have "47 \<in> set (runes k)" using ascii_byte_rune [of "CHR ''/''" k] by simp
  with assms have "safe_id_rune 47" by (simp add: list_all_iff)
  then show False by (simp add: safe_id_rune_def ascii_digit_def ascii_letter_def ascii_upper_def)
qed

lemma safe_id_valid: "isSafeDocID k \<Longrightarrow> valid_doc_id k"
  using safe_id_no_slash [of k] by (simp add: isSafeDocID_def valid_doc_id_def maxDocIDBytes_def not_less)

lemma escaped_id_valid:
  assumes "length h = 32"
  shows "valid_doc_id (docIDEscapePrefix @ hex_encode h)"
  using assms hex_encode_bytes [of "CHR ''/''" h]
  by (auto simp: valid_doc_id_def docIDEscapePrefix_def length_hex_encode ascii_digit_def)

lemma escaped_id_unsafe: "\<not> isSafeDocID (docIDEscapePrefix @ k)"
  by (simp add: isSafeDocID_def docIDEscapePrefix_def safe_id_rune_def ascii_digit_def ascii_letter_def ascii_upper_def)

lemma cacheDocID_inj:
  assumes "cacheDocID digest k = cacheDocID digest l" "digest k = digest l \<longrightarrow> k = l"
  shows "k = l"
  using assms escaped_id_unsafe [of "hex_encode (digest k)"] escaped_id_unsafe [of "hex_encode (digest l)"]
    hex_encode_inj [of "digest k" "digest l"]
  by (auto simp: cacheDocID_def split: if_splits)

section \<open>Documents\<close>

text \<open>What is kept of a field: timestamps at the database's precision.\<close>

fun kept_value :: "(instant \<Rightarrow> instant) \<Rightarrow> field_value \<Rightarrow> field_value" where
  "kept_value r NullValue = NullValue"
| "kept_value r (IntegerValue n) = IntegerValue n"
| "kept_value r (StringValue s) = StringValue s"
| "kept_value r (TimestampValue t) = TimestampValue (r t)"
| "kept_value r (ArrayValue vs) = ArrayValue (map (kept_value r) vs)"
| "kept_value r (MapValue d) = MapValue (map (map_prod id (kept_value r)) d)"

definition kept :: "(instant \<Rightarrow> instant) \<Rightarrow> document \<Rightarrow> document" where
  "kept r d = map (map_prod id (kept_value r)) d"

lemmas codec_simps = kept_def field_def as_int_def as_string_def as_time_def as_array_def

lemma kept_strings [simp]: "kept_value r (ArrayValue (map StringValue xs)) = ArrayValue (map StringValue xs)"
  by simp

lemma read_strings [simp]: "those (map (as_string \<circ> StringValue) xs) = Some xs"
  by (induction xs) (simp_all add: as_string_def)

lemma read_kept_strings [simp]: "those (map (as_string \<circ> (kept_value r \<circ> StringValue)) xs) = Some xs"
  by (induction xs) (simp_all add: as_string_def)

lemma read_tokenDoc: "read_token (kept r (tokenDoc t)) = Some (t\<lparr>ExpiresAt := r (ExpiresAt t)\<rparr>)"
  by (simp add: read_token_def tokenDoc_def codec_simps)

lemma read_pendingDoc:
  "read_pending (kept r (pendingDoc p)) = Some (p\<lparr>EnqueuedAt := r (EnqueuedAt p), ProcessAfter := r (ProcessAfter p)\<rparr>)"
  by (simp add: read_pending_def pendingDoc_def codec_simps)

lemma read_namedDoc: "read_named (kept r (namedDoc n)) = Some (naming_row (n\<lparr>NAt := r (NAt n)\<rparr>))"
  by (simp add: read_named_def namedDoc_def naming_row_def codec_simps)

lemma read_placeDoc: "read_place (kept r (placeDoc p now)) = Some p"
  by (simp add: read_place_def placeDoc_def codec_simps)

lemma read_franchiseDoc: "read_position (kept r (franchiseDoc a f n now)) = Some n"
  by (simp add: read_position_def franchiseDoc_def codec_simps)

lemma read_franchiseEntry: "as_map read_entry (kept_value r (franchiseEntry f)) = Some f"
  by (simp add: franchiseEntry_def as_map_def read_entry_def codec_simps)

lemma read_configDoc: "read_config (kept r (configDoc a c now)) = Some c"
proof -
  have "those (map (as_map read_entry \<circ> (kept_value r \<circ> franchiseEntry)) fs) = Some fs" for fs
    by (induction fs) (simp_all add: read_franchiseEntry)
  then show ?thesis by (simp add: read_config_def configDoc_def codec_simps comp_assoc)
qed

section \<open>What the client is documented to do\<close>

type_synonym 'f view = "'f \<Rightarrow> string \<Rightarrow> (string \<times> document) list"

definition wrote :: "'f view \<Rightarrow> 'f \<Rightarrow> 'f \<Rightarrow> string \<Rightarrow> string \<Rightarrow> document option \<Rightarrow> bool" where
  "wrote L s s' c k x \<longleftrightarrow>
     (\<forall>b. map_of (L s' b) = (if b = c then (map_of (L s c))(k := x) else map_of (L s b)))"

definition matches_clause :: "where_clause \<Rightarrow> document \<Rightarrow> bool" where
  "matches_clause w d = (case w of
     FieldEquals f v \<Rightarrow> field d f = v
   | FieldAtMost f v \<Rightarrow> (case (field d f, v) of (TimestampValue u, TimestampValue t) \<Rightarrow> u \<le> t | _ \<Rightarrow> False))"

definition time_key :: "string \<Rightarrow> document \<Rightarrow> instant" where
  "time_key f d = (case field d f of TimestampValue t \<Rightarrow> t | _ \<Rightarrow> time_zero)"

definition selected :: "fs_query \<Rightarrow> (string \<times> document) list \<Rightarrow> (string \<times> document) list" where
  "selected q docs = filter (\<lambda>(_, d). case QWhere q of None \<Rightarrow> True | Some w \<Rightarrow> matches_clause w d) docs"

definition arranged :: "fs_query \<Rightarrow> (string \<times> document) list \<Rightarrow> (string \<times> document) list" where
  "arranged q docs = (case QOrder q of
     None \<Rightarrow> docs
   | Some (f, desc) \<Rightarrow> (let up = sort_key (\<lambda>(_, d). time_key f d) docs in if desc then rev up else up))"

definition query_answer :: "fs_query \<Rightarrow> (string \<times> document) list \<Rightarrow> document list" where
  "query_answer q docs =
     map snd (case QLimit q of None \<Rightarrow> arranged q (selected q docs) | Some n \<Rightarrow> take n (arranged q (selected q docs)))"

text \<open>The order is the one on instants: the law is stated for queries that meet nothing else in the field.\<close>

definition timed :: "fs_query \<Rightarrow> (string \<times> document) list \<Rightarrow> bool" where
  "timed q docs \<longleftrightarrow> (\<forall>f desc. QOrder q = Some (f, desc) \<longrightarrow>
     (\<forall>(_, d) \<in> set (selected q docs). \<exists>t. field d f = TimestampValue t))"

definition get_law :: "'f fs_client \<Rightarrow> 'f view \<Rightarrow> bool" where
  "get_law F L \<longleftrightarrow> (\<forall>c k s x s'. run_state (doc_get F c k) s = (x, s') \<longrightarrow> L s' = L s \<and>
     (case x of Inr d \<Rightarrow> map_of (L s c) k = Some d | Inl code \<Rightarrow> code = CodeNotFound \<longrightarrow> map_of (L s c) k = None))"

definition set_law :: "'f fs_client \<Rightarrow> 'f view \<Rightarrow> (instant \<Rightarrow> instant) \<Rightarrow> bool" where
  "set_law F L r \<longleftrightarrow> (\<forall>c k d s x s'. run_state (doc_set F c k d) s = (x, s') \<longrightarrow>
     (case x of Inr _ \<Rightarrow> wrote L s s' c k (Some (kept r d))
      | Inl _ \<Rightarrow> L s' = L s \<or> wrote L s s' c k (Some (kept r d))))"

definition create_law :: "'f fs_client \<Rightarrow> 'f view \<Rightarrow> (instant \<Rightarrow> instant) \<Rightarrow> bool" where
  "create_law F L r \<longleftrightarrow> (\<forall>c k d s x s'. run_state (doc_create F c k d) s = (x, s') \<longrightarrow>
     (case x of
        Inr _ \<Rightarrow> map_of (L s c) k = None \<and> wrote L s s' c k (Some (kept r d))
      | Inl code \<Rightarrow>
          if code = CodeAlreadyExists then map_of (L s c) k \<noteq> None \<and> L s' = L s
          else L s' = L s \<or> map_of (L s c) k = None \<and> wrote L s s' c k (Some (kept r d))))"

definition delete_law :: "'f fs_client \<Rightarrow> 'f view \<Rightarrow> bool" where
  "delete_law F L \<longleftrightarrow> (\<forall>c k s x s'. run_state (doc_delete F c k) s = (x, s') \<longrightarrow>
     (case x of Inr _ \<Rightarrow> wrote L s s' c k None | Inl _ \<Rightarrow> L s' = L s \<or> wrote L s s' c k None))"

definition query_law :: "'f fs_client \<Rightarrow> 'f view \<Rightarrow> bool" where
  "query_law F L \<longleftrightarrow> (\<forall>q s x s'. run_state (get_all F q) s = (x, s') \<longrightarrow> L s' = L s \<and>
     (\<forall>ds. x = Inr ds \<longrightarrow> timed q (L s (QCollection q)) \<longrightarrow> ds = query_answer q (L s (QCollection q))))"

definition found :: "'f view \<Rightarrow> 'f \<Rightarrow> string \<Rightarrow> string \<Rightarrow> grpc_code + document" where
  "found L s c k = (case map_of (L s c) k of None \<Rightarrow> Inl CodeNotFound | Some d \<Rightarrow> Inr d)"

text \<open>A transaction commits what its body decides on the document it finds; or it fails, as the body
  does or for a reason of its own.\<close>

definition transaction_law :: "'f fs_client \<Rightarrow> 'f view \<Rightarrow> (instant \<Rightarrow> instant) \<Rightarrow> bool" where
  "transaction_law F L r \<longleftrightarrow> (\<forall>c k body s x s'. run_state (run_transaction F c k body) s = (x, s') \<longrightarrow>
     (case x of
        Inr n \<Rightarrow> \<exists>d. body (found L s c k) = Inr (d, n) \<and> wrote L s s' c k (Some (kept r d))
      | Inl e \<Rightarrow> (L s' = L s \<or> (\<exists>d n. body (found L s c k) = Inr (d, n) \<and> wrote L s s' c k (Some (kept r d)))) \<and>
          ((\<exists>code. e = ClientFailed code) \<or> body (found L s c k) = Inl e)))"

definition documented :: "'f fs_client \<Rightarrow> 'f view \<Rightarrow> (instant \<Rightarrow> instant) \<Rightarrow> bool" where
  "documented F L r \<longleftrightarrow> (\<forall>s c. distinct (map fst (L s c)) \<and> sorted (map fst (L s c))) \<and>
     get_law F L \<and> set_law F L r \<and> create_law F L r \<and> delete_law F L \<and> query_law F L \<and> transaction_law F L r"

section \<open>A map kept in documents\<close>

definition represents :: "('k \<Rightarrow> string) \<Rightarrow> ('k \<Rightarrow> 'v \<Rightarrow> document \<Rightarrow> bool) \<Rightarrow> (string \<rightharpoonup> document) \<Rightarrow> ('k \<rightharpoonup> 'v) \<Rightarrow> bool" where
  "represents key E D M \<longleftrightarrow> (\<forall>k d. D k = Some d \<longrightarrow> (\<exists>x v. k = key x \<and> M x = Some v \<and> E x v d)) \<and>
     (\<forall>x v. M x = Some v \<longrightarrow> D (key x) \<noteq> None)"

lemma represents_None:
  assumes "represents key E D M" "inj_on key K" "dom M \<subseteq> K" "x \<in> K"
  shows "D (key x) = None \<longleftrightarrow> M x = None"
proof
  show "D (key x) = None \<Longrightarrow> M x = None" using assms(1) by (auto simp: represents_def)
  show "D (key x) = None" if "M x = None"
  proof (rule ccontr)
    assume "D (key x) \<noteq> None"
    then obtain y v where "key x = key y" "M y = Some v" using assms(1) by (fastforce simp: represents_def)
    then show False using that inj_onD [OF assms(2), of x y] assms(3,4) by auto
  qed
qed

lemma represents_Some:
  assumes "represents key E D M" "inj_on key K" "dom M \<subseteq> K" "x \<in> K" "D (key x) = Some d"
  obtains v where "M x = Some v" "E x v d"
proof -
  obtain y v where "key x = key y" "M y = Some v" "E y v d" using assms(1,5) by (fastforce simp: represents_def)
  then show ?thesis using that inj_onD [OF assms(2), of x y] assms(3,4) by auto
qed

lemma represents_update:
  assumes "represents key E D M" "inj_on key K" "dom M \<subseteq> K" "x \<in> K" "E x v d"
  shows "represents key E (D(key x := Some d)) (M(x := Some v))"
proof -
  have "key y = key x \<longleftrightarrow> y = x" if "M y = Some w" for y w
    using that assms(3,4) inj_onD [OF assms(2), of y x] by auto
  then show ?thesis using assms(1,5) unfolding represents_def by (auto simp: fun_upd_def) metis
qed

lemma represents_delete:
  assumes "represents key E D M" "inj_on key K" "dom M \<subseteq> K" "x \<in> K"
  shows "represents key E (D(key x := None)) (M(x := None))"
proof -
  have "key y = key x \<longleftrightarrow> y = x" if "M y = Some w" for y w
    using that assms(3,4) inj_onD [OF assms(2), of y x] by auto
  then show ?thesis using assms(1) unfolding represents_def by (auto simp: fun_upd_def) (metis not_None_eq)+
qed

end
