(* ===== verification/Refines.thy ===== *)
theory Refines
  imports Durable "HOL-Library.Multiset"
begin

text \<open>
  The Firestore store is the store of theory Store with faults: a relation between the database and a
  \<^typ>\<open>Memory\<close>, and for every operation that a run keeps the relation to what the operation of the memory
  makes of it, or to what a failed write may leave. Keys of the geocode cache and names of series are
  free text and may be hashed; the relation speaks of those in \<open>K\<close> and \<open>J\<close>, on which the digest has
  no collision. Instants are kept at the precision \<open>r\<close>.
\<close>

section \<open>The relation\<close>

definition holds_token :: "int \<Rightarrow> Token \<Rightarrow> document \<Rightarrow> bool" where
  "holds_token a t d \<longleftrightarrow> read_token d = Some t \<and> AthleteID t = a"

definition holds_pending :: "actkey \<Rightarrow> Pending \<Rightarrow> document \<Rightarrow> bool" where
  "holds_pending k p d \<longleftrightarrow> read_pending d = Some p \<and> pending_key p = k \<and>
     field d ''process_after'' = TimestampValue (ProcessAfter p)"

definition holds_named :: "actkey \<Rightarrow> NamedTitle \<Rightarrow> document \<Rightarrow> bool" where
  "holds_named k e d \<longleftrightarrow> read_named d = Some e \<and> ActivityID e = snd k \<and>
     field d ''athlete_id'' = IntegerValue (fst k) \<and> field d ''named_at'' = TimestampValue (NamedAt e)"

definition holds_place :: "string \<Rightarrow> Place \<Rightarrow> document \<Rightarrow> bool" where
  "holds_place k p d \<longleftrightarrow> read_place d = Some p"

definition holds_position :: "int \<times> string \<Rightarrow> int \<Rightarrow> document \<Rightarrow> bool" where
  "holds_position k n d \<longleftrightarrow> read_position d = Some n"

definition holds_config :: "int \<Rightarrow> AthleteConfig \<Rightarrow> document \<Rightarrow> bool" where
  "holds_config a c d \<longleftrightarrow> read_config d = Some c"

lemmas holds_defs = holds_token_def holds_pending_def holds_named_def holds_place_def holds_position_def holds_config_def

definition documents :: "'f fs_store \<Rightarrow> 'f view \<Rightarrow> 'f \<Rightarrow> string \<Rightarrow> (string \<rightharpoonup> document)" where
  "documents S L s name = map_of (L s (collection S name))"

definition durable :: "'f fs_store \<Rightarrow> 'f view \<Rightarrow> string set \<Rightarrow> (int \<times> string) set \<Rightarrow> Memory \<Rightarrow> 'f \<Rightarrow> bool" where
  "durable S L K J m s \<longleftrightarrow> wf_Memory m \<and> dom (map_of (mPlaces m)) \<subseteq> K \<and> dom (map_of (mFranchises m)) \<subseteq> J \<and>
     represents show_int holds_token (documents S L s CollectionTokens) (map_of (mTokens m)) \<and>
     represents activityKey holds_pending (documents S L s CollectionPending) (map_of (mPending m)) \<and>
     represents activityKey holds_named (documents S L s CollectionNamed) (map_of (mNamed m)) \<and>
     represents (cacheDocID (fsDigest S)) holds_place (documents S L s CollectionGeocache) (map_of (mPlaces m)) \<and>
     represents (franchiseKey (fsDigest S)) holds_position (documents S L s CollectionFranchise) (map_of (mFranchises m)) \<and>
     represents show_int holds_config (documents S L s CollectionConfig) (map_of (mConfigs m))"

lemmas collections = CollectionTokens_def CollectionPending_def CollectionNamed_def CollectionGeocache_def
  CollectionFranchise_def CollectionConfig_def

lemma collection_eq [simp]: "collection S a = collection S b \<longleftrightarrow> a = b"
  by (simp add: collection_def)

lemma documents_wrote:
  "wrote L s s' (collection S c) k x \<Longrightarrow>
   documents S L s' b = (if b = c then (documents S L s c)(k := x) else documents S L s b)"
  by (simp add: wrote_def documents_def)

lemma durable_same: "durable S L K J m s \<Longrightarrow> L s' = L s \<Longrightarrow> durable S L K J m s'"
  by (simp add: durable_def documents_def)

definition no_collision :: "'f fs_store \<Rightarrow> string set \<Rightarrow> (int \<times> string) set \<Rightarrow> bool" where
  "no_collision S K J \<longleftrightarrow> inj_on (fsDigest S) (K \<union> series_key ` J)"

lemma keys_inj:
  assumes "no_collision S K J"
  shows "inj_on show_int A" "inj_on activityKey B" "inj_on (cacheDocID (fsDigest S)) K"
    "inj_on (franchiseKey (fsDigest S)) J"
proof -
  have digest: "fsDigest S k = fsDigest S l \<longrightarrow> k = l" if "k \<in> K \<union> series_key ` J" "l \<in> K \<union> series_key ` J" for k l
    using assms that by (auto simp: no_collision_def dest: inj_onD)
  show "inj_on show_int A" "inj_on activityKey B"
    by (auto intro!: inj_onI dest: show_int_inj activityKey_inj)
  show "inj_on (cacheDocID (fsDigest S)) K"
    using digest by (auto intro!: inj_onI elim: cacheDocID_inj)
  show "inj_on (franchiseKey (fsDigest S)) J"
  proof (rule inj_onI)
    fix k l assume k: "k \<in> J" "l \<in> J" "franchiseKey (fsDigest S) k = franchiseKey (fsDigest S) l"
    then have "series_key k = series_key l"
      unfolding franchiseKey_def using digest by (blast intro: cacheDocID_inj)
    then show "k = l" by (rule series_key_inj)
  qed
qed

section \<open>Writes keep the relation\<close>

lemma durable_wf: "durable S L K J m s \<Longrightarrow> wf_Memory m"
  by (simp add: durable_def)

lemma durable_Save:
  assumes "durable S L K J m s" "no_collision S K J" "holds_token (AthleteID t) t d"
    "wrote L s s' (collection S CollectionTokens) (show_int (AthleteID t)) (Some d)"
  shows "durable S L K J (Save m t) s'"
  using assms(1,3) represents_update [OF _ keys_inj(1) [OF assms(2)], of holds_token _ _ UNIV "AthleteID t" t d]
    wf_Memory_ops(1) [of m t]
  by (simp add: durable_def documents_wrote [OF assms(4)] collections Save_def update_conv')

lemma durable_Enqueue:
  assumes "durable S L K J m s" "no_collision S K J" "holds_pending (pending_key p) p d"
    "map_of (mPending m) (pending_key p) = None"
    "wrote L s s' (collection S CollectionPending) (activityKey (pending_key p)) (Some d)"
  shows "durable S L K J (fst (Enqueue m p)) s'"
  using assms(1,3,4) represents_update [OF _ keys_inj(2) [OF assms(2)], of holds_pending _ _ UNIV "pending_key p" p d]
    wf_Memory_ops(2) [of m p]
  by (simp add: durable_def documents_wrote [OF assms(5)] collections Enqueue_def update_conv')

lemma durable_Remove:
  assumes "durable S L K J m s" "no_collision S K J"
    "wrote L s s' (collection S CollectionPending) (activityKey (a, i)) None"
  shows "durable S L K J (Remove m a i) s'"
  using assms(1) represents_delete [OF _ keys_inj(2) [OF assms(2)], of holds_pending _ _ UNIV "(a, i)"]
    wf_Memory_ops(3) [of m a i]
  by (simp add: durable_def documents_wrote [OF assms(3)] collections Remove_def delete_conv')

lemma durable_MarkNamed:
  assumes "durable S L K J m s" "no_collision S K J" "holds_named (NAthleteID n, NActivityID n) (naming_row n) d"
    "wrote L s s' (collection S CollectionNamed) (activityKey (NAthleteID n, NActivityID n)) (Some d)"
  shows "durable S L K J (MarkNamed m n) s'"
  using assms(1,3) wf_Memory_ops(4) [of m n]
    represents_update [OF _ keys_inj(2) [OF assms(2)], of holds_named _ _ UNIV "(NAthleteID n, NActivityID n)" "naming_row n" d]
  by (simp add: durable_def documents_wrote [OF assms(4)] collections MarkNamed_def update_conv')

lemma durable_SavePlace:
  assumes "durable S L K J m s" "no_collision S K J" "holds_place k p d" "k \<in> K"
    "wrote L s s' (collection S CollectionGeocache) (cacheDocID (fsDigest S) k) (Some d)"
  shows "durable S L K J (SavePlace m k p) s'"
  using assms(1,3,4) represents_update [OF _ keys_inj(3) [OF assms(2)], of holds_place _ _ k p d]
    wf_Memory_ops(5) [of m k p]
  by (simp add: durable_def documents_wrote [OF assms(5)] collections SavePlace_def update_conv')

lemma durable_position:
  assumes "durable S L K J m s" "no_collision S K J" "holds_position (a, f) n d" "(a, f) \<in> J" "0 \<le> n"
    "wrote L s s' (collection S CollectionFranchise) (franchiseKey (fsDigest S) (a, f)) (Some d)"
  shows "durable S L K J (m\<lparr>mFranchises := AList.update (a, f) n (mFranchises m)\<rparr>) s'"
  using assms(1,3,4,5) represents_update [OF _ keys_inj(4) [OF assms(2)], of holds_position _ _ "(a, f)" n d]
  by (simp add: durable_def documents_wrote [OF assms(6)] collections update_conv' wf_Memory_def distinct_update
      list_all_update)

lemma durable_SaveAthleteConfig:
  assumes "durable S L K J m s" "no_collision S K J" "holds_config a c d"
    "wrote L s s' (collection S CollectionConfig) (show_int a) (Some d)"
  shows "durable S L K J (SaveAthleteConfig m a c) s'"
  using assms(1,3) represents_update [OF _ keys_inj(1) [OF assms(2)], of holds_config _ _ UNIV a c d]
    wf_Memory_ops(6) [of m a c]
  by (simp add: durable_def documents_wrote [OF assms(4)] collections SaveAthleteConfig_def update_conv')

section \<open>Operations refine\<close>

definition reads_as :: "'f fs_store \<Rightarrow> 'f view \<Rightarrow> string set \<Rightarrow> (int \<times> string) set \<Rightarrow> Memory \<Rightarrow> 'f \<Rightarrow>
    ('f, fs_error + 'a) state \<Rightarrow> (fs_error + 'a \<Rightarrow> bool) \<Rightarrow> bool" where
  "reads_as S L K J m s prog Q \<longleftrightarrow> (\<forall>x s'. run_state prog s = (x, s') \<longrightarrow> durable S L K J m s' \<and>
     ((\<exists>code. x = Inl (ClientFailed code)) \<or> Q x))"

definition writes_as :: "'f fs_store \<Rightarrow> 'f view \<Rightarrow> string set \<Rightarrow> (int \<times> string) set \<Rightarrow> Memory \<Rightarrow> 'f \<Rightarrow>
    ('f, fs_error + 'a) state \<Rightarrow> (Memory \<Rightarrow> Memory) \<Rightarrow> 'a \<Rightarrow> bool" where
  "writes_as S L K J m s prog g res \<longleftrightarrow> (\<forall>x s'. run_state prog s = (x, s') \<longrightarrow>
     (\<exists>f. durable S L K J (fst (faulty f g m)) s' \<and>
       (if snd (faulty f g m) then x = Inr res else \<exists>code. x = Inl (ClientFailed code))))"

lemma writes_asI:
  assumes "\<And>x s'. run_state prog s = (x, s') \<Longrightarrow>
      x = Inr res \<and> durable S L K J (g m) s' \<or>
      (\<exists>code. x = Inl (ClientFailed code)) \<and> (durable S L K J m s' \<or> durable S L K J (g m) s')"
  shows "writes_as S L K J m s prog g res"
  unfolding writes_as_def
proof (intro allI impI)
  fix x s' assume "run_state prog s = (x, s')"
  from assms [OF this]
  show "\<exists>f. durable S L K J (fst (faulty f g m)) s' \<and>
      (if snd (faulty f g m) then x = Inr res else \<exists>code. x = Inl (ClientFailed code))"
  proof (elim disjE conjE)
    assume "x = Inr res" "durable S L K J (g m) s'"
    then show ?thesis by (intro exI [of _ NoFault]) (simp add: faulty_def)
  next
    assume "\<exists>code. x = Inl (ClientFailed code)" "durable S L K J m s'"
    then show ?thesis by (intro exI [of _ FaultLost]) (simp add: faulty_def)
  next
    assume "\<exists>code. x = Inl (ClientFailed code)" "durable S L K J (g m) s'"
    then show ?thesis by (intro exI [of _ FaultApplied]) (simp add: faulty_def)
  qed
qed

text \<open>The laws, for one run of a call.\<close>

lemma documented_get:
  assumes "documented F L r" "run_state (doc_get F c k) s = (x, s')"
  shows "L s' = L s \<and> (case x of Inr d \<Rightarrow> map_of (L s c) k = Some d
    | Inl code \<Rightarrow> code = CodeNotFound \<longrightarrow> map_of (L s c) k = None)"
  using assms unfolding documented_def get_law_def by blast

lemma documented_set:
  assumes "documented F L r" "run_state (doc_set F c k d) s = (x, s')"
  shows "case x of Inr _ \<Rightarrow> wrote L s s' c k (Some (kept r d))
    | Inl _ \<Rightarrow> L s' = L s \<or> wrote L s s' c k (Some (kept r d))"
  using assms unfolding documented_def set_law_def by blast

lemma documented_create:
  assumes "documented F L r" "run_state (doc_create F c k d) s = (x, s')"
  shows "case x of Inr _ \<Rightarrow> map_of (L s c) k = None \<and> wrote L s s' c k (Some (kept r d))
    | Inl code \<Rightarrow> if code = CodeAlreadyExists then map_of (L s c) k \<noteq> None \<and> L s' = L s
        else L s' = L s \<or> map_of (L s c) k = None \<and> wrote L s s' c k (Some (kept r d))"
  using assms unfolding documented_def create_law_def by blast

lemma documented_delete:
  assumes "documented F L r" "run_state (doc_delete F c k) s = (x, s')"
  shows "case x of Inr _ \<Rightarrow> wrote L s s' c k None | Inl _ \<Rightarrow> L s' = L s \<or> wrote L s s' c k None"
  using assms unfolding documented_def delete_law_def by blast

lemma documented_query:
  assumes "documented F L r" "run_state (get_all F q) s = (x, s')"
  shows "L s' = L s" "x = Inr ds \<Longrightarrow> timed q (L s (QCollection q)) \<Longrightarrow> ds = query_answer q (L s (QCollection q))"
  using assms unfolding documented_def query_law_def by blast+

lemma documented_transaction:
  assumes "documented F L r" "run_state (run_transaction F c k body) s = (x, s')"
  shows "case x of Inr n \<Rightarrow> \<exists>d. body (found L s c k) = Inr (d, n) \<and> wrote L s s' c k (Some (kept r d))
    | Inl e \<Rightarrow> (L s' = L s \<or> (\<exists>d n. body (found L s c k) = Inr (d, n) \<and> wrote L s s' c k (Some (kept r d)))) \<and>
        ((\<exists>code. e = ClientFailed code) \<or> body (found L s c k) = Inl e)"
  using assms unfolding documented_def transaction_law_def by blast

lemma documented_listing:
  "documented F L r \<Longrightarrow> distinct (map fst (L s c))" "documented F L r \<Longrightarrow> sorted (map fst (L s c))"
  unfolding documented_def by blast+

lemma get_doc_reads:
  assumes doc: "documented (fsClient S) L r" and rel: "durable S L K J m s"
    and rep: "represents key E (documents S L s c) M" "inj_on key A" "dom M \<subseteq> A" "x \<in> A"
    and dec: "\<And>v d. E x v d \<Longrightarrow> dec d = Some v"
  shows "reads_as S L K J m s (get_doc S c (key x) dec) (\<lambda>y. y = Inr (M x))"
  unfolding reads_as_def
proof (intro allI impI)
  fix y s' assume run: "run_state (get_doc S c (key x) dec) s = (y, s')"
  obtain z where z: "run_state (doc_get (fsClient S) (collection S c) (key x)) s = (z, s')"
      "y = (case z of Inl code \<Rightarrow> if notFound code then Inr None else Inl (ClientFailed code)
         | Inr d \<Rightarrow> (case decoded dec d of Inl e \<Rightarrow> Inl e | Inr v \<Rightarrow> Inr (Some v)))"
    using run by (auto simp: get_doc_def split: prod.splits)
  from documented_get [OF doc z(1)] have same: "L s' = L s" and found: "case z of
      Inr d \<Rightarrow> documents S L s c (key x) = Some d
    | Inl code \<Rightarrow> code = CodeNotFound \<longrightarrow> documents S L s c (key x) = None"
    unfolding documents_def by blast+
  have "(\<exists>code. y = Inl (ClientFailed code)) \<or> y = Inr (M x)"
  proof (cases z)
    case (Inl code)
    with z(2) found represents_None [OF rep] show ?thesis by (auto simp: notFound_def)
  next
    case (Inr d)
    with found obtain v where "M x = Some v" "E x v d" by (auto elim: represents_Some [OF rep])
    with z(2) Inr dec show ?thesis by (simp add: decoded_def)
  qed
  with durable_same [OF rel same]
  show "durable S L K J m s' \<and> ((\<exists>code. y = Inl (ClientFailed code)) \<or> y = Inr (M x))" by blast
qed

lemma set_doc_writes:
  assumes "documented (fsClient S) L r" "durable S L K J m s"
    and "\<And>s'. wrote L s s' (collection S c) k (Some (kept r d)) \<Longrightarrow> durable S L K J (g m) s'"
  shows "writes_as S L K J m s (set_doc S c k d) g ()"
proof (rule writes_asI)
  fix x s' assume "run_state (set_doc S c k d) s = (x, s')"
  then obtain y where y: "run_state (doc_set (fsClient S) (collection S c) k d) s = (y, s')"
      "x = (case y of Inl code \<Rightarrow> Inl (ClientFailed code) | Inr _ \<Rightarrow> Inr ())"
    by (auto simp: set_doc_def split: prod.splits sum.splits)
  note law = documented_set [OF assms(1) y(1)]
  show "x = Inr () \<and> durable S L K J (g m) s' \<or>
      (\<exists>code. x = Inl (ClientFailed code)) \<and> (durable S L K J m s' \<or> durable S L K J (g m) s')"
  proof (cases y)
    case (Inl code)
    with law have "L s' = L s \<or> wrote L s s' (collection S c) k (Some (kept r d))" by simp
    then have "durable S L K J m s' \<or> durable S L K J (g m) s'" using assms(3) durable_same [OF assms(2)] by blast
    with y(2) Inl show ?thesis by simp
  next
    case (Inr u)
    with law have "durable S L K J (g m) s'" using assms(3) by simp
    with y(2) Inr show ?thesis by simp
  qed
qed

lemma reads_as_then:
  "reads_as S L K J m s prog (\<lambda>y. y = Inr v) \<Longrightarrow>
   reads_as S L K J m s (check prog id (\<lambda>y. return (h y))) (\<lambda>x. x = h v)"
  unfolding reads_as_def by (auto split: prod.splits sum.splits)

lemma query_reads:
  assumes "documented F L r" "durable S L K J m s" "timed q (L s (QCollection q))"
    and "Q (h (query_answer q (L s (QCollection q))))"
  shows "reads_as S L K J m s (check (get_all F q) ClientFailed (\<lambda>ds. return (h ds))) Q"
  unfolding reads_as_def
proof (intro allI impI)
  fix x s' assume "run_state (check (get_all F q) ClientFailed (\<lambda>ds. return (h ds))) s = (x, s')"
  then obtain y where y: "run_state (get_all F q) s = (y, s')"
      "x = (case y of Inl code \<Rightarrow> Inl (ClientFailed code) | Inr ds \<Rightarrow> h ds)"
    by (auto split: prod.splits sum.splits)
  have "durable S L K J m s'" using documented_query(1) [OF assms(1) y(1)] durable_same [OF assms(2)] by blast
  moreover have "(\<exists>code. x = Inl (ClientFailed code)) \<or> Q x"
    using y(2) documented_query(2) [OF assms(1) y(1) _ assms(3)] assms(4) by (cases y) auto
  ultimately show "durable S L K J m s' \<and> ((\<exists>code. x = Inl (ClientFailed code)) \<or> Q x)" by blast
qed

subsection \<open>Collections as lists\<close>

lemma represents_docs:
  assumes "represents key E (map_of docs) M" "distinct (map fst docs)" "(k, d) \<in> set docs"
  obtains x v where "k = key x" "M x = Some v" "E x v d"
  using map_of_is_SomeI [OF assms(2,3)] assms(1) unfolding represents_def by blast

lemma represents_member:
  assumes "represents key E (map_of docs) M" "M x = Some v" "inj key"
  obtains d where "(key x, d) \<in> set docs" "E x v d"
proof -
  obtain d where d: "map_of docs (key x) = Some d" using assms(1,2) by (fastforce simp: represents_def)
  then obtain w where "M x = Some w" "E x w d"
    using represents_Some [OF assms(1) _ _ _ d, of UNIV] assms(3) by auto
  with assms(2) map_of_SomeD [OF d] that show ?thesis by auto
qed

lemma represents_keys:
  assumes "represents key E (map_of docs) (map_of entries)" "distinct (map fst docs)" "distinct (map fst entries)" "inj key"
  shows "mset (map fst docs) = mset (map key (map fst entries))"
proof -
  have "set (map fst docs) = set (map key (map fst entries))"
  proof (intro equalityI subsetI)
    fix k assume "k \<in> set (map fst docs)"
    then obtain d where "(k, d) \<in> set docs" by auto
    from represents_docs [OF assms(1,2) this] obtain x v where "k = key x" "map_of entries x = Some v" .
    then show "k \<in> set (map key (map fst entries))" by (force dest: map_of_SomeD)
  next
    fix k assume "k \<in> set (map key (map fst entries))"
    then obtain x v where k: "k = key x" "map_of entries x = Some v" using assms(3) by auto
    from represents_member [OF assms(1) k(2) assms(4)] obtain d where "(key x, d) \<in> set docs" .
    from imageI [OF this, of fst] show "k \<in> set (map fst docs)" by (simp add: k(1))
  qed
  moreover have "distinct (map key (map fst entries))"
    using assms(3) inj_on_subset [OF assms(4) subset_UNIV, of "set (map fst entries)"] by (simp add: distinct_map comp_inj_on)
  ultimately show ?thesis using assms(2) set_eq_iff_mset_eq_distinct by blast
qed

lemma represents_length:
  "represents key E (map_of docs) (map_of entries) \<Longrightarrow> distinct (map fst docs) \<Longrightarrow> distinct (map fst entries) \<Longrightarrow>
   inj key \<Longrightarrow> length docs = length entries"
  by (drule (3) represents_keys) (metis length_map size_mset)

text \<open>What is read off the documents is what the entries hold, in some order.\<close>

lemma represents_values:
  assumes "represents key E (map_of docs) (map_of entries)" "distinct (map fst docs)" "distinct (map fst entries)" "inj key"
    and E: "\<And>x v d. E x v d \<Longrightarrow> g d = h x v"
  shows "mset (map (g \<circ> snd) docs) = mset (map (\<lambda>(x, v). h x v) entries)"
proof -
  let ?w = "\<lambda>x. h x (the (map_of entries x))"
  have "g d = ?w (inv key k)" if "(k, d) \<in> set docs" for k d
  proof -
    from represents_docs [OF assms(1,2) that] obtain x v where "k = key x" "map_of entries x = Some v" "E x v d" .
    with E assms(4) show ?thesis by (simp add: inv_f_f)
  qed
  then have docs: "map (g \<circ> snd) docs = map (?w \<circ> inv key) (map fst docs)" by auto
  have "h x v = ?w x" if "(x, v) \<in> set entries" for x v
    using that assms(3) by simp
  then have entries: "map (\<lambda>(x, v). h x v) entries = map ?w (map fst entries)" by auto
  have "mset (map (g \<circ> snd) docs) = image_mset (?w \<circ> inv key) (mset (map key (map fst entries)))"
    unfolding docs mset_map [of "?w \<circ> inv key"] represents_keys [OF assms(1-4)] ..
  also have "\<dots> = image_mset ?w (mset (map fst entries))"
    unfolding mset_map [of key] image_mset.compositionality using assms(4) by (simp add: comp_def inv_f_f)
  also have "\<dots> = mset (map (\<lambda>(x, v). h x v) entries)" unfolding entries mset_map [of ?w] ..
  finally show ?thesis .
qed

lemma documents_of_select [simp]:
  "QCollection (documents_of c) = c" "QWhere (documents_of c) = None" "QOrder (documents_of c) = None"
  "QLimit (documents_of c) = None"
  by (simp_all add: documents_of_def)

lemmas answer_defs = query_answer_def selected_def arranged_def

lemma decode_all_ok: "\<forall>d \<in> set ds. dec d \<noteq> None \<Longrightarrow> decode_all dec ds = Inr (map (the \<circ> dec) ds)"
  by (induction ds) auto

subsection \<open>Tokens\<close>

lemma FsLoad_refines:
  assumes "documented (fsClient S) L r" "durable S L K J m s" "no_collision S K J"
  shows "reads_as S L K J m s (FsLoad S a)
    (\<lambda>x. x = (case Load m a of None \<Rightarrow> Inl TokenMissing | Some t \<Rightarrow> Inr t))"
proof -
  have "represents show_int holds_token (documents S L s CollectionTokens) (map_of (mTokens m))"
    using assms(2) by (simp add: durable_def)
  from get_doc_reads [OF assms(1,2) this keys_inj(1) [OF assms(3), of UNIV], of a read_token]
  show ?thesis unfolding FsLoad_def Load_def by (intro reads_as_then) (simp add: holds_token_def)
qed

lemma FsSave_refines:
  assumes "documented (fsClient S) L r" "durable S L K J m s" "no_collision S K J"
  shows "writes_as S L K J m s (FsSave S t) (\<lambda>m. Save m (t\<lparr>ExpiresAt := r (ExpiresAt t)\<rparr>)) ()"
  unfolding FsSave_def
proof (rule set_doc_writes [OF assms(1,2)])
  fix s' assume w: "wrote L s s' (collection S CollectionTokens) (show_int (AthleteID t)) (Some (kept r (tokenDoc t)))"
  show "durable S L K J (Save m (t\<lparr>ExpiresAt := r (ExpiresAt t)\<rparr>)) s'"
    by (rule durable_Save [OF assms(2,3)]) (use w in \<open>simp_all add: holds_token_def read_tokenDoc\<close>)
qed

lemma FsAnyToken_refines:
  assumes "documented (fsClient S) L r" "durable S L K J m s" "no_collision S K J"
  shows "reads_as S L K J m s (FsAnyToken S)
    (\<lambda>x. x = (case AnyToken m of None \<Rightarrow> Inl NotOneToken | Some t \<Rightarrow> Inr t))"
proof -
  let ?q = "(documents_of (collection S CollectionTokens))\<lparr>QLimit := Some 2\<rparr>"
  let ?docs = "L s (collection S CollectionTokens)"
  have rep: "represents show_int holds_token (map_of ?docs) (map_of (mTokens m))"
    using assms(2) by (simp add: durable_def documents_def)
  have dist: "distinct (map fst ?docs)" by (rule documented_listing [OF assms(1)])
  have len: "length ?docs = length (mTokens m)"
    by (rule represents_length [OF rep dist])
      (use durable_wf [OF assms(2)] keys_inj(1) [OF assms(3), of UNIV] in \<open>simp_all add: wf_Memory_def\<close>)
  have answer: "query_answer ?q ?docs = map snd (take 2 ?docs)"
    by (simp add: answer_defs)
  have "(if length (query_answer ?q ?docs) \<noteq> 1 then Inl NotOneToken
      else decoded read_token (hd (query_answer ?q ?docs))) =
    (case AnyToken m of None \<Rightarrow> Inl NotOneToken | Some t \<Rightarrow> Inr t)"
  proof (cases "length ?docs = 1")
    case True
    then obtain k d where docs: "?docs = [(k, d)]" by (auto simp: length_Suc_conv)
    from True len obtain a t where toks: "mTokens m = [(a, t)]" by (auto simp: length_Suc_conv)
    from docs have "(k, d) \<in> set ?docs" by simp
    from represents_docs [OF rep dist this] obtain x v where "map_of (mTokens m) x = Some v" "holds_token x v d" .
    with docs toks show ?thesis by (auto simp: AnyToken_def holds_token_def decoded_def answer_defs split: if_splits)
  next
    case False
    then have "length (take 2 ?docs) \<noteq> 1" by auto
    moreover have "AnyToken m = None"
      using False len by (auto simp: AnyToken_def split: list.splits)
    ultimately show ?thesis by (simp add: answer)
  qed
  then show ?thesis unfolding FsAnyToken_def
    by (intro query_reads [OF assms(1,2)]) (simp_all add: timed_def split: if_split_asm)
qed

subsection \<open>Queue\<close>

lemma FsEnqueue_refines:
  assumes "documented (fsClient S) L r" "durable S L K J m s" "no_collision S K J"
    and p': "p' = p\<lparr>EnqueuedAt := r (EnqueuedAt p), ProcessAfter := r (ProcessAfter p)\<rparr>"
  shows "writes_as S L K J m s (FsEnqueue S p) (\<lambda>m. fst (Enqueue m p')) (snd (Enqueue m p'))"
proof (rule writes_asI)
  fix x s' assume "run_state (FsEnqueue S p) s = (x, s')"
  then obtain y where y: "run_state (doc_create (fsClient S) (collection S CollectionPending)
        (activityKey (pending_key p)) (pendingDoc p)) s = (y, s')"
      "x = (case y of Inl code \<Rightarrow> if code = CodeAlreadyExists then Inr False else Inl (ClientFailed code)
        | Inr _ \<Rightarrow> Inr True)"
    by (auto simp: FsEnqueue_def split: prod.splits)
  have key: "pending_key p' = pending_key p" by (simp add: p' pending_key_def)
  have "represents activityKey holds_pending (documents S L s CollectionPending) (map_of (mPending m))"
    using assms(2) by (simp add: durable_def)
  from represents_None [OF this keys_inj(2) [OF assms(3), of UNIV], of "pending_key p"]
  have absent: "map_of (L s (collection S CollectionPending)) (activityKey (pending_key p)) = None \<longleftrightarrow>
      map_of (mPending m) (pending_key p') = None"
    by (simp add: key documents_def)
  have written: "durable S L K J (fst (Enqueue m p')) s'"
    if "map_of (mPending m) (pending_key p') = None"
      "wrote L s s' (collection S CollectionPending) (activityKey (pending_key p)) (Some (kept r (pendingDoc p)))"
  proof (rule durable_Enqueue [OF assms(2,3) _ that(1)])
    show "holds_pending (pending_key p') p' (kept r (pendingDoc p))"
      by (simp add: holds_pending_def read_pendingDoc p') (simp add: pendingDoc_def codec_simps)
  qed (use that(2) key in simp)
  note law = documented_create [OF assms(1) y(1)]
  show "x = Inr (snd (Enqueue m p')) \<and> durable S L K J (fst (Enqueue m p')) s' \<or>
      (\<exists>code. x = Inl (ClientFailed code)) \<and> (durable S L K J m s' \<or> durable S L K J (fst (Enqueue m p')) s')"
  proof (cases y)
    case (Inr u)
    with law absent written y(2) show ?thesis by (simp add: Enqueue_def)
  next
    case (Inl code)
    show ?thesis
    proof (cases "code = CodeAlreadyExists")
      case True
      with Inl law absent have "map_of (mPending m) (pending_key p') \<noteq> None" "L s' = L s" by simp_all
      with durable_same [OF assms(2)] True Inl y(2) show ?thesis by (auto simp: Enqueue_def)
    next
      case False
      with Inl law absent written durable_same [OF assms(2)] y(2) show ?thesis by auto
    qed
  qed
qed

text \<open>The two stores agree on the due entries up to the order of ties.\<close>

definition same_due :: "Pending list \<Rightarrow> Pending list \<Rightarrow> bool" where
  "same_due ps qs \<longleftrightarrow> mset ps = mset qs \<and> sorted (map byDeadline ps) \<and> (inj_on byDeadline (set qs) \<longrightarrow> ps = qs)"

lemma sorted_unique:
  assumes "mset ps = mset qs" "sorted (map f ps)" "sorted (map f qs)" "inj_on f (set qs)"
  shows "ps = qs"
proof -
  have "mset (map f ps) = mset (map f qs)" using assms(1) by simp
  then have "map f ps = map f qs" using properties_for_sort assms(2,3) by (metis sorted_sort_id)
  moreover have "set ps = set qs" using assms(1) by (rule mset_eq_setD)
  ultimately show ?thesis using assms(4) by (metis map_inj_on Un_absorb)
qed

lemma FsDue_refines:
  assumes "documented (fsClient S) L r" "durable S L K J m s" "no_collision S K J"
  shows "reads_as S L K J m s (FsDue S now) (\<lambda>x. \<exists>ps. x = Inr ps \<and> same_due ps (Due m now))"
proof -
  let ?q = "(documents_of (collection S CollectionPending))
    \<lparr>QWhere := Some (FieldAtMost ''process_after'' (TimestampValue now)), QOrder := Some (''process_after'', False)\<rparr>"
  let ?docs = "L s (collection S CollectionPending)"
  let ?g = "the \<circ> read_pending"
  have rep: "represents activityKey holds_pending (map_of ?docs) (map_of (mPending m))"
    using assms(2) by (simp add: durable_def documents_def)
  have dist: "distinct (map fst ?docs)" by (rule documented_listing [OF assms(1)])
  have holds: "\<exists>p. read_pending d = Some p \<and> field d ''process_after'' = TimestampValue (ProcessAfter p)"
    if "(k, d) \<in> set ?docs" for k d
    using represents_docs [OF rep dist that] by (metis holds_pending_def)
  then have clause: "matches_clause (FieldAtMost ''process_after'' (TimestampValue now)) d \<longleftrightarrow> pending_due (?g d) now"
    if "(k, d) \<in> set ?docs" for k d
    using that by (fastforce simp: matches_clause_def pending_due_def before_def)
  have sel: "selected ?q ?docs = filter (\<lambda>(_, d). pending_due (?g d) now) ?docs"
    unfolding selected_def by (rule filter_cong) (auto dest: clause)
  have wf: "distinct (map fst (mPending m))" "inj activityKey"
    using durable_wf [OF assms(2)] keys_inj(2) [OF assms(3), of UNIV] by (simp_all add: wf_Memory_def)
  let ?ans = "query_answer ?q ?docs"
  have ans: "set ?ans \<subseteq> snd ` set ?docs" "mset (map ?g ?ans) = mset (map (?g \<circ> snd) (selected ?q ?docs))"
    by (auto simp: query_answer_def arranged_def sel)
  have contents: "mset (map (?g \<circ> snd) ?docs) = mset (map snd (mPending m))"
    using represents_values [OF rep dist wf, of ?g "\<lambda>_ p. p"]
    by (simp add: holds_pending_def case_prod_beta' comp_def)
  have "mset (map ?g ?ans) = filter_mset (\<lambda>p. pending_due p now) (mset (map (?g \<circ> snd) ?docs))"
    unfolding ans(2) sel mset_filter [symmetric] by (simp add: filter_map comp_def case_prod_beta')
  then have "mset (map ?g ?ans) = mset (Due m now)"
    unfolding contents by (simp add: Due_def SortPending_def)
  then have "mset (SortPending (map ?g ?ans)) = mset (Due m now)" by (simp add: SortPending_def)
  moreover have sorted: "sorted (map byDeadline (SortPending ps))" for ps by (simp add: SortPending_def)
  ultimately have same: "same_due (SortPending (map ?g ?ans)) (Due m now)"
    using sorted_unique [of _ "Due m now" byDeadline] unfolding same_due_def by (simp add: Due_def)
  have "decode_all read_pending ?ans = Inr (map ?g ?ans)"
    by (rule decode_all_ok) (use ans(1) holds in fastforce)
  with same show ?thesis unfolding FsDue_def
    by (intro query_reads [OF assms(1,2)])
      (auto simp: timed_def sel dest: holds)
qed

lemma FsLen_refines:
  assumes "documented (fsClient S) L r" "durable S L K J m s" "no_collision S K J"
  shows "reads_as S L K J m s (FsLen S) (\<lambda>x. x = Inr (Len m))"
proof -
  let ?docs = "L s (collection S CollectionPending)"
  have "length ?docs = length (mPending m)"
    by (rule represents_length [where E = holds_pending and key = activityKey])
      (use assms documented_listing(1) [OF assms(1)] keys_inj(2) [OF assms(3), of UNIV] in
        \<open>simp_all add: durable_def documents_def wf_Memory_def\<close>)
  then show ?thesis unfolding FsLen_def
    by (intro query_reads [OF assms(1,2)]) (simp_all add: timed_def answer_defs Len_def)
qed

lemma FsRemove_refines:
  assumes "documented (fsClient S) L r" "durable S L K J m s" "no_collision S K J"
  shows "writes_as S L K J m s (FsRemove S a i) (\<lambda>m. Remove m a i) ()"
proof (rule writes_asI)
  fix x s' assume "run_state (FsRemove S a i) s = (x, s')"
  then obtain y where y: "run_state (doc_delete (fsClient S) (collection S CollectionPending) (activityKey (a, i))) s = (y, s')"
      "x = (case y of Inl code \<Rightarrow> Inl (ClientFailed code) | Inr _ \<Rightarrow> Inr ())"
    by (auto simp: FsRemove_def split: prod.splits sum.splits)
  note law = documented_delete [OF assms(1) y(1)]
  show "x = Inr () \<and> durable S L K J (Remove m a i) s' \<or>
      (\<exists>code. x = Inl (ClientFailed code)) \<and> (durable S L K J m s' \<or> durable S L K J (Remove m a i) s')"
    using law y(2) durable_Remove [OF assms(2,3)] durable_same [OF assms(2)] by (cases y) auto
qed

subsection \<open>Named log\<close>

lemma FsMarkNamed_refines:
  assumes "documented (fsClient S) L r" "durable S L K J m s" "no_collision S K J"
  shows "writes_as S L K J m s (FsMarkNamed S n) (\<lambda>m. MarkNamed m (n\<lparr>NAt := r (NAt n)\<rparr>)) ()"
  unfolding FsMarkNamed_def
proof (rule set_doc_writes [OF assms(1,2)])
  let ?n = "n\<lparr>NAt := r (NAt n)\<rparr>"
  fix s' assume w: "wrote L s s' (collection S CollectionNamed) (activityKey (NAthleteID n, NActivityID n))
    (Some (kept r (namedDoc n)))"
  have "holds_named (NAthleteID ?n, NActivityID ?n) (naming_row ?n) (kept r (namedDoc n))"
    by (simp add: holds_named_def read_namedDoc) (simp add: namedDoc_def naming_row_def codec_simps)
  from durable_MarkNamed [OF assms(2,3) this] w show "durable S L K J (MarkNamed m ?n) s'" by simp
qed

lemma FsNamed_refines:
  assumes "documented (fsClient S) L r" "durable S L K J m s" "no_collision S K J"
  shows "reads_as S L K J m s (FsNamed S a i) (\<lambda>x. x = Inr (Named m a i))"
proof -
  have "represents activityKey holds_named (documents S L s CollectionNamed) (map_of (mNamed m))"
    using assms(2) by (simp add: durable_def)
  from get_doc_reads [OF assms(1,2) this keys_inj(2) [OF assms(3), of UNIV], of "(a, i)" read_named]
  show ?thesis unfolding FsNamed_def Named_def by (simp add: holds_named_def)
qed

text \<open>The newest rows: an order among equally dated ones is not promised, nor which of them a limit keeps.\<close>

definition newest_rows :: "NamedTitle list \<Rightarrow> Memory \<Rightarrow> int \<Rightarrow> int \<Rightarrow> bool" where
  "newest_rows ts m a l \<longleftrightarrow>
     (\<exists>xs. mset xs = mset (athlete_rows m a) \<and> sorted (map (\<lambda>e. - NamedAt e) xs) \<and> ts = take (nat l) xs) \<and>
     (inj_on NamedAt (set (athlete_rows m a)) \<longrightarrow> ts = RecentTitles m a l)"

lemma newest_rowsI:
  assumes "mset xs = mset (athlete_rows m a)" "sorted (map (\<lambda>e. - NamedAt e) xs)"
  shows "newest_rows (take (nat l) xs) m a l"
proof -
  have "take (nat l) xs = RecentTitles m a l" if inj: "inj_on NamedAt (set (athlete_rows m a))"
  proof -
    have set: "set xs = set (athlete_rows m a)" using assms(1) by (rule mset_eq_setD)
    have newest: "newest_first e \<le> newest_first f"
      if "e \<in> set xs" "f \<in> set xs" "- NamedAt e \<le> - NamedAt f" for e f
    proof (cases "NamedAt e = NamedAt f")
      case True
      with inj that set have "e = f" by (auto dest: inj_onD)
      then show ?thesis by simp
    qed (use that in \<open>simp add: newest_first_def less_eq_prod_def\<close>)
    have "sorted (map newest_first xs)"
      unfolding sorted_wrt_map
      by (rule sorted_wrt_mono_rel [OF _ assms(2) [unfolded sorted_wrt_map]]) (rule newest)
    moreover have "inj_on newest_first (set (athlete_rows m a))"
      using inj by (auto simp: inj_on_def newest_first_def)
    ultimately have "xs = sort_key newest_first (athlete_rows m a)"
      using assms(1) by (intro sorted_unique [where f = newest_first]) simp_all
    then show ?thesis by (simp add: RecentTitles_take)
  qed
  with assms show ?thesis unfolding newest_rows_def by blast
qed

lemma sorted_rev_neg:
  "sorted (map (f \<circ> g) xs) \<Longrightarrow> sorted (map (\<lambda>e. - f e) (map g (rev xs)))" for f :: "'a \<Rightarrow> int"
  by (simp add: sorted_wrt_rev sorted_wrt_map)

lemma FsRecentTitles_refines:
  assumes "documented (fsClient S) L r" "durable S L K J m s" "no_collision S K J"
  shows "reads_as S L K J m s (FsRecentTitles S a l) (\<lambda>x. \<exists>ts. x = Inr ts \<and> newest_rows ts m a l)"
proof (cases "l \<le> 0")
  case True
  have "newest_rows (take (nat l) (sort_key (\<lambda>e. - NamedAt e) (athlete_rows m a))) m a l"
    by (rule newest_rowsI) simp_all
  with True assms(2) show ?thesis by (simp add: FsRecentTitles_def reads_as_def)
next
  case False
  let ?q = "\<lparr>QCollection = collection S CollectionNamed,
    QWhere = Some (FieldEquals ''athlete_id'' (IntegerValue a)),
    QOrder = Some (''named_at'', True), QLimit = Some (nat l)\<rparr>"
  let ?docs = "L s (collection S CollectionNamed)"
  let ?g = "the \<circ> read_named" and ?a = "\<lambda>d. field d ''athlete_id''"
  have rep: "represents activityKey holds_named (map_of ?docs) (map_of (mNamed m))"
    using assms(2) by (simp add: durable_def documents_def)
  have dist: "distinct (map fst ?docs)" by (rule documented_listing [OF assms(1)])
  have holds: "\<exists>e. read_named d = Some e \<and> field d ''named_at'' = TimestampValue (NamedAt e)"
    if "(k, d) \<in> set ?docs" for k d
    using represents_docs [OF rep dist that] by (metis holds_named_def)
  have wf: "distinct (map fst (mNamed m))" "inj activityKey"
    using durable_wf [OF assms(2)] keys_inj(2) [OF assms(3), of UNIV] by (simp_all add: wf_Memory_def)
  let ?sel = "selected ?q ?docs"
  let ?up = "sort_key (\<lambda>(_, d). time_key ''named_at'' d) ?sel"
  have sel: "?sel = filter (\<lambda>(_, d). ?a d = IntegerValue a) ?docs"
    by (simp add: selected_def matches_clause_def)
  have ans: "query_answer ?q ?docs = take (nat l) (map snd (rev ?up))"
    by (simp add: query_answer_def arranged_def take_map)
  have sub: "set (map snd (rev ?up)) \<subseteq> snd ` set ?docs" by (auto simp: sel)
  have time: "time_key ''named_at'' d = NamedAt (?g d)" if "(k, d) \<in> set ?docs" for k d
    using holds [OF that] by (auto simp: time_key_def)
  have contents: "mset (map ((\<lambda>d. (?a d, ?g d)) \<circ> snd) ?docs) = mset (map (\<lambda>(k, e). (IntegerValue (fst k), e)) (mNamed m))"
    using represents_values [OF rep dist wf, of "\<lambda>d. (?a d, ?g d)" "\<lambda>k e. (IntegerValue (fst k), e)"]
    by (simp add: holds_named_def)
  have pick: "map (?g \<circ> snd) ?sel = map snd (filter (\<lambda>(b, _). b = IntegerValue a) (map ((\<lambda>d. (?a d, ?g d)) \<circ> snd) ?docs))"
    unfolding sel by (simp add: filter_map comp_def case_prod_beta')
  have "mset (map (?g \<circ> snd) ?sel) =
      image_mset snd (filter_mset (\<lambda>(b, _). b = IntegerValue a) (mset (map ((\<lambda>d. (?a d, ?g d)) \<circ> snd) ?docs)))"
    unfolding pick by (simp only: mset_map mset_filter)
  also have "\<dots> = mset (athlete_rows m a)"
    unfolding contents athlete_rows_def mset_filter [symmetric] mset_map [symmetric]
    by (simp add: filter_map comp_def case_prod_beta')
  finally have rows: "mset (map (?g \<circ> snd) (rev ?up)) = mset (athlete_rows m a)" by simp
  have "map (\<lambda>(_, d). time_key ''named_at'' d) ?up = map (NamedAt \<circ> (?g \<circ> snd)) ?up"
    by (rule map_cong) (auto simp: sel time)
  then have "sorted (map (NamedAt \<circ> (?g \<circ> snd)) ?up)"
    by (metis sorted_sort_key)
  then have sorted: "sorted (map (\<lambda>e. - NamedAt e) (map (?g \<circ> snd) (rev ?up)))"
    by (rule sorted_rev_neg)
  have "decode_all read_named (query_answer ?q ?docs) = Inr (map ?g (query_answer ?q ?docs))"
  proof (rule decode_all_ok, rule ballI)
    fix d assume "d \<in> set (query_answer ?q ?docs)"
    then have "d \<in> snd ` set ?docs" using sub unfolding ans by (blast dest: in_set_takeD)
    then obtain k where "(k, d) \<in> set ?docs" by auto
    from holds [OF this] show "read_named d \<noteq> None" by blast
  qed
  also have "map ?g (query_answer ?q ?docs) = take (nat l) (map (?g \<circ> snd) (rev ?up))"
    by (simp add: ans take_map)
  finally have "decode_all read_named (query_answer ?q ?docs) = Inr (take (nat l) (map (?g \<circ> snd) (rev ?up)))" .
  with newest_rowsI [OF rows sorted, of l] False show ?thesis unfolding FsRecentTitles_def
    by (simp, intro query_reads [OF assms(1,2)]) (auto simp: timed_def sel dest: holds)
qed

subsection \<open>Geocode cache, series, configurations\<close>

lemma FsPlace_refines:
  assumes "documented (fsClient S) L r" "durable S L K J m s" "no_collision S K J" "k \<in> K"
  shows "reads_as S L K J m s (FsPlace S k) (\<lambda>x. x = Inr (GetPlace m k))"
proof -
  have "represents (cacheDocID (fsDigest S)) holds_place (documents S L s CollectionGeocache) (map_of (mPlaces m))"
    and "dom (map_of (mPlaces m)) \<subseteq> K"
    using assms(2) by (simp_all add: durable_def)
  from get_doc_reads [OF assms(1,2) this(1) keys_inj(3) [OF assms(3)] this(2) assms(4), of read_place]
  show ?thesis unfolding FsPlace_def GetPlace_def by (simp add: holds_place_def)
qed

lemma FsSavePlace_refines:
  assumes "documented (fsClient S) L r" "durable S L K J m s" "no_collision S K J" "k \<in> K"
  shows "writes_as S L K J m s (FsSavePlace S now k p) (\<lambda>m. SavePlace m k p) ()"
  unfolding FsSavePlace_def
proof (rule set_doc_writes [OF assms(1,2)])
  fix s' assume w: "wrote L s s' (collection S CollectionGeocache) (cacheDocID (fsDigest S) k)
    (Some (kept r (placeDoc p now)))"
  show "durable S L K J (SavePlace m k p) s'"
    by (rule durable_SavePlace [OF assms(2,3) _ assms(4) w]) (simp add: holds_place_def read_placeDoc)
qed

lemma FsFranchisePosition_refines:
  assumes "documented (fsClient S) L r" "durable S L K J m s" "no_collision S K J" "(a, f) \<in> J"
  shows "reads_as S L K J m s (FsFranchisePosition S a f) (\<lambda>x. x = Inr (FranchisePosition m a f))"
proof -
  have "represents (franchiseKey (fsDigest S)) holds_position (documents S L s CollectionFranchise) (map_of (mFranchises m))"
    and "dom (map_of (mFranchises m)) \<subseteq> J"
    using assms(2) by (simp_all add: durable_def)
  from get_doc_reads [OF assms(1,2) this(1) keys_inj(4) [OF assms(3)] this(2) assms(4), of read_position]
  have "reads_as S L K J m s (get_doc S CollectionFranchise (franchiseKey (fsDigest S) (a, f)) read_position)
      (\<lambda>y. y = Inr (map_of (mFranchises m) (a, f)))"
    by (simp add: holds_position_def)
  then show ?thesis unfolding FsFranchisePosition_def FranchisePosition_def by (rule reads_as_then)
qed

text \<open>What a transaction finds, and so what it decides.\<close>

lemma advance_tx_found:
  assumes "durable S L K J m s" "no_collision S K J" "(a, f) \<in> J"
  shows "advance_tx now a f j (found L s (collection S CollectionFranchise) (franchiseKey (fsDigest S) (a, f))) =
    (let n = max (FranchisePosition m a f) (j + 1) in Inr (franchiseDoc a f n now, n))"
proof -
  have rep: "represents (franchiseKey (fsDigest S)) holds_position
      (map_of (L s (collection S CollectionFranchise))) (map_of (mFranchises m))"
    and sub: "dom (map_of (mFranchises m)) \<subseteq> J"
    using assms(1) by (simp_all add: durable_def documents_def)
  show ?thesis
  proof (cases "map_of (L s (collection S CollectionFranchise)) (franchiseKey (fsDigest S) (a, f))")
    case None
    with represents_None [OF rep keys_inj(4) [OF assms(2)] sub assms(3)] show ?thesis
      by (simp add: advance_tx_def found_def notFound_def FranchisePosition_def Let_def)
  next
    case (Some d)
    from represents_Some [OF rep keys_inj(4) [OF assms(2)] sub assms(3) Some]
    obtain n where "map_of (mFranchises m) (a, f) = Some n" "holds_position (a, f) n d" .
    with Some show ?thesis
      by (simp add: advance_tx_def found_def FranchisePosition_def holds_position_def decoded_def Let_def)
  qed
qed

definition advance_to :: "int \<Rightarrow> string \<Rightarrow> int \<Rightarrow> Memory \<Rightarrow> Memory" where
  "advance_to a f j m = (case AdvanceFranchisePast m a f j of None \<Rightarrow> m | Some (m', _) \<Rightarrow> m')"

lemma durable_advance:
  assumes "durable S L K J m s" "no_collision S K J" "(a, f) \<in> J" "0 \<le> j"
    and w: "wrote L s s' (collection S CollectionFranchise) (franchiseKey (fsDigest S) (a, f))
      (Some (kept r (franchiseDoc a f (max (FranchisePosition m a f) (j + 1)) now)))"
  shows "durable S L K J (advance_to a f j m) s'"
proof -
  let ?n = "max (FranchisePosition m a f) (j + 1)"
  have "holds_position (a, f) ?n (kept r (franchiseDoc a f ?n now))"
    by (simp add: holds_position_def read_franchiseDoc)
  from durable_position [OF assms(1,2) this assms(3) _ w] assms(4)
  have put: "durable S L K J (m\<lparr>mFranchises := AList.update (a, f) ?n (mFranchises m)\<rparr>) s'" by simp
  show ?thesis
  proof (cases "j + 1 > FranchisePosition m a f")
    case True
    with put assms(4) show ?thesis by (simp add: advance_to_def AdvanceFranchisePast_def Let_def max_def)
  next
    case False
    with assms(4) have pos: "map_of (mFranchises m) (a, f) = Some (FranchisePosition m a f)"
      by (auto simp: FranchisePosition_def split: option.splits)
    then have "map_of (AList.update (a, f) ?n (mFranchises m)) = map_of (mFranchises m)"
      using False by (auto simp: update_conv' max_def)
    with put durable_wf [OF assms(1)] False assms(4) show ?thesis
      by (simp add: advance_to_def AdvanceFranchisePast_def Let_def durable_def)
  qed
qed

lemma FsAdvanceFranchisePast_refines:
  assumes "documented (fsClient S) L r" "durable S L K J m s" "no_collision S K J" "(a, f) \<in> J" "0 \<le> j"
  shows "writes_as S L K J m s (FsAdvanceFranchisePast S now a f j) (advance_to a f j)
    (max (FranchisePosition m a f) (j + 1))"
proof (rule writes_asI)
  let ?c = "collection S CollectionFranchise" and ?k = "franchiseKey (fsDigest S) (a, f)"
  let ?n = "max (FranchisePosition m a f) (j + 1)"
  fix x s' assume "run_state (FsAdvanceFranchisePast S now a f j) s = (x, s')"
  with assms(5) have run: "run_state (run_transaction (fsClient S) ?c ?k (advance_tx now a f j)) s = (x, s')"
    by (simp add: FsAdvanceFranchisePast_def)
  have body: "advance_tx now a f j (found L s ?c ?k) = Inr (d, n) \<longleftrightarrow> d = franchiseDoc a f ?n now \<and> n = ?n" for d n
    using advance_tx_found [OF assms(2-4)] by (auto simp: Let_def)
  have never: "advance_tx now a f j (found L s ?c ?k) \<noteq> Inl e" for e
    using advance_tx_found [OF assms(2-4)] by (simp add: Let_def)
  note law = documented_transaction [OF assms(1) run, unfolded body]
  show "x = Inr ?n \<and> durable S L K J (advance_to a f j m) s' \<or>
      (\<exists>code. x = Inl (ClientFailed code)) \<and> (durable S L K J m s' \<or> durable S L K J (advance_to a f j m) s')"
  proof (cases x)
    case (Inr n)
    with law durable_advance [OF assms(2-5)] show ?thesis by auto
  next
    case (Inl e)
    with law never have "\<exists>code. e = ClientFailed code" by simp
    moreover from Inl law have "L s' = L s \<or> wrote L s s' ?c ?k (Some (kept r (franchiseDoc a f ?n now)))" by simp
    then have "durable S L K J m s' \<or> durable S L K J (advance_to a f j m) s'"
      using durable_advance [OF assms(2-5)] durable_same [OF assms(2)] by blast
    ultimately show ?thesis using Inl by simp
  qed
qed

lemma FsAthleteConfig_refines:
  assumes "documented (fsClient S) L r" "durable S L K J m s" "no_collision S K J"
  shows "reads_as S L K J m s (FsAthleteConfig S a) (\<lambda>x. x = Inr (GetAthleteConfig m a))"
proof -
  have "represents show_int holds_config (documents S L s CollectionConfig) (map_of (mConfigs m))"
    using assms(2) by (simp add: durable_def)
  from get_doc_reads [OF assms(1,2) this keys_inj(1) [OF assms(3), of UNIV], of a read_config]
  show ?thesis unfolding FsAthleteConfig_def GetAthleteConfig_def by (simp add: holds_config_def)
qed

lemma FsSaveAthleteConfig_refines:
  assumes "documented (fsClient S) L r" "durable S L K J m s" "no_collision S K J"
  shows "writes_as S L K J m s (FsSaveAthleteConfig S now a c) (\<lambda>m. SaveAthleteConfig m a c) ()"
  unfolding FsSaveAthleteConfig_def
proof (rule set_doc_writes [OF assms(1,2)])
  fix s' assume w: "wrote L s s' (collection S CollectionConfig) (show_int a) (Some (kept r (configDoc a c now)))"
  show "durable S L K J (SaveAthleteConfig m a c) s'"
    by (rule durable_SaveAthleteConfig [OF assms(2,3) _ w]) (simp add: holds_config_def read_configDoc)
qed

section \<open>A client that does what is documented\<close>

text \<open>Collections as association lists, no call failing, timestamps in whole microseconds.\<close>

type_synonym emulated = "string \<Rightarrow> (string \<times> document) list"

definition micros :: "instant \<Rightarrow> instant" where
  "micros t = t - t mod 1000"

definition emulator_view :: "emulated view" where
  "emulator_view s c = sort_key fst (AList.clearjunk (s c))"

definition emulator_put :: "string \<Rightarrow> string \<Rightarrow> document \<Rightarrow> emulated \<Rightarrow> emulated" where
  "emulator_put c k d s = s(c := AList.update k (kept micros d) (s c))"

definition emulator_found :: "string \<Rightarrow> string \<Rightarrow> emulated \<Rightarrow> grpc_code + document" where
  "emulator_found c k s = (case map_of (s c) k of None \<Rightarrow> Inl CodeNotFound | Some d \<Rightarrow> Inr d)"

definition emulator :: "emulated fs_client" where
  "emulator = \<lparr>
     doc_get = (\<lambda>c k. reads (emulator_found c k)),
     doc_set = (\<lambda>c k d. State (\<lambda>s. (Inr (), emulator_put c k d s))),
     doc_create = (\<lambda>c k d. State (\<lambda>s. if map_of (s c) k = None then (Inr (), emulator_put c k d s)
        else (Inl CodeAlreadyExists, s))),
     doc_delete = (\<lambda>c k. State (\<lambda>s. (Inr (), s(c := AList.delete k (s c))))),
     get_all = (\<lambda>q. reads (\<lambda>s. Inr (query_answer q (emulator_view s (QCollection q))))),
     run_transaction = (\<lambda>c k body. State (\<lambda>s. case body (emulator_found c k s) of
        Inl e \<Rightarrow> (Inl e, s) | Inr (d, n) \<Rightarrow> (Inr n, emulator_put c k d s)))\<rparr>"

lemma map_of_sort_key:
  assumes "distinct (map fst xs)"
  shows "map_of (sort_key fst xs) = map_of xs"
proof -
  have "distinct (map fst (sort_key fst xs))"
    using distinct_sorted_filter [OF assms, of fst "\<lambda>_. True"] by simp
  with assms have "map_of (sort_key fst xs) k = Some v \<longleftrightarrow> map_of xs k = Some v" for k v by simp
  then show ?thesis by (metis (no_types) ext option.exhaust)
qed

lemma emulator_lookup: "map_of (emulator_view s c) = map_of (s c)"
  by (simp add: emulator_view_def map_of_sort_key distinct_clearjunk map_of_clearjunk)

lemma emulator_wrote:
  "wrote emulator_view s (emulator_put c k d s) c k (Some (kept micros d))"
  "wrote emulator_view s (s(c := AList.delete k (s c))) c k None"
  by (auto simp: wrote_def emulator_lookup emulator_put_def update_conv' delete_conv')

lemma emulator_documented: "documented emulator emulator_view micros"
proof -
  have "distinct (map fst (emulator_view s c)) \<and> sorted (map fst (emulator_view s c))" for s c
    using distinct_sorted_filter [OF distinct_clearjunk, of fst "\<lambda>_. True" "s c"]
    by (simp add: emulator_view_def)
  moreover have "get_law emulator emulator_view" "query_law emulator emulator_view"
    by (auto simp: get_law_def query_law_def emulator_def emulator_found_def emulator_lookup split: option.splits)
  moreover have "set_law emulator emulator_view micros" "create_law emulator emulator_view micros"
      "delete_law emulator emulator_view"
    by (auto simp: set_law_def create_law_def delete_law_def emulator_def emulator_lookup emulator_wrote)
  moreover have "transaction_law emulator emulator_view micros"
    unfolding transaction_law_def
    by (auto simp: emulator_def emulator_found_def found_def emulator_lookup emulator_wrote
        split: sum.splits prod.splits)
  ultimately show ?thesis unfolding documented_def by blast
qed

definition emulator_store :: "emulated fs_store" where
  "emulator_store = \<lparr>fsClient = emulator, fsPrefix = [], fsDigest = id\<rparr>"

lemma emulator_start: "durable emulator_store emulator_view K J NewMemory (\<lambda>_. [])"
  by (simp add: durable_def documents_def emulator_lookup represents_def NewMemory_def wf_Memory_def rows_keyed_def)

lemma emulator_no_collision: "no_collision emulator_store K J"
  by (simp add: no_collision_def emulator_store_def)

text \<open>Where dates are equal the two stores need not agree on what a limit keeps: the database orders
  ties by the identifier of the document, a string, and the memory by the activity, a number.\<close>

lemma recent_titles_ties:
  "fst (run_state (do {
       _ \<leftarrow> FsMarkNamed emulator_store (ride_naming 200 0);
       _ \<leftarrow> FsMarkNamed emulator_store (ride_naming 1000 0);
       FsRecentTitles emulator_store 7 1 }) (\<lambda>_. [])) = Inr [naming_row (ride_naming 200 0)]"
  "RecentTitles (MarkNamed (MarkNamed NewMemory (ride_naming 200 0)) (ride_naming 1000 0)) 7 1 =
     [naming_row (ride_naming 1000 0)]"
  by code_simp+

section \<open>Properties\<close>

text \<open>C15: The Firestore store is the in-memory store with faults. Where the database behaves as documented and
  the digest of free-text keys has no collision, every read answers what the memory answers, or fails and
  changes nothing; every write has the memory's effect and result, or fails having had the effect or not;
  nothing else fails, no stored document is ever undecodable, and the relation is kept, so any sequence of
  operations refines. The exceptions are stated: instants are kept at the database's precision, due entries
  are ordered up to ties, and of equally dated titles any may be kept by a limit.\<close>

theorem firestore_refines_memory:
  assumes "documented (fsClient S) L r" "durable S L K J m s" "no_collision S K J"
  shows "reads_as S L K J m s (FsLoad S a) (\<lambda>x. x = (case Load m a of None \<Rightarrow> Inl TokenMissing | Some t \<Rightarrow> Inr t))
    \<and> writes_as S L K J m s (FsSave S t) (\<lambda>m. Save m (t\<lparr>ExpiresAt := r (ExpiresAt t)\<rparr>)) ()
    \<and> reads_as S L K J m s (FsAnyToken S) (\<lambda>x. x = (case AnyToken m of None \<Rightarrow> Inl NotOneToken | Some t \<Rightarrow> Inr t))
    \<and> (\<forall>p'. p' = p\<lparr>EnqueuedAt := r (EnqueuedAt p), ProcessAfter := r (ProcessAfter p)\<rparr> \<longrightarrow>
          writes_as S L K J m s (FsEnqueue S p) (\<lambda>m. fst (Enqueue m p')) (snd (Enqueue m p')))
    \<and> reads_as S L K J m s (FsDue S now) (\<lambda>x. \<exists>ps. x = Inr ps \<and> same_due ps (Due m now))
    \<and> writes_as S L K J m s (FsRemove S a i) (\<lambda>m. Remove m a i) ()
    \<and> reads_as S L K J m s (FsLen S) (\<lambda>x. x = Inr (Len m))
    \<and> writes_as S L K J m s (FsMarkNamed S n) (\<lambda>m. MarkNamed m (n\<lparr>NAt := r (NAt n)\<rparr>)) ()
    \<and> reads_as S L K J m s (FsNamed S a i) (\<lambda>x. x = Inr (Named m a i))
    \<and> reads_as S L K J m s (FsRecentTitles S a l) (\<lambda>x. \<exists>ts. x = Inr ts \<and> newest_rows ts m a l)
    \<and> (k \<in> K \<longrightarrow> reads_as S L K J m s (FsPlace S k) (\<lambda>x. x = Inr (GetPlace m k))
         \<and> writes_as S L K J m s (FsSavePlace S now k pl) (\<lambda>m. SavePlace m k pl) ())
    \<and> ((a, f) \<in> J \<longrightarrow> reads_as S L K J m s (FsFranchisePosition S a f) (\<lambda>x. x = Inr (FranchisePosition m a f))
         \<and> (0 \<le> j \<longrightarrow> writes_as S L K J m s (FsAdvanceFranchisePast S now a f j) (advance_to a f j)
              (max (FranchisePosition m a f) (j + 1))))
    \<and> reads_as S L K J m s (FsAthleteConfig S a) (\<lambda>x. x = Inr (GetAthleteConfig m a))
    \<and> writes_as S L K J m s (FsSaveAthleteConfig S now a c) (\<lambda>m. SaveAthleteConfig m a c) ()"
  by (intro conjI impI allI)
    (auto intro: FsLoad_refines FsSave_refines FsAnyToken_refines FsEnqueue_refines FsDue_refines FsRemove_refines
      FsLen_refines FsMarkNamed_refines FsNamed_refines FsRecentTitles_refines FsPlace_refines FsSavePlace_refines
      FsFranchisePosition_refines FsAdvanceFranchisePast_refines FsAthleteConfig_refines FsSaveAthleteConfig_refines assms)

text \<open>On the emulated database: a title marked through the store is a title the memory has.\<close>

lemma firestore_refines_memory_witness:
  "\<exists>f s'. run_state (FsMarkNamed emulator_store (ride_naming 200 0)) (\<lambda>_. []) = (Inr (), s') \<and>
     durable emulator_store emulator_view {} {} (fst (faulty f (\<lambda>m. MarkNamed m (ride_naming 200 0)) NewMemory)) s' \<and>
     snd (faulty f (\<lambda>m. MarkNamed m (ride_naming 200 0)) NewMemory)"
proof -
  have "documented (fsClient emulator_store) emulator_view micros"
    by (simp add: emulator_store_def emulator_documented)
  from firestore_refines_memory [OF this emulator_start emulator_no_collision]
  have w: "writes_as emulator_store emulator_view {} {} NewMemory (\<lambda>_. []) (FsMarkNamed emulator_store (ride_naming 200 0))
      (\<lambda>m. MarkNamed m ((ride_naming 200 0)\<lparr>NAt := micros (NAt (ride_naming 200 0))\<rparr>)) ()" by blast
  have time: "(ride_naming 200 0)\<lparr>NAt := micros (NAt (ride_naming 200 0))\<rparr> = ride_naming 200 0"
    by (simp add: ride_naming_def micros_def)
  obtain s' where run: "run_state (FsMarkNamed emulator_store (ride_naming 200 0)) (\<lambda>_. []) = (Inr (), s')"
    by (simp add: FsMarkNamed_def set_doc_def emulator_store_def emulator_def)
  obtain f where "durable emulator_store emulator_view {} {} (fst (faulty f (\<lambda>m. MarkNamed m (ride_naming 200 0)) NewMemory)) s'"
      "snd (faulty f (\<lambda>m. MarkNamed m (ride_naming 200 0)) NewMemory)"
    using w [unfolded writes_as_def time, rule_format, OF run] by (auto split: if_splits)
  with run show ?thesis by blast
qed

text \<open>The identifier of a cached place or of a series position is one the database accepts, and two keys
  share one only where their digests collide.\<close>

theorem document_ids_sound:
  assumes "\<forall>k. length (digest k) = 32"
  shows "valid_doc_id (cacheDocID digest key)
    \<and> (cacheDocID digest key = cacheDocID digest key' \<longrightarrow> key = key' \<or> digest key = digest key')
    \<and> (franchiseKey digest (a, f) = franchiseKey digest (b, g) \<longrightarrow>
         a = b \<and> f = g \<or> digest (series_key (a, f)) = digest (series_key (b, g)))
    \<and> (activityKey (a, i) = activityKey (b, j) \<longrightarrow> a = b \<and> i = j)"
proof (intro conjI impI)
  show "valid_doc_id (cacheDocID digest key)"
    using safe_id_valid [of key] escaped_id_valid [of "digest key"] assms by (auto simp: cacheDocID_def)
  show "key = key' \<or> digest key = digest key'" if "cacheDocID digest key = cacheDocID digest key'"
    using cacheDocID_inj [OF that] by blast
  show "a = b \<and> f = g \<or> digest (series_key (a, f)) = digest (series_key (b, g))"
    if "franchiseKey digest (a, f) = franchiseKey digest (b, g)"
    using cacheDocID_inj [OF that [unfolded franchiseKey_def]] series_key_inj [of "(a, f)" "(b, g)"] by blast
  show "a = b" "i = j" if "activityKey (a, i) = activityKey (b, j)"
    using activityKey_inj [OF that] by simp_all
qed

lemma document_ids_sound_witness: "valid_doc_id (cacheDocID (\<lambda>_. replicate 32 CHR ''x'') ''a/b'')"
  using document_ids_sound [of "\<lambda>_. replicate 32 CHR ''x''" "''a/b''"] by simp

end
