(* ===== verification/Conformance.thy ===== *)
theory Conformance
  imports Refines Strava
begin

text \<open>
  \<^verbatim>\<open>internal/store/storetest\<close>: the suite both stores are held to. A test is a program over the calls of a
  store that ends in whether it passed; the stores are records of calls. The locale \<open>conforming\<close> says what
  of a store the tests rest on, a simulation of theory Store's memory without faults; every test passes in
  it, and it is interpreted on the memory itself and on the Firestore store over a reliable client. The
  test that edits a value after handing it over needs values that are shared: it is in theory Sharing.
\<close>

section \<open>Stores and tests\<close>

record 's store_api =
  SaveCall :: "Token \<Rightarrow> ('s, fs_error + unit) state"
  LoadCall :: "int \<Rightarrow> ('s, fs_error + Token) state"
  EnqueueCall :: "Pending \<Rightarrow> ('s, fs_error + bool) state"
  DueCall :: "instant \<Rightarrow> ('s, fs_error + Pending list) state"
  RemoveCall :: "int \<Rightarrow> int \<Rightarrow> ('s, fs_error + unit) state"
  LenCall :: "('s, fs_error + nat) state"
  MarkNamedCall :: "Naming \<Rightarrow> ('s, fs_error + unit) state"
  NamedCall :: "int \<Rightarrow> int \<Rightarrow> ('s, fs_error + NamedTitle option) state"
  RecentTitlesCall :: "int \<Rightarrow> int \<Rightarrow> ('s, fs_error + NamedTitle list) state"
  PlaceCall :: "string \<Rightarrow> ('s, fs_error + Place option) state"
  SavePlaceCall :: "string \<Rightarrow> Place \<Rightarrow> ('s, fs_error + unit) state"
  PositionCall :: "int \<Rightarrow> string \<Rightarrow> ('s, fs_error + int) state"
  AdvanceCall :: "int \<Rightarrow> string \<Rightarrow> int \<Rightarrow> ('s, fs_error + int) state"
  ConfigCall :: "int \<Rightarrow> ('s, fs_error + AthleteConfig option) state"
  SaveConfigCall :: "int \<Rightarrow> AthleteConfig \<Rightarrow> ('s, fs_error + unit) state"

text \<open>
  How a test uses an answer: \<open>must\<close> ends it at an error (\<^verbatim>\<open>Fatalf\<close>), \<open>answer\<close> goes on with what came back,
  \<open>lenient\<close> with the zero value in place of an error; \<open>expect\<close> notes a mismatch and goes on (\<^verbatim>\<open>Errorf\<close>),
  \<open>need\<close> ends the test at one.
\<close>

definition must :: "('s, 'e + 'a) state \<Rightarrow> ('a \<Rightarrow> ('s, bool) state) \<Rightarrow> ('s, bool) state" where
  "must m k = do { r \<leftarrow> m; case r of Inl _ \<Rightarrow> return False | Inr a \<Rightarrow> k a }"

definition answer :: "('s, 'e + 'a) state \<Rightarrow> ('e + 'a \<Rightarrow> ('s, bool) state) \<Rightarrow> ('s, bool) state" where
  "answer m k = do { r \<leftarrow> m; k r }"

definition lenient :: "'a \<Rightarrow> ('s, 'e + 'a) state \<Rightarrow> ('a \<Rightarrow> ('s, bool) state) \<Rightarrow> ('s, bool) state" where
  "lenient zero m k = do { r \<leftarrow> m; k (case r of Inl _ \<Rightarrow> zero | Inr a \<Rightarrow> a) }"

definition expect :: "bool \<Rightarrow> ('s, bool) state \<Rightarrow> ('s, bool) state" where
  "expect b k = do { ok \<leftarrow> k; return (b \<and> ok) }"

definition need :: "bool \<Rightarrow> ('s, bool) state \<Rightarrow> ('s, bool) state" where
  "need b k = (if b then k else return False)"

definition passed :: "('s, bool) state" where
  "passed = return True"

definition no_error :: "'e + 'a \<Rightarrow> bool" where
  "no_error r \<longleftrightarrow> (case r of Inl _ \<Rightarrow> False | Inr _ \<Rightarrow> True)"

definition token_missing :: "fs_error + 'a \<Rightarrow> bool" where
  "token_missing r \<longleftrightarrow> (case r of Inl e \<Rightarrow> e = TokenMissing | Inr _ \<Rightarrow> False)"

section \<open>The tests\<close>

text \<open>18 August 2026, 12:00 UTC.\<close>

definition Now :: instant where
  "Now = time_unix 1787054400"

definition blank_token :: Token where
  "blank_token = \<lparr>AthleteID = 0, AccessToken = [], RefreshToken = [], ExpiresAt = time_zero, Scopes = []\<rparr>"

definition blank_pending :: Pending where
  "blank_pending = \<lparr>PAthleteID = 0, PActivityID = 0, Aspect = [], EnqueuedAt = time_zero, ProcessAfter = time_zero\<rparr>"

definition tokenRoundTrip :: "'s store_api \<Rightarrow> ('s, bool) state" where
  "tokenRoundTrip A = (let token = \<lparr>AthleteID = 4242, AccessToken = ''access-one'', RefreshToken = ''refresh-one'',
       ExpiresAt = time_add Now (6 * hour), Scopes = [ScopeActivityReadAll, ScopeActivityWrite]\<rparr> in
     must (SaveCall A token) (\<lambda>_.
     must (LoadCall A 4242) (\<lambda>loaded.
     expect (AccessToken loaded = AccessToken token \<and> RefreshToken loaded = RefreshToken token) (
     expect (AthleteID loaded = AthleteID token) (
     expect (ExpiresAt loaded = ExpiresAt token) (
     expect (HasScope loaded ScopeActivityWrite) passed))))))"

definition tokenRotationReplaces :: "'s store_api \<Rightarrow> ('s, bool) state" where
  "tokenRotationReplaces A =
     (let token = blank_token\<lparr>AthleteID := 4242, RefreshToken := ''refresh-one'', ExpiresAt := Now\<rparr> in
     must (SaveCall A token) (\<lambda>_.
     must (SaveCall A (token\<lparr>RefreshToken := ''refresh-two''\<rparr>)) (\<lambda>_.
     must (LoadCall A 4242) (\<lambda>loaded.
     expect (RefreshToken loaded = ''refresh-two'') passed))))"

definition tokenMissingIsTyped :: "'s store_api \<Rightarrow> ('s, bool) state" where
  "tokenMissingIsTyped A = answer (LoadCall A 999) (\<lambda>r. expect (token_missing r) passed)"

definition tokensKeyedByAthlete :: "'s store_api \<Rightarrow> ('s, bool) state" where
  "tokensKeyedByAthlete A =
     foldr (\<lambda>i rest. must (SaveCall A (blank_token\<lparr>AthleteID := i, RefreshToken := ''r''\<rparr>)) (\<lambda>_. rest)) [1, 2] (
     answer (LoadCall A 1) (\<lambda>r. expect (no_error r) (
     answer (LoadCall A 3) (\<lambda>r. expect (token_missing r) passed))))"

definition enqueueIsIdempotent :: "'s store_api \<Rightarrow> ('s, bool) state" where
  "enqueueIsIdempotent A =
     (let pending = \<lparr>PAthleteID = 4242, PActivityID = 19755622151, Aspect = ''create'', EnqueuedAt = Now,
            ProcessAfter = time_add Now (10 * minute)\<rparr>;
          again = pending\<lparr>Aspect := ''update'', EnqueuedAt := time_add (EnqueuedAt pending) (5 * minute),
            ProcessAfter := time_add (ProcessAfter pending) (5 * minute)\<rparr> in
     must (EnqueueCall A pending) (\<lambda>added. need added (
     must (EnqueueCall A again) (\<lambda>added. expect (\<not> added) (
     answer (LenCall A) (\<lambda>count. expect (count = Inr 1) (
     must (DueCall A (time_add (ProcessAfter pending) hour)) (\<lambda>due.
     need (length due = 1) (
     expect (EnqueuedAt (due ! 0) = EnqueuedAt pending) (
     expect (ProcessAfter (due ! 0) = ProcessAfter pending) passed))))))))))"

definition dueRespectsTheDeadline :: "'s store_api \<Rightarrow> ('s, bool) state" where
  "dueRespectsTheDeadline A =
     foldr (\<lambda>(i, deadline) rest. must (EnqueueCall A
         (blank_pending\<lparr>PAthleteID := 1, PActivityID := i, ProcessAfter := deadline\<rparr>)) (\<lambda>_. rest))
       [(100, time_add Now (- 10 * minute)), (200, Now), (300, time_add Now (5 * minute))] (
     must (DueCall A Now) (\<lambda>due.
     need (length due = 2) (
     expect (PActivityID (due ! 0) = 100 \<and> PActivityID (due ! 1) = 200) passed)))"

definition dueIsOrderedOldestFirst :: "'s store_api \<Rightarrow> ('s, bool) state" where
  "dueIsOrderedOldestFirst A =
     foldr (\<lambda>(i, k) rest. must (EnqueueCall A (blank_pending\<lparr>PAthleteID := 1, PActivityID := k,
         ProcessAfter := time_add Now ((- 10 + i) * minute)\<rparr>)) (\<lambda>_. rest)) [(0, 300), (1, 100), (2, 200)] (
     must (DueCall A Now) (\<lambda>due.
     need (length due = 3) (
     need (list_all (\<lambda>i. \<not> before (ProcessAfter (due ! i)) (ProcessAfter (due ! (i - 1)))) [1..<length due]) passed)))"

definition pending_ids :: "Pending list \<Rightarrow> int list" where
  "pending_ids ps = map PActivityID ps"

definition dueBreaksTiesConsistently :: "'s store_api \<Rightarrow> ('s, bool) state" where
  "dueBreaksTiesConsistently A =
     foldr (\<lambda>i rest. must (EnqueueCall A (blank_pending\<lparr>PAthleteID := 1, PActivityID := i, ProcessAfter := Now\<rparr>))
         (\<lambda>_. rest)) [1000, 200, 30] (
     must (DueCall A Now) (\<lambda>due.
     need (length due = 3) (
     need (pending_ids due = [30, 200, 1000]) passed)))"

definition removeIsForgiving :: "'s store_api \<Rightarrow> ('s, bool) state" where
  "removeIsForgiving A =
     must (EnqueueCall A (blank_pending\<lparr>PAthleteID := 1, PActivityID := 5\<rparr>)) (\<lambda>_.
     must (RemoveCall A 1 5) (\<lambda>_.
     lenient 0 (LenCall A) (\<lambda>count. expect (count = 0) (
     answer (RemoveCall A 1 5) (\<lambda>r. expect (no_error r) passed)))))"

definition queueKeyedByAthlete :: "'s store_api \<Rightarrow> ('s, bool) state" where
  "queueKeyedByAthlete A =
     foldr (\<lambda>athlete rest. must (EnqueueCall A (blank_pending\<lparr>PAthleteID := athlete, PActivityID := 5\<rparr>))
         (\<lambda>added. need added rest)) [1, 2] (
     lenient 0 (LenCall A) (\<lambda>count. expect (count = 2) passed))"

definition first_naming :: Naming where
  "first_naming = \<lparr>NAthleteID = 1, NActivityID = 5, NTitle = ''The Pink Panther Strikes Again'', NLanguage = ''en'',
     NAt = Now, NSource = SourceService\<rparr>"

definition namedLogRoundTrip :: "'s store_api \<Rightarrow> ('s, bool) state" where
  "namedLogRoundTrip A =
     must (NamedCall A 1 5) (\<lambda>entry. need (entry = None) (
     must (MarkNamedCall A first_naming) (\<lambda>_.
     must (NamedCall A 1 5) (\<lambda>entry.
     expect (map_option Title entry = Some ''The Pink Panther Strikes Again'') (
     expect (case entry of None \<Rightarrow> False
       | Some e \<Rightarrow> ActivityID e = 5 \<and> Language e = ''en'' \<and> Source e = SourceService) (
     expect (map_option NamedAt entry = Some Now) (
     must (MarkNamedCall A (first_naming\<lparr>NTitle := ''Windschief'', NLanguage := ''de'', NSource := SourceHuman,
       NAt := time_add Now hour\<rparr>)) (\<lambda>_.
     must (NamedCall A 1 5) (\<lambda>entry. need (entry \<noteq> None) (
     expect (case entry of None \<Rightarrow> False
       | Some e \<Rightarrow> Title e = ''Windschief'' \<and> Source e = SourceHuman \<and> Language e = ''de'') passed))))))))))"

definition blank_naming :: Naming where
  "blank_naming = \<lparr>NAthleteID = 0, NActivityID = 0, NTitle = [], NLanguage = [], NAt = time_zero, NSource = []\<rparr>"

definition namedLogKeyedByAthlete :: "'s store_api \<Rightarrow> ('s, bool) state" where
  "namedLogKeyedByAthlete A =
     must (MarkNamedCall A (blank_naming\<lparr>NAthleteID := 1, NActivityID := 5, NTitle := ''title'', NAt := Now\<rparr>)) (\<lambda>_.
     lenient None (NamedCall A 2 5) (\<lambda>entry. expect (entry = None) passed))"

definition geocodeCacheRoundTrip :: "'s store_api \<Rightarrow> ('s, bool) state" where
  "geocodeCacheRoundTrip A =
     (let place = \<lparr>PlaceName = ''Musterdorf'', PlaceKind = ''village'', Region = ''Musterregion'', Country = ''Testland''\<rparr> in
     must (SavePlaceCall A ''0.000,0.000'' place) (\<lambda>_.
     must (PlaceCall A ''0.000,0.000'') (\<lambda>cached. need (cached \<noteq> None) (
     expect (cached = Some place) passed))))"

definition geocodeCacheMissIsNotAnErr :: "'s store_api \<Rightarrow> ('s, bool) state" where
  "geocodeCacheMissIsNotAnErr A = must (PlaceCall A ''unseen'') (\<lambda>place. expect (place = None) passed)"

definition testFranchiseKey :: string where "testFranchiseKey = ''pink-panther''"

definition franchiseStartsAtZero :: "'s store_api \<Rightarrow> ('s, bool) state" where
  "franchiseStartsAtZero A =
     must (PositionCall A 4242 testFranchiseKey) (\<lambda>position. expect (position = 0) (
     answer (PositionCall A 4242 ''a-franchise-that-was-removed'') (\<lambda>r. expect (no_error r) passed)))"

definition franchiseAdvances :: "'s store_api \<Rightarrow> ('s, bool) state" where
  "franchiseAdvances A =
     foldr (\<lambda>i rest. must (AdvanceCall A 4242 testFranchiseKey i) (\<lambda>got. need (got = i + 1) rest)) [0, 1, 2] (
     must (AdvanceCall A 4242 testFranchiseKey 7) (\<lambda>got. need (got = 8) (
     must (PositionCall A 4242 testFranchiseKey) (\<lambda>position. expect (position = 8) passed))))"

definition franchiseAdvanceIsMonotonic :: "'s store_api \<Rightarrow> ('s, bool) state" where
  "franchiseAdvanceIsMonotonic A =
     must (AdvanceCall A 4242 testFranchiseKey 4) (\<lambda>_.
     must (AdvanceCall A 4242 testFranchiseKey 1) (\<lambda>got. expect (got = 5) (
     must (PositionCall A 4242 testFranchiseKey) (\<lambda>position. expect (position = 5) passed))))"

definition franchiseRejectsANegativeIndex :: "'s store_api \<Rightarrow> ('s, bool) state" where
  "franchiseRejectsANegativeIndex A =
     answer (AdvanceCall A 4242 testFranchiseKey (- 1)) (\<lambda>r. expect (\<not> no_error r) (
     must (PositionCall A 4242 testFranchiseKey) (\<lambda>position. expect (position = 0) passed)))"

definition franchisesAreIndependent :: "'s store_api \<Rightarrow> ('s, bool) state" where
  "franchisesAreIndependent A =
     must (AdvanceCall A 4242 testFranchiseKey 0) (\<lambda>_.
     must (PositionCall A 4242 ''bond'') (\<lambda>other. expect (other = 0) passed))"

definition franchiseKeyedByAthlete :: "'s store_api \<Rightarrow> ('s, bool) state" where
  "franchiseKeyedByAthlete A =
     must (AdvanceCall A 4242 testFranchiseKey 0) (\<lambda>_.
     must (PositionCall A 9999 testFranchiseKey) (\<lambda>other. expect (other = 0) passed))"

definition arbitrary_names :: "string list" where
  "arbitrary_names = [''Pink Panther'', ''Herr der Ringe / LOTR'', ''__proto__'', ''..'',
     ''Ocean'' @ [CHR 0x27] @ ''s Eleven'', [CHR 0xC3, CHR 0x9C] @ ''ber-Runde'']"

definition franchiseNamesAreArbitrary :: "'s store_api \<Rightarrow> ('s, bool) state" where
  "franchiseNamesAreArbitrary A =
     foldr (\<lambda>name rest. must (AdvanceCall A 4242 name 0) (\<lambda>position. expect (position = 1) rest)) arbitrary_names (
     must (AdvanceCall A 4242 (arbitrary_names ! 0) 1) (\<lambda>_.
     foldr (\<lambda>(i, name) rest. must (PositionCall A 4242 name) (\<lambda>got. expect (got = (if i = 0 then 2 else 1)) rest))
       (enumerate 0 arbitrary_names) passed))"

definition recentTitlesNewestFirst :: "'s store_api \<Rightarrow> ('s, bool) state" where
  "recentTitlesNewestFirst A =
     foldr (\<lambda>(i, title) rest. must (MarkNamedCall A \<lparr>NAthleteID = 7, NActivityID = 100 + i, NTitle = title,
         NLanguage = ''de'', NAt = time_add Now (i * hour), NSource = SourceService\<rparr>) (\<lambda>_. rest))
       [(0, ''oldest''), (1, ''middle''), (2, ''newest'')] (
     must (RecentTitlesCall A 7 10) (\<lambda>titles.
     expect (map Title titles = [''newest'', ''middle'', ''oldest'']) (
     expect (titles = [] \<or> Language (titles ! 0) = ''de'') (
     expect (titles = [] \<or> Source (titles ! 0) = SourceService) passed))))"

definition recentTitlesKeyedByAthlete :: "'s store_api \<Rightarrow> ('s, bool) state" where
  "recentTitlesKeyedByAthlete A =
     must (MarkNamedCall A (blank_naming\<lparr>NAthleteID := 8, NActivityID := 200, NTitle := ''theirs'', NAt := Now\<rparr>)) (\<lambda>_.
     must (RecentTitlesCall A 9 10) (\<lambda>titles. expect (length titles = 0) passed))"

definition recentTitlesBounded :: "'s store_api \<Rightarrow> ('s, bool) state" where
  "recentTitlesBounded A =
     foldr (\<lambda>i rest. must (MarkNamedCall A (blank_naming\<lparr>NAthleteID := 10, NActivityID := 300 + i, NTitle := ''title'',
         NAt := time_add Now (i * minute)\<rparr>)) (\<lambda>_. rest)) [0, 1, 2, 3, 4] (
     must (RecentTitlesCall A 10 2) (\<lambda>titles. expect (length titles = 2) (
     foldr (\<lambda>limit rest. must (RecentTitlesCall A 10 limit) (\<lambda>titles. expect (length titles = 0) rest)) [0, - 1] passed)))"

definition testGravelRide :: string where "testGravelRide = ''GravelRide''"

definition testFirstEntry :: string where "testFirstEntry = ''The Pink Panther''"

definition testReservedEntry :: string where "testReservedEntry = ''A Shot in the Dark''"

definition testFranchises :: AthleteConfig where
  "testFranchises = \<lparr>Franchises = [\<lparr>SName = testFranchiseKey, SSportTypes = [testGravelRide, ''Ride''],
     SGearName = ''Pink Panther'', STitles = [testFirstEntry, testReservedEntry], SReserved = [testReservedEntry]\<rparr>]\<rparr>"

definition athleteConfigRoundTrip :: "'s store_api \<Rightarrow> ('s, bool) state" where
  "athleteConfigRoundTrip A =
     must (SaveConfigCall A 20 testFranchises) (\<lambda>_.
     must (ConfigCall A 20) (\<lambda>got. case got of None \<Rightarrow> return False | Some c \<Rightarrow>
     need (length (Franchises c) = 1) (
     let franchise = hd (Franchises c); wanted = hd (Franchises testFranchises) in
     expect (SName franchise = SName wanted \<and> SGearName franchise = SGearName wanted) (
     expect (SSportTypes franchise = SSportTypes wanted) (
     expect (STitles franchise = STitles wanted) (
     expect (SReserved franchise = SReserved wanted) passed))))))"

definition athleteConfigAbsent :: "'s store_api \<Rightarrow> ('s, bool) state" where
  "athleteConfigAbsent A = must (ConfigCall A 21) (\<lambda>got. expect (got = None) passed)"

definition athleteConfigKeyedByAthlete :: "'s store_api \<Rightarrow> ('s, bool) state" where
  "athleteConfigKeyedByAthlete A =
     must (SaveConfigCall A 22 testFranchises) (\<lambda>_.
     lenient None (ConfigCall A 23) (\<lambda>got. expect (got = None) passed))"

definition athleteConfigReplaces :: "'s store_api \<Rightarrow> ('s, bool) state" where
  "athleteConfigReplaces A =
     must (SaveConfigCall A 24 testFranchises) (\<lambda>_.
     must (SaveConfigCall A 24 \<lparr>Franchises = []\<rparr>) (\<lambda>_.
     must (ConfigCall A 24) (\<lambda>got. case got of None \<Rightarrow> return False | Some c \<Rightarrow>
     expect (length (Franchises c) = 0) passed)))"

definition value_tests :: "'s store_api \<Rightarrow> (string \<times> ('s, bool) state) list" where
  "value_tests A =
     [(''TokenRoundTrip'', tokenRoundTrip A), (''TokenRotationReplaces'', tokenRotationReplaces A),
      (''TokenMissingIsTyped'', tokenMissingIsTyped A), (''TokensKeyedByAthlete'', tokensKeyedByAthlete A),
      (''EnqueueIsIdempotent'', enqueueIsIdempotent A), (''DueRespectsTheDeadline'', dueRespectsTheDeadline A),
      (''DueIsOrderedOldestFirst'', dueIsOrderedOldestFirst A),
      (''DueBreaksTiesConsistently'', dueBreaksTiesConsistently A), (''RemoveIsForgiving'', removeIsForgiving A),
      (''QueueKeyedByAthlete'', queueKeyedByAthlete A), (''NamedLogRoundTrip'', namedLogRoundTrip A),
      (''NamedLogKeyedByAthlete'', namedLogKeyedByAthlete A), (''GeocodeCacheRoundTrip'', geocodeCacheRoundTrip A),
      (''GeocodeCacheMissIsNotAnErr'', geocodeCacheMissIsNotAnErr A),
      (''FranchiseStartsAtZero'', franchiseStartsAtZero A), (''FranchiseAdvances'', franchiseAdvances A),
      (''FranchiseAdvanceIsMonotonic'', franchiseAdvanceIsMonotonic A),
      (''FranchiseRejectsANegativeIndex'', franchiseRejectsANegativeIndex A),
      (''FranchisesAreIndependent'', franchisesAreIndependent A), (''FranchiseKeyedByAthlete'', franchiseKeyedByAthlete A),
      (''FranchiseNamesAreArbitrary'', franchiseNamesAreArbitrary A),
      (''RecentTitlesNewestFirst'', recentTitlesNewestFirst A),
      (''RecentTitlesKeyedByAthlete'', recentTitlesKeyedByAthlete A), (''RecentTitlesBounded'', recentTitlesBounded A),
      (''AthleteConfigRoundTrip'', athleteConfigRoundTrip A), (''AthleteConfigAbsent'', athleteConfigAbsent A),
      (''AthleteConfigKeyedByAthlete'', athleteConfigKeyedByAthlete A), (''AthleteConfigReplaces'', athleteConfigReplaces A)]"

section \<open>What the suite rests on\<close>

text \<open>A call, made where the store holds \<open>m\<close>, answers as \<open>Q\<close> says and leaves it holding \<open>m'\<close>.\<close>

definition gives :: "(Memory \<Rightarrow> 's \<Rightarrow> bool) \<Rightarrow> Memory \<Rightarrow> ('s, 'a) state \<Rightarrow> ('a \<Rightarrow> bool) \<Rightarrow> Memory \<Rightarrow> bool" where
  "gives R m prog Q m' \<longleftrightarrow> (\<forall>s. R m s \<longrightarrow> Q (fst (run_state prog s)) \<and> R m' (snd (run_state prog s)))"

lemma givesI:
  "(\<And>s x s'. R m s \<Longrightarrow> run_state prog s = (x, s') \<Longrightarrow> Q x \<and> R m' s') \<Longrightarrow> gives R m prog Q m'"
  unfolding gives_def by (metis prod.collapse)

definition passes :: "(Memory \<Rightarrow> 's \<Rightarrow> bool) \<Rightarrow> Memory \<Rightarrow> ('s, bool) state \<Rightarrow> bool" where
  "passes R m test \<longleftrightarrow> (\<forall>s. R m s \<longrightarrow> fst (run_state test s))"

definition whole :: "instant \<Rightarrow> bool" where
  "whole t \<longleftrightarrow> t mod second = 0"

lemma passes_passed [simp]: "passes R m passed"
  by (simp add: passes_def passed_def)

lemma passes_expect [simp]: "b \<Longrightarrow> passes R m k \<Longrightarrow> passes R m (expect b k)"
  by (simp add: passes_def expect_def split: prod.splits)

lemma passes_need [simp]: "b \<Longrightarrow> passes R m k \<Longrightarrow> passes R m (need b k)"
  by (simp add: need_def)

lemma passes_must:
  assumes "gives R m prog (\<lambda>x. x = Inr a) m'" "passes R m' (k a)"
  shows "passes R m (must prog k)"
  unfolding passes_def
proof (intro allI impI)
  fix s assume "R m s"
  with assms(1) obtain s' where "run_state prog s = (Inr a, s')" "R m' s'"
    unfolding gives_def by (metis prod.collapse)
  with assms(2) show "fst (run_state (must prog k) s)" by (simp add: passes_def must_def)
qed

lemma passes_answer:
  assumes "gives R m prog Q m'" "\<And>r. Q r \<Longrightarrow> passes R m' (k r)"
  shows "passes R m (answer prog k)"
  unfolding passes_def
proof (intro allI impI)
  fix s assume s: "R m s"
  obtain r s' where run: "run_state prog s = (r, s')" by fastforce
  with assms(1) s have "Q r" "R m' s'" unfolding gives_def by force+
  with assms(2) run show "fst (run_state (answer prog k) s)" by (simp add: passes_def answer_def)
qed

lemma passes_lenient:
  assumes "gives R m prog (\<lambda>x. x = Inr a) m'" "passes R m' (k a)"
  shows "passes R m (lenient zero prog k)"
proof -
  have "lenient zero prog k = answer prog (\<lambda>r. k (case r of Inl _ \<Rightarrow> zero | Inr a \<Rightarrow> a))"
    by (simp add: lenient_def answer_def)
  with passes_answer [OF assms(1), of "\<lambda>r. k (case r of Inl _ \<Rightarrow> zero | Inr a \<Rightarrow> a)"] assms(2) show ?thesis by simp
qed

text \<open>
  A store \<open>A\<close> whose states \<open>R\<close> relates to memories, for the places \<open>K\<close> and the series \<open>J\<close> it is asked for.
  Instants are whole seconds; what is due, and the titles of an athlete, are determined where no two have
  the same key and the same date.
\<close>

definition suite_places :: "string set" where
  "suite_places = {''0.000,0.000'', ''unseen''}"

definition suite_series :: "(int \<times> string) set" where
  "suite_series = {(4242, testFranchiseKey), (9999, testFranchiseKey), (4242, ''bond''),
     (4242, ''a-franchise-that-was-removed'')} \<union> Pair 4242 ` set arbitrary_names"

locale conforming =
  fixes A :: "'s store_api"
    and R :: "Memory \<Rightarrow> 's \<Rightarrow> bool"
    and K :: "string set"
    and J :: "(int \<times> string) set"
  assumes saves: "whole (ExpiresAt t) \<Longrightarrow> gives R m (SaveCall A t) (\<lambda>x. x = Inr ()) (Save m t)"
    and loads: "Load m a = Some t \<Longrightarrow> gives R m (LoadCall A a) (\<lambda>x. x = Inr t) m"
    and misses: "Load m a = None \<Longrightarrow> gives R m (LoadCall A a) token_missing m"
    and enqueues: "whole (EnqueuedAt p) \<Longrightarrow> whole (ProcessAfter p) \<Longrightarrow>
      gives R m (EnqueueCall A p) (\<lambda>x. x = Inr (snd (Enqueue m p))) (fst (Enqueue m p))"
    and dues: "inj_on byDeadline (set (Due m now)) \<Longrightarrow> gives R m (DueCall A now) (\<lambda>x. x = Inr (Due m now)) m"
    and removes: "gives R m (RemoveCall A a i) (\<lambda>x. x = Inr ()) (Remove m a i)"
    and lens: "gives R m (LenCall A) (\<lambda>x. x = Inr (Len m)) m"
    and marks: "whole (NAt n) \<Longrightarrow> gives R m (MarkNamedCall A n) (\<lambda>x. x = Inr ()) (MarkNamed m n)"
    and nameds: "gives R m (NamedCall A a i) (\<lambda>x. x = Inr (Named m a i)) m"
    and recents: "inj_on NamedAt (set (athlete_rows m a)) \<Longrightarrow>
      gives R m (RecentTitlesCall A a l) (\<lambda>x. x = Inr (RecentTitles m a l)) m"
    and places: "k \<in> K \<Longrightarrow> gives R m (PlaceCall A k) (\<lambda>x. x = Inr (GetPlace m k)) m"
    and saves_place: "k \<in> K \<Longrightarrow> gives R m (SavePlaceCall A k pl) (\<lambda>x. x = Inr ()) (SavePlace m k pl)"
    and positions: "(a, f) \<in> J \<Longrightarrow> gives R m (PositionCall A a f) (\<lambda>x. x = Inr (FranchisePosition m a f)) m"
    and advances: "(a, f) \<in> J \<Longrightarrow> 0 \<le> j \<Longrightarrow> gives R m (AdvanceCall A a f j)
      (\<lambda>x. x = Inr (max (FranchisePosition m a f) (j + 1))) (advance_to a f j m)"
    and refuses: "j < 0 \<Longrightarrow> gives R m (AdvanceCall A a f j) (\<lambda>x. \<not> no_error x) m"
    and configs: "gives R m (ConfigCall A a) (\<lambda>x. x = Inr (GetAthleteConfig m a)) m"
    and saves_config: "gives R m (SaveConfigCall A a c) (\<lambda>x. x = Inr ()) (SaveAthleteConfig m a c)"
begin

lemmas must_rules = passes_must [OF saves] passes_must [OF loads] passes_must [OF enqueues] passes_must [OF dues]
  passes_must [OF removes] passes_must [OF lens] passes_must [OF marks] passes_must [OF nameds]
  passes_must [OF recents] passes_must [OF places] passes_must [OF saves_place] passes_must [OF positions]
  passes_must [OF advances] passes_must [OF configs] passes_must [OF saves_config]

lemmas lenient_rules = passes_lenient [OF lens] passes_lenient [OF nameds] passes_lenient [OF configs]

lemma answer_loads: "Load m a = Some t \<Longrightarrow> passes R m (k (Inr t)) \<Longrightarrow> passes R m (answer (LoadCall A a) k)"
  by (rule passes_answer [OF loads]) auto

lemma answer_misses:
  "Load m a = None \<Longrightarrow> (\<And>r :: fs_error + Token. token_missing r \<Longrightarrow> passes R m (k r)) \<Longrightarrow>
     passes R m (answer (LoadCall A a) k)"
  by (rule passes_answer [OF misses])

lemma answer_len: "passes R m (k (Inr (Len m))) \<Longrightarrow> passes R m (answer (LenCall A) k)"
  by (rule passes_answer [OF lens]) auto

lemma answer_remove: "passes R (Remove m a i) (k (Inr ())) \<Longrightarrow> passes R m (answer (RemoveCall A a i) k)"
  by (rule passes_answer [OF removes]) auto

lemma answer_position:
  "(a, f) \<in> J \<Longrightarrow> passes R m (k (Inr (FranchisePosition m a f))) \<Longrightarrow> passes R m (answer (PositionCall A a f) k)"
  by (rule passes_answer [OF positions]) auto

lemma answer_refused:
  "j < 0 \<Longrightarrow> (\<And>r :: fs_error + int. \<not> no_error r \<Longrightarrow> passes R m (k r)) \<Longrightarrow> passes R m (answer (AdvanceCall A a f j) k)"
  by (rule passes_answer [OF refuses])

lemmas pass_rules = must_rules lenient_rules answer_loads answer_misses answer_len answer_remove
  answer_position answer_refused

lemmas times = whole_def Now_def time_unix_def time_add_def time_zero_def unix_to_internal_def second_def minute_def
  hour_def int64_def blank_token_def blank_pending_def blank_naming_def first_naming_def

lemmas memories = NewMemory_def Save_def Load_def Enqueue_def pending_key_def Due_def SortPending_def byDeadline_def
  pending_due_def before_def Remove_def Len_def MarkNamed_def naming_row_def Named_def RecentTitles_def
  athlete_rows_def newest_first_def GetPlace_def SavePlace_def FranchisePosition_def advance_to_def
  AdvanceFranchisePast_def GetAthleteConfig_def SaveAthleteConfig_def

lemma token_tests:
  "passes R NewMemory (tokenRoundTrip A)" "passes R NewMemory (tokenRotationReplaces A)"
  "passes R NewMemory (tokenMissingIsTyped A)" "passes R NewMemory (tokensKeyedByAthlete A)"
  by (simp_all add: tokenRoundTrip_def tokenRotationReplaces_def tokenMissingIsTyped_def tokensKeyedByAthlete_def
      pass_rules memories times no_error_def HasScope_def)

lemma queue_tests:
  "passes R NewMemory (enqueueIsIdempotent A)" "passes R NewMemory (removeIsForgiving A)"
  "passes R NewMemory (queueKeyedByAthlete A)"
  by (simp_all add: enqueueIsIdempotent_def removeIsForgiving_def queueKeyedByAthlete_def
      pass_rules memories times no_error_def)

lemma due_tests:
  "passes R NewMemory (dueRespectsTheDeadline A)" "passes R NewMemory (dueIsOrderedOldestFirst A)"
  "passes R NewMemory (dueBreaksTiesConsistently A)"
  by (simp_all add: dueRespectsTheDeadline_def dueIsOrderedOldestFirst_def dueBreaksTiesConsistently_def
      pending_ids_def pass_rules memories times upt_rec less_eq_prod_def)

lemma named_tests:
  "passes R NewMemory (namedLogRoundTrip A)" "passes R NewMemory (namedLogKeyedByAthlete A)"
  by (simp_all add: namedLogRoundTrip_def namedLogKeyedByAthlete_def pass_rules memories times sources)

lemma title_tests:
  "passes R NewMemory (recentTitlesNewestFirst A)" "passes R NewMemory (recentTitlesKeyedByAthlete A)"
  "passes R NewMemory (recentTitlesBounded A)"
  by (simp_all add: recentTitlesNewestFirst_def recentTitlesKeyedByAthlete_def recentTitlesBounded_def
      pass_rules memories times sources less_eq_prod_def)

lemma place_tests:
  assumes "''0.000,0.000'' \<in> K" "''unseen'' \<in> K"
  shows "passes R NewMemory (geocodeCacheRoundTrip A)" "passes R NewMemory (geocodeCacheMissIsNotAnErr A)"
  using assms by (simp_all add: geocodeCacheRoundTrip_def geocodeCacheMissIsNotAnErr_def Let_def pass_rules memories)

lemma config_tests:
  "passes R NewMemory (athleteConfigRoundTrip A)" "passes R NewMemory (athleteConfigAbsent A)"
  "passes R NewMemory (athleteConfigKeyedByAthlete A)" "passes R NewMemory (athleteConfigReplaces A)"
  by (simp_all add: athleteConfigRoundTrip_def athleteConfigAbsent_def athleteConfigKeyedByAthlete_def
      athleteConfigReplaces_def testFranchises_def Let_def pass_rules memories)

lemma series_tests:
  assumes "(4242, testFranchiseKey) \<in> J" "(9999, testFranchiseKey) \<in> J" "(4242, ''bond'') \<in> J"
    "(4242, ''a-franchise-that-was-removed'') \<in> J"
  shows "passes R NewMemory (franchiseStartsAtZero A)" "passes R NewMemory (franchiseAdvances A)"
    "passes R NewMemory (franchiseAdvanceIsMonotonic A)" "passes R NewMemory (franchisesAreIndependent A)" "passes R NewMemory (franchiseKeyedByAthlete A)"
  using assms by (simp_all add: franchiseStartsAtZero_def franchiseAdvances_def franchiseAdvanceIsMonotonic_def
      franchisesAreIndependent_def franchiseKeyedByAthlete_def
      testFranchiseKey_def no_error_def pass_rules memories)

lemma negative_test:
  "(4242, testFranchiseKey) \<in> J \<Longrightarrow> passes R NewMemory (franchiseRejectsANegativeIndex A)"
  by (simp add: franchiseRejectsANegativeIndex_def pass_rules memories)

lemma arbitrary_names_test:
  assumes "\<forall>name \<in> set arbitrary_names. (4242, name) \<in> J"
  shows "passes R NewMemory (franchiseNamesAreArbitrary A)"
  using assms by (simp add: franchiseNamesAreArbitrary_def arbitrary_names_def pass_rules memories)

lemma suite_passes:
  assumes "suite_places \<subseteq> K" "suite_series \<subseteq> J"
  shows "list_all (\<lambda>(name, test). passes R NewMemory test) (value_tests A)"
proof -
  have "''0.000,0.000'' \<in> K" "''unseen'' \<in> K" using assms(1) by (auto simp: suite_places_def)
  note places = place_tests [OF this]
  have series: "(4242, testFranchiseKey) \<in> J" "(9999, testFranchiseKey) \<in> J" "(4242, ''bond'') \<in> J"
      "(4242, ''a-franchise-that-was-removed'') \<in> J"
    and names: "\<forall>name \<in> set arbitrary_names. (4242, name) \<in> J"
    using assms(2) by (auto simp: suite_series_def)
  show ?thesis
    by (simp add: value_tests_def token_tests queue_tests due_tests named_tests title_tests places config_tests
        series_tests [OF series] negative_test [OF series(1)] arbitrary_names_test [OF names])
qed

end

section \<open>The memory\<close>

definition memory_api :: "Memory store_api" where
  "memory_api = \<lparr>
     SaveCall = (\<lambda>t. State (\<lambda>m. (Inr (), Save m t))),
     LoadCall = (\<lambda>a. reads (\<lambda>m. case Load m a of None \<Rightarrow> Inl TokenMissing | Some t \<Rightarrow> Inr t)),
     EnqueueCall = (\<lambda>p. State (\<lambda>m. (Inr (snd (Enqueue m p)), fst (Enqueue m p)))),
     DueCall = (\<lambda>now. reads (\<lambda>m. Inr (Due m now))),
     RemoveCall = (\<lambda>a i. State (\<lambda>m. (Inr (), Remove m a i))),
     LenCall = reads (\<lambda>m. Inr (Len m)),
     MarkNamedCall = (\<lambda>n. State (\<lambda>m. (Inr (), MarkNamed m n))),
     NamedCall = (\<lambda>a i. reads (\<lambda>m. Inr (Named m a i))),
     RecentTitlesCall = (\<lambda>a l. reads (\<lambda>m. Inr (RecentTitles m a l))),
     PlaceCall = (\<lambda>k. reads (\<lambda>m. Inr (GetPlace m k))),
     SavePlaceCall = (\<lambda>k p. State (\<lambda>m. (Inr (), SavePlace m k p))),
     PositionCall = (\<lambda>a f. reads (\<lambda>m. Inr (FranchisePosition m a f))),
     AdvanceCall = (\<lambda>a f j. State (\<lambda>m. case AdvanceFranchisePast m a f j of
       None \<Rightarrow> (Inl (NegativeIndex j), m) | Some (m', n) \<Rightarrow> (Inr n, m'))),
     ConfigCall = (\<lambda>a. reads (\<lambda>m. Inr (GetAthleteConfig m a))),
     SaveConfigCall = (\<lambda>a c. State (\<lambda>m. (Inr (), SaveAthleteConfig m a c)))\<rparr>"

interpretation memory: conforming memory_api "\<lambda>m s. s = m" UNIV UNIV
  by unfold_locales
    (auto simp: gives_def memory_api_def token_missing_def no_error_def AdvanceFranchisePast_def advance_to_def
      FranchisePosition_def update_conv' Let_def split: option.splits)

section \<open>The Firestore store\<close>

definition firestore_api :: "'f fs_store \<Rightarrow> instant \<Rightarrow> 'f store_api" where
  "firestore_api S now = \<lparr>
     SaveCall = FsSave S, LoadCall = FsLoad S, EnqueueCall = FsEnqueue S, DueCall = FsDue S,
     RemoveCall = FsRemove S, LenCall = FsLen S, MarkNamedCall = FsMarkNamed S, NamedCall = FsNamed S,
     RecentTitlesCall = FsRecentTitles S, PlaceCall = FsPlace S, SavePlaceCall = FsSavePlace S now,
     PositionCall = FsFranchisePosition S, AdvanceCall = FsAdvanceFranchisePast S now,
     ConfigCall = FsAthleteConfig S, SaveConfigCall = FsSaveAthleteConfig S now\<rparr>"

text \<open>A client whose calls do not fail, but to say that a document is not there, or is there already.\<close>

definition reliable :: "'f fs_client \<Rightarrow> bool" where
  "reliable F \<longleftrightarrow>
     (\<forall>c k s code. fst (run_state (doc_get F c k) s) = Inl code \<longrightarrow> code = CodeNotFound) \<and>
     (\<forall>c k d s code. fst (run_state (doc_set F c k d) s) \<noteq> Inl code) \<and>
     (\<forall>c k d s code. fst (run_state (doc_create F c k d) s) = Inl code \<longrightarrow> code = CodeAlreadyExists) \<and>
     (\<forall>c k s code. fst (run_state (doc_delete F c k) s) \<noteq> Inl code) \<and>
     (\<forall>q s code. fst (run_state (get_all F q) s) \<noteq> Inl code) \<and>
     (\<forall>c k body s e. fst (run_state (run_transaction F c k body) s) = Inl e \<longrightarrow>
        (\<exists>snapshot. body snapshot = Inl e \<and> (\<forall>code. snapshot = Inl code \<longrightarrow> code = CodeNotFound)))"

definition unfailing :: "('f, fs_error + 'a) state \<Rightarrow> bool" where
  "unfailing prog \<longleftrightarrow> (\<forall>s code. fst (run_state prog s) \<noteq> Inl (ClientFailed code))"

lemma get_doc_unfailing: "reliable (fsClient S) \<Longrightarrow> unfailing (get_doc S c k dec)"
  unfolding reliable_def unfailing_def get_doc_def
  by (auto simp: decoded_def notFound_def split: prod.splits sum.splits option.splits) (metis fst_conv)+

lemma set_doc_unfailing: "reliable (fsClient S) \<Longrightarrow> unfailing (set_doc S c k d)"
  unfolding reliable_def unfailing_def set_doc_def
  by (auto split: prod.splits sum.splits) (metis fst_conv)+

lemma decode_all_bad: "decode_all dec ds = Inl e \<Longrightarrow> e = BadDocument"
  by (induction ds) (auto split: option.splits sum.splits)

lemma query_unfailing:
  "reliable (fsClient S) \<Longrightarrow> (\<And>ds e. f ds = Inl e \<Longrightarrow> e \<noteq> ClientFailed code) \<Longrightarrow>
     fst (run_state (check (get_all (fsClient S) q) ClientFailed (\<lambda>ds. return (f ds))) s) \<noteq> Inl (ClientFailed code)"
  unfolding reliable_def by (auto split: prod.splits sum.splits) (metis fst_conv)+

lemma operations_unfailing:
  assumes "reliable (fsClient S)"
  shows "unfailing (FsSave S t)" "unfailing (FsLoad S a)" "unfailing (FsEnqueue S p)" "unfailing (FsDue S now)"
    "unfailing (FsRemove S a i)" "unfailing (FsLen S)" "unfailing (FsMarkNamed S n)" "unfailing (FsNamed S a i)"
    "unfailing (FsRecentTitles S a l)" "unfailing (FsPlace S k)" "unfailing (FsSavePlace S now k pl)"
    "unfailing (FsFranchisePosition S a f)" "unfailing (FsAdvanceFranchisePast S now a f j)"
    "unfailing (FsAthleteConfig S a)" "unfailing (FsSaveAthleteConfig S now a c)"
proof -
  note get = get_doc_unfailing [OF assms] and set = set_doc_unfailing [OF assms]
  note query = query_unfailing [OF assms]
  have check: "unfailing (check prog id (\<lambda>x. return (f x)))"
    if "unfailing prog" "\<And>x code. f x \<noteq> Inl (ClientFailed code)" for prog :: "('a, fs_error + 'b) state" and f :: "'b \<Rightarrow> fs_error + 'c"
    using that by (auto simp: unfailing_def split: prod.splits sum.splits) (metis fst_conv)
  show "unfailing (FsSave S t)" "unfailing (FsMarkNamed S n)" "unfailing (FsSavePlace S now k pl)"
    "unfailing (FsSaveAthleteConfig S now a c)"
    by (simp_all add: FsSave_def FsMarkNamed_def FsSavePlace_def FsSaveAthleteConfig_def set)
  show "unfailing (FsNamed S a i)" "unfailing (FsPlace S k)" "unfailing (FsAthleteConfig S a)"
    by (simp_all add: FsNamed_def FsPlace_def FsAthleteConfig_def get)
  show "unfailing (FsLoad S a)" "unfailing (FsFranchisePosition S a f)"
    unfolding FsLoad_def FsFranchisePosition_def by (intro check get; simp split: option.splits)+
  show "unfailing (FsDue S now)" "unfailing (FsLen S)" "unfailing (FsRecentTitles S a l)"
    unfolding unfailing_def FsDue_def FsLen_def FsRecentTitles_def
    by (auto intro!: query simp del: run_check simp: map_sum_def dest: decode_all_bad split: sum.splits if_splits)
  show "unfailing (FsEnqueue S p)" "unfailing (FsRemove S a i)"
    using assms unfolding reliable_def unfailing_def FsEnqueue_def FsRemove_def
    by (auto split: prod.splits sum.splits) (metis fst_conv)+
  have "advance_tx now a f j snapshot \<noteq> Inl (ClientFailed code)"
    if "\<forall>code. snapshot = Inl code \<longrightarrow> code = CodeNotFound" for snapshot code
    using that by (auto simp: advance_tx_def notFound_def decoded_def Let_def split: sum.splits option.splits)
  then show "unfailing (FsAdvanceFranchisePast S now a f j)"
    using assms unfolding reliable_def unfailing_def FsAdvanceFranchisePast_def by (auto simp: Let_def) metis
qed

lemma reads_give:
  assumes "\<And>s. durable S L K J m s \<Longrightarrow> reads_as S L K J m s prog Q" "unfailing prog"
  shows "gives (durable S L K J) m prog Q m"
  using assms unfolding reads_as_def unfailing_def by (intro givesI) (metis fst_conv)

lemma writes_give:
  assumes "\<And>s. durable S L K J m s \<Longrightarrow> writes_as S L K J m s prog g res" "unfailing prog"
  shows "gives (durable S L K J) m prog (\<lambda>x. x = Inr res) (g m)"
proof (rule givesI)
  fix s x s' assume "durable S L K J m s" and run: "run_state prog s = (x, s')"
  from assms(1) [OF this(1), unfolded writes_as_def, rule_format, OF run]
  obtain f where f: "durable S L K J (fst (faulty f g m)) s'"
      "if snd (faulty f g m) then x = Inr res else \<exists>code. x = Inl (ClientFailed code)" by blast
  moreover have "x \<noteq> Inl (ClientFailed code)" for code
    using assms(2) run unfolding unfailing_def by (metis fst_conv)
  ultimately show "x = Inr res \<and> durable S L K J (g m) s'"
    by (cases f) (auto simp: faulty_def)
qed

lemma gives_mono: "gives R m prog Q m' \<Longrightarrow> (\<And>x. Q x \<Longrightarrow> Q' x) \<Longrightarrow> gives R m prog Q' m'"
  by (simp add: gives_def)

lemma firestore_conforming:
  assumes client: "documented (fsClient S) L r" "reliable (fsClient S)"
    and precision: "\<And>t. whole t \<Longrightarrow> r t = t" and keys: "no_collision S K J"
  shows "conforming (firestore_api S now) (durable S L K J) K J"
proof
  note ok = operations_unfailing [OF client(2)]
  fix t :: Token and m a i l k pl f j c and p :: Pending and n :: Naming and now'
  show "gives (durable S L K J) m (SaveCall (firestore_api S now) t) (\<lambda>x. x = Inr ()) (Save m t)"
    if "whole (ExpiresAt t)"
    using writes_give [OF FsSave_refines [OF client(1) _ keys] ok(1), of m t] precision [OF that]
    by (simp add: firestore_api_def)
  have load: "gives (durable S L K J) m (LoadCall (firestore_api S now) a)
      (\<lambda>x. x = (case Load m a of None \<Rightarrow> Inl TokenMissing | Some t \<Rightarrow> Inr t)) m"
    using reads_give [OF FsLoad_refines [OF client(1) _ keys] ok(2)] by (simp add: firestore_api_def)
  show "gives (durable S L K J) m (LoadCall (firestore_api S now) a) (\<lambda>x. x = Inr t) m" if "Load m a = Some t"
    using load that by simp
  show "gives (durable S L K J) m (LoadCall (firestore_api S now) a) token_missing m" if "Load m a = None"
    by (rule gives_mono [OF load]) (simp add: that token_missing_def)
  show "gives (durable S L K J) m (EnqueueCall (firestore_api S now) p) (\<lambda>x. x = Inr (snd (Enqueue m p))) (fst (Enqueue m p))"
    if "whole (EnqueuedAt p)" "whole (ProcessAfter p)"
  proof -
    have "p = p\<lparr>EnqueuedAt := r (EnqueuedAt p), ProcessAfter := r (ProcessAfter p)\<rparr>"
      using that by (simp add: precision)
    from writes_give [OF FsEnqueue_refines [OF client(1) _ keys this] ok(3)] show ?thesis
      by (simp add: firestore_api_def)
  qed
  show "gives (durable S L K J) m (DueCall (firestore_api S now) now') (\<lambda>x. x = Inr (Due m now')) m"
    if "inj_on byDeadline (set (Due m now'))"
  proof -
    have "gives (durable S L K J) m (DueCall (firestore_api S now) now') (\<lambda>x. \<exists>ps. x = Inr ps \<and> same_due ps (Due m now')) m"
      using reads_give [OF FsDue_refines [OF client(1) _ keys] ok(4)] by (simp add: firestore_api_def)
    then show ?thesis by (rule gives_mono) (use that in \<open>auto simp: same_due_def\<close>)
  qed
  show "gives (durable S L K J) m (RemoveCall (firestore_api S now) a i) (\<lambda>x. x = Inr ()) (Remove m a i)"
    using writes_give [OF FsRemove_refines [OF client(1) _ keys] ok(5)] by (simp add: firestore_api_def)
  show "gives (durable S L K J) m (LenCall (firestore_api S now)) (\<lambda>x. x = Inr (Len m)) m"
    using reads_give [OF FsLen_refines [OF client(1) _ keys] ok(6)] by (simp add: firestore_api_def)
  show "gives (durable S L K J) m (MarkNamedCall (firestore_api S now) n) (\<lambda>x. x = Inr ()) (MarkNamed m n)"
    if "whole (NAt n)"
    using writes_give [OF FsMarkNamed_refines [OF client(1) _ keys] ok(7), of m n] precision [OF that]
    by (simp add: firestore_api_def)
  show "gives (durable S L K J) m (NamedCall (firestore_api S now) a i) (\<lambda>x. x = Inr (Named m a i)) m"
    using reads_give [OF FsNamed_refines [OF client(1) _ keys] ok(8)] by (simp add: firestore_api_def)
  show "gives (durable S L K J) m (RecentTitlesCall (firestore_api S now) a l) (\<lambda>x. x = Inr (RecentTitles m a l)) m"
    if "inj_on NamedAt (set (athlete_rows m a))"
  proof -
    have "gives (durable S L K J) m (RecentTitlesCall (firestore_api S now) a l)
        (\<lambda>x. \<exists>ts. x = Inr ts \<and> newest_rows ts m a l) m"
      using reads_give [OF FsRecentTitles_refines [OF client(1) _ keys] ok(9)] by (simp add: firestore_api_def)
    then show ?thesis by (rule gives_mono) (use that in \<open>auto simp: newest_rows_def\<close>)
  qed
  show "gives (durable S L K J) m (PlaceCall (firestore_api S now) k) (\<lambda>x. x = Inr (GetPlace m k)) m" if "k \<in> K"
    using reads_give [OF FsPlace_refines [OF client(1) _ keys that] ok(10)] by (simp add: firestore_api_def)
  show "gives (durable S L K J) m (SavePlaceCall (firestore_api S now) k pl) (\<lambda>x. x = Inr ()) (SavePlace m k pl)"
    if "k \<in> K"
    using writes_give [OF FsSavePlace_refines [OF client(1) _ keys that] ok(11)] by (simp add: firestore_api_def)
  show "gives (durable S L K J) m (PositionCall (firestore_api S now) a f) (\<lambda>x. x = Inr (FranchisePosition m a f)) m"
    if "(a, f) \<in> J"
    using reads_give [OF FsFranchisePosition_refines [OF client(1) _ keys that] ok(12)] by (simp add: firestore_api_def)
  show "gives (durable S L K J) m (AdvanceCall (firestore_api S now) a f j)
      (\<lambda>x. x = Inr (max (FranchisePosition m a f) (j + 1))) (advance_to a f j m)" if "(a, f) \<in> J" "0 \<le> j"
    using writes_give [OF FsAdvanceFranchisePast_refines [OF client(1) _ keys that] ok(13)] by (simp add: firestore_api_def)
  show "gives (durable S L K J) m (AdvanceCall (firestore_api S now) a f j) (\<lambda>x. \<not> no_error x) m" if "j < 0"
    using that by (simp add: firestore_api_def gives_def FsAdvanceFranchisePast_def no_error_def)
  show "gives (durable S L K J) m (ConfigCall (firestore_api S now) a) (\<lambda>x. x = Inr (GetAthleteConfig m a)) m"
    using reads_give [OF FsAthleteConfig_refines [OF client(1) _ keys] ok(14)] by (simp add: firestore_api_def)
  show "gives (durable S L K J) m (SaveConfigCall (firestore_api S now) a c) (\<lambda>x. x = Inr ()) (SaveAthleteConfig m a c)"
    using writes_give [OF FsSaveAthleteConfig_refines [OF client(1) _ keys] ok(15)] by (simp add: firestore_api_def)
qed

lemma emulator_reliable: "reliable emulator"
  unfolding reliable_def
  by (auto simp: emulator_def emulator_found_def split: option.splits if_splits sum.splits)

lemma micros_whole: "whole t \<Longrightarrow> micros t = t"
proof -
  assume "whole t"
  then have "1000 dvd t" by (auto simp: whole_def second_def elim!: dvd_trans [rotated])
  then show ?thesis by (simp add: micros_def)
qed

lemma emulator_conforming: "conforming (firestore_api emulator_store now) (durable emulator_store emulator_view K J) K J"
  by (rule firestore_conforming [OF _ _ micros_whole emulator_no_collision])
    (simp_all add: emulator_store_def emulator_documented emulator_reliable)

interpretation emulated: conforming "firestore_api emulator_store Now" "durable emulator_store emulator_view UNIV UNIV" UNIV UNIV
  by (rule emulator_conforming)

section \<open>The value tests pass\<close>

text \<open>They pass on the store in memory, and on the Firestore store over any database that behaves as documented, keeps whole
  seconds, loses no call, and digests the names the suite uses without a collision.\<close>

lemma both_pass_value_tests:
  assumes "documented (fsClient S) L r" "reliable (fsClient S)" "\<And>t. whole t \<Longrightarrow> r t = t"
    and "no_collision S suite_places suite_series" "durable S L suite_places suite_series NewMemory s"
  shows "list_all (\<lambda>(name, test). fst (run_state test NewMemory)) (value_tests memory_api)"
    and "list_all (\<lambda>(name, test). fst (run_state test s)) (value_tests (firestore_api S now))"
proof -
  show "list_all (\<lambda>(name, test). fst (run_state test NewMemory)) (value_tests memory_api)"
    using memory.suite_passes by (auto simp: list_all_iff passes_def)
  show "list_all (\<lambda>(name, test). fst (run_state test s)) (value_tests (firestore_api S now))"
    using conforming.suite_passes [OF firestore_conforming [OF assms(1-4)] subset_refl subset_refl, of now] assms(5)
    by (auto simp: list_all_iff passes_def)
qed

end
