(* ===== verification/Sharing.thy ===== *)
theory Sharing
  imports Conformance
begin

text \<open>
  The sharing of slices that theory Store leaves out: a configuration is a value there, and in Go it is a
  header whose slices point into arrays that a caller may still write to. Here the arrays are explicit. The
  store in memory keeps headers, so \<^verbatim>\<open>cloneConfig\<close> has to copy on the way in and on the way out; the
  Firestore store keeps documents and decodes afresh. A client is a program that makes, saves, reads and edits
  configurations. The locale \<open>unshared\<close> says what a store has to promise for it never to reach into the store;
  it is interpreted on both, and the conformance suite's test of it is a program of that kind.
\<close>

section \<open>Slices and arrays\<close>

text \<open>
  A slice is nil, or an array with an offset and a length. Capacity is left out: nothing here appends to
  a slice it was given.
\<close>

datatype slice = NilSlice | Slice nat nat nat

record FranchiseCell =
  CellName :: string
  CellSportTypes :: slice
  CellGearName :: string
  CellTitles :: slice
  CellReserved :: slice

record ConfigRef =
  RefFranchises :: slice

record go_heap =
  StringArrays :: "string list list"
  FranchiseArrays :: "FranchiseCell list list"

primrec read_slice :: "'a list list \<Rightarrow> slice \<Rightarrow> 'a list" where
  "read_slice A NilSlice = []"
| "read_slice A (Slice a start n) = take n (drop start (A ! a))"

text \<open>An assignment to an element; out of range it panics.\<close>

primrec write_slice :: "slice \<Rightarrow> nat \<Rightarrow> 'a \<Rightarrow> 'a list list \<Rightarrow> 'a list list option" where
  "write_slice NilSlice i v A = None"
| "write_slice (Slice a start n) i v A = (if i < n then Some (A[a := (A ! a)[start + i := v]]) else None)"

definition make_slice :: "'a list \<Rightarrow> 'a list list \<Rightarrow> slice \<times> 'a list list" where
  "make_slice xs A = (Slice (length A) 0 (length xs), A @ [xs])"

text \<open>\<^verbatim>\<open>slices.Clone\<close>: nil stays nil, and an empty slice keeps its array, of which it shows nothing.\<close>

primrec slices_Clone :: "slice \<Rightarrow> 'a list list \<Rightarrow> slice \<times> 'a list list" where
  "slices_Clone NilSlice A = (NilSlice, A)"
| "slices_Clone (Slice a start n) A =
     (if n = 0 then (Slice a start 0, A) else make_slice (read_slice A (Slice a start n)) A)"

section \<open>Copying a configuration (memory.go)\<close>

definition zero_franchise :: FranchiseCell where
  "zero_franchise = \<lparr>CellName = [], CellSportTypes = NilSlice, CellGearName = [], CellTitles = NilSlice,
     CellReserved = NilSlice\<rparr>"

definition clone_franchise :: "FranchiseCell \<Rightarrow> string list list \<Rightarrow> FranchiseCell \<times> string list list" where
  "clone_franchise franchise A =
     (let (sports, A) = slices_Clone (CellSportTypes franchise) A;
          (titles, A) = slices_Clone (CellTitles franchise) A;
          (reserved, A) = slices_Clone (CellReserved franchise) A
      in (franchise\<lparr>CellSportTypes := sports, CellTitles := titles, CellReserved := reserved\<rparr>, A))"

text \<open>The loop: the copy of each franchise goes to its index of the array made for them.\<close>

fun clone_loop :: "nat \<Rightarrow> nat \<Rightarrow> FranchiseCell list \<Rightarrow> go_heap \<Rightarrow> go_heap" where
  "clone_loop made index [] h = h"
| "clone_loop made index (franchise # rest) h =
     (let (copy, A) = clone_franchise franchise (StringArrays h); F = FranchiseArrays h
      in clone_loop made (Suc index) rest \<lparr>StringArrays = A, FranchiseArrays = F[made := (F ! made)[index := copy]]\<rparr>)"

definition cloneConfig :: "ConfigRef \<Rightarrow> go_heap \<Rightarrow> ConfigRef \<times> go_heap" where
  "cloneConfig config h =
     (let franchises = read_slice (FranchiseArrays h) (RefFranchises config); n = length franchises;
          (made, F) = make_slice (replicate n zero_franchise) (FranchiseArrays h)
      in (\<lparr>RefFranchises = made\<rparr>, clone_loop (length (FranchiseArrays h)) 0 franchises (h\<lparr>FranchiseArrays := F\<rparr>)))"

section \<open>The two stores, with their arrays\<close>

record 's config_api =
  SaveShared :: "int \<Rightarrow> ConfigRef \<Rightarrow> 's \<times> go_heap \<Rightarrow> (fs_error + unit) \<times> 's \<times> go_heap"
  ReadShared :: "int \<Rightarrow> 's \<times> go_heap \<Rightarrow> (fs_error + ConfigRef option) \<times> 's \<times> go_heap"

fun MemorySaveConfig ::
  "int \<Rightarrow> ConfigRef \<Rightarrow> (int \<times> ConfigRef) list \<times> go_heap \<Rightarrow> (fs_error + unit) \<times> (int \<times> ConfigRef) list \<times> go_heap" where
  "MemorySaveConfig athlete config (configs, h) =
     (let (copy, h) = cloneConfig config h in (Inr (), AList.update athlete copy configs, h))"

fun MemoryReadConfig ::
  "int \<Rightarrow> (int \<times> ConfigRef) list \<times> go_heap \<Rightarrow> (fs_error + ConfigRef option) \<times> (int \<times> ConfigRef) list \<times> go_heap" where
  "MemoryReadConfig athlete (configs, h) =
     (case map_of configs athlete of
        None \<Rightarrow> (Inr None, configs, h)
      | Some config \<Rightarrow> (let (copy, h) = cloneConfig config h in (Inr (Some copy), configs, h)))"

definition memory_configs :: "(int \<times> ConfigRef) list config_api" where
  "memory_configs = \<lparr>SaveShared = MemorySaveConfig, ReadShared = MemoryReadConfig\<rparr>"

text \<open>What the arrays say of a configuration: the value it has at this moment.\<close>

definition cell_value :: "string list list \<Rightarrow> FranchiseCell \<Rightarrow> StoredFranchise" where
  "cell_value A f = \<lparr>SName = CellName f, SSportTypes = read_slice A (CellSportTypes f), SGearName = CellGearName f,
     STitles = read_slice A (CellTitles f), SReserved = read_slice A (CellReserved f)\<rparr>"

definition config_value :: "go_heap \<Rightarrow> ConfigRef \<Rightarrow> AthleteConfig" where
  "config_value h c = \<lparr>Franchises = map (cell_value (StringArrays h)) (read_slice (FranchiseArrays h) (RefFranchises c))\<rparr>"

text \<open>
  The Firestore store writes the value; a read decodes into arrays of its own, an entry at a time, and
  gathers the entries in a new array.
\<close>

definition decode_entry :: "StoredFranchise \<Rightarrow> string list list \<Rightarrow> FranchiseCell \<times> string list list" where
  "decode_entry e A =
     (let (sports, A) = make_slice (SSportTypes e) A; (titles, A) = make_slice (STitles e) A;
          (reserved, A) = make_slice (SReserved e) A
      in (\<lparr>CellName = SName e, CellSportTypes = sports, CellGearName = SGearName e, CellTitles = titles,
           CellReserved = reserved\<rparr>, A))"

fun decode_entries :: "StoredFranchise list \<Rightarrow> string list list \<Rightarrow> FranchiseCell list \<times> string list list" where
  "decode_entries [] A = ([], A)"
| "decode_entries (e # es) A =
     (let (cell, A) = decode_entry e A; (cells, A) = decode_entries es A in (cell # cells, A))"

definition decode_config :: "AthleteConfig \<Rightarrow> go_heap \<Rightarrow> ConfigRef \<times> go_heap" where
  "decode_config c h =
     (let (cells, A) = decode_entries (Franchises c) (StringArrays h);
          (made, F) = make_slice cells (FranchiseArrays h)
      in (\<lparr>RefFranchises = made\<rparr>, \<lparr>StringArrays = A, FranchiseArrays = F\<rparr>))"

fun FirestoreSaveConfig :: "'f fs_store \<Rightarrow> instant \<Rightarrow> int \<Rightarrow> ConfigRef \<Rightarrow> 'f \<times> go_heap \<Rightarrow> (fs_error + unit) \<times> 'f \<times> go_heap" where
  "FirestoreSaveConfig S now athlete config (s, h) =
     (let (r, s) = run_state (FsSaveAthleteConfig S now athlete (config_value h config)) s in (r, s, h))"

fun FirestoreReadConfig :: "'f fs_store \<Rightarrow> int \<Rightarrow> 'f \<times> go_heap \<Rightarrow> (fs_error + ConfigRef option) \<times> 'f \<times> go_heap" where
  "FirestoreReadConfig S athlete (s, h) =
     (case run_state (FsAthleteConfig S athlete) s of
        (Inl e, s) \<Rightarrow> (Inl e, s, h)
      | (Inr None, s) \<Rightarrow> (Inr None, s, h)
      | (Inr (Some c), s) \<Rightarrow> (let (config, h) = decode_config c h in (Inr (Some config), s, h)))"

definition firestore_configs :: "'f fs_store \<Rightarrow> instant \<Rightarrow> 'f config_api" where
  "firestore_configs S now = \<lparr>SaveShared = FirestoreSaveConfig S now, ReadShared = FirestoreReadConfig S\<rparr>"

section \<open>A client of a store\<close>

text \<open>
  The variables of a client, in the order it made them; one it has not made is the zero value. A literal
  of a franchise names its slices by variable.
\<close>

record client =
  LocalSlices :: "slice list"
  LocalConfigs :: "ConfigRef list"

type_synonym cell_literal = "string \<times> nat \<times> string \<times> nat \<times> nat"

datatype client_move =
  MakeStrings "string list" | MakeConfig "cell_literal list" | TakeSlices nat nat
| SetString nat nat string | SetFranchise nat nat cell_literal | SaveConfig int nat | ReadConfig int

definition local_slice :: "client \<Rightarrow> nat \<Rightarrow> slice" where
  "local_slice L k = (if k < length (LocalSlices L) then LocalSlices L ! k else NilSlice)"

definition local_config :: "client \<Rightarrow> nat \<Rightarrow> ConfigRef" where
  "local_config L k = (if k < length (LocalConfigs L) then LocalConfigs L ! k else \<lparr>RefFranchises = NilSlice\<rparr>)"

fun literal_cell :: "client \<Rightarrow> cell_literal \<Rightarrow> FranchiseCell" where
  "literal_cell L (name, sports, gear, titles, reserved) =
     \<lparr>CellName = name, CellSportTypes = local_slice L sports, CellGearName = gear,
      CellTitles = local_slice L titles, CellReserved = local_slice L reserved\<rparr>"

definition keep_slices :: "slice list \<Rightarrow> client \<Rightarrow> client" where
  "keep_slices ss L = L\<lparr>LocalSlices := LocalSlices L @ ss\<rparr>"

definition keep_config :: "ConfigRef \<Rightarrow> client \<Rightarrow> client" where
  "keep_config c L = L\<lparr>LocalConfigs := LocalConfigs L @ [c]\<rparr>"

text \<open>One statement of a client. An index out of range panics, which ends the program.\<close>

fun move :: "'s config_api \<Rightarrow> client_move \<Rightarrow> client \<times> 's \<times> go_heap \<Rightarrow> (client \<times> 's \<times> go_heap) option" where
  "move A (MakeStrings xs) (L, s, h) =
     (let (x, strings) = make_slice xs (StringArrays h) in Some (keep_slices [x] L, s, h\<lparr>StringArrays := strings\<rparr>))"
| "move A (MakeConfig cells) (L, s, h) =
     (let (x, F) = make_slice (map (literal_cell L) cells) (FranchiseArrays h)
      in Some (keep_config \<lparr>RefFranchises = x\<rparr> L, s, h\<lparr>FranchiseArrays := F\<rparr>))"
| "move A (TakeSlices k i) (L, s, h) =
     (let cells = read_slice (FranchiseArrays h) (RefFranchises (local_config L k))
      in if i < length cells
         then Some (keep_slices [CellSportTypes (cells ! i), CellTitles (cells ! i), CellReserved (cells ! i)] L, s, h)
         else None)"
| "move A (SetString k i v) (L, s, h) =
     map_option (\<lambda>strings. (L, s, h\<lparr>StringArrays := strings\<rparr>)) (write_slice (local_slice L k) i v (StringArrays h))"
| "move A (SetFranchise k i cell) (L, s, h) =
     map_option (\<lambda>F. (L, s, h\<lparr>FranchiseArrays := F\<rparr>))
       (write_slice (RefFranchises (local_config L k)) i (literal_cell L cell) (FranchiseArrays h))"
| "move A (SaveConfig athlete k) (L, s, h) =
     (let (r, s, h) = SaveShared A athlete (local_config L k) (s, h) in Some (L, s, h))"
| "move A (ReadConfig athlete) (L, s, h) =
     (case ReadShared A athlete (s, h) of
        (Inr (Some c), s, h) \<Rightarrow> Some (keep_config c L, s, h)
      | (_, s, h) \<Rightarrow> Some (L, s, h))"

fun moves :: "'s config_api \<Rightarrow> client_move list \<Rightarrow> client \<times> 's \<times> go_heap \<Rightarrow> (client \<times> 's \<times> go_heap) option" where
  "moves A [] st = Some st"
| "moves A (mv # mvs) st = do { st' \<leftarrow> move A mv st; moves A mvs st' }"

definition no_client :: client where
  "no_client = \<lparr>LocalSlices = [], LocalConfigs = []\<rparr>"

definition no_heap :: go_heap where
  "no_heap = \<lparr>StringArrays = [], FranchiseArrays = []\<rparr>"

text \<open>What a reader is given now.\<close>

fun read_value :: "'s config_api \<Rightarrow> int \<Rightarrow> client \<times> 's \<times> go_heap \<Rightarrow> AthleteConfig option" where
  "read_value A athlete (L, s, h) =
     (case ReadShared A athlete (s, h) of (Inr (Some c), _, h) \<Rightarrow> Some (config_value h c) | _ \<Rightarrow> None)"

section \<open>Footprints\<close>

datatype address = StringArray nat | FranchiseArray nat

primrec array_at :: "go_heap \<Rightarrow> address \<Rightarrow> (string list + FranchiseCell list) option" where
  "array_at h (StringArray a) = (if a < length (StringArrays h) then Some (Inl (StringArrays h ! a)) else None)"
| "array_at h (FranchiseArray a) = (if a < length (FranchiseArrays h) then Some (Inr (FranchiseArrays h ! a)) else None)"

definition heap_dom :: "go_heap \<Rightarrow> address set" where
  "heap_dom h = {x. array_at h x \<noteq> None}"

definition agree :: "address set \<Rightarrow> go_heap \<Rightarrow> go_heap \<Rightarrow> bool" where
  "agree X h h' \<longleftrightarrow> (\<forall>x\<in>X. array_at h' x = array_at h x)"

definition extends :: "go_heap \<Rightarrow> go_heap \<Rightarrow> bool" where
  "extends h h' \<longleftrightarrow> agree (heap_dom h) h h'"

text \<open>An empty slice reaches nothing, whatever array it points into.\<close>

primrec valid_slice :: "'a list list \<Rightarrow> slice \<Rightarrow> bool" where
  "valid_slice A NilSlice = True"
| "valid_slice A (Slice a start n) = (0 < n \<longrightarrow> a < length A \<and> start + n \<le> length (A ! a))"

primrec slice_arrays :: "slice \<Rightarrow> nat set" where
  "slice_arrays NilSlice = {}"
| "slice_arrays (Slice a start n) = (if n = 0 then {} else {a})"

definition cell_slices :: "FranchiseCell \<Rightarrow> slice list" where
  "cell_slices f = [CellSportTypes f, CellTitles f, CellReserved f]"

definition strings_of :: "slice list \<Rightarrow> address set" where
  "strings_of ss = StringArray ` (\<Union>x\<in>set ss. slice_arrays x)"

definition config_cells :: "go_heap \<Rightarrow> ConfigRef \<Rightarrow> FranchiseCell list" where
  "config_cells h c = read_slice (FranchiseArrays h) (RefFranchises c)"

definition config_footprint :: "go_heap \<Rightarrow> ConfigRef \<Rightarrow> address set" where
  "config_footprint h c = FranchiseArray ` slice_arrays (RefFranchises c) \<union>
     (\<Union>f\<in>set (config_cells h c). strings_of (cell_slices f))"

definition valid_config :: "go_heap \<Rightarrow> ConfigRef \<Rightarrow> bool" where
  "valid_config h c \<longleftrightarrow> valid_slice (FranchiseArrays h) (RefFranchises c) \<and>
     (\<forall>f\<in>set (config_cells h c). \<forall>x\<in>set (cell_slices f). valid_slice (StringArrays h) x)"

lemma agree_refl [simp]: "agree X h h"
  by (simp add: agree_def)

lemma agree_mono: "agree X h h' \<Longrightarrow> Y \<subseteq> X \<Longrightarrow> agree Y h h'"
  by (auto simp: agree_def)

lemma extends_refl [simp]: "extends h h"
  by (simp add: extends_def)

lemma extends_agree: "extends h h' \<Longrightarrow> X \<subseteq> heap_dom h \<Longrightarrow> agree X h h'"
  unfolding extends_def by (rule agree_mono)

lemma strings_agree:
  assumes "agree (strings_of [x]) h h'" "valid_slice (StringArrays h) x"
  shows "read_slice (StringArrays h') x = read_slice (StringArrays h) x" "valid_slice (StringArrays h') x"
  using assms by (cases x; auto simp: agree_def strings_of_def split: if_splits)+

lemma franchises_agree:
  assumes "agree (FranchiseArray ` slice_arrays x) h h'" "valid_slice (FranchiseArrays h) x"
  shows "read_slice (FranchiseArrays h') x = read_slice (FranchiseArrays h) x" "valid_slice (FranchiseArrays h') x"
  using assms by (cases x; auto simp: agree_def split: if_splits)+

lemma strings_of_mono: "x \<in> set ss \<Longrightarrow> strings_of [x] \<subseteq> strings_of ss"
  by (auto simp: strings_of_def)

lemma valid_slice_arrays: "valid_slice A x \<Longrightarrow> a \<in> slice_arrays x \<Longrightarrow> a < length A"
  by (cases x) (auto split: if_splits)

lemma valid_strings_dom: "\<forall>x\<in>set ss. valid_slice (StringArrays h) x \<Longrightarrow> strings_of ss \<subseteq> heap_dom h"
  by (auto simp: strings_of_def heap_dom_def) (metis valid_slice_arrays)

lemma valid_config_dom:
  assumes "valid_config h c" shows "config_footprint h c \<subseteq> heap_dom h"
proof -
  have "strings_of (cell_slices f) \<subseteq> heap_dom h" if "f \<in> set (config_cells h c)" for f
    using assms that by (intro valid_strings_dom) (auto simp: valid_config_def)
  moreover have "FranchiseArray ` slice_arrays (RefFranchises c) \<subseteq> heap_dom h"
    using assms by (auto simp: valid_config_def heap_dom_def dest: valid_slice_arrays)
  ultimately show ?thesis by (auto simp: config_footprint_def)
qed

lemma config_agree:
  assumes "agree (config_footprint h c) h h'" "valid_config h c"
  shows "config_cells h' c = config_cells h c" "config_value h' c = config_value h c"
    "config_footprint h' c = config_footprint h c" "valid_config h' c"
proof -
  have F: "agree (FranchiseArray ` slice_arrays (RefFranchises c)) h h'"
    by (rule agree_mono [OF assms(1)]) (simp add: config_footprint_def)
  show cells: "config_cells h' c = config_cells h c"
    using franchises_agree(1) [OF F] assms(2) by (simp add: config_cells_def valid_config_def)
  then show "config_footprint h' c = config_footprint h c" by (simp add: config_footprint_def)
  have S: "read_slice (StringArrays h') x = read_slice (StringArrays h) x \<and> valid_slice (StringArrays h') x"
    if "f \<in> set (config_cells h c)" "x \<in> set (cell_slices f)" for f x
  proof -
    have "agree (strings_of [x]) h h'"
      by (rule agree_mono [OF assms(1)]) (use that strings_of_mono in \<open>force simp: config_footprint_def\<close>)
    with strings_agree assms(2) that show ?thesis by (simp add: valid_config_def)
  qed
  then have "cell_value (StringArrays h') f = cell_value (StringArrays h) f" if "f \<in> set (config_cells h c)" for f
    using that by (auto simp: cell_value_def cell_slices_def)
  with cells show "config_value h' c = config_value h c"
    by (simp add: config_value_def config_cells_def [symmetric])
  show "valid_config h' c"
    using S cells franchises_agree(2) [OF F] assms(2) by (simp add: valid_config_def)
qed

section \<open>What the two stores promise\<close>

lemma make_slice_props:
  assumes "make_slice xs A = (x, A')"
  shows "A' = A @ [xs]" "read_slice A' x = xs" "valid_slice A' x" "slice_arrays x \<subseteq> {length A}"
  using assms by (auto simp: make_slice_def split: if_splits)

text \<open>Strings made since \<open>A\<close>: the arrays of \<open>A\<close> stand, and the slices are past them.\<close>

definition made_since :: "string list list \<Rightarrow> slice list \<Rightarrow> string list list \<Rightarrow> bool" where
  "made_since A ss A' \<longleftrightarrow> (\<exists>B. A' = A @ B) \<and>
     (\<forall>x\<in>set ss. valid_slice A' x \<and> slice_arrays x \<subseteq> {length A..})"

lemma read_append: "valid_slice A x \<Longrightarrow> read_slice (A @ B) x = read_slice A x \<and> valid_slice (A @ B) x"
  by (cases x) (auto simp: nth_append)

lemma made_since_read: "made_since A ss A' \<Longrightarrow> valid_slice A x \<Longrightarrow> read_slice A' x = read_slice A x \<and> valid_slice A' x"
  using read_append by (auto simp: made_since_def)

lemma made_since_trans:
  assumes "made_since A ss A'" "made_since A' ss' A''" shows "made_since A (ss @ ss') A''"
proof -
  obtain B B' where B: "A' = A @ B" "A'' = A' @ B'" using assms by (auto simp: made_since_def)
  have "valid_slice A'' x \<and> slice_arrays x \<subseteq> {length A..}" if "x \<in> set (ss @ ss')" for x
    using that assms read_append [of A' x B'] B unfolding made_since_def by fastforce
  with B show ?thesis by (simp add: made_since_def)
qed

lemma clone_made:
  assumes "slices_Clone x A = (y, A')" "valid_slice A x"
  shows "made_since A [y] A' \<and> read_slice A' y = read_slice A x"
  using assms by (cases x) (auto simp: made_since_def make_slice_def split: if_splits)

lemma make_made: "make_slice xs A = (y, A') \<Longrightarrow> made_since A [y] A' \<and> read_slice A' y = xs"
  by (auto simp: made_since_def make_slice_def split: if_splits)

text \<open>Three slices made one after the other, which is what copying and decoding a franchise come to.\<close>

lemma three_made:
  assumes "made_since A [x] A1" "made_since A1 [y] A2" "made_since A2 [z] A3"
  shows "made_since A [x, y, z] A3 \<and> read_slice A3 x = read_slice A1 x \<and> read_slice A3 y = read_slice A2 y"
proof -
  have "made_since A1 [y, z] A3" using made_since_trans [OF assms(2,3)] by simp
  moreover have "valid_slice A1 x" "valid_slice A2 y" using assms by (simp_all add: made_since_def)
  ultimately show ?thesis
    using made_since_trans [OF assms(1), of "[y, z]" A3] made_since_read assms(3) by simp
qed

lemma clone_franchise_made:
  assumes "clone_franchise f A = (g, A')" "\<forall>x\<in>set (cell_slices f). valid_slice A x"
  shows "made_since A (cell_slices g) A' \<and> cell_value A' g = cell_value A f"
proof -
  obtain x A1 y A2 z where made: "slices_Clone (CellSportTypes f) A = (x, A1)" "slices_Clone (CellTitles f) A1 = (y, A2)"
      "slices_Clone (CellReserved f) A2 = (z, A')"
    and g: "g = f\<lparr>CellSportTypes := x, CellTitles := y, CellReserved := z\<rparr>"
    using assms(1) by (auto simp: clone_franchise_def split: prod.splits)
  have x: "made_since A [x] A1" "read_slice A1 x = read_slice A (CellSportTypes f)"
    using clone_made [OF made(1)] assms(2) by (simp_all add: cell_slices_def)
  have t: "valid_slice A1 (CellTitles f)" "read_slice A1 (CellTitles f) = read_slice A (CellTitles f)"
    using made_since_read [OF x(1)] assms(2) by (simp_all add: cell_slices_def)
  have y: "made_since A1 [y] A2" "read_slice A2 y = read_slice A (CellTitles f)"
    using clone_made [OF made(2) t(1)] t(2) by simp_all
  have "made_since A ([x] @ [y]) A2" by (rule made_since_trans [OF x(1) y(1)])
  from made_since_read [OF this] have r: "valid_slice A2 (CellReserved f)"
      "read_slice A2 (CellReserved f) = read_slice A (CellReserved f)"
    using assms(2) by (simp_all add: cell_slices_def)
  have z: "made_since A2 [z] A'" "read_slice A' z = read_slice A (CellReserved f)"
    using clone_made [OF made(3) r(1)] r(2) by simp_all
  show ?thesis using three_made [OF x(1) y(1) z(1)] x(2) y(2) z(2) by (simp add: g cell_slices_def cell_value_def)
qed

lemma decode_entry_made:
  assumes "decode_entry e A = (g, A')"
  shows "made_since A (cell_slices g) A' \<and> cell_value A' g = e"
proof -
  obtain x A1 y A2 z where made: "make_slice (SSportTypes e) A = (x, A1)" "make_slice (STitles e) A1 = (y, A2)"
      "make_slice (SReserved e) A2 = (z, A')"
    and g: "g = \<lparr>CellName = SName e, CellSportTypes = x, CellGearName = SGearName e, CellTitles = y, CellReserved = z\<rparr>"
    using assms by (auto simp: decode_entry_def split: prod.splits)
  note m = make_made [OF made(1)] make_made [OF made(2)] make_made [OF made(3)]
  show ?thesis using three_made [of A x A1 y A2 z A'] m by (simp add: g cell_slices_def cell_value_def)
qed

text \<open>A list of franchises made since \<open>A\<close> with the values \<open>vs\<close>.\<close>

definition cells_made :: "string list list \<Rightarrow> StoredFranchise list \<Rightarrow> FranchiseCell list \<Rightarrow> string list list \<Rightarrow> bool" where
  "cells_made A vs gs A' \<longleftrightarrow> made_since A (concat (map cell_slices gs)) A' \<and> map (cell_value A') gs = vs"

lemma cell_value_later:
  assumes "made_since A ss A'" "\<forall>x\<in>set (cell_slices f). valid_slice A x"
  shows "cell_value A' f = cell_value A f" "\<forall>x\<in>set (cell_slices f). valid_slice A' x"
  using made_since_read [OF assms(1)] assms(2) by (simp_all add: cell_value_def cell_slices_def)

lemma cells_made_Nil [simp]: "cells_made A [] [] A"
  by (simp add: cells_made_def made_since_def)

lemma cells_made_Cons:
  assumes "made_since A (cell_slices g) A1" "cell_value A1 g = v" "cells_made A1 vs gs A'"
  shows "cells_made A (v # vs) (g # gs) A'"
proof -
  have later: "made_since A1 (concat (map cell_slices gs)) A'" using assms(3) by (simp add: cells_made_def)
  have "\<forall>x\<in>set (cell_slices g). valid_slice A1 x" using assms(1) by (simp add: made_since_def)
  with cell_value_later [OF later] made_since_trans [OF assms(1) later] assms(2,3) show ?thesis
    by (simp add: cells_made_def)
qed

lemma decode_entries_made: "decode_entries es A = (gs, A') \<Longrightarrow> cells_made A es gs A'"
proof (induction es arbitrary: A gs)
  case (Cons e es)
  then show ?case
    by (auto simp: dest: decode_entry_made intro!: cells_made_Cons split: prod.splits)
qed simp

lemma clone_loop_made:
  assumes "\<forall>f\<in>set fs. \<forall>x\<in>set (cell_slices f). valid_slice (StringArrays h) x"
    and "made < length (FranchiseArrays h)" "FranchiseArrays h ! made = done @ replicate (length fs) z"
  shows "\<exists>gs A'. clone_loop made (length done) fs h =
      \<lparr>StringArrays = A', FranchiseArrays = (FranchiseArrays h)[made := done @ gs]\<rparr> \<and>
    cells_made (StringArrays h) (map (cell_value (StringArrays h)) fs) gs A'"
  using assms
proof (induction fs arbitrary: "done" h)
  case Nil
  then show ?case by (metis append_Nil2 cells_made_Nil clone_loop.simps(1) go_heap.surjective
      list.map_disc_iff list.size(3) list_update_id old.unit.exhaust replicate_0)
next
  case (Cons f fs)
  let ?A = "StringArrays h" and ?F = "FranchiseArrays h"
  obtain g A1 where g: "clone_franchise f ?A = (g, A1)" by fastforce
  then have made: "made_since ?A (cell_slices g) A1" "cell_value A1 g = cell_value ?A f"
    using clone_franchise_made [OF g] Cons.prems(1) by simp_all
  let ?h = "\<lparr>StringArrays = A1, FranchiseArrays = ?F[made := (?F ! made)[length done := g]]\<rparr>"
  have later: "cell_value A1 f' = cell_value ?A f' \<and> (\<forall>x\<in>set (cell_slices f'). valid_slice A1 x)" if "f' \<in> set fs" for f'
    using cell_value_later [OF made(1), of f'] Cons.prems(1) that by auto
  have "FranchiseArrays ?h ! made = (done @ [g]) @ replicate (length fs) z"
    using Cons.prems(2,3) by (simp add: list_update_append)
  then obtain gs A' where rest: "clone_loop made (length (done @ [g])) fs ?h =
        \<lparr>StringArrays = A', FranchiseArrays = (FranchiseArrays ?h)[made := (done @ [g]) @ gs]\<rparr>"
      "cells_made A1 (map (cell_value A1) fs) gs A'"
    using Cons.IH [of ?h "done @ [g]"] later Cons.prems(2) by auto
  have same: "map (cell_value A1) fs = map (cell_value ?A) fs" using later by simp
  have "cells_made ?A (map (cell_value ?A) (f # fs)) (g # gs) A'"
    using cells_made_Cons [OF made rest(2)] unfolding same by simp
  moreover have "clone_loop made (length done) (f # fs) h =
      \<lparr>StringArrays = A', FranchiseArrays = ?F[made := done @ g # gs]\<rparr>"
    using rest(1) g by (simp add: Let_def)
  ultimately show ?case by blast
qed

text \<open>A configuration in arrays of its own, with the value \<open>v\<close>.\<close>

definition fresh_config :: "go_heap \<Rightarrow> AthleteConfig \<Rightarrow> ConfigRef \<Rightarrow> go_heap \<Rightarrow> bool" where
  "fresh_config h v c h' \<longleftrightarrow> extends h h' \<and> valid_config h' c \<and> config_value h' c = v \<and>
     config_footprint h' c \<inter> heap_dom h = {}"

lemma cells_fresh:
  assumes "cells_made (StringArrays h) vs gs A'"
  shows "fresh_config h \<lparr>Franchises = vs\<rparr> \<lparr>RefFranchises = Slice (length (FranchiseArrays h)) 0 (length gs)\<rparr>
    \<lparr>StringArrays = A', FranchiseArrays = FranchiseArrays h @ [gs]\<rparr>"
proof -
  let ?c = "\<lparr>RefFranchises = Slice (length (FranchiseArrays h)) 0 (length gs)\<rparr>"
  let ?h = "\<lparr>StringArrays = A', FranchiseArrays = FranchiseArrays h @ [gs]\<rparr>"
  obtain B where B: "A' = StringArrays h @ B" using assms by (auto simp: cells_made_def made_since_def)
  have "array_at ?h x = array_at h x" if "x \<in> heap_dom h" for x
    using that by (cases x) (auto simp: heap_dom_def B nth_append split: if_splits)
  then have "extends h ?h" by (simp add: extends_def agree_def)
  moreover have cells: "config_cells ?h ?c = gs" by (simp add: config_cells_def)
  moreover have slices: "valid_slice A' x \<and> slice_arrays x \<subseteq> {length (StringArrays h)..}"
    if "g \<in> set gs" "x \<in> set (cell_slices g)" for g x
    using assms that unfolding cells_made_def made_since_def by fastforce
  moreover have "config_value ?h ?c = \<lparr>Franchises = vs\<rparr>"
    using assms by (simp add: config_value_def cells_made_def)
  ultimately show ?thesis
    by (auto simp: fresh_config_def valid_config_def config_footprint_def strings_of_def heap_dom_def
        dest!: slices split: if_splits)
qed

lemma cloneConfig_fresh:
  assumes "valid_config h c" "cloneConfig c h = (c', h')"
  shows "fresh_config h (config_value h c) c' h'"
proof -
  let ?fs = "config_cells h c" and ?F = "FranchiseArrays h"
  let ?h = "h\<lparr>FranchiseArrays := ?F @ [replicate (length ?fs) zero_franchise]\<rparr>"
  obtain gs A' where loop: "clone_loop (length ?F) 0 ?fs ?h = \<lparr>StringArrays = A', FranchiseArrays = ?F @ [gs]\<rparr>"
      "cells_made (StringArrays h) (map (cell_value (StringArrays h)) ?fs) gs A'"
    using clone_loop_made [of ?fs ?h "length ?F" "[]" zero_franchise] assms(1)
    by (auto simp: valid_config_def list_update_append)
  have "length gs = length ?fs" using loop(2) by (auto simp: cells_made_def dest: map_eq_imp_length_eq)
  with cells_fresh [OF loop(2)] loop(1) assms(2) show ?thesis
    by (simp add: cloneConfig_def make_slice_def config_value_def config_cells_def [symmetric] Let_def)
qed

lemma decode_config_fresh: "decode_config v h = (c, h') \<Longrightarrow> fresh_config h v c h'"
  using decode_entries_made cells_fresh [of h "Franchises v"]
  by (cases v) (auto simp: decode_config_def make_slice_def split: prod.splits)

section \<open>Stores that share nothing\<close>

text \<open>
  \<open>holds m h s\<close>: with these arrays, the state \<open>s\<close> of the store stands for the configurations of the memory
  of values \<open>m\<close>; \<open>arrays_of\<close> is what it reaches. A save copies, a read gives a copy away, and nothing but what
  the store owns can change what it holds.
\<close>

locale unshared =
  fixes A :: "'s config_api"
    and holds :: "Memory \<Rightarrow> go_heap \<Rightarrow> 's \<Rightarrow> bool"
    and arrays_of :: "go_heap \<Rightarrow> 's \<Rightarrow> address set"
  assumes owns: "holds m h s \<Longrightarrow> arrays_of h s \<subseteq> heap_dom h"
    and frame: "holds m h s \<Longrightarrow> agree (arrays_of h s) h h' \<Longrightarrow> holds m h' s \<and> arrays_of h' s = arrays_of h s"
    and saves: "holds m h s \<Longrightarrow> valid_config h c \<Longrightarrow>
      \<exists>s' h'. SaveShared A a c (s, h) = (Inr (), s', h') \<and> extends h h' \<and>
        holds (SaveAthleteConfig m a (config_value h c)) h' s' \<and> arrays_of h' s' \<inter> heap_dom h \<subseteq> arrays_of h s"
    and reads: "holds m h s \<Longrightarrow>
      \<exists>r s' h'. ReadShared A a (s, h) = (Inr r, s', h') \<and> extends h h' \<and> holds m h' s' \<and> arrays_of h' s' = arrays_of h s \<and>
        (case r of None \<Rightarrow> GetAthleteConfig m a = None
         | Some c \<Rightarrow> \<exists>v. GetAthleteConfig m a = Some v \<and> fresh_config h v c h')"

definition reach :: "go_heap \<Rightarrow> client \<Rightarrow> address set" where
  "reach h L = strings_of (LocalSlices L) \<union> (\<Union>c\<in>set (LocalConfigs L). config_footprint h c)"

definition valid_client :: "go_heap \<Rightarrow> client \<Rightarrow> bool" where
  "valid_client h L \<longleftrightarrow> (\<forall>x\<in>set (LocalSlices L). valid_slice (StringArrays h) x) \<and>
     (\<forall>c\<in>set (LocalConfigs L). valid_config h c)"

lemma reach_dom: "valid_client h L \<Longrightarrow> reach h L \<subseteq> heap_dom h"
  unfolding reach_def valid_client_def by (blast dest: valid_strings_dom valid_config_dom)

lemma client_agree:
  assumes "agree (reach h L) h h'" "valid_client h L"
  shows "valid_client h' L" "reach h' L = reach h L"
proof -
  have c: "valid_config h' c \<and> config_footprint h' c = config_footprint h c" if "c \<in> set (LocalConfigs L)" for c
  proof -
    have "agree (config_footprint h c) h h'"
      by (rule agree_mono [OF assms(1)]) (use that in \<open>auto simp: reach_def\<close>)
    from config_agree [OF this] assms(2) that show ?thesis by (simp add: valid_client_def)
  qed
  have "valid_slice (StringArrays h') x" if "x \<in> set (LocalSlices L)" for x
  proof -
    have "agree (strings_of [x]) h h'"
      by (rule agree_mono [OF assms(1)]) (use strings_of_mono [OF that] in \<open>auto simp: reach_def\<close>)
    from strings_agree(2) [OF this] assms(2) that show ?thesis by (simp add: valid_client_def)
  qed
  with c show "valid_client h' L" "reach h' L = reach h L" by (simp_all add: valid_client_def reach_def)
qed

lemma extends_client:
  assumes "extends h h'" "valid_client h L"
  shows "valid_client h' L" "reach h' L = reach h L"
  using client_agree [OF extends_agree [OF assms(1) reach_dom [OF assms(2)]] assms(2)] by simp_all

lemma local_slice_cases: "local_slice L k \<in> set (LocalSlices L) \<or> local_slice L k = NilSlice"
  by (simp add: local_slice_def)

lemma local_slice_valid: "valid_client h L \<Longrightarrow> valid_slice (StringArrays h) (local_slice L k)"
  using local_slice_cases [of L k] by (auto simp: valid_client_def)

lemma local_slice_reach: "StringArray ` slice_arrays (local_slice L k) \<subseteq> reach h L"
  using local_slice_cases [of L k] by (auto simp: reach_def strings_of_def)

lemma local_config_cases: "local_config L k \<in> set (LocalConfigs L) \<or> local_config L k = \<lparr>RefFranchises = NilSlice\<rparr>"
  by (simp add: local_config_def)

lemma local_config_valid: "valid_client h L \<Longrightarrow> valid_config h (local_config L k)"
  using local_config_cases [of L k] by (auto simp: valid_client_def valid_config_def config_cells_def)

lemma local_config_reach: "config_footprint h (local_config L k) \<subseteq> reach h L"
  using local_config_cases [of L k] by (auto simp: reach_def config_footprint_def config_cells_def)

lemma literal_cell_valid:
  assumes "valid_client h L"
  shows "\<forall>x\<in>set (cell_slices (literal_cell L l)). valid_slice (StringArrays h) x"
    "strings_of (cell_slices (literal_cell L l)) \<subseteq> reach h L"
proof -
  obtain n sp g ti re where l: "l = (n, sp, g, ti, re)" by (cases l)
  show "\<forall>x\<in>set (cell_slices (literal_cell L l)). valid_slice (StringArrays h) x"
    using local_slice_valid [OF assms] by (simp add: l cell_slices_def)
  show "strings_of (cell_slices (literal_cell L l)) \<subseteq> reach h L"
    using local_slice_reach [of L _ h] by (auto simp: l cell_slices_def strings_of_def)
qed

text \<open>The assignments of a client touch one array, and keep its length.\<close>

lemma write_slice_cases:
  assumes "write_slice x i v A = Some A'"
  obtains a j n where "x = Slice a (j - i) n" "i < n" "i \<le> j" "A' = A[a := (A ! a)[j := v]]" "slice_arrays x = {a}"
proof (cases x)
  case NilSlice
  with assms show ?thesis by simp
next
  case (Slice a start n)
  then show ?thesis using assms that [of a "start + i" n] by (auto split: if_splits)
qed

lemma array_after_write:
  "A[a := (A ! a)[j := v]] ! b = (if a = b \<and> a < length A then (A ! b)[j := v] else A ! b)"
  by (cases "a < length A"; cases "a = b") (auto simp: list_update_beyond)

lemma valid_after_write: "valid_slice (A[a := (A ! a)[j := v]]) x = valid_slice A x"
  by (cases x) (auto simp: array_after_write)

lemma window_after_write: "set (take n (drop start (xs[j := v]))) \<subseteq> insert v (set (take n (drop start xs)))"
proof
  fix y assume "y \<in> set (take n (drop start (xs[j := v])))"
  then obtain i where i: "i < n" "start + i < length xs" "y = xs[j := v] ! (start + i)"
    by (auto simp: in_set_conv_nth)
  then have "xs ! (start + i) \<in> set (take n (drop start xs))"
    by (auto simp: in_set_conv_nth intro!: exI [of _ i])
  with i show "y \<in> insert v (set (take n (drop start xs)))" by (cases "j = start + i") auto
qed

lemma read_after_write: "set (read_slice (A[a := (A ! a)[j := v]]) x) \<subseteq> insert v (set (read_slice A x))"
  by (cases x) (auto simp: array_after_write dest!: window_after_write [THEN subsetD])

lemma write_string_client:
  assumes "valid_client h L" "write_slice (local_slice L k) i v (StringArrays h) = Some B"
  shows "valid_client (h\<lparr>StringArrays := B\<rparr>) L" "reach (h\<lparr>StringArrays := B\<rparr>) L = reach h L"
    "agree (- reach h L) h (h\<lparr>StringArrays := B\<rparr>)"
proof -
  obtain a j where B: "B = (StringArrays h)[a := (StringArrays h ! a)[j := v]]" "slice_arrays (local_slice L k) = {a}"
    using write_slice_cases [OF assms(2)] by metis
  have cells: "config_cells (h\<lparr>StringArrays := B\<rparr>) c = config_cells h c" for c by (simp add: config_cells_def)
  then show "reach (h\<lparr>StringArrays := B\<rparr>) L = reach h L" by (simp add: reach_def config_footprint_def)
  show "valid_client (h\<lparr>StringArrays := B\<rparr>) L"
    using assms(1) unfolding valid_client_def valid_config_def cells by (simp add: B(1) valid_after_write)
  have "array_at (h\<lparr>StringArrays := B\<rparr>) x = array_at h x" if "x \<notin> reach h L" for x
    using that local_slice_reach [of L k h] by (cases x) (auto simp: B array_after_write)
  then show "agree (- reach h L) h (h\<lparr>StringArrays := B\<rparr>)" by (simp add: agree_def)
qed

lemma write_franchise_client:
  assumes "valid_client h L"
    and "write_slice (RefFranchises (local_config L k)) i (literal_cell L l) (FranchiseArrays h) = Some F"
  shows "valid_client (h\<lparr>FranchiseArrays := F\<rparr>) L" "reach (h\<lparr>FranchiseArrays := F\<rparr>) L \<subseteq> reach h L"
    "agree (- reach h L) h (h\<lparr>FranchiseArrays := F\<rparr>)"
proof -
  let ?h = "h\<lparr>FranchiseArrays := F\<rparr>"
  obtain a j where F: "F = (FranchiseArrays h)[a := (FranchiseArrays h ! a)[j := literal_cell L l]]"
      "slice_arrays (RefFranchises (local_config L k)) = {a}"
    using write_slice_cases [OF assms(2)] by metis
  have cells: "set (config_cells ?h c) \<subseteq> insert (literal_cell L l) (set (config_cells h c))" for c
    using read_after_write by (simp add: config_cells_def F(1))
  note new = literal_cell_valid [OF assms(1), of l]
  have "config_footprint ?h c \<subseteq> reach h L" if "c \<in> set (LocalConfigs L)" for c
    using cells [of c] new(2) that unfolding config_footprint_def reach_def by blast
  then show "reach ?h L \<subseteq> reach h L" by (auto simp: reach_def)
  have "valid_config ?h c" if "c \<in> set (LocalConfigs L)" for c
    using cells [of c] new(1) assms(1) that
    by (auto simp: valid_client_def valid_config_def F(1) valid_after_write)
  then show "valid_client ?h L" using assms(1) by (simp add: valid_client_def)
  have "FranchiseArray a \<in> reach h L"
    using local_config_reach [of h L k] F(2) by (auto simp: config_footprint_def)
  then have "array_at ?h x = array_at h x" if "x \<notin> reach h L" for x
    using that by (cases x) (auto simp: F(1) array_after_write)
  then show "agree (- reach h L) h ?h" by (simp add: agree_def)
qed

text \<open>New variables reach what the client reached before, or new arrays.\<close>

lemma make_strings_client:
  assumes "valid_client h L" "make_slice xs (StringArrays h) = (x, B)"
  shows "extends h (h\<lparr>StringArrays := B\<rparr>)" "valid_client (h\<lparr>StringArrays := B\<rparr>) (keep_slices [x] L)"
    "reach (h\<lparr>StringArrays := B\<rparr>) (keep_slices [x] L) \<subseteq> reach h L \<union> - heap_dom h"
proof -
  let ?h = "h\<lparr>StringArrays := B\<rparr>"
  note made = make_slice_props [OF assms(2)]
  have "array_at ?h y = array_at h y" if "y \<in> heap_dom h" for y
    using that by (cases y) (auto simp: heap_dom_def made(1) nth_append split: if_splits)
  then show e: "extends h ?h" by (simp add: extends_def agree_def)
  note old = extends_client [OF e assms(1)]
  show "valid_client ?h (keep_slices [x] L)" using old(1) made(3) by (auto simp: keep_slices_def valid_client_def)
  have "reach ?h (keep_slices [x] L) = reach ?h L \<union> StringArray ` slice_arrays x"
    by (auto simp: keep_slices_def reach_def strings_of_def)
  then show "reach ?h (keep_slices [x] L) \<subseteq> reach h L \<union> - heap_dom h"
    using old(2) made(4) by (auto simp: heap_dom_def)
qed

lemma make_config_client:
  assumes "valid_client h L" "make_slice (map (literal_cell L) ls) (FranchiseArrays h) = (x, F)"
  shows "extends h (h\<lparr>FranchiseArrays := F\<rparr>)"
    "valid_client (h\<lparr>FranchiseArrays := F\<rparr>) (keep_config \<lparr>RefFranchises = x\<rparr> L)"
    "reach (h\<lparr>FranchiseArrays := F\<rparr>) (keep_config \<lparr>RefFranchises = x\<rparr> L) \<subseteq> reach h L \<union> - heap_dom h"
proof -
  let ?h = "h\<lparr>FranchiseArrays := F\<rparr>" and ?c = "\<lparr>RefFranchises = x\<rparr>"
  note made = make_slice_props [OF assms(2)] and literal = literal_cell_valid [OF assms(1)]
  have "array_at ?h y = array_at h y" if "y \<in> heap_dom h" for y
    using that by (cases y) (auto simp: heap_dom_def made(1) nth_append split: if_splits)
  then show e: "extends h ?h" by (simp add: extends_def agree_def)
  note old = extends_client [OF e assms(1)]
  have cells: "config_cells ?h ?c = map (literal_cell L) ls" using made(2) by (simp add: config_cells_def)
  have "valid_config ?h ?c" using made(3) literal(1) unfolding valid_config_def cells by auto
  with old(1) show "valid_client ?h (keep_config ?c L)" by (simp add: keep_config_def valid_client_def)
  have "config_footprint ?h ?c \<subseteq> reach h L \<union> - heap_dom h"
    using made(4) literal(2) unfolding config_footprint_def cells by (force simp: heap_dom_def)
  moreover have "reach ?h (keep_config ?c L) = reach ?h L \<union> config_footprint ?h ?c"
    by (auto simp: keep_config_def reach_def)
  ultimately show "reach ?h (keep_config ?c L) \<subseteq> reach h L \<union> - heap_dom h" using old(2) by auto
qed

lemma take_slices_client:
  assumes "valid_client h L" "i < length (config_cells h (local_config L k))"
  shows "valid_client h (keep_slices (cell_slices (config_cells h (local_config L k) ! i)) L)"
    "reach h (keep_slices (cell_slices (config_cells h (local_config L k) ! i)) L) = reach h L"
proof -
  let ?f = "config_cells h (local_config L k) ! i"
  have f: "?f \<in> set (config_cells h (local_config L k))" using assms(2) by simp
  have "strings_of (cell_slices ?f) \<subseteq> reach h L"
    using local_config_reach [of h L k] f by (auto simp: config_footprint_def)
  moreover have "reach h (keep_slices (cell_slices ?f) L) = reach h L \<union> strings_of (cell_slices ?f)"
    by (auto simp: keep_slices_def reach_def strings_of_def)
  ultimately show "reach h (keep_slices (cell_slices ?f) L) = reach h L" by auto
  have "\<forall>x\<in>set (cell_slices ?f). valid_slice (StringArrays h) x"
    using local_config_valid [OF assms(1), of k] f by (simp add: valid_config_def)
  with assms(1) show "valid_client h (keep_slices (cell_slices ?f) L)"
    by (auto simp: keep_slices_def valid_client_def)
qed

lemma keep_config_client:
  assumes "valid_client h L" "fresh_config h v c h'"
  shows "valid_client h' (keep_config c L)" "reach h' (keep_config c L) \<subseteq> reach h L \<union> - heap_dom h"
  using extends_client [of h h' L] assms
  by (auto simp: fresh_config_def keep_config_def valid_client_def reach_def)

section \<open>No client reaches into a store\<close>

text \<open>The store holds \<open>m\<close>, the client's variables are sound, and the two reach no common array.\<close>

fun separate ::
  "(Memory \<Rightarrow> go_heap \<Rightarrow> 's \<Rightarrow> bool) \<Rightarrow> (go_heap \<Rightarrow> 's \<Rightarrow> address set) \<Rightarrow> Memory \<Rightarrow> client \<times> 's \<times> go_heap \<Rightarrow> bool" where
  "separate holds arrays_of m (L, s, h) \<longleftrightarrow> holds m h s \<and> valid_client h L \<and> arrays_of h s \<inter> reach h L = {}"

text \<open>What a statement is to the memory of values: only a save changes it, to the value saved.\<close>

fun value_move :: "client_move \<Rightarrow> client \<times> 's \<times> go_heap \<Rightarrow> Memory \<Rightarrow> Memory" where
  "value_move (SaveConfig athlete k) (L, s, h) m = SaveAthleteConfig m athlete (config_value h (local_config L k))"
| "value_move _ _ m = m"

context unshared begin

lemma separate_grow:
  assumes "separate holds arrays_of m (L, s, h)" "extends h h'" "valid_client h' L'"
    and "reach h' L' \<subseteq> reach h L \<union> - heap_dom h"
  shows "separate holds arrays_of m (L', s, h')"
proof -
  have held: "holds m h s" and apart: "arrays_of h s \<inter> reach h L = {}" using assms(1) by simp_all
  have "holds m h' s \<and> arrays_of h' s = arrays_of h s"
    by (rule frame [OF held]) (rule extends_agree [OF assms(2) owns [OF held]])
  then show ?thesis using apart owns [OF held] assms(3,4) by auto
qed

lemma separate_edit:
  assumes "separate holds arrays_of m (L, s, h)" "agree (- reach h L) h h'" "valid_client h' L"
    and "reach h' L \<subseteq> reach h L"
  shows "separate holds arrays_of m (L, s, h')"
proof -
  have held: "holds m h s" and apart: "arrays_of h s \<inter> reach h L = {}" using assms(1) by simp_all
  have "holds m h' s \<and> arrays_of h' s = arrays_of h s"
    by (rule frame [OF held]) (rule agree_mono [OF assms(2)], use apart in auto)
  then show ?thesis using apart assms(3,4) by auto
qed

lemma separate_save:
  assumes "separate holds arrays_of m (L, s, h)" "move A (SaveConfig a k) (L, s, h) = Some st'"
  shows "separate holds arrays_of (SaveAthleteConfig m a (config_value h (local_config L k))) st'"
proof -
  have held: "holds m h s" and valid: "valid_client h L" and apart: "arrays_of h s \<inter> reach h L = {}"
    using assms(1) by simp_all
  obtain s' h' where step: "SaveShared A a (local_config L k) (s, h) = (Inr (), s', h')" and e: "extends h h'"
      and after: "holds (SaveAthleteConfig m a (config_value h (local_config L k))) h' s'"
        "arrays_of h' s' \<inter> heap_dom h \<subseteq> arrays_of h s"
    using saves [OF held local_config_valid [OF valid]] by blast
  have "st' = (L, s', h')" using assms(2) step by simp
  then show ?thesis using after apart extends_client [OF e valid] reach_dom [OF valid] by auto
qed

lemma separate_read:
  assumes "separate holds arrays_of m (L, s, h)" "move A (ReadConfig a) (L, s, h) = Some st'"
  shows "separate holds arrays_of m st'"
proof -
  have held: "holds m h s" and valid: "valid_client h L" and apart: "arrays_of h s \<inter> reach h L = {}"
    using assms(1) by simp_all
  obtain r s' h' where step: "ReadShared A a (s, h) = (Inr r, s', h')" and e: "extends h h'"
      and after: "holds m h' s'" "arrays_of h' s' = arrays_of h s"
        "case r of None \<Rightarrow> GetAthleteConfig m a = None
         | Some c \<Rightarrow> \<exists>v. GetAthleteConfig m a = Some v \<and> fresh_config h v c h'"
    using reads [OF held, of a] by (elim exE conjE) (rule that; assumption)
  show ?thesis
  proof (cases r)
    case None
    then have "st' = (L, s', h')" using assms(2) step by simp
    with after(1,2) apart extends_client [OF e valid] show ?thesis by simp
  next
    case (Some c)
    then obtain v where "fresh_config h v c h'" using after(3) by auto
    note kept = keep_config_client [OF valid this]
    have "st' = (keep_config c L, s', h')" using assms(2) step Some by simp
    with after(1,2) apart kept owns [OF held] show ?thesis by auto
  qed
qed

lemma move_separate:
  assumes "separate holds arrays_of m st" "move A mv st = Some st'"
  shows "separate holds arrays_of (value_move mv st m) st'"
proof -
  obtain L s h where st: "st = (L, s, h)" by (cases st)
  have sep: "separate holds arrays_of m (L, s, h)" and valid: "valid_client h L" using assms(1) by (simp_all add: st)
  show ?thesis
  proof (cases mv)
    case (MakeStrings xs)
    with assms(2) show ?thesis
      using separate_grow [OF sep] make_strings_client [OF valid] by (auto simp: st simp del: separate.simps split: prod.splits)
  next
    case (MakeConfig ls)
    with assms(2) show ?thesis
      using separate_grow [OF sep] make_config_client [OF valid] by (auto simp: st simp del: separate.simps split: prod.splits)
  next
    case (TakeSlices k i)
    let ?cells = "config_cells h (local_config L k)"
    have "i < length ?cells" "st' = (keep_slices (cell_slices (?cells ! i)) L, s, h)"
      using assms(2) by (auto simp: st TakeSlices config_cells_def cell_slices_def Let_def split: if_splits)
    with separate_grow [OF sep extends_refl] take_slices_client [OF valid, of i k] show ?thesis
      by (simp add: TakeSlices del: separate.simps)
  next
    case (SetString k i v)
    with assms(2) show ?thesis
      using separate_edit [OF sep] write_string_client [OF valid] by (auto simp: st simp del: separate.simps)
  next
    case (SetFranchise k i l)
    obtain F where F: "write_slice (RefFranchises (local_config L k)) i (literal_cell L l) (FranchiseArrays h) = Some F"
        "st' = (L, s, h\<lparr>FranchiseArrays := F\<rparr>)"
      using assms(2) by (auto simp: st SetFranchise simp del: literal_cell.simps)
    then show ?thesis
      using separate_edit [OF sep] write_franchise_client [OF valid F(1)] by (simp add: SetFranchise del: separate.simps)
  next
    case (SaveConfig a k)
    with separate_save [OF sep] assms(2) show ?thesis by (simp add: st del: separate.simps move.simps)
  next
    case (ReadConfig a)
    with separate_read [OF sep] assms(2) show ?thesis by (simp add: st del: separate.simps move.simps)
  qed
qed

lemma moves_separate:
  assumes "separate holds arrays_of m st" "moves A mvs st = Some st'" "\<forall>mv\<in>set mvs. \<forall>j. mv \<noteq> SaveConfig a j"
  shows "\<exists>m'. separate holds arrays_of m' st' \<and> GetAthleteConfig m' a = GetAthleteConfig m a"
  using assms
proof (induction mvs arbitrary: m st)
  case (Cons mv mvs)
  then obtain st1 where st1: "move A mv st = Some st1" "moves A mvs st1 = Some st'"
    by (auto split: Option.bind_splits)
  have "GetAthleteConfig (value_move mv st m) a = GetAthleteConfig m a"
    using Cons.prems(3) by (cases mv; cases st) (auto simp: SaveAthleteConfig_def GetAthleteConfig_def update_conv')
  with Cons.IH [OF move_separate [OF Cons.prems(1) st1(1)] st1(2)] Cons.prems(3) show ?case by auto
qed auto

lemma moves_keep:
  "separate holds arrays_of m st \<Longrightarrow> moves A mvs st = Some st' \<Longrightarrow> \<exists>m'. separate holds arrays_of m' st'"
proof (induction mvs arbitrary: m st)
  case (Cons mv mvs)
  then obtain st1 where st1: "move A mv st = Some st1" "moves A mvs st1 = Some st'"
    by (auto split: Option.bind_splits)
  from Cons.IH [OF move_separate [OF Cons.prems(1) st1(1)] st1(2)] show ?case .
qed auto

lemma read_value_held:
  assumes "separate holds arrays_of m st"
  shows "read_value A a st = GetAthleteConfig m a"
proof -
  obtain L s h where st: "st = (L, s, h)" by (cases st)
  with assms have "holds m h s" by simp
  from reads [OF this, of a] show ?thesis
    by (auto simp: st fresh_config_def split: option.splits)
qed

text \<open>What was saved is what is read, whatever the client did to its variables since.\<close>

lemma saved_value_stands:
  assumes "separate holds arrays_of m st" "moves A earlier st = Some (L, s, h)"
    and "move A (SaveConfig a k) (L, s, h) = Some saved" "moves A later saved = Some last_state"
    and "\<forall>mv\<in>set later. \<forall>j. mv \<noteq> SaveConfig a j"
  shows "read_value A a last_state = Some (config_value h (local_config L k))"
proof -
  from moves_keep [OF assms(1,2)] obtain m1 where "separate holds arrays_of m1 (L, s, h)" by blast
  from moves_separate [OF separate_save [OF this assms(3)] assms(4,5)] obtain m2
    where "separate holds arrays_of m2 last_state"
      "GetAthleteConfig m2 a = GetAthleteConfig (SaveAthleteConfig m1 a (config_value h (local_config L k))) a" by blast
  with read_value_held show ?thesis by (simp add: SaveAthleteConfig_def GetAthleteConfig_def update_conv')
qed

end

section \<open>Both stores share nothing\<close>

definition memory_holds :: "Memory \<Rightarrow> go_heap \<Rightarrow> (int \<times> ConfigRef) list \<Rightarrow> bool" where
  "memory_holds m h configs \<longleftrightarrow> mConfigs m = map (\<lambda>(a, c). (a, config_value h c)) configs \<and>
     (\<forall>(a, c)\<in>set configs. valid_config h c)"

definition memory_arrays :: "go_heap \<Rightarrow> (int \<times> ConfigRef) list \<Rightarrow> address set" where
  "memory_arrays h configs = (\<Union>(a, c)\<in>set configs. config_footprint h c)"

lemma memory_frame:
  assumes "memory_holds m h s" "agree (memory_arrays h s) h h'"
  shows "memory_holds m h' s" "memory_arrays h' s = memory_arrays h s"
proof -
  have same: "config_value h' c = config_value h c \<and> config_footprint h' c = config_footprint h c \<and> valid_config h' c"
    if "(a, c) \<in> set s" for a c
  proof -
    have "agree (config_footprint h c) h h'"
      by (rule agree_mono [OF assms(2)]) (use that in \<open>auto simp: memory_arrays_def\<close>)
    from config_agree [OF this] assms(1) that show ?thesis by (auto simp: memory_holds_def)
  qed
  then show "memory_holds m h' s" "memory_arrays h' s = memory_arrays h s"
    using assms(1) by (auto simp: memory_holds_def memory_arrays_def)
qed

lemma memory_dom: "memory_holds m h s \<Longrightarrow> memory_arrays h s \<subseteq> heap_dom h"
  using valid_config_dom by (force simp: memory_holds_def memory_arrays_def)

lemma set_update_rows: "set (AList.update k v xs) \<subseteq> insert (k, v) (set xs)"
  by (induction xs) auto

lemma update_map_rows: "map (\<lambda>(a, c). (a, f c)) (AList.update k v xs) = AList.update k (f v) (map (\<lambda>(a, c). (a, f c)) xs)"
  by (induction xs) auto

lemma memory_get: "memory_holds m h s \<Longrightarrow> GetAthleteConfig m a = map_option (config_value h) (map_of s a)"
  by (simp add: memory_holds_def GetAthleteConfig_def map_of_map)

interpretation kept: unshared memory_configs memory_holds memory_arrays
proof
  fix m h s c a h'
  assume held: "memory_holds m h s"
  show "memory_arrays h s \<subseteq> heap_dom h" by (rule memory_dom [OF held])
  show "memory_holds m h' s \<and> memory_arrays h' s = memory_arrays h s" if "agree (memory_arrays h s) h h'"
    using memory_frame [OF held that] by simp
  note later = memory_frame [OF held extends_agree [OF _ memory_dom [OF held]]]
  show "\<exists>s' h'. SaveShared memory_configs a c (s, h) = (Inr (), s', h') \<and> extends h h' \<and>
      memory_holds (SaveAthleteConfig m a (config_value h c)) h' s' \<and> memory_arrays h' s' \<inter> heap_dom h \<subseteq> memory_arrays h s"
    if c: "valid_config h c"
  proof -
    obtain c' h' where clone: "cloneConfig c h = (c', h')" by fastforce
    note f = cloneConfig_fresh [OF c clone]
    then have e: "extends h h'" by (simp add: fresh_config_def)
    have "memory_holds (SaveAthleteConfig m a (config_value h c)) h' (AList.update a c' s)"
      unfolding memory_holds_def
    proof
      show "mConfigs (SaveAthleteConfig m a (config_value h c)) = map (\<lambda>(a, c). (a, config_value h' c)) (AList.update a c' s)"
        using later(1) [OF e] f by (simp add: memory_holds_def SaveAthleteConfig_def update_map_rows fresh_config_def)
      have "valid_config h' (snd row)" if "row \<in> set (AList.update a c' s)" for row
      proof -
        from that set_update_rows have "row \<in> insert (a, c') (set s)" by (rule rev_subsetD)
        then show ?thesis using later(1) [OF e] f by (auto simp: memory_holds_def fresh_config_def)
      qed
      then show "\<forall>(b, d)\<in>set (AList.update a c' s). valid_config h' d" by auto
    qed
    moreover have "memory_arrays h' (AList.update a c' s) \<inter> heap_dom h \<subseteq> memory_arrays h s"
    proof -
      have "memory_arrays h' (AList.update a c' s) \<subseteq> memory_arrays h' s \<union> config_footprint h' c'"
        using set_update_rows [of a c' s] by (force simp: memory_arrays_def)
      with later(2) [OF e] f show ?thesis by (auto simp: fresh_config_def)
    qed
    ultimately show ?thesis using clone e by (simp add: memory_configs_def)
  qed
  show "\<exists>r s' h'. ReadShared memory_configs a (s, h) = (Inr r, s', h') \<and> extends h h' \<and> memory_holds m h' s' \<and>
      memory_arrays h' s' = memory_arrays h s \<and>
      (case r of None \<Rightarrow> GetAthleteConfig m a = None
       | Some c \<Rightarrow> \<exists>v. GetAthleteConfig m a = Some v \<and> fresh_config h v c h')"
  proof (cases "map_of s a")
    case None
    with held show ?thesis by (simp add: memory_configs_def memory_get)
  next
    case (Some c)
    then have "valid_config h c" using held by (auto simp: memory_holds_def dest: map_of_SomeD)
    moreover obtain c' h' where clone: "cloneConfig c h = (c', h')" by fastforce
    ultimately have f: "fresh_config h (config_value h c) c' h'" by (rule cloneConfig_fresh)
    then have e: "extends h h'" by (simp add: fresh_config_def)
    have "ReadShared memory_configs a (s, h) = (Inr (Some c'), s, h')" using Some clone by (simp add: memory_configs_def)
    moreover have "GetAthleteConfig m a = Some (config_value h c)" using Some by (simp add: memory_get [OF held])
    ultimately show ?thesis using later(1) [OF e] later(2) [OF e] e f by simp
  qed
qed

lemma firestore_unshared:
  assumes client: "documented (fsClient S) L r" "reliable (fsClient S)"
    and precision: "\<And>t. whole t \<Longrightarrow> r t = t" and keys: "no_collision S K J"
  shows "unshared (firestore_configs S now) (\<lambda>m h s. durable S L K J m s) (\<lambda>h s. {})"
proof
  fix m h s c a h'
  assume held: "durable S L K J m s"
  note store = firestore_conforming [OF assms, of now]
  show "\<exists>s' h'. SaveShared (firestore_configs S now) a c (s, h) = (Inr (), s', h') \<and> extends h h' \<and>
      durable S L K J (SaveAthleteConfig m a (config_value h c)) s' \<and> {} \<inter> heap_dom h \<subseteq> {}"
    using conforming.saves_config [OF store, of m a "config_value h c"] held
    by (auto simp: gives_def firestore_api_def firestore_configs_def split: prod.splits)
  have read: "fst (run_state (FsAthleteConfig S a) s) = Inr (GetAthleteConfig m a)"
      "durable S L K J m (snd (run_state (FsAthleteConfig S a) s))"
    using conforming.configs [OF store, of m a] held by (simp_all add: gives_def firestore_api_def)
  then obtain s' where run: "run_state (FsAthleteConfig S a) s = (Inr (GetAthleteConfig m a), s')" "durable S L K J m s'"
    by (metis prod.collapse)
  show "\<exists>r s' h'. ReadShared (firestore_configs S now) a (s, h) = (Inr r, s', h') \<and> extends h h' \<and> durable S L K J m s' \<and>
      {} = {} \<and> (case r of None \<Rightarrow> GetAthleteConfig m a = None
         | Some c \<Rightarrow> \<exists>v. GetAthleteConfig m a = Some v \<and> fresh_config h v c h')"
  proof (cases "GetAthleteConfig m a")
    case None
    with run show ?thesis by (simp add: firestore_configs_def)
  next
    case (Some v)
    obtain c h' where "decode_config v h = (c, h')" by fastforce
    with decode_config_fresh [OF this] run Some show ?thesis by (simp add: firestore_configs_def fresh_config_def)
  qed
qed simp_all

interpretation decoded: unshared "firestore_configs emulator_store Now"
    "\<lambda>m h s. durable emulator_store emulator_view UNIV UNIV m s" "\<lambda>h s. {}"
  by (rule firestore_unshared [OF _ _ micros_whole emulator_no_collision])
    (simp_all add: emulator_store_def emulator_documented emulator_reliable)

lemma start_separate: "separate memory_holds memory_arrays NewMemory (no_client, [], no_heap)"
  by (simp add: memory_holds_def memory_arrays_def NewMemory_def valid_client_def no_client_def)

text \<open>C26: No client reaches into the store in memory. A program makes configurations, saves them, reads them back
  and writes to any element of any slice it has come to hold, its own, a saved one's or a read one's; of
  athlete \<open>a\<close>, the store gives back the value its last save had at that moment.\<close>

theorem stored_config_stands:
  assumes "moves memory_configs earlier (no_client, [], no_heap) = Some (L, s, h)"
    and "move memory_configs (SaveConfig a k) (L, s, h) = Some saved"
    and "moves memory_configs later saved = Some last_state"
    and "\<forall>mv\<in>set later. \<forall>j. mv \<noteq> SaveConfig a j"
  shows "read_value memory_configs a last_state = Some (config_value h (local_config L k))"
  by (rule kept.saved_value_stands [OF start_separate assms])

definition test_config :: "client_move list" where
  "test_config = [MakeStrings [testGravelRide, ''Ride''], MakeStrings [testFirstEntry, testReservedEntry],
     MakeStrings [testReservedEntry], MakeConfig [(testFranchiseKey, 0, ''Pink Panther'', 1, 2)]]"

text \<open>Where a configuration would be aliased by its slices, these three assignments would be seen.\<close>

definition edit_slices :: "nat \<Rightarrow> nat \<Rightarrow> string \<Rightarrow> client_move list" where
  "edit_slices config var title = [TakeSlices config 0, SetString (var + 1) 0 title, SetString var 0 ''MutatedSport'',
     SetString (var + 2) 0 title]"

definition intruder :: "client_move list" where
  "intruder = edit_slices 0 3 ''Mutated After Saving'' @ SetFranchise 0 0 (''mutated'', 3, [], 4, 5) #
     ReadConfig 25 # edit_slices 1 6 ''Mutated After Reading''"

lemma stored_config_stands_witness:
  "\<exists>last_state. moves memory_configs intruder
      (the (move memory_configs (SaveConfig 25 0) (the (moves memory_configs test_config (no_client, [], no_heap)))))
      = Some last_state \<and> read_value memory_configs 25 last_state = Some testFranchises"
proof -
  obtain L s h where start: "moves memory_configs test_config (no_client, [], no_heap) = Some (L, s, h)"
      "config_value h (local_config L 0) = testFranchises"
    by (simp add: test_config_def no_client_def no_heap_def make_slice_def keep_slices_def keep_config_def
        local_slice_def local_config_def config_value_def cell_value_def testFranchises_def)
  obtain saved where saved: "move memory_configs (SaveConfig 25 0) (L, s, h) = Some saved"
    by (cases "SaveShared memory_configs 25 (local_config L 0) (s, h)") auto
  have "moves memory_configs intruder (the (move memory_configs (SaveConfig 25 0)
      (the (moves memory_configs test_config (no_client, [], no_heap))))) \<noteq> None" by code_simp
  then obtain last_state where last: "moves memory_configs intruder saved = Some last_state" using start saved by auto
  have "\<forall>mv\<in>set intruder. \<forall>j. mv \<noteq> SaveConfig 25 j" by (simp add: intruder_def edit_slices_def)
  from stored_config_stands [OF start(1) saved last this] start last saved show ?thesis by simp
qed

section \<open>The suite's test\<close>

text \<open>
  \<^verbatim>\<open>athleteConfigIsCopied\<close>: save, edit what was saved, read; edit what was read, read again. The field
  \<^verbatim>\<open>Name\<close> is assigned by storing the franchise with its other fields as they are.
\<close>

definition first_series :: "go_heap \<Rightarrow> ConfigRef \<Rightarrow> (StoredFranchise \<Rightarrow> bool) \<Rightarrow> bool" where
  "first_series h c P = (case Franchises (config_value h c) of [] \<Rightarrow> False | f # _ \<Rightarrow> P f)"

definition series_kept :: "StoredFranchise \<Rightarrow> bool" where
  "series_kept f \<longleftrightarrow> take 1 (STitles f) = [testFirstEntry] \<and> take 1 (SSportTypes f) = [testGravelRide] \<and>
     take 1 (SReserved f) = [testReservedEntry]"

definition athleteConfigIsCopied :: "'s config_api \<Rightarrow> 's \<Rightarrow> bool" where
  "athleteConfigIsCopied A s =
     (case moves A (test_config @ [SaveConfig 25 0] @ edit_slices 0 3 ''Mutated After Saving'' @
             [SetFranchise 0 0 (''mutated'', 3, ''Pink Panther'', 4, 5), ReadConfig 25]) (no_client, s, no_heap) of
        None \<Rightarrow> False
      | Some (L, s, h) \<Rightarrow>
          first_series h (local_config L 1) (\<lambda>f. series_kept f \<and> SName f = testFranchiseKey) \<and>
          (case moves A (edit_slices 1 6 ''Mutated After Reading'' @ [ReadConfig 25]) (L, s, h) of
             None \<Rightarrow> False
           | Some (L, s, h) \<Rightarrow> first_series h (local_config L 2) series_kept))"

lemma moves_append: "moves A (xs @ ys) st = Option.bind (moves A xs st) (moves A ys)"
  by (induction xs arbitrary: st) (auto split: Option.bind_splits)

lemma write_ok: "read_slice A x \<noteq> [] \<Longrightarrow> \<exists>a j. write_slice x 0 v A = Some (A[a := (A ! a)[j := v]])"
  by (cases x) auto

lemma read_length_after_write: "length (read_slice (A[a := (A ! a)[j := v]]) x) = length (read_slice A x)"
  by (cases x) (auto simp: array_after_write)

lemma edits_succeed:
  assumes "config_cells h (local_config L k) = f # fs" "\<forall>x\<in>set (cell_slices f). read_slice (StringArrays h) x \<noteq> []"
    and "var = length (LocalSlices L)"
  shows "\<exists>B. moves A (edit_slices k var title) (L, s, h) = Some (keep_slices (cell_slices f) L, s, h\<lparr>StringArrays := B\<rparr>)"
proof -
  let ?L = "keep_slices (cell_slices f) L" and ?A = "StringArrays h"
  have read: "read_slice ?A (CellSportTypes f) \<noteq> []" "read_slice ?A (CellTitles f) \<noteq> []" "read_slice ?A (CellReserved f) \<noteq> []"
    using assms(2) by (simp_all add: cell_slices_def)
  have vars: "local_slice ?L var = CellSportTypes f" "local_slice ?L (Suc var) = CellTitles f"
      "local_slice ?L (Suc (Suc var)) = CellReserved f"
    by (simp_all add: local_slice_def keep_slices_def cell_slices_def assms(3) nth_append)
  have take: "move A (TakeSlices k 0) (L, s, h) = Some (?L, s, h)"
    using assms(1) by (simp add: config_cells_def cell_slices_def Let_def)
  obtain a i where B: "write_slice (CellTitles f) 0 title ?A = Some (?A[a := (?A ! a)[i := title]])" (is "_ = Some ?B")
    using write_ok [OF read(2), of title] by blast
  have sports: "read_slice ?B (CellSportTypes f) \<noteq> []"
    using read(1) read_length_after_write [of ?A] by (metis length_0_conv)
  obtain b j where C: "write_slice (CellSportTypes f) 0 ''MutatedSport'' ?B = Some (?B[b := (?B ! b)[j := ''MutatedSport'']])"
      (is "_ = Some ?C") using write_ok [OF sports, of "''MutatedSport''"] by blast
  have reserved: "read_slice ?C (CellReserved f) \<noteq> []"
    using read(3) read_length_after_write [of ?A] read_length_after_write [of ?B] by (metis length_0_conv)
  obtain D where "write_slice (CellReserved f) 0 title ?C = Some D" using write_ok [OF reserved, of title] by blast
  with take B C vars show ?thesis
    by (simp add: edit_slices_def del: move.simps(3)) blast
qed

lemma test_value_cells:
  assumes "config_value h c = testFranchises"
  shows "\<exists>f. config_cells h c = [f] \<and> (\<forall>x\<in>set (cell_slices f). read_slice (StringArrays h) x \<noteq> [])"
  using assms by (auto simp: config_value_def testFranchises_def cell_value_def cell_slices_def config_cells_def)

lemma test_value_kept:
  assumes "config_value h c = testFranchises"
  shows "first_series h c (\<lambda>f. series_kept f \<and> SName f = testFranchiseKey)" "first_series h c series_kept"
  using assms by (simp_all add: first_series_def series_kept_def testFranchises_def)

context unshared begin

lemma save_step:
  assumes "separate holds arrays_of m (L, s, h)" "config_value h (local_config L k) = v"
  shows "\<exists>s' h' m'. move A (SaveConfig a k) (L, s, h) = Some (L, s', h') \<and> separate holds arrays_of m' (L, s', h') \<and>
    GetAthleteConfig m' a = Some v \<and> config_value h' (local_config L k) = v"
proof -
  have held: "holds m h s" and valid: "valid_client h L" using assms(1) by simp_all
  note c = local_config_valid [OF valid, of k]
  obtain s' h' where step: "SaveShared A a (local_config L k) (s, h) = (Inr (), s', h')" and e: "extends h h'"
    using saves [OF held c] by blast
  then have moved: "move A (SaveConfig a k) (L, s, h) = Some (L, s', h')" by simp
  have "config_value h' (local_config L k) = v"
    using config_agree(2) [OF extends_agree [OF e valid_config_dom [OF c]] c] assms(2) by simp
  with moved separate_save [OF assms(1) moved] assms(2) show ?thesis
    by (auto simp: SaveAthleteConfig_def GetAthleteConfig_def update_conv' simp del: separate.simps)
qed

lemma read_step:
  assumes "separate holds arrays_of m (L, s, h)" "GetAthleteConfig m a = Some v"
  shows "\<exists>c s' h'. move A (ReadConfig a) (L, s, h) = Some (keep_config c L, s', h') \<and>
    separate holds arrays_of m (keep_config c L, s', h') \<and> config_value h' c = v"
proof -
  have "holds m h s" using assms(1) by simp
  from reads [OF this, of a] assms(2) obtain c s' h' where
    "ReadShared A a (s, h) = (Inr (Some c), s', h')" "fresh_config h v c h'" by (auto split: option.splits)
  then have moved: "move A (ReadConfig a) (L, s, h) = Some (keep_config c L, s', h')" "config_value h' c = v"
    by (simp_all add: fresh_config_def)
  with separate_read [OF assms(1) moved(1)] show ?thesis by blast
qed

lemma edit_and_read:
  assumes "separate holds arrays_of m (L, s, h)" "GetAthleteConfig m 25 = Some testFranchises"
    and "config_value h (local_config L k) = testFranchises" "var = length (LocalSlices L)"
  obtains f c L' B m' where
    "moves A (edit_slices k var title) (L, s, h) = Some (keep_slices (cell_slices f) L, s, h\<lparr>StringArrays := B\<rparr>)"
    "config_cells h (local_config L k) = [f]"
    "separate holds arrays_of m' (keep_slices (cell_slices f) L, s, h\<lparr>StringArrays := B\<rparr>)"
    "GetAthleteConfig m' 25 = Some testFranchises"
proof -
  obtain f where f: "config_cells h (local_config L k) = [f]"
      "\<forall>x\<in>set (cell_slices f). read_slice (StringArrays h) x \<noteq> []"
    using test_value_cells [OF assms(3)] by blast
  from edits_succeed [OF f assms(4), of A title s] obtain B where B: "moves A (edit_slices k var title) (L, s, h) =
      Some (keep_slices (cell_slices f) L, s, h\<lparr>StringArrays := B\<rparr>)" by blast
  have "\<forall>mv\<in>set (edit_slices k var title). \<forall>j. mv \<noteq> SaveConfig 25 j" by (simp add: edit_slices_def)
  from moves_separate [OF assms(1) B this] assms(2) that [OF B f(1)] show ?thesis by auto
qed

lemma copied_passes:
  assumes "holds NewMemory no_heap s"
  shows "athleteConfigIsCopied A s"
proof -
  have sep0: "separate holds arrays_of NewMemory (no_client, s, no_heap)"
    using assms by (simp add: valid_client_def reach_def no_client_def strings_of_def)
  obtain L h where built: "moves A test_config (no_client, s, no_heap) = Some (L, s, h)"
      "config_value h (local_config L 0) = testFranchises" "length (LocalSlices L) = 3" "length (LocalConfigs L) = 1"
    by (simp add: test_config_def no_client_def no_heap_def make_slice_def keep_slices_def keep_config_def
        local_slice_def local_config_def config_value_def cell_value_def testFranchises_def)
  obtain m where "separate holds arrays_of m (L, s, h)" using moves_keep [OF sep0 built(1)] by blast
  from save_step [OF this built(2)] obtain s1 h1 m1 where save: "move A (SaveConfig 25 0) (L, s, h) = Some (L, s1, h1)"
      "separate holds arrays_of m1 (L, s1, h1)" "GetAthleteConfig m1 25 = Some testFranchises"
      "config_value h1 (local_config L 0) = testFranchises" by blast
  obtain f B m2 where edit: "moves A (edit_slices 0 3 ''Mutated After Saving'') (L, s1, h1) =
        Some (keep_slices (cell_slices f) L, s1, h1\<lparr>StringArrays := B\<rparr>)"
      "config_cells h1 (local_config L 0) = [f]"
      "separate holds arrays_of m2 (keep_slices (cell_slices f) L, s1, h1\<lparr>StringArrays := B\<rparr>)"
      "GetAthleteConfig m2 25 = Some testFranchises"
    using edit_and_read [OF save(2-4)] built(3) by metis
  let ?L = "keep_slices (cell_slices f) L" and ?h = "h1\<lparr>StringArrays := B\<rparr>"
  let ?cell = "(''mutated'', 3, ''Pink Panther'', 4, 5) :: cell_literal"
  have "local_config ?L 0 = local_config L 0" by (simp add: local_config_def keep_slices_def)
  then obtain F where "write_slice (RefFranchises (local_config ?L 0)) 0 (literal_cell ?L ?cell) (FranchiseArrays ?h) = Some F"
    using write_ok [of "FranchiseArrays h1" "RefFranchises (local_config L 0)"] edit(2)
    by (auto simp: config_cells_def simp del: literal_cell.simps)
  then have name: "move A (SetFranchise 0 0 ?cell) (?L, s1, ?h) = Some (?L, s1, ?h\<lparr>FranchiseArrays := F\<rparr>)"
    by (simp del: literal_cell.simps)
  from move_separate [OF edit(3) name] have "separate holds arrays_of m2 (?L, s1, ?h\<lparr>FranchiseArrays := F\<rparr>)"
    by (simp del: separate.simps)
  from read_step [OF this edit(4)] obtain c s2 h2 where read: "move A (ReadConfig 25) (?L, s1, ?h\<lparr>FranchiseArrays := F\<rparr>) =
        Some (keep_config c ?L, s2, h2)"
      "separate holds arrays_of m2 (keep_config c ?L, s2, h2)" "config_value h2 c = testFranchises" by blast
  let ?got = "keep_config c ?L"
  have got: "local_config ?got 1 = c" "length (LocalSlices ?got) = 6" "length (LocalConfigs ?got) = 2"
    using built(3,4) by (simp_all add: local_config_def keep_config_def keep_slices_def cell_slices_def nth_append)
  obtain g C m3 where again: "moves A (edit_slices 1 6 ''Mutated After Reading'') (?got, s2, h2) =
        Some (keep_slices (cell_slices g) ?got, s2, h2\<lparr>StringArrays := C\<rparr>)"
      "separate holds arrays_of m3 (keep_slices (cell_slices g) ?got, s2, h2\<lparr>StringArrays := C\<rparr>)"
      "GetAthleteConfig m3 25 = Some testFranchises"
    using edit_and_read [OF read(2) edit(4), of 1 6] read(3) got by metis
  from read_step [OF again(2,3)] obtain d s3 h3 where last: "move A (ReadConfig 25)
        (keep_slices (cell_slices g) ?got, s2, h2\<lparr>StringArrays := C\<rparr>) =
      Some (keep_config d (keep_slices (cell_slices g) ?got), s3, h3)" "config_value h3 d = testFranchises" by blast
  have kept: "local_config (keep_config d (keep_slices (cell_slices g) ?got)) 2 = d"
    using got(3) by (simp add: local_config_def keep_config_def keep_slices_def nth_append)
  show ?thesis
    unfolding athleteConfigIsCopied_def moves_append
    by (simp only: built(1) save(1) edit(1) name read(1) again(1) last(1) moves.simps Option.bind.bind_lunit
        option.case prod.case got(1) kept test_value_kept [OF read(3)] test_value_kept [OF last(2)] simp_thms)
qed

end

text \<open>The test passes on both stores, each as it is first opened.\<close>

lemma athleteConfigIsCopied_passes:
  assumes "documented (fsClient S) L r" "reliable (fsClient S)" "\<And>t. whole t \<Longrightarrow> r t = t"
    and "no_collision S K J" "durable S L K J NewMemory s"
  shows "athleteConfigIsCopied memory_configs []" "athleteConfigIsCopied (firestore_configs S now) s"
  using kept.copied_passes [of "[]"] start_separate
    unshared.copied_passes [OF firestore_unshared [OF assms(1-4)], of s now] assms(5) by simp_all

section \<open>The whole suite (storetest.Suite)\<close>

text \<open>
  Every test by its name, with its result on a store as the factory produces it: \<open>s\<close> behind the values'
  interface, \<open>t\<close> behind the one whose configurations share memory with the caller.
\<close>

definition Suite :: "'s store_api \<Rightarrow> 's \<Rightarrow> 't config_api \<Rightarrow> 't \<Rightarrow> (string \<times> bool) list" where
  "Suite A s B t =
     map (\<lambda>(name, test). (name, fst (run_state test s))) (value_tests A) @
     [(''AthleteConfigIsCopied'', athleteConfigIsCopied B t)]"

text \<open>C25: Both stores pass the conformance suite. Each of its 29 tests, run on an empty store, passes on the store in
  memory; and each passes on the Firestore store over any database that behaves as documented, keeps whole
  seconds, loses no call, and digests the names the suite uses without a collision.\<close>

theorem both_stores_conform:
  assumes "documented (fsClient S) L r" "reliable (fsClient S)" "\<And>t. whole t \<Longrightarrow> r t = t"
    and "no_collision S suite_places suite_series" "durable S L suite_places suite_series NewMemory s"
  shows "length (Suite memory_api NewMemory memory_configs []) = 29
    \<and> list_all snd (Suite memory_api NewMemory memory_configs [])
    \<and> map fst (Suite (firestore_api S now) s (firestore_configs S now) s) =
      map fst (Suite memory_api NewMemory memory_configs [])
    \<and> list_all snd (Suite (firestore_api S now) s (firestore_configs S now) s)"
  using both_pass_value_tests(1) [OF assms] both_pass_value_tests(2) [OF assms, of now]
    athleteConfigIsCopied_passes(1) [OF assms] athleteConfigIsCopied_passes(2) [OF assms, of now]
  by (simp add: Suite_def list_all_iff case_prod_beta) (simp add: value_tests_def)

lemma both_stores_conform_witness:
  "list_all snd (Suite (firestore_api emulator_store Now) (\<lambda>_. []) (firestore_configs emulator_store Now) (\<lambda>_. []))"
  using both_stores_conform [OF _ _ micros_whole emulator_no_collision emulator_start, of Now]
  by (simp add: emulator_store_def emulator_documented emulator_reliable)

end
