(* ===== verification/Gate.thy ===== *)
theory Gate
  imports SweepHandler Interleave
begin

text \<open>
  Requests to the sweep endpoint that overlap. A request that took the lock runs its sweep in turns, and here
  an entry is two turns: the named log is read for it, and then it is acted on. Two sweeps in step would both
  find an activity unnamed and rename it twice (\<open>two_looks_rename_twice\<close>); the comment on the lock in
  \<^verbatim>\<open>internal/sweep/sweep.go\<close> says it is there for that. The turns of every request inside, other requests,
  events, imports, changes outside and the end of the process take place in any order.
\<close>

section \<open>A sweep in turns that can be overtaken\<close>

text \<open>What \<open>processOne\<close> does after its read of the named log.\<close>

definition after_look :: "'w env \<Rightarrow> deps \<Rightarrow> Pending \<Rightarrow> NamedTitle option option \<Rightarrow>
    ('w sys, proc_error + outcome) state" where
  "after_look E D p found =
     (case found of
        None \<Rightarrow> return (Inl ReadNamedLog)
      | Some (Some row) \<Rightarrow> reconcileOne E D p row
      | Some None \<Rightarrow> do {
          r \<leftarrow> GetActivityCall E (PActivityID p);
          case r of
            Inl e \<Rightarrow> return (if gone e then Inr outcomeSkipped else Inl (FetchActivity e))
          | Inr a \<Rightarrow> name_activity E D p a })"

lemma processOne_look:
  "processOne E D p = State_Monad.bind (store_read E (\<lambda>m. Named m (PAthleteID p) (PActivityID p))) (after_look E D p)"
  by (simp add: processOne_def after_look_def [abs_def])

datatype progress =
  Admitted | Sweeping "Pending list" Result
| Looked Pending "NamedTitle option option" "Pending list" Result
| Finishing Pending outcome "Pending list" Result

definition after_entry :: "Pending \<Rightarrow> Pending list \<Rightarrow> Result \<Rightarrow> proc_error + outcome \<Rightarrow>
    progress + (proc_error + Result)" where
  "after_entry p ps r ending =
     (case ending of
        Inl e \<Rightarrow> if e = IndexPanic then Inr (Inl IndexPanic) else Inl (Sweeping ps (r\<lparr>RFailed := RFailed r + 1\<rparr>))
      | Inr o' \<Rightarrow> Inl (Finishing p o' ps r))"

fun fire_turn :: "'w env \<Rightarrow> deps \<Rightarrow> progress \<Rightarrow> ('w sys, progress + (proc_error + Result)) state" where
  "fire_turn E D Admitted = do {
     date \<leftarrow> now_of E;
     due \<leftarrow> store_read E (\<lambda>m. Due m date);
     return (case due of
       None \<Rightarrow> Inr (Inl ReadQueue) | Some ps \<Rightarrow> Inl (Sweeping ps (empty_result (length ps)))) }"
| "fire_turn E D (Sweeping [] r) = return (Inr (Inr r))"
| "fire_turn E D (Sweeping (p # ps) r) = do {
     stop \<leftarrow> reads (\<lambda>s. ctx_done E (World s));
     if stop then return (Inr (Inr (r\<lparr>RCancelled := True\<rparr>)))
     else do {
       found \<leftarrow> store_read E (\<lambda>m. Named m (PAthleteID p) (PActivityID p));
       return (Inl (Looked p found ps r)) } }"
| "fire_turn E D (Looked p found ps r) = do {
     ending \<leftarrow> after_look E D p found;
     return (after_entry p ps r ending) }"
| "fire_turn E D (Finishing p o' ps r) = do {
     _ \<leftarrow> dequeue E p o';
     return (Inl (Sweeping ps (count_of o' r))) }"

section \<open>Overlapping requests\<close>

text \<open>\<open>Inside\<close> are the requests between \<^verbatim>\<open>TryLock\<close> and \<^verbatim>\<open>Unlock\<close>, \<open>Running\<close> is the lock.\<close>

record 'w gate =
  GSys :: "'w sys"
  Running :: bool
  Inside :: "(http_request \<times> progress) list"
  Replies :: "(http_request \<times> http_response option) list"

text \<open>
  A request is \<open>admit\<close>, with the lock as it is then; the one admitted holds the lock until its sweep
  returns or panics. The lock is in the process, and goes with it.
\<close>

inductive gate_step :: "'w env \<Rightarrow> deps \<Rightarrow> 'w sweep_deps \<Rightarrow> 'w gate \<Rightarrow> 'w gate \<Rightarrow> bool" for E D H where
  answered: "run_state (admit E H (Running g) q) (GSys g) = (Inl response, s) \<Longrightarrow>
    gate_step E D H g (g\<lparr>GSys := s, Replies := Replies g @ [(q, Some response)]\<rparr>)"
| admitted: "run_state (admit E H (Running g) q) (GSys g) = (Inr (), s) \<Longrightarrow>
    gate_step E D H g (g\<lparr>GSys := s, Running := True, Inside := Inside g @ [(q, Admitted)]\<rparr>)"
| turn: "Inside g = A @ (q, ph) # B \<Longrightarrow> run_state (fire_turn E D ph) (GSys g) = (Inl ph', s) \<Longrightarrow>
    gate_step E D H g (g\<lparr>GSys := s, Inside := A @ (q, ph') # B\<rparr>)"
| leave: "Inside g = A @ (q, ph) # B \<Longrightarrow> run_state (fire_turn E D ph) (GSys g) = (Inr x, s) \<Longrightarrow>
    gate_step E D H g (g\<lparr>GSys := s, Running := False, Inside := A @ B, Replies := Replies g @ [(q, sweep_response x)]\<rparr>)"
| between: "meanwhile (GSys g) s \<Longrightarrow> gate_step E D H g (g\<lparr>GSys := s\<rparr>)"
| process_ends: "gate_step E D H g (g\<lparr>GSys := (GSys g)\<lparr>GearCache := [], ExampleCache := [], FranchiseCache := []\<rparr>,
    Running := False, Inside := []\<rparr>)"

definition gate_start :: "'w sys \<Rightarrow> 'w gate" where
  "gate_start s = \<lparr>GSys = s, Running = False, Inside = [], Replies = []\<rparr>"

section \<open>A request that is left alone\<close>


lemma turn_alone:
  assumes "Inside g = [(q, ph)]" "run_state (fire_turn E D ph) (GSys g) = (Inl ph', s)"
  shows "gate_step E D H g (g\<lparr>GSys := s, Inside := [(q, ph')]\<rparr>)"
  using gate_step.turn [of g "[]" q ph "[]", OF _ assms(2)] assms(1) by simp


section \<open>At most one inside\<close>

text \<open>
  What the lock keeps: one request inside, the lock held exactly then, and an activity that the request
  inside found unnamed has not been sent a title since.
\<close>

definition still_unsent :: "'w sys \<Rightarrow> progress \<Rightarrow> bool" where
  "still_unsent s ph \<longleftrightarrow> (\<forall>p ps r. ph = Looked p (Some None) ps r \<longrightarrow> sent_titles s (PAthleteID p) (PActivityID p) = [])"

definition one_inside :: "'w gate \<Rightarrow> bool" where
  "one_inside g \<longleftrightarrow> named_once (GSys g) \<and> (if Running g then \<exists>q ph. Inside g = [(q, ph)] \<and> still_unsent (GSys g) ph else Inside g = [])"

lemma one_title_more:
  assumes "named_once s" "keeps_rows s t"
    and "untitled s t \<or> (\<exists>x d row. Puts t = Puts s @ [TitlePut b i x d (Some row)] \<and> NamedTitle.Title row = x
      \<and> ActivityID row = i \<and> Named (SStore t) b i \<noteq> None \<and> sent_titles s b i = [])"
  shows "named_once t"
  using assms(3)
proof (elim disjE exE conjE)
  assume "untitled s t"
  with assms(1,2) show ?thesis
    by (auto simp: named_once_def recorded_titles_def keeps_rows_def untitled_sent untitled_recorded)
next
  fix x d row
  assume put: "Puts t = Puts s @ [TitlePut b i x d (Some row)]" "NamedTitle.Title row = x" "ActivityID row = i"
    "Named (SStore t) b i \<noteq> None" "sent_titles s b i = []"
  have "recorded_titles t"
  proof (rule recorded_titles_put)
    show "recorded_titles s" using assms(1) by (simp add: named_once_def)
    show "wf_Memory (SStore t)" using assms(1,2) by (simp add: named_once_def recorded_titles_def keeps_rows_def)
    show "Named (SStore s) a j \<noteq> None \<Longrightarrow> Named (SStore t) a j \<noteq> None" for a j
      using assms(2) by (auto simp: keeps_rows_def)
  qed (use put in blast)
  moreover have "length (sent_titles t a j) \<le> 1" for a j
    using assms(1) put(5) by (auto simp: sent_titles_append [OF put(1)] named_once_def)
  ultimately show ?thesis by (simp add: named_once_def)
qed

lemma after_look_once:
  assumes "honest E" "named_once s" "run_state (after_look E D p found) s = (x, t)"
    and "found = Some None \<Longrightarrow> sent_titles s (PAthleteID p) (PActivityID p) = []"
  shows "named_once t"
proof (cases found)
  case None
  with assms(2,3) show ?thesis by (auto simp: after_look_def)
next
  case (Some known)
  show ?thesis
  proof (cases known)
    case (Some row)
    with assms(3) \<open>found = Some known\<close> have run: "run_state (reconcileOne E D p row) s = (x, t)" by (simp add: after_look_def)
    from one_title_more [OF assms(2) keeps_rows.mayD [OF keeps_rows_reconcileOne run]] untitled.mayD [OF untitled_reconcile run]
    show ?thesis by blast
  next
    case None
    obtain y w where y: "get_activity E (PActivityID p) (World s) = (y, w)" by fastforce
    have outside: "named_once (s\<lparr>World := w\<rparr>)"
      by (rule named_once_kept [OF assms(2)]) (simp_all add: keeps_rows_def)
    show ?thesis
    proof (cases y)
      case (Inl e)
      with assms(3) y None Some outside show ?thesis by (auto simp: after_look_def GetActivityCall_def)
    next
      case (Inr a)
      with assms(3) y None Some have run: "run_state (name_activity E D p a) (s\<lparr>World := w\<rparr>) = (x, t)"
        by (simp add: after_look_def GetActivityCall_def)
      have "AID a = PActivityID p" using assms(1) y Inr by (auto simp: honest_def)
      moreover have "sent_titles (s\<lparr>World := w\<rparr>) (PAthleteID p) (PActivityID p) = []"
        using assms(4) None Some by (simp add: sent_titles_def)
      ultimately have "untitled (s\<lparr>World := w\<rparr>) t \<or> (\<exists>x d row. Puts t = Puts (s\<lparr>World := w\<rparr>) @
          [TitlePut (PAthleteID p) (PActivityID p) x d (Some row)] \<and> NamedTitle.Title row = x \<and> ActivityID row = PActivityID p
          \<and> Named (SStore t) (PAthleteID p) (PActivityID p) \<noteq> None \<and> sent_titles (s\<lparr>World := w\<rparr>) (PAthleteID p) (PActivityID p) = [])"
        using name_activity_sends [OF run] by (auto simp: untitled_def)
      from one_title_more [OF outside keeps_rows.mayD [OF keeps_rows_name_activity run] this] show ?thesis .
    qed
  qed
qed

lemma unnamed_unsent: "named_once s \<Longrightarrow> Named (SStore s) b i = None \<Longrightarrow> sent_titles s b i = []"
  unfolding named_once_def recorded_titles_def by blast

lemma fire_turn_once:
  assumes "honest E" "named_once s" "still_unsent s ph" "run_state (fire_turn E D ph) s = (x, t)"
  shows "named_once t \<and> (case x of Inl ph' \<Rightarrow> still_unsent t ph' | Inr _ \<Rightarrow> True)"
proof -
  have quiet: "named_once u" if "silent s u" for u
    using that assms(2) by (rule silent_once)
  show ?thesis using assms(4)
  proof (cases rule: fire_turn.cases [of "(E, D, ph)"])
    case 1
    obtain date s1 where 2: "run_state (now_of E) s = (date, s1)" by fastforce
    obtain due s2 where 3: "run_state (store_read E (\<lambda>m. Due m date)) s1 = (due, s2)" by fastforce
    have "silent s s2"
      using silent.mayD [OF silent_primitives(1) 2] silent.mayD [OF silent_primitives(2) 3] silent.compose by blast
    then show ?thesis
      using assms(4) 1 2 3 quiet by (auto simp: still_unsent_def split: option.splits)
  next
    case (2 E D r)
    with assms show ?thesis by auto
  next
    case (3 E' D p ps r)
    show ?thesis
    proof (cases "ctx_done E (World s)")
      case True
      with assms 3 show ?thesis by auto
    next
      case False
      obtain found u where look: "run_state (store_read E (\<lambda>m. Named m (PAthleteID p) (PActivityID p))) s = (found, u)"
        by fastforce
      have "silent s u" by (rule silent.mayD [OF silent_primitives(2) look])
      moreover have "found = Some None \<Longrightarrow> sent_titles s (PAthleteID p) (PActivityID p) = []"
        using look by (auto simp: run_store_read intro!: unnamed_unsent [OF assms(2)] split: prod.splits if_splits)
      ultimately show ?thesis
        using assms(4) 3 False look quiet by (auto simp: still_unsent_def sent_titles_def silent_def)
    qed
  next
    case (4 E' D' p found ps r)
    obtain y u where act: "run_state (after_look E D p found) s = (y, u)" by fastforce
    with 4 assms(4) have "x = after_entry p ps r y" "t = u" by auto
    moreover have "named_once u"
      by (rule after_look_once [OF assms(1,2) act]) (use assms(3) 4 in \<open>auto simp: still_unsent_def\<close>)
    ultimately show ?thesis by (auto simp: after_entry_def still_unsent_def split: sum.splits)
  next
    case (5 E' D' p o' ps r)
    obtain ok u where d: "run_state (dequeue E p o') s = (ok, u)" by fastforce
    with 5 assms(4) have "x = Inl (Sweeping ps (count_of o' r))" "t = u" by auto
    with tripleD [OF dequeue_recorded(2) d assms(2)] show ?thesis by (simp add: still_unsent_def)
  qed
qed

lemma admit_world: "run_state (admit E H held q) s = (x, t) \<Longrightarrow> silent s t"
  by (auto simp: admit_def dest: silent.mayD [OF silent_authenticate] split: prod.splits)

lemma admit_free: "run_state (admit E H held q) s = (Inr (), t) \<Longrightarrow> \<not> held"
  by (auto simp: admit_def split: prod.splits sum.splits if_splits)

lemma still_unsent_same: "Puts t = Puts s \<Longrightarrow> still_unsent t ph = still_unsent s ph"
  by (simp add: still_unsent_def sent_titles_def)

lemma alone: "A @ (q', ph') # B = [(q, ph)] \<longleftrightarrow> A = [] \<and> B = [] \<and> q' = q \<and> ph' = ph"
  by (cases A) auto

lemma gate_step_one:
  assumes "honest E" "gate_step E D H g g'" "one_inside g"
  shows "one_inside g'"
  using assms(2)
proof cases
  case (answered q response s)
  have "named_once s" "Puts s = Puts (GSys g)"
    using admit_world [OF answered(2)] silent_once assms(3) by (auto simp: one_inside_def silent_def)
  with answered(1) assms(3) still_unsent_same [of s "GSys g"] show ?thesis by (simp add: one_inside_def)
next
  case (admitted q s)
  have "named_once s"
    using admit_world [OF admitted(2)] silent_once assms(3) by (auto simp: one_inside_def)
  with admitted(1) admit_free [OF admitted(2)] assms(3) show ?thesis by (simp add: one_inside_def still_unsent_def)
next
  case (turn A q ph B ph' s)
  with assms(3) have "Running g" "A = [] \<and> B = []" "still_unsent (GSys g) ph" "named_once (GSys g)"
    by (auto simp: one_inside_def alone split: if_splits)
  with fire_turn_once [OF assms(1) _ _ turn(3)] turn(1) show ?thesis by (simp add: one_inside_def)
next
  case (leave A q ph B x s)
  with assms(3) have "Running g" "A = [] \<and> B = []" "still_unsent (GSys g) ph" "named_once (GSys g)"
    by (auto simp: one_inside_def alone split: if_splits)
  with fire_turn_once [OF assms(1) _ _ leave(3)] leave(1) show ?thesis by (simp add: one_inside_def)
next
  case (between s)
  note same = untouched_meanwhile [OF between(2), unfolded untouched_rows_def]
  have "named_once (GSys g)" using assms(3) by (simp add: one_inside_def)
  then have "named_once s" by (rule named_once_kept [OF _ conjunct1 [OF same] conjunct2 [OF same]])
  moreover have "Puts s = Puts (GSys g)" by (rule conjunct1 [OF same])
  ultimately show ?thesis
    using between(1) assms(3) still_unsent_same [of s "GSys g"] by (simp add: one_inside_def)
next
  case process_ends
  have "named_once ((GSys g)\<lparr>GearCache := [], ExampleCache := [], FranchiseCache := []\<rparr>)"
    by (rule named_once_kept [of "GSys g"]) (use assms(3) in \<open>simp_all add: one_inside_def keeps_rows_def\<close>)
  with process_ends show ?thesis by (simp add: one_inside_def)
qed

lemma gate_steps_one: "(gate_step E D H)\<^sup>*\<^sup>* g g' \<Longrightarrow> honest E \<Longrightarrow> one_inside g \<Longrightarrow> one_inside g'"
  by (induction rule: rtranclp_induct) (auto intro: gate_step_one)

section \<open>Properties\<close>

text \<open>C20: However requests to the endpoint overlap, and with events, imports, changes outside and the end of the
  process between any of their turns, an entry's read of the log and what follows it being two, at most one
  request is sweeping, the lock is held exactly then, and no activity is asked twice for a title. The lock is
  in the process: a second process beside this one would have its own.\<close>

theorem overlapping_fires_safe:
  assumes "honest E" and "reachable E s" and "(gate_step E D H)\<^sup>*\<^sup>* (gate_start s) g"
  shows "length (Inside g) \<le> 1 \<and> (Running g \<longleftrightarrow> Inside g \<noteq> [])
    \<and> length (filter (\<lambda>p. title_put p \<and> put_key p = (athlete, i)) (Puts (GSys g))) \<le> 1"
proof -
  have "one_inside (gate_start s)" using reachable_named_once [OF assms(1,2)] by (simp add: one_inside_def gate_start_def)
  from gate_steps_one [OF assms(3,1) this] show ?thesis
    by (auto simp: one_inside_def named_once_def sent_titles_def split: if_splits)
qed

text \<open>What the lock is for: of two sweeps past the read, the second sends its title although the first did.\<close>

definition looked :: progress where
  "looked = Looked sample_pending (Some None) [] (empty_result 1)"

lemma after_look_sample:
  "run_state (after_look sample_env sample_deps sample_pending (Some None)) sample_start =
     run_state (processOne sample_env sample_deps sample_pending) sample_start"
  by (simp add: processOne_look run_store_read)
    (simp add: Named_def sample_start_def NewProcessor_def NewMemory_def)

lemma two_looks_rename_twice:
  "length (sent_titles (snd (run_state (fire_turn sample_env sample_deps looked)
     (snd (run_state (fire_turn sample_env sample_deps looked) sample_start)))) 7 1) = 2"
proof -
  let ?turn = "run_state (fire_turn sample_env sample_deps looked)"
  have turn: "snd (?turn s) = snd (run_state (after_look sample_env sample_deps sample_pending (Some None)) s)" for s
    by (simp add: looked_def split: prod.splits)
  have one: "snd (?turn sample_start) = sample_mid"
    unfolding turn after_look_sample sample_one by (simp add: sample_mid_def)
  have again: "run_state (after_look sample_env sample_deps sample_pending (Some None)) sample_mid =
      run_state (name_activity sample_env sample_deps sample_pending (sample_activity\<lparr>AID := 1\<rparr>)) sample_mid"
  proof -
    have "run_state (GetActivityCall sample_env (PActivityID sample_pending)) sample_mid =
        (Inr (sample_activity\<lparr>AID := 1\<rparr>), sample_mid)"
      by (simp add: GetActivityCall_def sample_pending_def)
    then show ?thesis by (simp add: after_look_def)
  qed
  have "Puts (snd (run_state (name_activity sample_env sample_deps sample_pending (sample_activity\<lparr>AID := 1\<rparr>)) sample_mid)) =
      Puts sample_mid @ [TitlePut 7 1 ''In die Stadt'' None (Some sample_row)]"
  proof -
    have "ClassifierConfig sample_deps = DefaultConfig" "WritesEnabled sample_deps" "DisableAttribution sample_deps"
      "PAthleteID sample_pending = 7" by (simp_all add: sample_deps_def sample_pending_def)
    then show ?thesis
      using sample_decision [of 1]
      by (simp add: name_activity_def sample_title write_title_def new_description_def now_of_def
          mark_named_def run_store_write recordFranchise_def reconcileTitle_def template_title_def put_title_def
          Named_MarkNamed)
        (simp add: sample_row_def naming_def naming_row_def German_def SourceTemplate_def)
  qed
  then show ?thesis
    unfolding one unfolding turn again by (simp add: sent_titles_def) (simp add: sample_mid_def)
qed

text \<open>A request arrives while another has read the log and not acted yet, and is turned away.\<close>

definition busy_gate :: "nat gate" where
  "busy_gate = \<lparr>GSys = sample_start, Running = True, Inside = [(sample_fire, looked)],
     Replies = [(sample_fire, Some already_running)]\<rparr>"

lemma sample_admit: "run_state (admit sample_env sample_trigger held sample_fire) s =
    (if held then Inl already_running else Inr (), s)"
  by (simp add: admit_def sample_authenticate)

lemma busy_run: "(gate_step sample_env sample_deps sample_trigger)\<^sup>*\<^sup>* (gate_start sample_start) busy_gate"
proof -
  let ?step = "gate_step sample_env sample_deps sample_trigger"
  let ?g = "\<lambda>ph. (gate_start sample_start)\<lparr>Running := True, Inside := [(sample_fire, ph)]\<rparr>"
  have due: "Due (SStore sample_start) 1000 = [sample_pending]"
    by (simp add: Due_def SortPending_def sample_start_def NewProcessor_def pending_due_def sample_pending_def before_def)
  have "Named (SStore sample_start) 7 1 = None"
    by (simp add: Named_def sample_start_def NewProcessor_def NewMemory_def)
  then have looks: "run_state (fire_turn sample_env sample_deps Admitted) sample_start =
      (Inl (Sweeping [sample_pending] (empty_result 1)), sample_start)"
    "run_state (fire_turn sample_env sample_deps (Sweeping [sample_pending] (empty_result 1))) sample_start =
      (Inl looked, sample_start)"
    by (simp_all add: now_of_def run_store_read due looked_def) (simp add: sample_pending_def)
  have "?step (gate_start sample_start) (?g Admitted)"
    using gate_step.admitted [of sample_env sample_trigger "gate_start sample_start" sample_fire] sample_admit
    by (simp add: gate_start_def)
  moreover have "?step (?g Admitted) (?g (Sweeping [sample_pending] (empty_result 1)))"
    using turn_alone [of "?g Admitted" sample_fire Admitted sample_env sample_deps] looks(1)
    by (simp add: gate_start_def)
  moreover have "?step (?g (Sweeping [sample_pending] (empty_result 1))) (?g looked)"
    using turn_alone [of "?g (Sweeping [sample_pending] (empty_result 1))" sample_fire] looks(2)
    by (simp add: gate_start_def)
  moreover have "?step (?g looked) busy_gate"
    using gate_step.answered [of sample_env sample_trigger "?g looked" sample_fire] sample_admit
    by (simp add: gate_start_def busy_gate_def)
  ultimately show ?thesis by (meson rtranclp.rtrancl_into_rtrancl rtranclp.rtrancl_refl)
qed

lemma overlapping_fires_safe_witness:
  "length (Inside busy_gate) \<le> 1 \<and> (Running busy_gate \<longleftrightarrow> Inside busy_gate \<noteq> []) \<and> Replies busy_gate = [(sample_fire, Some already_running)]"
  using overlapping_fires_safe [OF sample_honest sample_reachable(1) busy_run] by (simp add: busy_gate_def)



end
