(* ===== verification/Spec2Isabelle.thy ===== *)
theory Spec2Isabelle
  imports Classifier Attribution Prompt Logsafe Commands Progress Sharing Gate
begin

text \<open>
  A model of titelheld, a service that gives an athlete's Strava activities titles. Strava delivers an
  event to the webhook; the event becomes an entry of a queue; a scheduler fires the sweep, which takes
  what is due, reads each activity, decides whether it may be renamed and how, asks a language model
  for a title where the rules say so, and sends the title to Strava. The promise of the service is that
  it renames an activity at most once, only if its title was not written by a person, and only in the
  way the configuration permits. The development models the Go packages under \<^verbatim>\<open>src/internal\<close> that carry
  this and proves it.

  \<^bold>\<open>Theories and packages.\<close> Definitions keep the names of the code; a name that would clash
  is prefixed or spelled differently, and the order inside a theory is the order of the file.

    \<^item> \<open>GoRuntime\<close>: the prelude. Go strings as bytes with UTF-8 decoding, the functions of \<^verbatim>\<open>strings\<close> the
      program calls, instants and durations, the character tables.
    \<^item> \<open>Classifier\<close> (\<^verbatim>\<open>classifier/\<close>): the activity and rule records, the shipped titles and patterns, the
      title gate \<open>renamable\<close>, the tiers, \<open>Classify\<close>.
    \<^item> \<open>Titles\<close>, \<open>Franchise\<close>, \<open>Facts\<close>, \<open>Figures\<close>, \<open>Prompt\<close>, \<open>Attribution\<close> (\<^verbatim>\<open>naming/\<close> without the model
      providers): what a title must pass, title series and their guard, what a description contributes,
      the figures a title may state, the prompt, the attribution line.
    \<^item> \<open>Store\<close> (\<^verbatim>\<open>store/store.go\<close>, \<^verbatim>\<open>memory.go\<close>): the record \<open>Memory\<close> of association lists for tokens, queue,
      named log, series positions, configurations and geocode cache, and its operations. The interfaces
      are the locales \<open>queue\<close>, \<open>named_log\<close> and \<open>franchise_positions\<close>, interpreted on it.
    \<^item> \<open>Firestore\<close> (\<^verbatim>\<open>store/firestore\<close>): the same operations over documents and a record of client calls.
      \<open>Durable\<close> states what the client is documented to do and that the codecs invert, \<open>Refines\<close> relates a
      database to a \<open>Memory\<close> and carries every operation over. \<open>Conformance\<close> (\<^verbatim>\<open>store/storetest\<close>): the
      suite's tests on values as programs over a record of store calls, and the locale \<open>conforming\<close> of what
      they rest on, interpreted on both stores. \<open>Sharing\<close> has the slices of a stored configuration as arrays
      that a caller may still write to, the locale \<open>unshared\<close> of what a store must promise for that not to
      matter, interpreted on both, the suite's remaining test, and with it the whole suite.
    \<^item> \<open>Strava\<close> (\<^verbatim>\<open>strava/\<close>): tokens, the client with its write guard and retries, the OAuth endpoint and the
      stored token source over the locale \<open>token_store\<close>.
    \<^item> \<open>Providers\<close> (\<^verbatim>\<open>naming/anthropic.go\<close>, \<^verbatim>\<open>openrouter.go\<close>, \<^verbatim>\<open>vertex.go\<close>): the providers that are one request.
      \<open>Federation\<close> (\<^verbatim>\<open>naming/anthropic_wif.go\<close>, \<^verbatim>\<open>app/identity.go\<close>): the keyless provider with its identity
      token, its cached access token and its retry, alone and as the step relation \<open>completion_step\<close> in
      which completions overlap. \<open>Narrator\<close> ties both to the configuration.
    \<^item> \<open>Polyline\<close>, \<open>Geo\<close> (\<^verbatim>\<open>geo/\<close>): the decoder of tracks; sampling, cache, allow-list, rate limiter and the
      Nominatim client.
    \<^item> \<open>Effects\<close>, \<open>Pipeline\<close>, \<open>Gather\<close>, \<open>Produce\<close>, \<open>Writer\<close>, \<open>Reconcile\<close>, \<open>Processor\<close> (\<^verbatim>\<open>processor/\<close>): programs in
      the state monad over the record \<open>sys\<close> (world, store, caches and traces): the context of a prompt
      (context.go), the title (title.go), the write (write.go), the reconciliation (reconcile.go), one
      activity and the sweep (processor.go). \<open>Processor\<close> ends with the service as the step relation
      \<open>step\<close>: sweeps, deliveries, imports, restarts and changes of the outside world in any order.
    \<^item> \<open>Ledger\<close>: the abstract contract of the named log, and the refinement of it by the service.
      \<open>Interleave\<close>: a sweep as a sequence of turns, two per entry, with events, imports and restarts between
      any two, and an event in the middle of an entry moved to its start. \<open>Progress\<close>: what a sweep
      achieves for a due activity.
    \<^item> \<open>Http\<close>, \<open>Webhook\<close> (\<^verbatim>\<open>webhook/\<close>), \<open>SweepHandler\<close> (\<^verbatim>\<open>sweep/\<close>), \<open>Server\<close> (\<^verbatim>\<open>server/\<close>): requests and responses,
      the intake of events, the endpoint of the scheduler with its lock, the router and the OAuth flow.
      \<open>Gate\<close>: overlapping requests to that endpoint, each running its sweep in turns that others may overtake.
    \<^item> \<open>Importer\<close> (\<^verbatim>\<open>importer/\<close>): the run that seeds the named log from the past.
    \<^item> \<open>Settings\<close> (\<^verbatim>\<open>config/\<close>): every loader and check of the environment. \<open>Wiring\<close> (\<^verbatim>\<open>app/\<close>): what each
      component is built with, and the commands that import and that seed a configuration. \<open>Process\<close>
      (\<^verbatim>\<open>app/app.go\<close>, \<^verbatim>\<open>Server.Run\<close>, \<^verbatim>\<open>cmd\<close>): the run of the service from its environment to its exit code,
      and \<open>Commands\<close> the three programs with their flags and exit codes.
    \<^item> \<open>Logsafe\<close> (\<^verbatim>\<open>logsafe/\<close>): the sanitising of untrusted text on its way into a log.

  \<^bold>\<open>What is proved.\<close> Of the service: no interleaving of sweeps, deliveries, imports,
  restarts and store faults renames an activity twice, every title sent had been recorded before, it replaced a
  renamable title, and with writes off nothing is sent; the service refines the ledger; the queue loses nothing
  unfinished, and a sweep stalls on nothing but an unreadable queue; the same holds with events, imports and
  restarts in the middle of a sweep, and no event is taken out of the queue before its turn; and where nothing
  fails for it, a due activity is named, whatever fails for the others. Of a title: it passes the validator, the
  guard of the series and the checks of repeats and figures; a position of a series moves only past the entry
  the naming drew from the athlete's own series, which the sent title contains. Of the surface: what each route
  may change, whom the callback may bind, what a delivered event may cost, who may sweep, and that overlapping
  requests run one sweep at a time and so rename nothing twice. Of the configuration: what an accepted
  environment guarantees, what still stops the process and what it does otherwise, and that the model provider
  it names has its credential. Of the stores: the Firestore store refines the one in memory, faults apart, both
  pass all 29 tests of the conformance suite, and no client reaches a stored configuration through a slice it
  kept or was given. Of the providers: exactly which answers become a text; that a completion sends its own
  requests only, and how many; and that, however completions overlap, a rejected access token is not presented
  again. Of the parts: round trips (attribution line, polyline), equivalences with reference definitions
  (machine-title pattern, use of a series entry), bounds (facts, requests), privacy of the geocoding, the token
  source that loses the live refresh token only with an answer lost on the way, and the termination of the
  import. Each theorem with a hypothesis is applied at a concrete input in its \<open>_witness\<close>.

  \<^bold>\<open>How effects are modelled.\<close> Whatever the code reaches through an interface outside the
  repository is a function of a world \<open>'w\<close>: the clock, the context, the HTTP transports, the model,
  the validator of identity tokens, the listing of activities. A store read may fail and a store write may be
  lost, or applied without the caller learning of it. Two traces record what was asked of Strava and of the
  model. A mutex is the atomicity of a step, save the one of the sweep endpoint: that one is a flag a request
  tries (\<open>admit\<close>), and \<open>Gate\<close> shows what it is for. A sweep is one step of
  \<open>step\<close>, as nothing else sweeps meanwhile. What arrives during a sweep is the subject of
  \<open>Interleave\<close>, whose turns include every run of \<open>step\<close>; one entry is processed in one
  turn, which is exact for events, with which that turn commutes (\<open>delivery_in_the_middle\<close>), and
  leaves out an import by another process, or the end of this one, in the middle of an entry. The programs of
  \<open>Processor\<close> run on \<open>Memory\<close>, whose faults are those \<open>Refines\<close> shows the
  database to have; the two differ in the precision of instants, the order of ties and what a limit keeps of
  equally dated titles, which its theorem states. An empty list is written as an empty array where the client
  writes null for a nil slice; both are read back the same. The lock of the cached access token is the atomicity
  of a turn of \<open>Federation\<close>. Errors are sums or options, one constructor for each the callers can
  tell apart; their message texts are not modelled, and logging is not, save the sanitiser itself.

  \<^bold>\<open>Bounds and fuel.\<close> Loops are structural recursions or functions with a measure.
  \<open>normalize_loop\<close> of \<open>Geo\<close> takes fuel, which its lemma shows to be enough;
  \<open>import_loop\<close> of \<open>Importer\<close> is a partial function, and \<open>import_ends\<close>
  shows that it returns where the listing ends. The retries, offers, samples and lengths the code bounds are
  bounded by the code's own constants.

  \<^bold>\<open>Parameters.\<close> The tables of \<^verbatim>\<open>unicode\<close> and
  \<^verbatim>\<open>x/text\<close>, the JSON decoders, SHA-256, \<^verbatim>\<open>url.Parse\<close>, the
  compiler of configured regular expressions and the identity-token validator are arguments; the laws used of
  them are hypotheses. Coordinates, distances and the fraction of a parsed duration are exact, where the code
  rounds to \<^verbatim>\<open>float64\<close>. Two overflows that the code's own numbers do not reach are left
  out: the bound of the jitter from the 35th retry on, and the position after the largest
  \<^verbatim>\<open>int\<close>.

  \<^bold>\<open>Not modelled.\<close> Timeouts, draining and closing of connections, signal handling, and the
  log lines other than their sanitiser: input and output without a decision.
\<close>

end
